(* ===== verification/Prelude.thy ===== *)
theory Prelude
  imports Main "HOL-Library.Word"
begin

text \<open>
  Shared vocabulary of the development: results of fallible Rust functions, the
  state-passing combinators that stand for the question mark operator and for
  mutation through \<open>&mut\<close> references, little- and big-endian integers inside byte
  buffers, machine arithmetic at its width, and the lemmas the components share.

  Machine integers are natural numbers kept inside their width: a value of type
  \<open>u64\<close> is a natural number below \<open>2 ^ 64\<close>, and every addition,
  subtraction or multiplication that can leave the range is written with
  \<open>wadd\<close>, \<open>wsub\<close> or \<open>wmul\<close>, which wrap as the release profile of the program
  does. A \<open>usize\<close> has 64 bits. Bytes are \<open>8 word\<close>.
\<close>

unbundle bit_operations_syntax

named_theorems preserves_intros
  \<open>rules that push a state invariant through the state-passing combinators\<close>

named_theorems buffer_simps
  \<open>reading back what was stored in a byte buffer\<close>

section \<open>Results\<close>

text \<open>
  The outcome of a Rust call: a value, an error value of the function's error type,
  a panic (an index out of range, a failed assertion, a division by zero), or
  \<open>Diverge\<close> for a call that has used up the fuel the model gives to recursions and
  loops whose termination the code does not ensure.
\<close>

datatype ('e, 'a) res = Ok 'a | Err 'e | Panic | Diverge

primrec rbind :: "('e, 'a) res \<Rightarrow> ('a \<Rightarrow> ('e, 'b) res) \<Rightarrow> ('e, 'b) res" where
  "rbind (Ok x) f = f x"
| "rbind (Err e) f = Err e"
| "rbind Panic f = Panic"
| "rbind Diverge f = Diverge"

text \<open>The conversion of \<open>?\<close> through a \<open>From\<close> instance.\<close>

primrec map_err :: "('e \<Rightarrow> 'f) \<Rightarrow> ('e, 'a) res \<Rightarrow> ('f, 'a) res" where
  "map_err g (Ok x) = Ok x"
| "map_err g (Err e) = Err (g e)"
| "map_err g Panic = Panic"
| "map_err g Diverge = Diverge"

primrec ok_or :: "'e \<Rightarrow> 'a option \<Rightarrow> ('e, 'a) res" where
  "ok_or e None = Err e"
| "ok_or e (Some x) = Ok x"

definition rassert :: "bool \<Rightarrow> ('e, unit) res" where
  "rassert b = (if b then Ok () else Panic)"

definition rcheck :: "bool \<Rightarrow> 'e \<Rightarrow> ('e, unit) res" where
  "rcheck b e = (if b then Ok () else Err e)"

lemma rbind_Ok_iff [simp]: "rbind m f = Ok y \<longleftrightarrow> (\<exists>x. m = Ok x \<and> f x = Ok y)"
  by (cases m) auto

lemma rbind_cong [fundef_cong]:
  "m = m' \<Longrightarrow> (\<And>x. m' = Ok x \<Longrightarrow> f x = g x) \<Longrightarrow> rbind m f = rbind m' g"
  by (cases m') auto

lemma rbind_assoc: "rbind (rbind m f) g = rbind m (\<lambda>x. rbind (f x) g)"
  by (cases m) auto

lemma map_err_Ok_iff [simp]: "map_err g m = Ok y \<longleftrightarrow> m = Ok y"
  by (cases m) auto

lemma ok_or_Ok_iff [simp]: "ok_or e m = Ok y \<longleftrightarrow> m = Some y"
  by (cases m) auto

lemma rassert_Ok_iff [simp]: "rassert b = Ok u \<longleftrightarrow> b"
  by (simp add: rassert_def)

lemma rcheck_Ok_iff [simp]: "rcheck b e = Ok u \<longleftrightarrow> b"
  by (simp add: rcheck_def)

lemma rassert_True [simp]: "rassert True = Ok ()"
  by (simp add: rassert_def)

lemma rcheck_True [simp]: "rcheck True e = Ok ()"
  by (simp add: rcheck_def)

lemma rcheck_False [simp]: "rcheck False e = Err e"
  by (simp add: rcheck_def)

text \<open>A loop that collects one value per element and stops at the first failure.\<close>

primrec rmap :: "('a \<Rightarrow> ('e, 'b) res) \<Rightarrow> 'a list \<Rightarrow> ('e, 'b list) res" where
  "rmap f [] = Ok []"
| "rmap f (x # xs) = rbind (f x) (\<lambda>y. rbind (rmap f xs) (\<lambda>ys. Ok (y # ys)))"

lemma rmap_Ok_length: "rmap f xs = Ok ys \<Longrightarrow> length ys = length xs"
  by (induction xs arbitrary: ys) auto

lemma rmap_Ok_nth: "rmap f xs = Ok ys \<Longrightarrow> i < length xs \<Longrightarrow> f (xs ! i) = Ok (ys ! i)"
  by (induction xs arbitrary: ys i) (auto simp: nth_Cons split: nat.split)

lemma rmap_Ok_set: "rmap f xs = Ok ys \<Longrightarrow> y \<in> set ys \<Longrightarrow> \<exists>x \<in> set xs. f x = Ok y"
  by (induction xs arbitrary: ys) auto

section \<open>State passing\<close>

text \<open>
  A function that mutates what its arguments refer to takes the state and returns its
  outcome with the new state: what was written before an error or a panic stays written.
\<close>

type_synonym ('s, 'e, 'a) st = "'s \<Rightarrow> ('e, 'a) res \<times> 's"

definition sreturn :: "'a \<Rightarrow> ('s, 'e, 'a) st" where
  "sreturn x = (\<lambda>s. (Ok x, s))"

definition sfail :: "'e \<Rightarrow> ('s, 'e, 'a) st" where
  "sfail e = (\<lambda>s. (Err e, s))"

definition sbind :: "('s, 'e, 'a) st \<Rightarrow> ('a \<Rightarrow> ('s, 'e, 'b) st) \<Rightarrow> ('s, 'e, 'b) st" where
  "sbind m f = (\<lambda>s. case m s of
       (Ok x, s') \<Rightarrow> f x s'
     | (Err e, s') \<Rightarrow> (Err e, s')
     | (Panic, s') \<Rightarrow> (Panic, s')
     | (Diverge, s') \<Rightarrow> (Diverge, s'))"

text \<open>A result computed from the state without changing it, and a plain update.\<close>

definition sread :: "('s \<Rightarrow> ('e, 'a) res) \<Rightarrow> ('s, 'e, 'a) st" where
  "sread f = (\<lambda>s. (f s, s))"

text \<open>A step that does not look at the state.\<close>

abbreviation lift_res :: "('e, 'a) res \<Rightarrow> ('s, 'e, 'a) st" where
  "lift_res r \<equiv> sread (\<lambda>_. r)"

definition smodify :: "('s \<Rightarrow> 's) \<Rightarrow> ('s, 'e, unit) st" where
  "smodify f = (\<lambda>s. (Ok (), f s))"

definition smap_err :: "('e \<Rightarrow> 'f) \<Rightarrow> ('s, 'e, 'a) st \<Rightarrow> ('s, 'f, 'a) st" where
  "smap_err g m = (\<lambda>s. case m s of (r, s') \<Rightarrow> (map_err g r, s'))"

text \<open>A loop over a list that stops at the first outcome that is not \<open>Ok\<close>.\<close>

primrec sfor :: "'a list \<Rightarrow> ('a \<Rightarrow> ('s, 'e, unit) st) \<Rightarrow> ('s, 'e, unit) st" where
  "sfor [] f = sreturn ()"
| "sfor (x # xs) f = sbind (f x) (\<lambda>_. sfor xs f)"

lemma sreturn_apply [simp]: "sreturn x s = (Ok x, s)"
  by (simp add: sreturn_def)

lemma sfail_apply [simp]: "sfail e s = (Err e, s)"
  by (simp add: sfail_def)

lemma sread_apply [simp]: "sread f s = (f s, s)"
  by (simp add: sread_def)

lemma smodify_apply [simp]: "smodify f s = (Ok (), f s)"
  by (simp add: smodify_def)

lemma sbind_Ok: "m s = (Ok x, s') \<Longrightarrow> sbind m f s = f x s'"
  by (simp add: sbind_def)

lemma sbind_sread [simp]:
  "sbind (sread g) f s =
     (case g s of Ok x \<Rightarrow> f x s | Err e \<Rightarrow> (Err e, s) | Panic \<Rightarrow> (Panic, s)
      | Diverge \<Rightarrow> (Diverge, s))"
  by (simp add: sbind_def)

lemma sbind_smodify [simp]: "sbind (smodify g) f s = f () (g s)"
  by (simp add: sbind_def)

lemma sbind_sreturn [simp]: "sbind (sreturn x) f = f x"
  by (simp add: sbind_def fun_eq_iff)

lemma sbind_OkE:
  assumes "sbind m f s = (Ok y, s')"
  obtains x t where "m s = (Ok x, t)" and "f x t = (Ok y, s')"
  using assms by (auto simp: sbind_def split: prod.splits res.splits)

lemma sbind_Ok_iff:
  "sbind m f s = (Ok y, s') \<longleftrightarrow> (\<exists>x t. m s = (Ok x, t) \<and> f x t = (Ok y, s'))"
  by (auto simp: sbind_def split: prod.splits res.splits)

lemma smap_err_Ok_iff [simp]: "smap_err g m s = (Ok y, s') \<longleftrightarrow> m s = (Ok y, s')"
  by (auto simp: smap_err_def split: prod.splits)

lemma snd_smap_err [simp]: "snd (smap_err g m s) = snd (m s)"
  by (simp add: smap_err_def split: prod.splits)

lemma sbind_lift_Ok: "sbind (lift_res (Ok x)) f = f x"
  by (simp add: fun_eq_iff)

lemma sbind_assoc: "sbind (sbind m f) g = sbind m (\<lambda>x. sbind (f x) g)"
  by (auto simp: sbind_def fun_eq_iff split: prod.split res.split)

lemma sfor_append: "sfor (xs @ ys) f = sbind (sfor xs f) (\<lambda>_. sfor ys f)"
  by (induction xs) (auto simp: sbind_def fun_eq_iff split: prod.split res.split)

lemma sfor_map: "sfor (map g xs) f = sfor xs (\<lambda>x. f (g x))"
  by (induction xs) simp_all

lemma sfor_cong: "(\<And>x. x \<in> set xs \<Longrightarrow> f x = g x) \<Longrightarrow> sfor xs f = sfor xs g"
  by (induction xs) simp_all

lemma sfor_single: "sfor [x] f s = (Ok (), s') \<longleftrightarrow> f x s = (Ok (), s')"
  by (auto simp: sbind_Ok_iff)

text \<open>A loop that stops at its first error has done the steps before it.\<close>

lemma sfor_stops:
  "sfor xs f s = (r, s') \<Longrightarrow> r = Ok () \<or>
     (\<exists>k < length xs. \<exists>t. sfor (take k xs) f s = (Ok (), t) \<and> f (xs ! k) t = (r, s') \<and> r \<noteq> Ok ())"
proof (induction xs arbitrary: s)
  case (Cons x xs)
  obtain q t where x: "f x s = (q, t)" by force
  show ?case
  proof (cases "q = Ok ()")
    case True
    with Cons.prems x have "sfor xs f t = (r, s')" by (simp add: sbind_def)
    from Cons.IH[OF this] show ?thesis
    proof (elim disjE exE conjE)
      fix k u assume k: "k < length xs" "sfor (take k xs) f t = (Ok (), u)" "f (xs ! k) u = (r, s')" "r \<noteq> Ok ()"
      then show ?thesis using x True by (intro disjI2 exI[of _ "Suc k"] conjI exI[of _ u]) (simp_all add: sbind_def)
    qed simp
  next
    case False
    then have "(r, s') = (q, t)" using Cons.prems x by (cases q) (simp_all add: sbind_def)
    then show ?thesis using False x by (intro disjI2 exI[of _ 0]) simp
  qed
qed simp

text \<open>A loop whose steps commute with \<open>g\<close> does so too.\<close>

lemma sfor_sim:
  assumes "\<And>x s s'. x \<in> set xs \<Longrightarrow> P s \<Longrightarrow> f x s = (Ok (), s') \<Longrightarrow> P s' \<and> f x (g s) = (Ok (), g s')"
  shows "P s \<Longrightarrow> sfor xs f s = (Ok (), s') \<Longrightarrow> P s' \<and> sfor xs f (g s) = (Ok (), g s')"
  using assms
proof (induction xs arbitrary: s)
  case (Cons x xs)
  then obtain t where "f x s = (Ok (), t)" "sfor xs f t = (Ok (), s')" by (auto simp: sbind_Ok_iff)
  then show ?case using Cons.IH[of t] Cons.prems by (auto simp: sbind_Ok_iff)
qed simp

subsection \<open>Invariants of a computation\<close>

text \<open>
  \<open>preserves P m\<close>: whatever the outcome of \<open>m\<close> is, success, error or panic, it
  leaves a state with \<open>P\<close> when it starts in one.
\<close>

definition preserves :: "('s \<Rightarrow> bool) \<Rightarrow> ('s, 'e, 'a) st \<Rightarrow> bool" where
  "preserves P m \<longleftrightarrow> (\<forall>s. P s \<longrightarrow> P (snd (m s)))"

lemma preservesI: "(\<And>s. P s \<Longrightarrow> P (snd (m s))) \<Longrightarrow> preserves P m"
  by (simp add: preserves_def)

lemma preservesD: "preserves P m \<Longrightarrow> P s \<Longrightarrow> m s = (r, s') \<Longrightarrow> P s'"
  by (metis preserves_def snd_conv)

lemma preserves_sreturn [preserves_intros]: "preserves P (sreturn x)"
  by (simp add: preserves_def)

lemma preserves_sfail [preserves_intros]: "preserves P (sfail e)"
  by (simp add: preserves_def)

lemma preserves_sread [preserves_intros]: "preserves P (sread f)"
  by (simp add: preserves_def)

lemma preserves_smodify [preserves_intros]:
  "(\<And>s. P s \<Longrightarrow> P (f s)) \<Longrightarrow> preserves P (smodify f)"
  by (simp add: preserves_def)

lemma preserves_sbind:
  assumes "preserves P m" and "\<And>x. preserves P (f x)"
  shows "preserves P (sbind m f)"
  using assms by (fastforce simp: preserves_def sbind_def split: prod.splits res.splits)

lemma preserves_sbind_Ok:
  assumes "preserves P m"
    and "\<And>s x s'. P s \<Longrightarrow> m s = (Ok x, s') \<Longrightarrow> P s' \<Longrightarrow> P (snd (f x s'))"
  shows "preserves P (sbind m f)"
proof (rule preservesI)
  fix s assume P: "P s"
  obtain r s' where m: "m s = (r, s')" by (cases "m s")
  have P': "P s'" using assms(1) P m by (rule preservesD)
  show "P (snd (sbind m f s))"
    using assms(2)[OF P _ P'] m P' by (cases r) (auto simp: sbind_def)
qed

text \<open>The continuation may use what the first step returned.\<close>

lemma preserves_bind [preserves_intros]:
  assumes "preserves P m" and "\<And>s x s'. P s \<Longrightarrow> m s = (Ok x, s') \<Longrightarrow> preserves P (f x)"
  shows "preserves P (sbind m f)"
proof (rule preserves_sbind_Ok[OF assms(1)])
  fix s x s' assume "P s" "m s = (Ok x, s')" "P s'"
  then show "P (snd (f x s'))" using assms(2) by (simp add: preserves_def)
qed

lemma preserves_smap_err [preserves_intros]: "preserves P m \<Longrightarrow> preserves P (smap_err g m)"
  by (simp add: preserves_def)

lemma preserves_if [preserves_intros]:
  "(b \<Longrightarrow> preserves P m) \<Longrightarrow> (\<not> b \<Longrightarrow> preserves P m') \<Longrightarrow> preserves P (if b then m else m')"
  by simp

lemma preserves_case_option [preserves_intros]:
  "(z = None \<Longrightarrow> preserves P m) \<Longrightarrow> (\<And>x. z = Some x \<Longrightarrow> preserves P (f x)) \<Longrightarrow>
   preserves P (case z of None \<Rightarrow> m | Some x \<Rightarrow> f x)"
  by (simp split: option.split)

lemma preserves_case_prod [preserves_intros]:
  "(\<And>x y. z = (x, y) \<Longrightarrow> preserves P (f x y)) \<Longrightarrow> preserves P (case z of (x, y) \<Rightarrow> f x y)"
  by (simp split: prod.split)

lemma preserves_let [preserves_intros]:
  "(\<And>x. preserves P (f x)) \<Longrightarrow> preserves P (let x = z in f x)"
  by simp

lemma preserves_sfor [preserves_intros]:
  "(\<And>x. preserves P (f x)) \<Longrightarrow> preserves P (sfor xs f)"
  by (induction xs) (simp_all add: preserves_sreturn preserves_sbind)

lemma fst_Ok_iff: "fst r = Ok a \<longleftrightarrow> (\<exists>s. r = (Ok a, s))"
  by (cases r) auto

section \<open>Errors of composed steps\<close>

lemma sbind_Err_iff:
  "sbind m f s = (Err e, s') \<longleftrightarrow>
     m s = (Err e, s') \<or> (\<exists>x t. m s = (Ok x, t) \<and> f x t = (Err e, s'))"
  by (auto simp: sbind_def split: prod.splits res.splits)

lemma rbind_Err_iff: "rbind m f = Err e \<longleftrightarrow> m = Err e \<or> (\<exists>x. m = Ok x \<and> f x = Err e)"
  by (cases m) auto

lemma map_err_Err_iff: "map_err g m = Err e \<longleftrightarrow> (\<exists>e0. m = Err e0 \<and> e = g e0)"
  by (cases m) auto

lemma smap_err_Err_iff: "smap_err g m s = (Err e, s') \<longleftrightarrow> (\<exists>e0. m s = (Err e0, s') \<and> e = g e0)"
  by (auto simp: smap_err_def map_err_Err_iff split: prod.splits)

lemma rassert_not_Err [simp]: "rassert b \<noteq> Err e"
  by (simp add: rassert_def)

lemma ok_or_Err_iff: "ok_or e0 r = Err e \<longleftrightarrow> r = None \<and> e = e0"
  by (cases r) auto

lemmas Err_iffs = sbind_Err_iff rbind_Err_iff map_err_Err_iff smap_err_Err_iff ok_or_Err_iff

end
