(* ===== verification/Bytes.thy ===== *)
theory Bytes
  imports Prelude
begin

text \<open>
  Byte buffers: slices and in-place stores, little- and big-endian integers, and machine
  arithmetic on natural numbers. The lemmas in \<open>buffer_simps\<close> say what a read sees after
  a store at the same place, inside it, or elsewhere.
\<close>

type_synonym byte = "8 word"

section \<open>Slices and stores\<close>

text \<open>
  \<open>bytes_at off n bs\<close> is the slice of \<open>n\<close> bytes at \<open>off\<close>; \<open>patch off d bs\<close> overwrites
  the bytes at \<open>off\<close> with \<open>d\<close>. Both are used where the code has checked the bounds;
  \<open>slice_r\<close> and \<open>patch_r\<close> panic outside the buffer as Rust's slicing does.
\<close>

definition bytes_at :: "nat \<Rightarrow> nat \<Rightarrow> byte list \<Rightarrow> byte list" where
  "bytes_at off n bs = take n (drop off bs)"

definition patch :: "nat \<Rightarrow> byte list \<Rightarrow> byte list \<Rightarrow> byte list" where
  "patch off d bs = take off bs @ d @ drop (off + length d) bs"

definition slice_r :: "nat \<Rightarrow> nat \<Rightarrow> byte list \<Rightarrow> ('e, byte list) res" where
  "slice_r off n bs = (if off + n \<le> length bs then Ok (bytes_at off n bs) else Panic)"

definition patch_r :: "nat \<Rightarrow> byte list \<Rightarrow> byte list \<Rightarrow> ('e, byte list) res" where
  "patch_r off d bs = (if off + length d \<le> length bs then Ok (patch off d bs) else Panic)"

text \<open>\<open>Vec::resize(n, 0)\<close>.\<close>

definition resize0 :: "nat \<Rightarrow> byte list \<Rightarrow> byte list" where
  "resize0 n bs = take n bs @ replicate (n - length bs) 0"

lemma length_bytes_at [simp]: "length (bytes_at off n bs) = min n (length bs - off)"
  by (simp add: bytes_at_def)

lemma length_patch [simp]: "off + length d \<le> length bs \<Longrightarrow> length (patch off d bs) = length bs"
  by (simp add: patch_def)

lemma length_resize0 [simp]: "length (resize0 n bs) = n"
  by (simp add: resize0_def)

lemma resize0_same [simp]: "length bs = n \<Longrightarrow> resize0 n bs = bs"
  by (simp add: resize0_def)

lemma slice_r_Ok_iff [simp]:
  "slice_r off n bs = Ok d \<longleftrightarrow> off + n \<le> length bs \<and> d = bytes_at off n bs"
  by (auto simp: slice_r_def)

lemma patch_r_Ok_iff [simp]:
  "patch_r off d bs = Ok bs' \<longleftrightarrow> off + length d \<le> length bs \<and> bs' = patch off d bs"
  by (auto simp: patch_r_def)

lemma nth_patch:
  assumes "off + length d \<le> length bs" and "i < length bs"
  shows "patch off d bs ! i = (if off \<le> i \<and> i < off + length d then d ! (i - off) else bs ! i)"
  using assms by (auto simp: patch_def nth_append)

lemma nth_bytes_at: "i < n \<Longrightarrow> off + i < length bs \<Longrightarrow> bytes_at off n bs ! i = bs ! (off + i)"
  by (simp add: bytes_at_def)

lemma bytes_at_patch_same [buffer_simps]:
  "off + length d \<le> length bs \<Longrightarrow> n = length d \<Longrightarrow> bytes_at off n (patch off d bs) = d"
  by (simp add: bytes_at_def patch_def)

lemma patch_patch_same:
  "length a = length b \<Longrightarrow> off + length b \<le> length bs \<Longrightarrow> patch off a (patch off b bs) = patch off a bs"
  by (simp add: patch_def)

lemma bytes_at_patch_other [buffer_simps]:
  assumes "off + length d \<le> length bs" and "o' + n \<le> off \<or> off + length d \<le> o'"
  shows "bytes_at o' n (patch off d bs) = bytes_at o' n bs"
proof (rule nth_equalityI)
  show len: "length (bytes_at o' n (patch off d bs)) = length (bytes_at o' n bs)"
    using assms(1) by simp
  fix i assume i: "i < length (bytes_at o' n (patch off d bs))"
  then have "i < n" "o' + i < length bs" using assms(1) by auto
  with assms show "bytes_at o' n (patch off d bs) ! i = bytes_at o' n bs ! i"
    by (auto simp: nth_bytes_at nth_patch)
qed

lemma bytes_at_patch_inside [buffer_simps]:
  assumes "off + length d \<le> length bs" and "off \<le> o'" and "o' + n \<le> off + length d"
  shows "bytes_at o' n (patch off d bs) = bytes_at (o' - off) n d"
proof (rule nth_equalityI)
  show "length (bytes_at o' n (patch off d bs)) = length (bytes_at (o' - off) n d)"
    using assms by auto
  fix i assume "i < length (bytes_at o' n (patch off d bs))"
  then have "i < n" "o' + i < length bs" using assms(1) by auto
  with assms show "bytes_at o' n (patch off d bs) ! i = bytes_at (o' - off) n d ! i"
    by (auto simp: nth_bytes_at nth_patch)
qed

lemma bytes_at_all [simp]: "bytes_at 0 (length bs) bs = bs"
  by (simp add: bytes_at_def)

lemma bytes_at_bytes_at [simp]:
  "i + k \<le> n \<Longrightarrow> bytes_at i k (bytes_at off n bs) = bytes_at (off + i) k bs"
  unfolding bytes_at_def drop_take take_take drop_drop
  by (simp add: add.commute min_absorb1)

lemma bytes_at_append_left: "o' + n \<le> length xs \<Longrightarrow> bytes_at o' n (xs @ ys) = bytes_at o' n xs"
  by (simp add: bytes_at_def)

lemma bytes_at_append_right:
  "length xs \<le> o' \<Longrightarrow> bytes_at o' n (xs @ ys) = bytes_at (o' - length xs) n ys"
  by (simp add: bytes_at_def)

lemma patch_id: "patch off (bytes_at off n bs) bs = bs" if "off + n \<le> length bs"
proof -
  have "take off bs @ take n (drop off bs) @ drop (off + n) bs = bs"
    by (metis add.commute append_take_drop_id drop_drop)
  with that show ?thesis by (simp add: patch_def bytes_at_def min_def)
qed

section \<open>Integers in buffers\<close>

primrec le_nat :: "byte list \<Rightarrow> nat" where
  "le_nat [] = 0"
| "le_nat (b # bs) = unat b + 256 * le_nat bs"

primrec to_le :: "nat \<Rightarrow> nat \<Rightarrow> byte list" where
  "to_le 0 v = []"
| "to_le (Suc n) v = of_nat v # to_le n (v div 256)"

definition be_nat :: "byte list \<Rightarrow> nat" where
  "be_nat bs = le_nat (rev bs)"

definition to_be :: "nat \<Rightarrow> nat \<Rightarrow> byte list" where
  "to_be n v = rev (to_le n v)"

text \<open>
  \<open>u16::from_le_bytes\<close> and its siblings at an offset of a buffer. The stores are
  \<open>patch off (to_le 2 v)\<close> and so on: \<open>to_le n v\<close> keeps the low \<open>n\<close> bytes, as
  \<open>(v as u16).to_le_bytes()\<close> does.
\<close>

definition le16 :: "nat \<Rightarrow> byte list \<Rightarrow> nat" where
  "le16 off bs = le_nat (bytes_at off 2 bs)"

definition le32 :: "nat \<Rightarrow> byte list \<Rightarrow> nat" where
  "le32 off bs = le_nat (bytes_at off 4 bs)"

definition be16 :: "nat \<Rightarrow> byte list \<Rightarrow> nat" where
  "be16 off bs = be_nat (bytes_at off 2 bs)"

definition be32 :: "nat \<Rightarrow> byte list \<Rightarrow> nat" where
  "be32 off bs = be_nat (bytes_at off 4 bs)"

definition u8_at :: "nat \<Rightarrow> byte list \<Rightarrow> nat" where
  "u8_at off bs = le_nat (bytes_at off 1 bs)"

lemma length_to_le [simp]: "length (to_le n v) = n"
  by (induction n arbitrary: v) auto

lemma length_to_be [simp]: "length (to_be n v) = n"
  by (simp add: to_be_def)

lemma le_nat_less: "le_nat bs < 256 ^ length bs"
proof (induction bs)
  case (Cons b bs)
  have "unat b < 256" using unsigned_less[of b, where 'a = nat] by simp
  with Cons show ?case by simp
qed simp

lemma be_nat_less: "be_nat bs < 256 ^ length bs"
  using le_nat_less[of "rev bs"] by (simp add: be_nat_def)

lemma le_nat_to_le: "le_nat (to_le n v) = v mod 256 ^ n"
proof (induction n arbitrary: v)
  case (Suc n)
  have "unat (of_nat v :: byte) = v mod 256"
    by (simp add: unat_of_nat)
  with Suc show ?case by (simp add: mod_mult2_eq)
qed simp

lemma to_le_le_nat: "to_le (length bs) (le_nat bs) = bs"
proof (induction bs)
  case (Cons b bs)
  have u: "unat b < 256" using unsigned_less[of b, where 'a = nat] by simp
  have "(of_nat (unat b + 256 * le_nat bs) :: byte) = b"
    unfolding word_unat_eq_iff unat_of_nat using u by simp
  moreover have "(unat b + 256 * le_nat bs) div 256 = le_nat bs" using u by simp
  ultimately show ?case using Cons by simp
qed simp

lemma be_nat_to_be: "be_nat (to_be n v) = v mod 256 ^ n"
  by (simp add: be_nat_def to_be_def le_nat_to_le)

lemma le_nat_to_le_small [buffer_simps]: "v < 256 ^ n \<Longrightarrow> le_nat (to_le n v) = v"
  by (simp add: le_nat_to_le)

lemma be_nat_to_be_small [buffer_simps]: "v < 256 ^ n \<Longrightarrow> be_nat (to_be n v) = v"
  by (simp add: be_nat_to_be)

lemma le_nat_bytes_at_less: "le_nat (bytes_at off n bs) < 256 ^ n"
  by (rule less_le_trans[OF le_nat_less]) (simp add: power_increasing)

lemma le16_less: "le16 off bs < 65536"
  using le_nat_bytes_at_less[of off 2 bs] by (simp add: le16_def)

lemma le32_less: "le32 off bs < 4294967296"
  using le_nat_bytes_at_less[of off 4 bs] by (simp add: le32_def)

lemma be32_less: "be32 off bs < 4294967296"
  using be_nat_less[of "bytes_at off 4 bs"] power_increasing[of "length (bytes_at off 4 bs)" 4 "256::nat"]
  by (simp add: be32_def)

lemma be16_less: "be16 off bs < 65536"
  using be_nat_less[of "bytes_at off 2 bs"] power_increasing[of "length (bytes_at off 2 bs)" 2 "256::nat"]
  by (simp add: be16_def)

lemma u8_at_less: "u8_at off bs < 256"
  using le_nat_bytes_at_less[of off 1 bs] by (simp add: u8_at_def)

lemmas int_read_defs = le16_def le32_def be16_def be32_def u8_at_def

subsection \<open>Bytes all zero\<close>

lemma le_nat_zeros [simp]: "le_nat (replicate n 0) = 0"
  by (induction n) auto

lemma bytes_at_zeros [simp]: "bytes_at off k (replicate n 0) = replicate (min k (n - off)) 0"
  by (simp add: bytes_at_def)

section \<open>Machine arithmetic\<close>

definition wadd :: "nat \<Rightarrow> nat \<Rightarrow> nat \<Rightarrow> nat" where
  "wadd w a b = (a + b) mod 2 ^ w"

definition wsub :: "nat \<Rightarrow> nat \<Rightarrow> nat \<Rightarrow> nat" where
  "wsub w a b = (a + (2 ^ w - b mod 2 ^ w)) mod 2 ^ w"

definition wmul :: "nat \<Rightarrow> nat \<Rightarrow> nat \<Rightarrow> nat" where
  "wmul w a b = (a * b) mod 2 ^ w"

definition checked_add :: "nat \<Rightarrow> nat \<Rightarrow> nat \<Rightarrow> nat option" where
  "checked_add w a b = (if a + b < 2 ^ w then Some (a + b) else None)"

definition checked_mul :: "nat \<Rightarrow> nat \<Rightarrow> nat \<Rightarrow> nat option" where
  "checked_mul w a b = (if a * b < 2 ^ w then Some (a * b) else None)"

definition sat_add :: "nat \<Rightarrow> nat \<Rightarrow> nat \<Rightarrow> nat" where
  "sat_add w a b = min (a + b) (2 ^ w - 1)"

definition sat_mul :: "nat \<Rightarrow> nat \<Rightarrow> nat \<Rightarrow> nat" where
  "sat_mul w a b = min (a * b) (2 ^ w - 1)"

text \<open>\<open>saturating_sub\<close> is the subtraction of natural numbers; \<open>div_ceil\<close> is the standard one.\<close>

definition div_ceil :: "nat \<Rightarrow> nat \<Rightarrow> nat" where
  "div_ceil a b = a div b + (if a mod b > 0 then 1 else 0)"

text \<open>\<open>(hi as u64) << k | lo\<close> for a \<open>lo\<close> below \<open>2 ^ k\<close>.\<close>

definition hi_lo :: "nat \<Rightarrow> nat \<Rightarrow> nat \<Rightarrow> nat" where
  "hi_lo k hi lo = hi * 2 ^ k + lo"

lemma hi_lo_or:
  assumes "lo < 2 ^ k"
  shows "hi_lo k hi lo = (push_bit k hi OR lo :: nat)"
proof -
  have "push_bit k hi AND lo = 0"
  proof (rule bit_eqI)
    fix n
    show "bit (push_bit k hi AND lo) n \<longleftrightarrow> bit (0 :: nat) n"
    proof (cases "n < k")
      case True
      then show ?thesis by (simp add: bit_simps)
    next
      case False
      with assms have "lo < 2 ^ n" by (meson less_le_trans not_less one_le_numeral power_increasing)
      then have "\<not> bit lo n" by (simp add: bit_iff_odd)
      then show ?thesis by (simp add: bit_simps)
    qed
  qed
  then show ?thesis by (simp add: hi_lo_def push_bit_eq_mult disjunctive_add_eq_or[symmetric])
qed

lemma wadd_small [simp]: "a + b < 2 ^ w \<Longrightarrow> wadd w a b = a + b"
  by (simp add: wadd_def)

lemma wmul_small [simp]: "a * b < 2 ^ w \<Longrightarrow> wmul w a b = a * b"
  by (simp add: wmul_def)

lemma wsub_small: "b \<le> a \<Longrightarrow> a < 2 ^ w \<Longrightarrow> wsub w a b = a - b"
proof -
  assume "b \<le> a" "a < 2 ^ w"
  then have "a + (2 ^ w - b mod 2 ^ w) = (a - b) + 2 ^ w" by simp
  then show ?thesis using \<open>a < 2 ^ w\<close> by (simp add: wsub_def)
qed

lemma wadd_less: "wadd w a b < 2 ^ w"
  by (simp add: wadd_def)

lemma div_ceil_mult_ge: "0 < b \<Longrightarrow> a \<le> div_ceil a b * b"
proof -
  assume b: "0 < b"
  have "a = a div b * b + a mod b" by simp
  moreover have "a mod b \<le> (if a mod b > 0 then 1 else 0) * b" using b mod_less_divisor[OF b, of a] by auto
  ultimately show ?thesis unfolding div_ceil_def by (metis add_le_cancel_left add_mult_distrib)
qed

lemma div_ceil_less: "0 < b \<Longrightarrow> n < div_ceil a b \<longleftrightarrow> n * b < a"
proof -
  assume b: "0 < b"
  have a: "a = a div b * b + a mod b" "a mod b < b" using b by auto
  show ?thesis
  proof
    assume n: "n < div_ceil a b"
    show "n * b < a"
    proof (cases "a mod b > 0")
      case True
      then have "n \<le> a div b" using n by (simp add: div_ceil_def)
      then have "n * b \<le> a div b * b" by simp
      then show ?thesis using a True by linarith
    next
      case False
      then have "n < a div b" using n by (simp add: div_ceil_def)
      then have "n * b < a div b * b" using b by simp
      then show ?thesis using a(1) by linarith
    qed
  next
    assume "n * b < a"
    then show "n < div_ceil a b"
      using div_ceil_mult_ge[OF b, of a] by (metis less_le_trans mult_less_cancel2)
  qed
qed

lemma patch_r_not_Err: "patch_r off d b \<noteq> Err e"
  by (simp add: patch_r_def)

section \<open>Frames of an edit\<close>

text \<open>The buffers agree before a position; they agree from a position on.\<close>

definition same_upto :: "nat \<Rightarrow> byte list \<Rightarrow> byte list \<Rightarrow> bool" where
  "same_upto n b b' \<longleftrightarrow> length b' = length b \<and> (\<forall>o' k. o' + k \<le> n \<longrightarrow> bytes_at o' k b' = bytes_at o' k b)"

lemma same_uptoD: "same_upto n b b' \<Longrightarrow> o' + k \<le> n \<Longrightarrow> bytes_at o' k b' = bytes_at o' k b"
  by (simp add: same_upto_def)

lemma same_upto_patch: "off + length d \<le> length b \<Longrightarrow> n \<le> off \<Longrightarrow> same_upto n b (patch off d b)"
  by (simp add: same_upto_def buffer_simps)

lemma same_upto_trans: "same_upto n a b \<Longrightarrow> same_upto n b c \<Longrightarrow> same_upto n a c"
  by (simp add: same_upto_def)

lemma same_upto_less: "same_upto n a b \<Longrightarrow> m \<le> n \<Longrightarrow> same_upto m a b"
  by (simp add: same_upto_def)

definition same_from :: "nat \<Rightarrow> byte list \<Rightarrow> byte list \<Rightarrow> bool" where
  "same_from n b b' \<longleftrightarrow> length b' = length b \<and> (\<forall>o' k. n \<le> o' \<longrightarrow> bytes_at o' k b' = bytes_at o' k b)"

lemma same_from_patch: "off + length d \<le> n \<Longrightarrow> off + length d \<le> length b \<Longrightarrow> same_from n b (patch off d b)"
  by (simp add: same_from_def buffer_simps)

lemma same_from_trans: "same_from n a b \<Longrightarrow> same_from n b c \<Longrightarrow> same_from n a c"
  by (simp add: same_from_def)

end
