(* ===== verification/Block_Device.thy ===== *)
theory Block_Device
  imports Bytes
begin

text \<open>
  The block device layer (\<open>ext4-core/src/block_device\<close>): a device is an array of
  512-byte sectors behind bounds checks and host I/O that may fail, as
  \<open>ImageFileDevice\<close> implements it. \<open>read_sectors\<close> and \<open>write_sectors\<close> are the loops of
  \<open>mod.rs\<close> over it. The locale \<open>block_device\<close> is the contract of the \<open>BlockDevice\<close>
  trait: an implementation with its own state is a view of such a device; it is
  interpreted here for the image file and, in \<open>Sector_Cache\<close>, for the caching wrapper.
\<close>

section \<open>Devices\<close>

datatype bd_error =
    BdOutOfRange nat nat
  | BdIo
  | BdInvalidGeometry nat
  | BdNotSupported string

text \<open>
  The host side: \<open>read_fails i\<close> and \<open>write_fails i\<close> say that the host's I/O on sector
  \<open>i\<close> fails, \<open>flush_fails\<close> that \<open>sync_data\<close> does. \<open>stable\<close> is what a successful \<open>sync_data\<close>
  guarantees to be on the medium: the contents at the last one, or when the device was opened.
  Nothing is assumed about them.
\<close>

record disk =
  sectors :: "nat \<Rightarrow> byte list"
  sector_count :: nat
  read_fails :: "nat \<Rightarrow> bool"
  write_fails :: "nat \<Rightarrow> bool"
  flush_fails :: bool
  stable :: "nat \<Rightarrow> byte list"

definition image_open ::
  "byte list \<Rightarrow> (nat \<Rightarrow> bool) \<Rightarrow> (nat \<Rightarrow> bool) \<Rightarrow> bool \<Rightarrow> (bd_error, disk) res" where
  "image_open img rfail wfail ffail =
     (if length img mod 512 \<noteq> 0 then Err (BdInvalidGeometry (length img))
      else Ok \<lparr>sectors = (\<lambda>i. bytes_at (512 * i) 512 img),
               sector_count = length img div 512,
               read_fails = rfail, write_fails = wfail, flush_fails = ffail,
               stable = (\<lambda>i. bytes_at (512 * i) 512 img)\<rparr>)"

definition read_sector :: "disk \<Rightarrow> nat \<Rightarrow> (bd_error, byte list) res" where
  "read_sector d i =
     (if sector_count d \<le> i then Err (BdOutOfRange i (sector_count d))
      else rbind (ok_or (BdOutOfRange i (sector_count d)) (checked_mul 64 i 512)) (\<lambda>_.
           if read_fails d i then Err BdIo else Ok (sectors d i)))"

definition write_sector :: "nat \<Rightarrow> byte list \<Rightarrow> (disk, bd_error, unit) st" where
  "write_sector i buf = (\<lambda>d.
     if sector_count d \<le> i then (Err (BdOutOfRange i (sector_count d)), d)
     else case checked_mul 64 i 512 of
            None \<Rightarrow> (Err (BdOutOfRange i (sector_count d)), d)
          | Some _ \<Rightarrow>
              if write_fails d i then (Err BdIo, d)
              else (Ok (), d\<lparr>sectors := (sectors d)(i := buf)\<rparr>))"

definition dev_flush :: "(disk, bd_error, unit) st" where
  "dev_flush = (\<lambda>d. if flush_fails d then (Err BdIo, d)
                    else (Ok (), d\<lparr>stable := sectors d\<rparr>))"

section \<open>Multi-sector reads and writes\<close>

text \<open>
  The loops of \<open>read_sectors\<close> and \<open>write_sectors\<close>, over any implementation of the trait:
  \<open>rd\<close> and \<open>wr\<close> are its \<open>read_sector\<close> and \<open>write_sector\<close>.
\<close>

primrec dyn_read_loop ::
  "(nat \<Rightarrow> ('d, bd_error, byte list) st) \<Rightarrow> nat \<Rightarrow> nat \<Rightarrow> ('d, bd_error, byte list) st" where
  "dyn_read_loop rd s 0 = sreturn []"
| "dyn_read_loop rd s (Suc n) =
     sbind (rd s) (\<lambda>b. sbind (dyn_read_loop rd (wadd 64 s 1) n) (\<lambda>bs. sreturn (b @ bs)))"

definition dyn_read_sectors ::
  "(nat \<Rightarrow> ('d, bd_error, byte list) st) \<Rightarrow> nat \<Rightarrow> nat \<Rightarrow> ('d, bd_error, byte list) st" where
  "dyn_read_sectors rd start count =
     sbind (sread (\<lambda>_. ok_or (BdInvalidGeometry count) (checked_mul 64 count 512)))
       (\<lambda>_. dyn_read_loop rd start count)"

primrec dyn_write_loop ::
  "(nat \<Rightarrow> byte list \<Rightarrow> ('d, bd_error, unit) st) \<Rightarrow> nat \<Rightarrow> nat \<Rightarrow> byte list
     \<Rightarrow> ('d, bd_error, unit) st" where
  "dyn_write_loop wr s 0 data = sreturn ()"
| "dyn_write_loop wr s (Suc n) data =
     sbind (wr s (take 512 data)) (\<lambda>_. dyn_write_loop wr (wadd 64 s 1) n (drop 512 data))"

definition dyn_write_sectors ::
  "(nat \<Rightarrow> byte list \<Rightarrow> ('d, bd_error, unit) st) \<Rightarrow> nat \<Rightarrow> byte list
     \<Rightarrow> ('d, bd_error, unit) st" where
  "dyn_write_sectors wr start data =
     sbind (sread (\<lambda>_. rassert (length data mod 512 = 0)))
       (\<lambda>_. dyn_write_loop wr start (length data div 512) data)"

text \<open>The two on the device itself, where a read changes nothing.\<close>

primrec read_loop :: "disk \<Rightarrow> nat \<Rightarrow> nat \<Rightarrow> (bd_error, byte list) res" where
  "read_loop d s 0 = Ok []"
| "read_loop d s (Suc n) =
     rbind (read_sector d s) (\<lambda>b. rbind (read_loop d (wadd 64 s 1) n) (\<lambda>bs. Ok (b @ bs)))"

definition read_sectors :: "disk \<Rightarrow> nat \<Rightarrow> nat \<Rightarrow> (bd_error, byte list) res" where
  "read_sectors d start count =
     rbind (ok_or (BdInvalidGeometry count) (checked_mul 64 count 512))
       (\<lambda>_. read_loop d start count)"

definition write_sectors :: "nat \<Rightarrow> byte list \<Rightarrow> (disk, bd_error, unit) st" where
  "write_sectors = dyn_write_sectors write_sector"

section \<open>What a read and a write do\<close>

text \<open>The bytes of \<open>n\<close> sectors from \<open>s\<close>, and the device with a run of sectors replaced.\<close>

definition sector_run :: "disk \<Rightarrow> nat \<Rightarrow> nat \<Rightarrow> byte list" where
  "sector_run d s n = concat (map (sectors d) [s..<s + n])"

definition store_run :: "nat \<Rightarrow> byte list \<Rightarrow> disk \<Rightarrow> disk" where
  "store_run s data d =
     d\<lparr>sectors := (\<lambda>i. if s \<le> i \<and> i < s + length data div 512
                       then bytes_at (512 * (i - s)) 512 data else sectors d i)\<rparr>"

text \<open>Every sector holds 512 bytes, and byte offsets of sectors fit in \<open>u64\<close>.\<close>

definition wf_disk :: "disk \<Rightarrow> bool" where
  "wf_disk d \<longleftrightarrow> (\<forall>i < sector_count d. length (sectors d i) = 512) \<and> sector_count d * 512 < 2 ^ 64"

definition readable :: "disk \<Rightarrow> nat \<Rightarrow> nat \<Rightarrow> bool" where
  "readable d s n \<longleftrightarrow> s + n \<le> sector_count d \<and> (\<forall>i. s \<le> i \<and> i < s + n \<longrightarrow> \<not> read_fails d i)"

definition writable :: "disk \<Rightarrow> nat \<Rightarrow> nat \<Rightarrow> bool" where
  "writable d s n \<longleftrightarrow> s + n \<le> sector_count d \<and> (\<forall>i. s \<le> i \<and> i < s + n \<longrightarrow> \<not> write_fails d i)"

lemma sector_run_0 [simp]: "sector_run d s 0 = []"
  by (simp add: sector_run_def)

lemma sector_run_Suc: "sector_run d s (Suc n) = sectors d s @ sector_run d (Suc s) n"
  by (simp add: sector_run_def upt_conv_Cons del: upt_Suc)

lemma length_sector_run:
  "wf_disk d \<Longrightarrow> s + n \<le> sector_count d \<Longrightarrow> length (sector_run d s n) = 512 * n"
  by (induction n arbitrary: s) (simp_all add: sector_run_Suc wf_disk_def)

lemma read_sector_Ok_iff:
  "wf_disk d \<Longrightarrow> read_sector d i = Ok b \<longleftrightarrow>
     i < sector_count d \<and> \<not> read_fails d i \<and> b = sectors d i"
  by (auto simp: read_sector_def wf_disk_def checked_mul_def split: if_splits)

lemma run_all_Suc:
  "(\<forall>i. s \<le> i \<and> i < s + Suc n \<longrightarrow> P i) \<longleftrightarrow> P s \<and> (\<forall>i. Suc s \<le> i \<and> i < Suc s + n \<longrightarrow> P i)"
proof -
  have "s \<le> i \<and> i < s + Suc n \<longleftrightarrow> i = s \<or> (Suc s \<le> i \<and> i < Suc s + n)" for i by linarith
  then show ?thesis by auto
qed

lemma readable_Suc:
  "readable d s (Suc n) \<longleftrightarrow> s < sector_count d \<and> \<not> read_fails d s \<and> readable d (Suc s) n"
  unfolding readable_def run_all_Suc by auto

lemma writable_Suc:
  "writable d s (Suc n) \<longleftrightarrow> s < sector_count d \<and> \<not> write_fails d s \<and> writable d (Suc s) n"
  unfolding writable_def run_all_Suc by auto

lemma sector_wrap: "wf_disk d \<Longrightarrow> s < sector_count d \<Longrightarrow> wadd 64 s 1 = Suc s"
  by (simp add: wf_disk_def wadd_def)

lemma read_loop_Ok_iff:
  assumes "wf_disk d"
  shows "read_loop d s n = Ok bs \<longleftrightarrow> (n = 0 \<or> readable d s n) \<and> bs = sector_run d s n"
proof (induction n arbitrary: s bs)
  case (Suc n)
  have zero: "s < sector_count d \<Longrightarrow> n = 0 \<Longrightarrow> readable d (Suc s) n"
    by (auto simp: readable_def)
  show ?case
    using zero sector_wrap[OF assms, of s]
    by (auto simp: Suc.IH read_sector_Ok_iff[OF assms] sector_run_Suc readable_Suc)
qed auto

lemma read_sectors_Ok_iff:
  assumes "wf_disk d" and "0 < n"
  shows "read_sectors d s n = Ok bs \<longleftrightarrow> readable d s n \<and> bs = sector_run d s n"
proof -
  have "readable d s n \<Longrightarrow> n * 512 < 2 ^ 64"
    using assms by (auto simp: readable_def wf_disk_def)
  then show ?thesis
    using assms by (auto simp: read_sectors_def read_loop_Ok_iff checked_mul_def)
qed

lemma write_sector_Ok_iff:
  "wf_disk d \<Longrightarrow> write_sector i b d = (Ok (), d') \<longleftrightarrow>
     i < sector_count d \<and> \<not> write_fails d i \<and> d' = d\<lparr>sectors := (sectors d)(i := b)\<rparr>"
  by (auto simp: write_sector_def wf_disk_def checked_mul_def split: if_splits)

lemma wf_disk_write_sector:
  "wf_disk d \<Longrightarrow> length b = 512 \<Longrightarrow> wf_disk (snd (write_sector i b d))"
  by (auto simp: write_sector_def wf_disk_def split: option.split)

lemma store_run_first:
  assumes "length data = 512 * Suc n"
  shows "store_run (Suc s) (drop 512 data) (d\<lparr>sectors := (sectors d)(s := take 512 data)\<rparr>) = store_run s data d"
proof -
  have "(if Suc s \<le> i \<and> i < Suc s + n then bytes_at (512 * (i - Suc s)) 512 (drop 512 data)
         else ((sectors d)(s := take 512 data)) i) =
        (if s \<le> i \<and> i < s + Suc n then bytes_at (512 * (i - s)) 512 data else sectors d i)" for i
  proof (cases "Suc s \<le> i \<and> i < Suc s + n")
    case True
    then have "512 * (i - Suc s) + 512 = 512 * (i - s)" by (simp add: algebra_simps)
    with True show ?thesis by (simp add: bytes_at_def add.commute)
  next
    case False
    then show ?thesis by (auto simp: bytes_at_def)
  qed
  then show ?thesis using assms by (simp add: store_run_def fun_eq_iff cong: if_cong)
qed

lemma dyn_write_loop_Ok_iff:
  assumes "wf_disk d" and "length data = 512 * n"
  shows "dyn_write_loop write_sector s n data d = (Ok (), d') \<longleftrightarrow>
           (n = 0 \<or> writable d s n) \<and> d' = store_run s data d"
  using assms
proof (induction n arbitrary: s data d)
  case 0
  have "(\<lambda>i. if s \<le> i \<and> i < s then bytes_at (512 * (i - s)) 512 [] else sectors d i) = sectors d"
    by (rule ext) auto
  with 0 show ?case by (auto simp: store_run_def)
next
  case (Suc n)
  let ?d1 = "d\<lparr>sectors := (sectors d)(s := take 512 data)\<rparr>"
  have wf1: "wf_disk ?d1" using Suc.prems by (auto simp: wf_disk_def)
  have len: "length (drop 512 data) = 512 * n" using Suc.prems by simp
  have store: "store_run (Suc s) (drop 512 data) ?d1 = store_run s data d" by (rule store_run_first[OF Suc.prems(2)])
  have writ: "writable ?d1 (Suc s) n = writable d (Suc s) n" by (simp add: writable_def)
  have zero: "s < sector_count d \<Longrightarrow> n = 0 \<Longrightarrow> writable d (Suc s) n"
    by (auto simp: writable_def)
  show ?case
    using Suc.prems(1) zero sector_wrap[OF Suc.prems(1), of s]
    by (auto simp: sbind_Ok_iff write_sector_Ok_iff Suc.IH[OF wf1 len] store writ writable_Suc)
qed

text \<open>A run of writes stops at the first sector the host fails to write.\<close>

lemma write_loop_run:
  "wf_disk d \<Longrightarrow> length data = 512 * n \<Longrightarrow> s + n \<le> sector_count d \<Longrightarrow>
   \<exists>k \<le> n. dyn_write_loop write_sector s n data d =
      ((if k = n then Ok () else Err BdIo), store_run s (take (512 * k) data) d) \<and> (k < n \<longrightarrow> write_fails d (s + k))"
proof (induction n arbitrary: s data d)
  case 0
  have "store_run s [] d = d" by (auto simp: store_run_def intro!: disk.equality ext)
  then show ?case by simp
next
  case (Suc n)
  have s: "s < sector_count d" "checked_mul 64 s 512 = Some (s * 512)"
    using Suc.prems(1,3) by (auto simp: wf_disk_def checked_mul_def)
  show ?case
  proof (cases "write_fails d s")
    case True
    have "store_run s [] d = d" by (auto simp: store_run_def intro!: disk.equality ext)
    moreover have "write_sector s (take 512 data) d = (Err BdIo, d)" using True s by (simp add: write_sector_def)
    ultimately show ?thesis using True by (intro exI[of _ 0]) (simp add: sbind_def)
  next
    case False
    let ?d1 = "d\<lparr>sectors := (sectors d)(s := take 512 data)\<rparr>"
    have "wf_disk ?d1" using Suc.prems by (auto simp: wf_disk_def)
    from Suc.IH[OF this, of "drop 512 data" "Suc s"] Suc.prems obtain k where k: "k \<le> n"
      "dyn_write_loop write_sector (Suc s) n (drop 512 data) ?d1 =
        ((if k = n then Ok () else Err BdIo), store_run (Suc s) (take (512 * k) (drop 512 data)) ?d1)" "k < n \<longrightarrow> write_fails d (Suc s + k)"
      by auto
    have t: "take (512 * k) (drop 512 data) = drop 512 (take (512 * Suc k) data)" "take 512 data = take 512 (take (512 * Suc k) data)"
      by (simp_all add: take_drop min_def add.commute)
    have len: "length (take (512 * Suc k) data) = 512 * Suc k" using Suc.prems(2) k(1) by simp
    have "store_run (Suc s) (take (512 * k) (drop 512 data)) ?d1 = store_run s (take (512 * Suc k) data) d"
      unfolding t by (rule store_run_first[OF len])
    moreover have "write_sector s (take 512 data) d = (Ok (), ?d1)" using False s by (simp add: write_sector_def)
    ultimately show ?thesis
      using k sector_wrap[OF Suc.prems(1) s(1)] by (intro exI[of _ "Suc k"]) (simp add: sbind_def)
  qed
qed

lemma write_sectors_Ok_iff:
  assumes "wf_disk d" and "length data = 512 * n" and "0 < n"
  shows "write_sectors s data d = (Ok (), d') \<longleftrightarrow> writable d s n \<and> d' = store_run s data d"
  using assms by (simp add: write_sectors_def dyn_write_sectors_def dyn_write_loop_Ok_iff)

text \<open>A failing write leaves a device of the same shape, with the sectors before it written.\<close>

definition same_shape :: "disk \<Rightarrow> disk \<Rightarrow> bool" where
  "same_shape d d' \<longleftrightarrow> wf_disk d' \<and> sector_count d' = sector_count d \<and>
     read_fails d' = read_fails d \<and> write_fails d' = write_fails d \<and>
     flush_fails d' = flush_fails d"

lemma same_shape_write_sector:
  "same_shape d0 d \<Longrightarrow> length b = 512 \<Longrightarrow> same_shape d0 (snd (write_sector i b d))"
  by (auto simp: write_sector_def same_shape_def wf_disk_def split: option.split)

lemma same_shape_write_loop:
  "same_shape d0 d \<Longrightarrow> length data = 512 * n \<Longrightarrow>
   same_shape d0 (snd (dyn_write_loop write_sector s n data d))"
proof (induction n arbitrary: s data d)
  case (Suc n)
  have "length (take 512 data) = 512" "length (drop 512 data) = 512 * n" using Suc.prems by auto
  moreover have "same_shape d0 (snd (write_sector s (take 512 data) d))"
    using Suc.prems by (simp add: same_shape_write_sector)
  ultimately show ?case
    using Suc.IH by (auto simp: sbind_def split: prod.splits res.splits)
qed simp

lemma same_shape_write_sectors:
  "same_shape d0 d \<Longrightarrow> same_shape d0 (snd (write_sectors s data d))"
proof (cases "length data mod 512 = 0")
  case True
  then have "length data = 512 * (length data div 512)"
    by (metis add.right_neutral mult_div_mod_eq)
  moreover assume "same_shape d0 d"
  ultimately show ?thesis
    using True by (simp add: write_sectors_def dyn_write_sectors_def same_shape_write_loop)
qed (simp add: write_sectors_def dyn_write_sectors_def rassert_def)

text \<open>Writes reach the device, but not the medium: that takes a flush.\<close>

lemma stable_write_loop: "stable (snd (dyn_write_loop write_sector s n data d)) = stable d"
  by (induction n arbitrary: s data d)
     (auto simp: sbind_def write_sector_def split: prod.splits res.splits option.splits if_splits)

lemma stable_write_sectors: "stable (snd (write_sectors s data d)) = stable d"
  by (simp add: write_sectors_def dyn_write_sectors_def stable_write_loop rassert_def sbind_def)

definition unflushed :: "disk \<Rightarrow> disk \<Rightarrow> bool" where
  "unflushed d d' \<longleftrightarrow> same_shape d d' \<and> stable d' = stable d"

lemma unflushed_write_sectors: "unflushed d0 d \<Longrightarrow> unflushed d0 (snd (write_sectors s data d))"
  by (simp add: unflushed_def same_shape_write_sectors stable_write_sectors)

lemma same_shape_flush: "same_shape d0 d \<Longrightarrow> same_shape d0 (snd (dev_flush d))"
  by (simp add: dev_flush_def same_shape_def wf_disk_def)

lemma same_shape_trans: "same_shape a b \<Longrightarrow> same_shape b c \<Longrightarrow> same_shape a c"
  by (simp add: same_shape_def)

lemma same_shape_refl: "wf_disk d \<Longrightarrow> same_shape d d"
  by (simp add: same_shape_def)

section \<open>The contract of the trait\<close>

text \<open>
  What \<open>ext4-core\<close> relies on when it holds a \<open>&dyn BlockDevice\<close>: behind its invariant the
  implementation answers every sector read and write as the device it is a view of.
\<close>

locale block_device =
  fixes rd :: "nat \<Rightarrow> ('d, bd_error, byte list) st"
    and wr :: "nat \<Rightarrow> byte list \<Rightarrow> ('d, bd_error, unit) st"
    and view :: "'d \<Rightarrow> disk"
    and inv :: "'d \<Rightarrow> bool"
  assumes rd_view: "inv d \<Longrightarrow> rd i d = (r, d') \<Longrightarrow>
      r = read_sector (view d) i \<and> view d' = view d \<and> inv d'"
    and wr_view: "inv d \<Longrightarrow> length b = 512 \<Longrightarrow> wr i b d = (q, d') \<Longrightarrow>
      write_sector i b (view d) = (q, view d') \<and> inv d'"
begin

lemma read_loop_view:
  "inv d \<Longrightarrow> dyn_read_loop rd s n d = (r, d') \<Longrightarrow>
   r = read_loop (view d) s n \<and> view d' = view d \<and> inv d'"
proof (induction n arbitrary: s d r d')
  case (Suc n)
  obtain r1 d1 where 1: "rd s d = (r1, d1)" by (cases "rd s d")
  note v1 = rd_view[OF Suc.prems(1) 1]
  obtain r2 d2 where 2: "dyn_read_loop rd (wadd 64 s 1) n d1 = (r2, d2)"
    by (cases "dyn_read_loop rd (wadd 64 s 1) n d1")
  have v2: "r2 = read_loop (view d1) (wadd 64 s 1) n \<and> view d2 = view d1 \<and> inv d2"
    using Suc.IH[OF _ 2] v1 by blast
  have e: "read_sector (view d) s = r1" "read_loop (view d) (wadd 64 s 1) n = r2"
    using v1 v2 by simp_all
  have vd: "view d1 = view d" "view d2 = view d" "inv d1" "inv d2"
    using v1 v2 by simp_all
  have "r = rbind r1 (\<lambda>b. rbind r2 (\<lambda>bs. Ok (b @ bs))) \<and> view d' = view d \<and> inv d'"
    using Suc.prems(2) vd 1 2 by (cases r1; cases r2) (auto simp: sbind_def)
  then show ?case by (simp only: read_loop.simps e)
qed auto

theorem read_sectors_view:
  "inv d \<Longrightarrow> dyn_read_sectors rd s n d = (r, d') \<Longrightarrow>
   r = read_sectors (view d) s n \<and> view d' = view d \<and> inv d'"
  by (auto simp: dyn_read_sectors_def read_sectors_def dest: read_loop_view split: res.splits)

lemma write_loop_view:
  "inv d \<Longrightarrow> length data = 512 * n \<Longrightarrow> dyn_write_loop wr s n data d = (r, d') \<Longrightarrow>
   dyn_write_loop write_sector s n data (view d) = (r, view d') \<and> inv d'"
proof (induction n arbitrary: s data d r d')
  case (Suc n)
  have len: "length (take 512 data) = 512" "length (drop 512 data) = 512 * n"
    using Suc.prems by auto
  obtain r1 d1 where 1: "wr s (take 512 data) d = (r1, d1)" by (cases "wr s (take 512 data) d")
  note v1 = wr_view[OF Suc.prems(1) len(1) 1]
  obtain r2 d2 where 2: "dyn_write_loop wr (wadd 64 s 1) n (drop 512 data) d1 = (r2, d2)"
    by (cases "dyn_write_loop wr (wadd 64 s 1) n (drop 512 data) d1")
  have v2: "dyn_write_loop write_sector (wadd 64 s 1) n (drop 512 data) (view d1) = (r2, view d2)
      \<and> inv d2"
    using Suc.IH[OF _ len(2) 2] v1 by blast
  show ?case
    using Suc.prems(3) v1 v2 1 2 by (cases r1) (auto simp: sbind_def)
qed auto

theorem write_sectors_view:
  assumes "inv d" and "dyn_write_sectors wr s data d = (r, d')"
  shows "write_sectors s data (view d) = (r, view d') \<and> inv d'"
proof (cases "length data mod 512 = 0")
  case True
  then have "length data = 512 * (length data div 512)"
    by (metis add.right_neutral mult_div_mod_eq)
  from write_loop_view[OF assms(1) this] assms(2) True show ?thesis
    by (simp add: dyn_write_sectors_def write_sectors_def)
qed (use assms in \<open>auto simp: dyn_write_sectors_def write_sectors_def rassert_def\<close>)

end

interpretation image_file: block_device "\<lambda>i. sread (\<lambda>d. read_sector d i)" write_sector id "\<lambda>_. True"
  by unfold_locales auto

lemma dyn_read_sectors_image:
  "dyn_read_sectors (\<lambda>i. sread (\<lambda>d. read_sector d i)) s n d = (read_sectors d s n, d)"
proof -
  obtain r d' where "dyn_read_sectors (\<lambda>i. sread (\<lambda>d. read_sector d i)) s n d = (r, d')"
    by (cases "dyn_read_sectors (\<lambda>i. sread (\<lambda>d. read_sector d i)) s n d")
  with image_file.read_sectors_view[OF TrueI this] show ?thesis by simp
qed

lemma wf_image_open:
  assumes "image_open img rfail wfail ffail = Ok d" and "length img < 2 ^ 64"
  shows "wf_disk d \<and> sector_count d * 512 = length img"
proof -
  have e: "length img = 512 * (length img div 512)" if "length img mod 512 = 0"
    using that by (metis add.right_neutral mult_div_mod_eq)
  have "512 * i + 512 \<le> length img" if "i < length img div 512" "length img mod 512 = 0" for i
    using e[OF that(2)] that(1) by linarith
  then show ?thesis
    using assms e by (auto simp: image_open_def wf_disk_def min_def split: if_splits)
qed

section \<open>Reading what was written\<close>

lemma store_run_same_shape:
  "wf_disk d \<Longrightarrow> length data = 512 * n \<Longrightarrow> s + n \<le> sector_count d \<Longrightarrow> same_shape d (store_run s data d)"
proof -
  assume "wf_disk d" "length data = 512 * n" "s + n \<le> sector_count d"
  moreover have "512 * (i - s) + 512 \<le> 512 * n" if "s \<le> i" "i < s + n" for i
    using that by linarith
  ultimately show ?thesis by (auto simp: same_shape_def store_run_def wf_disk_def min_def)
qed

lemma sector_run_store_same:
  "length data = 512 * n \<Longrightarrow> sector_run (store_run s data d) s n = data"
proof (induction n arbitrary: s data d)
  case (Suc n)
  have len: "length (drop 512 data) = 512 * n" using Suc.prems by simp
  have "sector_run (store_run s data d) (Suc s) n = sector_run (store_run (Suc s) (drop 512 data) d) (Suc s) n"
  proof -
    have "sectors (store_run s data d) i = sectors (store_run (Suc s) (drop 512 data) d) i"
      if "Suc s \<le> i" "i < Suc s + n" for i
    proof -
      have "512 * (i - Suc s) + 512 = 512 * (i - s)" using that(1) by (simp add: algebra_simps)
      then show ?thesis using that Suc.prems len by (simp add: store_run_def bytes_at_def add.commute)
    qed
    then show ?thesis unfolding sector_run_def by (intro arg_cong[where f = concat] map_cong) auto
  qed
  also have "\<dots> = drop 512 data" using Suc.IH[OF len] .
  finally have "sector_run (store_run s data d) (Suc s) n = drop 512 data" .
  moreover have "sectors (store_run s data d) s = take 512 data"
    using Suc.prems by (simp add: store_run_def bytes_at_def)
  ultimately show ?case by (simp add: sector_run_Suc)
qed simp

lemma sector_run_store_other:
  assumes "t + m \<le> s \<or> s + length data div 512 \<le> t"
  shows "sector_run (store_run s data d) t m = sector_run d t m"
proof -
  have "sectors (store_run s data d) i = sectors d i" if "t \<le> i" "i < t + m" for i
    using assms that by (auto simp: store_run_def)
  then show ?thesis unfolding sector_run_def by (intro arg_cong[where f = concat] map_cong) auto
qed

lemma readable_same_shape: "same_shape d d' \<Longrightarrow> readable d' s n = readable d s n"
  by (simp add: readable_def same_shape_def)

text \<open>Read errors depend only on the shape of the device and on where the read goes.\<close>

lemma read_loop_cong:
  assumes "sector_count d' = sector_count d" and "read_fails d' = read_fails d"
  shows "\<forall>i. s \<le> i \<and> i < s + n \<longrightarrow> sectors d' i = sectors d i \<Longrightarrow>
    s + n \<le> 2 ^ 64 \<Longrightarrow> read_loop d' s n = read_loop d s n"
proof (induction n arbitrary: s)
  case (Suc n)
  have one: "read_sector d' s = read_sector d s"
    using Suc.prems(1) assms by (simp add: read_sector_def)
  show ?case
  proof (cases "s + 1 < 2 ^ 64")
    case True
    then have "wadd 64 s 1 = Suc s" by (simp add: wadd_def)
    moreover have "read_loop d' (Suc s) n = read_loop d (Suc s) n"
      using Suc.prems by (intro Suc.IH) auto
    ultimately show ?thesis by (simp add: one)
  next
    case False
    then have "n = 0" using Suc.prems(2) by simp
    then show ?thesis by (simp add: one)
  qed
qed simp

lemma read_after_write_same:
  assumes "wf_disk d" and "length data = 512 * n" and "0 < n"
    and "write_sectors s data d = (Ok (), d')" and "readable d s n"
  shows "read_sectors d' s n = Ok data"
proof -
  have w: "writable d s n" and d': "d' = store_run s data d"
    using write_sectors_Ok_iff[OF assms(1-3)] assms(4) by auto
  have shape: "same_shape d d'"
    using w assms(1,2) by (simp add: d' store_run_same_shape writable_def)
  then have "wf_disk d'" by (simp add: same_shape_def)
  then show ?thesis
    using readable_same_shape[OF shape] assms(5) sector_run_store_same[OF assms(2), of s d]
    by (simp add: read_sectors_Ok_iff[OF _ assms(3)] d')
qed

lemma read_after_write_other:
  assumes "wf_disk d" and "length data = 512 * n" and "0 < n"
    and "write_sectors s data d = (Ok (), d')" and "t + m \<le> s \<or> s + n \<le> t" and "t + m \<le> 2 ^ 64"
  shows "read_sectors d' t m = read_sectors d t m"
proof -
  have d': "d' = store_run s data d"
    using write_sectors_Ok_iff[OF assms(1-3)] assms(4) by auto
  have "sectors d' i = sectors d i" if "t \<le> i" "i < t + m" for i
    using assms(2,5) that by (auto simp: d' store_run_def)
  then have "read_loop d' t m = read_loop d t m"
    by (intro read_loop_cong) (use assms(6) in \<open>auto simp: d' store_run_def\<close>)
  then show ?thesis by (simp add: read_sectors_def)
qed

section \<open>Properties\<close>

text \<open>
  A multi-sector write that succeeds is what every later read of the same sectors
  returns (unless the host's read fails), and reads of other sectors answer as before.
\<close>

theorem device_read_after_write:
  assumes "wf_disk d" and "length data = 512 * n" and "0 < n"
    and "write_sectors s data d = (Ok (), d')"
  shows "(readable d s n \<longrightarrow> read_sectors d' s n = Ok data) \<and>
    (\<forall>t m. (t + m \<le> s \<or> s + n \<le> t) \<and> t + m \<le> 2 ^ 64 \<longrightarrow> read_sectors d' t m = read_sectors d t m)"
  using read_after_write_same[OF assms] read_after_write_other[OF assms] by blast

definition blank_disk :: "nat \<Rightarrow> disk" where
  "blank_disk n = \<lparr>sectors = (\<lambda>_. replicate 512 0), sector_count = n, read_fails = (\<lambda>_. False),
     write_fails = (\<lambda>_. False), flush_fails = False, stable = (\<lambda>_. replicate 512 0)\<rparr>"

lemma wf_blank: "n < 2 ^ 50 \<Longrightarrow> wf_disk (blank_disk n)"
  by (simp add: wf_disk_def blank_disk_def)

lemma blank_readable: "readable (blank_disk m) s n \<longleftrightarrow> s + n \<le> m"
  by (auto simp: readable_def blank_disk_def)

lemma blank_writable: "writable (blank_disk m) s n \<longleftrightarrow> s + n \<le> m"
  by (auto simp: writable_def blank_disk_def)

lemma blank_store:
  "\<exists>d'. write_sectors 3 (replicate 1024 7) (blank_disk 8) = (Ok (), d')"
  using write_sectors_Ok_iff[OF wf_blank[of 8], of "replicate 1024 7" 2 3]
  by (simp add: blank_writable)

theorem device_read_after_write_witness:
  "\<exists>d'. write_sectors 3 (replicate 1024 7) (blank_disk 8) = (Ok (), d') \<and>
     read_sectors d' 3 2 = Ok (replicate 1024 7)"
proof -
  obtain d' where w: "write_sectors 3 (replicate 1024 7) (blank_disk 8) = (Ok (), d')"
    using blank_store by blast
  then show ?thesis
    using device_read_after_write[of "blank_disk 8" "replicate 1024 7" 2 3 d'] wf_blank[of 8]
    by (simp add: blank_readable)
qed

end
