(* ===== verification/Utf8.thy ===== *)
theory Utf8
  imports Bytes
begin

text \<open>
  Rust strings are UTF-8 byte lists. \<open>utf8_lossy\<close> is \<open>String::from_utf8_lossy\<close> of the
  standard library, which the driver applies to the volume name, to the names of
  directory entries and to symlink targets: every maximal ill-formed prefix of a
  character becomes one replacement character \<open>EF BF BD\<close>.
\<close>

definition byte_or0 :: "byte list \<Rightarrow> nat \<Rightarrow> nat" where
  "byte_or0 bs i = (if i < length bs then unat (bs ! i) else 0)"

definition is_cont :: "nat \<Rightarrow> bool" where
  "is_cont b \<longleftrightarrow> 128 \<le> b \<and> b < 192"

text \<open>Which second bytes may follow a lead byte of a three- and a four-byte character.\<close>

definition second_of_3 :: "nat \<Rightarrow> nat \<Rightarrow> bool" where
  "second_of_3 b c \<longleftrightarrow>
     (b = 0xE0 \<and> 0xA0 \<le> c \<and> c \<le> 0xBF) \<or> (0xE1 \<le> b \<and> b \<le> 0xEC \<and> 0x80 \<le> c \<and> c \<le> 0xBF) \<or>
     (b = 0xED \<and> 0x80 \<le> c \<and> c \<le> 0x9F) \<or> (0xEE \<le> b \<and> b \<le> 0xEF \<and> 0x80 \<le> c \<and> c \<le> 0xBF)"

definition second_of_4 :: "nat \<Rightarrow> nat \<Rightarrow> bool" where
  "second_of_4 b c \<longleftrightarrow>
     (b = 0xF0 \<and> 0x90 \<le> c \<and> c \<le> 0xBF) \<or> (0xF1 \<le> b \<and> b \<le> 0xF3 \<and> 0x80 \<le> c \<and> c \<le> 0xBF) \<or>
     (b = 0xF4 \<and> 0x80 \<le> c \<and> c \<le> 0x8F)"

text \<open>How many bytes the next chunk takes, and whether it is a well-formed character.\<close>

definition utf8_step :: "byte list \<Rightarrow> nat \<times> bool" where
  "utf8_step bs =
     (let b = byte_or0 bs 0; c1 = byte_or0 bs 1; c2 = byte_or0 bs 2; c3 = byte_or0 bs 3 in
      if b < 128 then (1, True)
      else if 0xC2 \<le> b \<and> b \<le> 0xDF then (if is_cont c1 then (2, True) else (1, False))
      else if 0xE0 \<le> b \<and> b \<le> 0xEF then
        (if \<not> second_of_3 b c1 then (1, False)
         else if is_cont c2 then (3, True) else (2, False))
      else if 0xF0 \<le> b \<and> b \<le> 0xF4 then
        (if \<not> second_of_4 b c1 then (1, False)
         else if \<not> is_cont c2 then (2, False)
         else if is_cont c3 then (4, True) else (3, False))
      else (1, False))"

definition replacement_char :: "byte list" where
  "replacement_char = [0xEF, 0xBF, 0xBD]"

lemma utf8_step_pos: "0 < fst (utf8_step bs)"
  by (simp add: utf8_step_def Let_def)

function utf8_lossy :: "byte list \<Rightarrow> byte list" where
  "utf8_lossy bs =
     (if bs = [] then []
      else case utf8_step bs of (k, ok) \<Rightarrow>
        (if ok then take k bs else replacement_char) @ utf8_lossy (drop k bs))"
  by pat_completeness auto
termination
proof (relation "measure length", goal_cases)
  case (2 bs k ok)
  then have "0 < k" using utf8_step_pos[of bs] by (metis fst_conv)
  with 2 show ?case by simp
qed simp

declare utf8_lossy.simps [simp del]

text \<open>Strings that \<open>str::from_utf8\<close> accepts are the ones \<open>utf8_lossy\<close> leaves alone.\<close>

definition valid_utf8 :: "byte list \<Rightarrow> bool" where
  "valid_utf8 bs \<longleftrightarrow> utf8_lossy bs = bs"

lemma utf8_lossy_Nil [simp]: "utf8_lossy [] = []"
  by (simp add: utf8_lossy.simps)

lemma utf8_lossy_ascii_Cons:
  "unat b < 128 \<Longrightarrow> utf8_lossy (b # bs) = b # utf8_lossy bs"
  by (subst utf8_lossy.simps) (simp add: utf8_step_def byte_or0_def)

lemma utf8_lossy_ascii: "\<forall>b \<in> set bs. unat b < 128 \<Longrightarrow> utf8_lossy bs = bs"
  by (induction bs) (simp_all add: utf8_lossy_ascii_Cons)

end
