(* ===== verification/Superblock.thy ===== *)
theory Superblock
  imports Block_Device Utf8
begin

text \<open>
  The ext4 superblock (\<open>ext4-core/src/superblock.rs\<close>): the on-disk layout, and \<open>parse\<close>,
  which reads sectors 2 and 3 and either returns a \<open>superblock\<close> or names the first check
  that fails. \<open>sb_ok\<close> is what a parsed superblock satisfies; the rest of the development
  relies on it for its divisions and offsets.
\<close>

section \<open>Layout\<close>

text \<open>The fields of \<open>RawSuperblock\<close> that the code reads, little-endian at their offsets.\<close>

record raw_superblock =
  s_inodes_count :: nat
  s_blocks_count_lo :: nat
  s_first_data_block :: nat
  s_log_block_size :: nat
  s_blocks_per_group :: nat
  s_inodes_per_group :: nat
  s_magic :: nat
  s_state :: nat
  s_rev_level :: nat
  s_inode_size :: nat
  s_feature_incompat :: nat
  s_feature_ro_compat :: nat
  s_uuid :: "byte list"
  s_volume_name :: "byte list"
  s_desc_size :: nat
  s_blocks_count_hi :: nat

definition raw_superblock_read_from :: "byte list \<Rightarrow> raw_superblock option" where
  "raw_superblock_read_from bs =
     (if length bs \<noteq> 1024 then None
      else Some \<lparr>s_inodes_count = le32 0 bs, s_blocks_count_lo = le32 4 bs,
        s_first_data_block = le32 20 bs, s_log_block_size = le32 24 bs,
        s_blocks_per_group = le32 32 bs, s_inodes_per_group = le32 40 bs,
        s_magic = le16 56 bs, s_state = le16 58 bs, s_rev_level = le32 64 bs,
        s_inode_size = le16 88 bs, s_feature_incompat = le32 96 bs,
        s_feature_ro_compat = le32 100 bs, s_uuid = bytes_at 104 16 bs,
        s_volume_name = bytes_at 120 16 bs, s_desc_size = le16 254 bs,
        s_blocks_count_hi = le32 336 bs\<rparr>)"

definition UNSUPPORTED_MASK :: nat where
  "UNSUPPORTED_MASK = 0x10000 OR 0x8000"

definition VALID_FS :: nat where "VALID_FS = 1"
definition ERROR_FS :: nat where "ERROR_FS = 2"

record superblock =
  sb_block_size :: nat
  sb_blocks_count :: nat
  sb_inodes_count :: nat
  sb_inodes_per_group :: nat
  sb_blocks_per_group :: nat
  sb_first_data_block :: nat
  sb_uuid :: "byte list"
  sb_volume_name :: "byte list"
  sb_desc_size :: nat
  sb_feature_incompat :: nat
  sb_feature_ro_compat :: nat
  sb_inode_size :: nat
  sb_state :: nat

definition state_has_error :: "superblock \<Rightarrow> bool" where
  "state_has_error sb \<longleftrightarrow> sb_state sb AND ERROR_FS \<noteq> 0"

definition was_cleanly_unmounted :: "superblock \<Rightarrow> bool" where
  "was_cleanly_unmounted sb \<longleftrightarrow> sb_state sb AND VALID_FS \<noteq> 0"

datatype superblock_error =
    SbBadMagic nat
  | SbUnsupportedFeatures nat
  | SbBlockDevice bd_error
  | SbInvalidBuffer
  | SbInvalidBlockSize nat
  | SbInvalidInodeSize nat
  | SbInvalidGeometry

section \<open>Parsing\<close>

text \<open>\<open>u16::is_power_of_two\<close>: the value is \<open>2 ^ k\<close> for some \<open>k\<close>.\<close>

definition is_power_of_two16 :: "nat \<Rightarrow> bool" where
  "is_power_of_two16 s \<longleftrightarrow> s \<in> set (map (\<lambda>k. 2 ^ k) [0..<16])"

text \<open>The volume name up to its first NUL byte.\<close>

definition volume_name_of :: "byte list \<Rightarrow> byte list" where
  "volume_name_of nm = utf8_lossy (takeWhile (\<lambda>b. b \<noteq> 0) nm)"

definition inode_size_of :: "raw_superblock \<Rightarrow> (superblock_error, nat) res" where
  "inode_size_of raw =
     (if s_rev_level raw = 0 then Ok 128
      else let s = s_inode_size raw in
        if s < 128 then Ok 128
        else if s > 1024 \<or> \<not> is_power_of_two16 s then Err (SbInvalidInodeSize s)
        else Ok s)"

definition parse_raw_superblock :: "raw_superblock \<Rightarrow> (superblock_error, superblock) res" where
  "parse_raw_superblock raw =
     (let magic = s_magic raw;
          unsupported = s_feature_incompat raw AND UNSUPPORTED_MASK;
          log_block_size = s_log_block_size raw in
      if magic \<noteq> 0xEF53 then Err (SbBadMagic magic)
      else if unsupported \<noteq> 0 then Err (SbUnsupportedFeatures unsupported)
      else if log_block_size > 6 then Err (SbInvalidBlockSize log_block_size)
      else rbind (inode_size_of raw) (\<lambda>inode_size.
        if s_inodes_per_group raw = 0 \<or> s_blocks_per_group raw = 0 then Err SbInvalidGeometry
        else Ok \<lparr>sb_block_size = 1024 * 2 ^ log_block_size,
          sb_blocks_count = hi_lo 32 (s_blocks_count_hi raw) (s_blocks_count_lo raw),
          sb_inodes_count = s_inodes_count raw,
          sb_inodes_per_group = s_inodes_per_group raw,
          sb_blocks_per_group = s_blocks_per_group raw,
          sb_first_data_block = s_first_data_block raw,
          sb_uuid = s_uuid raw,
          sb_volume_name = volume_name_of (s_volume_name raw),
          sb_desc_size = (if s_desc_size raw < 32 then 32 else s_desc_size raw),
          sb_feature_incompat = s_feature_incompat raw,
          sb_feature_ro_compat = s_feature_ro_compat raw,
          sb_inode_size = inode_size,
          sb_state = s_state raw\<rparr>))"

definition parse :: "disk \<Rightarrow> (superblock_error, superblock) res" where
  "parse dev =
     rbind (map_err SbBlockDevice (read_sectors dev 2 2)) (\<lambda>raw_bytes.
     rbind (ok_or SbInvalidBuffer (raw_superblock_read_from raw_bytes))
       parse_raw_superblock)"

section \<open>What a parsed superblock satisfies\<close>

definition sb_ok :: "superblock \<Rightarrow> bool" where
  "sb_ok sb \<longleftrightarrow>
     sb_block_size sb \<in> {1024, 2048, 4096, 8192, 16384, 32768, 65536} \<and>
     sb_inode_size sb \<in> {128, 256, 512, 1024} \<and>
     32 \<le> sb_desc_size sb \<and> sb_desc_size sb < 2 ^ 16 \<and>
     0 < sb_inodes_per_group sb \<and> sb_inodes_per_group sb < 2 ^ 32 \<and>
     0 < sb_blocks_per_group sb \<and> sb_blocks_per_group sb < 2 ^ 32 \<and>
     sb_blocks_count sb < 2 ^ 64 \<and> sb_inodes_count sb < 2 ^ 32 \<and>
     sb_first_data_block sb < 2 ^ 32 \<and>
     sb_feature_incompat sb AND UNSUPPORTED_MASK = 0"

abbreviation spb :: "superblock \<Rightarrow> nat" where
  "spb sb \<equiv> sb_block_size sb div 512"

lemma sb_ok_block_size:
  assumes "sb_ok sb"
  shows "1024 \<le> sb_block_size sb" "sb_block_size sb \<le> 65536" "sb_block_size sb mod 512 = 0"
    "512 * spb sb = sb_block_size sb" "2 \<le> spb sb" "sb_block_size sb mod 4 = 0"
  using assms by (auto simp: sb_ok_def)

lemma sb_ok_inode_size:
  assumes "sb_ok sb"
  shows "128 \<le> sb_inode_size sb" "sb_inode_size sb \<le> 1024"
    "sb_block_size sb mod sb_inode_size sb = 0" "0 < sb_block_size sb div sb_inode_size sb"
  using assms by (auto simp: sb_ok_def)

lemma is_power_of_two16_cases:
  assumes "is_power_of_two16 s" and "128 \<le> s" and "s \<le> 1024"
  shows "s \<in> {128, 256, 512, 1024}"
  using assms by (auto simp: is_power_of_two16_def upt_rec)

lemma log_block_size_cases: "(k :: nat) \<le> 6 \<Longrightarrow> k \<in> {0, 1, 2, 3, 4, 5, 6}"
  by auto

lemma inode_size_of_cases:
  "inode_size_of raw = Ok n \<Longrightarrow> n \<in> {128, 256, 512, 1024}"
  using is_power_of_two16_cases[of "s_inode_size raw"]
  by (auto simp: inode_size_of_def Let_def split: if_splits)

text \<open>The integers of a raw superblock that was decoded from bytes fit their fields.\<close>

definition raw_sb_bounded :: "raw_superblock \<Rightarrow> bool" where
  "raw_sb_bounded raw \<longleftrightarrow>
     s_inodes_count raw < 2 ^ 32 \<and> s_blocks_count_lo raw < 2 ^ 32 \<and>
     s_blocks_count_hi raw < 2 ^ 32 \<and> s_first_data_block raw < 2 ^ 32 \<and>
     s_blocks_per_group raw < 2 ^ 32 \<and> s_inodes_per_group raw < 2 ^ 32 \<and>
     s_desc_size raw < 2 ^ 16"

lemma raw_sb_bounded_read_from:
  "raw_superblock_read_from bs = Some raw \<Longrightarrow> raw_sb_bounded raw"
  using le32_less le16_less
  by (auto simp: raw_superblock_read_from_def raw_sb_bounded_def split: if_splits)

lemma hi_lo_less: "hi < 2 ^ m \<Longrightarrow> lo < 2 ^ k \<Longrightarrow> hi_lo k hi lo < 2 ^ (m + k)"
proof -
  assume "hi < 2 ^ m" "lo < 2 ^ k"
  then have "hi * 2 ^ k + lo < Suc hi * 2 ^ k" by simp
  also have "\<dots> \<le> 2 ^ m * 2 ^ k" using \<open>hi < 2 ^ m\<close> by (intro mult_right_mono) auto
  finally show ?thesis by (simp add: hi_lo_def power_add)
qed

lemma parse_raw_superblock_OkD:
  assumes "parse_raw_superblock raw = Ok sb"
  shows "s_magic raw = 0xEF53" "s_log_block_size raw \<le> 6"
    "inode_size_of raw = Ok (sb_inode_size sb)"
    "sb_block_size sb = 1024 * 2 ^ s_log_block_size raw"
    "sb_blocks_count sb = hi_lo 32 (s_blocks_count_hi raw) (s_blocks_count_lo raw)"
    "sb_inodes_count sb = s_inodes_count raw"
    "sb_inodes_per_group sb = s_inodes_per_group raw" "0 < s_inodes_per_group raw"
    "sb_blocks_per_group sb = s_blocks_per_group raw" "0 < s_blocks_per_group raw"
    "sb_first_data_block sb = s_first_data_block raw"
    "sb_desc_size sb = (if s_desc_size raw < 32 then 32 else s_desc_size raw)"
    "sb_feature_incompat sb AND UNSUPPORTED_MASK = 0" "sb_state sb = s_state raw"
  using assms by (auto simp: parse_raw_superblock_def Let_def simp del: One_nat_def split: if_split_asm)

lemma parse_raw_superblock_ok:
  assumes "parse_raw_superblock raw = Ok sb" and "raw_sb_bounded raw"
  shows "sb_ok sb"
proof -
  note d = parse_raw_superblock_OkD[OF assms(1)]
  have bs: "1024 * 2 ^ s_log_block_size raw \<in> {1024, 2048, 4096, 8192, 16384, 32768, 65536::nat}"
    using log_block_size_cases[OF d(2)] by auto
  have bc: "hi_lo 32 (s_blocks_count_hi raw) (s_blocks_count_lo raw) < 2 ^ 64"
    using hi_lo_less[of "s_blocks_count_hi raw" 32 "s_blocks_count_lo raw" 32] assms(2)
    by (simp add: raw_sb_bounded_def)
  have ds: "32 \<le> sb_desc_size sb \<and> sb_desc_size sb < 2 ^ 16"
    using assms(2) by (simp add: d raw_sb_bounded_def)
  show ?thesis
    unfolding sb_ok_def using bs bc ds inode_size_of_cases[OF d(3)] assms(2) d(8,10,13)
    by (simp only: d(4-7,9,11) raw_sb_bounded_def simp_thms)
qed

lemma parse_sb_ok: "parse dev = Ok sb \<Longrightarrow> sb_ok sb"
  by (auto simp: parse_def intro: parse_raw_superblock_ok raw_sb_bounded_read_from)

end
