(* ===== verification/Group_Desc.thy ===== *)
theory Group_Desc
  imports Superblock
begin

text \<open>
  Block group descriptors (\<open>ext4-core/src/group_desc.rs\<close>): the in-memory table, loading
  it from the device, and the counters the allocator adjusts.
\<close>

section \<open>Descriptors\<close>

record group_desc =
  gd_block_bitmap :: nat
  gd_inode_bitmap :: nat
  gd_inode_table :: nat
  gd_free_blocks_count :: nat
  gd_free_inodes_count :: nat
  gd_itable_unused :: nat

type_synonym gdt = "group_desc list"

text \<open>
  \<open>GroupDesc::from_raw\<close> on the 64 bytes of a \<open>RawGroupDesc\<close>, whose integers sit at the
  offsets the struct gives.
\<close>

definition from_raw :: "byte list \<Rightarrow> nat \<Rightarrow> group_desc" where
  "from_raw raw desc_size =
     (let hi32 = (\<lambda>off. if desc_size \<ge> 64 then le32 off raw else 0);
          hi16 = (\<lambda>off. if desc_size \<ge> 64 then le16 off raw else 0) in
      \<lparr>gd_block_bitmap = hi_lo 32 (hi32 32) (le32 0 raw),
       gd_inode_bitmap = hi_lo 32 (hi32 36) (le32 4 raw),
       gd_inode_table = hi_lo 32 (hi32 40) (le32 8 raw),
       gd_free_blocks_count = hi_lo 16 (hi16 44) (le16 12 raw),
       gd_free_inodes_count = hi_lo 16 (hi16 46) (le16 14 raw),
       gd_itable_unused = hi_lo 16 (le16 50 raw) (le16 28 raw)\<rparr>)"

datatype group_desc_error =
    GdOutOfRange nat nat
  | GdInvalidInode nat
  | GdBlockDevice bd_error
  | GdInvalidBuffer
  | GdTooManyGroups nat
  | GdTableSizeOverflow

section \<open>Loading the table\<close>

definition groups_count :: "superblock \<Rightarrow> (group_desc_error, nat) res" where
  "groups_count sb =
     (if sb_blocks_per_group sb = 0 then Err (GdTooManyGroups 0)
      else let count = div_ceil (sb_blocks_count sb) (sb_blocks_per_group sb) in
        if count > 2 ^ 21 then Err (GdTooManyGroups count) else Ok count)"

text \<open>One turn of the loop of \<open>GroupDescTable::load\<close>.\<close>

definition load_group :: "superblock \<Rightarrow> byte list \<Rightarrow> nat \<Rightarrow> (group_desc_error, group_desc) res" where
  "load_group sb raw_bytes i =
     rbind (ok_or GdTableSizeOverflow (checked_mul 64 i (sb_desc_size sb))) (\<lambda>off.
     let len = min (sb_desc_size sb) 64 in
     rbind (ok_or GdTableSizeOverflow (checked_add 64 off len)) (\<lambda>src_end.
     if src_end > length raw_bytes then Err GdInvalidBuffer
     else Ok (from_raw (patch 0 (bytes_at off len raw_bytes) (replicate 64 0)) (sb_desc_size sb))))"

definition gdt_load :: "disk \<Rightarrow> superblock \<Rightarrow> (group_desc_error, gdt) res" where
  "gdt_load dev sb =
     rbind (groups_count sb) (\<lambda>group_count.
     let gdt_block = sb_first_data_block sb + 1 in
     rbind (ok_or GdTableSizeOverflow (checked_mul 64 group_count (sb_desc_size sb))) (\<lambda>total_bytes.
     let start_sector = wmul 64 gdt_block (spb sb);
         count = div_ceil total_bytes 512 in
     rbind (map_err GdBlockDevice (read_sectors dev start_sector count)) (\<lambda>raw_bytes.
     rmap (load_group sb raw_bytes) [0..<group_count])))"

section \<open>Access and counters\<close>

definition gdt_get :: "gdt \<Rightarrow> nat \<Rightarrow> (group_desc_error, group_desc) res" where
  "gdt_get gdt i = (if i < length gdt then Ok (gdt ! i) else Err (GdOutOfRange i (length gdt)))"

definition group_for_inode :: "gdt \<Rightarrow> nat \<Rightarrow> superblock \<Rightarrow> (group_desc_error, group_desc) res" where
  "group_for_inode gdt inode_num sb =
     (if inode_num = 0 then Err (GdInvalidInode 0)
      else rbind (rassert (sb_inodes_per_group sb \<noteq> 0)) (\<lambda>_.
           gdt_get gdt ((inode_num - 1) div sb_inodes_per_group sb)))"

text \<open>\<open>(count as i64 + delta).max(0) as u32\<close>.\<close>

definition adjust_count :: "nat \<Rightarrow> int \<Rightarrow> nat" where
  "adjust_count c delta = nat (max (int c + delta) 0) mod 2 ^ 32"

definition gdt_update ::
  "nat \<Rightarrow> (group_desc \<Rightarrow> group_desc) \<Rightarrow> (gdt, group_desc_error, unit) st" where
  "gdt_update grp f = (\<lambda>gdt.
     if grp < length gdt then (Ok (), gdt[grp := f (gdt ! grp)])
     else (Err (GdOutOfRange grp (length gdt)), gdt))"

definition adjust_free_blocks :: "nat \<Rightarrow> int \<Rightarrow> (gdt, group_desc_error, unit) st" where
  "adjust_free_blocks grp delta =
     gdt_update grp (\<lambda>d. d\<lparr>gd_free_blocks_count := adjust_count (gd_free_blocks_count d) delta\<rparr>)"

definition adjust_free_inodes :: "nat \<Rightarrow> int \<Rightarrow> (gdt, group_desc_error, unit) st" where
  "adjust_free_inodes grp delta =
     gdt_update grp (\<lambda>d. d\<lparr>gd_free_inodes_count := adjust_count (gd_free_inodes_count d) delta\<rparr>)"

definition update_itable_unused :: "nat \<Rightarrow> nat \<Rightarrow> superblock \<Rightarrow> (gdt, group_desc_error, unit) st" where
  "update_itable_unused grp slot sb =
     gdt_update grp (\<lambda>d.
       let used_count = wadd 32 slot 1 in
       if used_count > sb_inodes_per_group sb then d
       else let unused_at_end = sb_inodes_per_group sb - used_count in
         if unused_at_end < gd_itable_unused d then d\<lparr>gd_itable_unused := unused_at_end\<rparr> else d)"

section \<open>Lemmas\<close>

lemma gdt_get_Ok_iff [simp]: "gdt_get gdt i = Ok d \<longleftrightarrow> i < length gdt \<and> d = gdt ! i"
  by (auto simp: gdt_get_def)

lemma length_gdt_update [simp]: "length (snd (gdt_update g f gdt)) = length gdt"
  by (simp add: gdt_update_def)

text \<open>Descriptors as 32- and 64-bit values: every counter fits its field.\<close>

definition gd_ok :: "group_desc \<Rightarrow> bool" where
  "gd_ok d \<longleftrightarrow> gd_block_bitmap d < 2 ^ 64 \<and> gd_inode_bitmap d < 2 ^ 64 \<and>
     gd_inode_table d < 2 ^ 64 \<and> gd_free_blocks_count d < 2 ^ 32 \<and>
     gd_free_inodes_count d < 2 ^ 32 \<and> gd_itable_unused d < 2 ^ 32"

definition gdt_ok :: "gdt \<Rightarrow> bool" where
  "gdt_ok gdt \<longleftrightarrow> (\<forall>d \<in> set gdt. gd_ok d)"

lemma gd_ok_from_raw: "gd_ok (from_raw raw ds)"
proof -
  have 32: "hi_lo 32 hi lo < 2 ^ 64" if "hi < 4294967296" "lo < 4294967296" for hi lo
    using hi_lo_less[of hi 32 lo 32] that by simp
  have 16: "hi_lo 16 hi lo < 2 ^ 32" if "hi < 65536" "lo < 65536" for hi lo
    using hi_lo_less[of hi 16 lo 16] that by simp
  show ?thesis
    unfolding gd_ok_def from_raw_def Let_def
    by (simp add: 32[simplified] 16[simplified] le16_less le32_less)
qed

lemma load_group_ok: "load_group sb raw i = Ok d \<Longrightarrow> gd_ok d"
  by (auto simp: load_group_def Let_def gd_ok_from_raw split: if_split_asm)

lemma gdt_load_ok: "gdt_load dev sb = Ok gdt \<Longrightarrow> gdt_ok gdt"
  by (auto simp: gdt_load_def Let_def gdt_ok_def dest: rmap_Ok_set load_group_ok)

lemma adjust_count_less: "adjust_count c delta < 2 ^ 32"
  by (simp add: adjust_count_def)

lemma adjust_count_small:
  "0 \<le> int c + delta \<Longrightarrow> int c + delta < 2 ^ 32 \<Longrightarrow> int (adjust_count c delta) = int c + delta"
  by (simp add: adjust_count_def zmod_int)

lemma adjust_count_down: "k \<le> c \<Longrightarrow> c < 2 ^ 32 \<Longrightarrow> adjust_count c (- int k) = c - k"
  by (simp add: adjust_count_def nat_diff_distrib' max_def)

lemma adjust_count_up: "c + k < 2 ^ 32 \<Longrightarrow> adjust_count c (int k) = c + k"
  by (simp add: adjust_count_def flip: of_nat_add)

lemma gdt_ok_nth: "gdt_ok gdt \<Longrightarrow> i < length gdt \<Longrightarrow> gd_ok (gdt ! i)"
  by (simp add: gdt_ok_def)

lemma gdt_ok_update:
  "gdt_ok gdt \<Longrightarrow> (\<And>d. gd_ok d \<Longrightarrow> gd_ok (f d)) \<Longrightarrow> gdt_ok (snd (gdt_update g f gdt))"
  by (auto simp: gdt_update_def gdt_ok_def dest: set_update_subset_insert[THEN subsetD])

end
