(* ===== verification/Transaction.thy ===== *)
theory Transaction
  imports Bytes
begin

text \<open>
  The pending transaction (\<open>Transaction\<close> in \<open>ext4-core/src/journal/writer.rs\<close>): the
  blocks pinned for the journal, at most one version per block, and the revoked ones.
  Most of the write path reads a block through its pinned version, so the store is given
  as an interface, the locale \<open>pin_store\<close>.
\<close>

record transaction =
  txn_sequence :: nat
  txn_blocks :: "(nat \<times> byte list) list"
  txn_revoked :: "nat list"

definition txn_new :: "nat \<Rightarrow> transaction" where
  "txn_new seq = \<lparr>txn_sequence = seq, txn_blocks = [], txn_revoked = []\<rparr>"

text \<open>The first entry for the block gets the new data; otherwise one is appended.\<close>

primrec pin_in :: "nat \<Rightarrow> byte list \<Rightarrow> (nat \<times> byte list) list \<Rightarrow> (nat \<times> byte list) list" where
  "pin_in b data [] = [(b, data)]"
| "pin_in b data (e # es) = (if fst e = b then (b, data) # es else e # pin_in b data es)"

definition pin_block :: "nat \<Rightarrow> byte list \<Rightarrow> transaction \<Rightarrow> transaction" where
  "pin_block b data txn = txn\<lparr>txn_blocks := pin_in b data (txn_blocks txn)\<rparr>"

definition revoke_block :: "nat \<Rightarrow> transaction \<Rightarrow> transaction" where
  "revoke_block b txn = txn\<lparr>txn_revoked := txn_revoked txn @ [b]\<rparr>"

definition txn_is_empty :: "transaction \<Rightarrow> bool" where
  "txn_is_empty txn \<longleftrightarrow> txn_blocks txn = [] \<and> txn_revoked txn = []"

text \<open>
  \<open>pinned_blocks().iter().rev().find(|(b, _)| *b == block)\<close>, the lookup that the inode,
  extent and directory code shares.
\<close>

definition pinned :: "transaction \<Rightarrow> nat \<Rightarrow> byte list option" where
  "pinned txn b = map_option snd (find (\<lambda>(c, _). c = b) (rev (txn_blocks txn)))"

section \<open>At most one version per block\<close>

definition txn_ok :: "transaction \<Rightarrow> bool" where
  "txn_ok txn \<longleftrightarrow> distinct (map fst (txn_blocks txn))"

lemma fst_pin_in: "fst ` set (pin_in b data es) = insert b (fst ` set es)"
  by (induction es) auto

lemma distinct_pin_in: "distinct (map fst es) \<Longrightarrow> distinct (map fst (pin_in b data es))"
proof (induction es)
  case (Cons e es)
  have "fst ` set (pin_in b data es) = insert b (fst ` set es)" by (rule fst_pin_in)
  with Cons show ?case by (auto simp: image_iff)
qed simp

lemma map_of_pin_in: "map_of (pin_in b data es) = (map_of es)(b \<mapsto> data)"
  by (induction es) (auto simp: fun_eq_iff)

lemma map_of_pin_in_same: "map_of (pin_in b data es) b = Some data"
  by (simp add: map_of_pin_in)

lemma find_map_of: "map_option snd (find (\<lambda>(c, _). c = b) es) = map_of es b"
  by (induction es) auto

lemma map_of_rev: "distinct (map fst es) \<Longrightarrow> map_of (rev es) = map_of es"
  by (rule map_of_eqI) (auto simp: rev_map[symmetric] map_of_eq_None_iff dom_map_of_conv_image_fst
    intro: map_of_is_SomeI dest: map_of_SomeD)

lemma pinned_map_of: "txn_ok txn \<Longrightarrow> pinned txn b = map_of (txn_blocks txn) b"
  by (simp add: pinned_def find_map_of map_of_rev txn_ok_def)

lemma txn_ok_new: "txn_ok (txn_new seq)"
  by (simp add: txn_ok_def txn_new_def)

lemma txn_ok_pin: "txn_ok txn \<Longrightarrow> txn_ok (pin_block b data txn)"
  by (simp add: txn_ok_def pin_block_def distinct_pin_in)

lemma txn_ok_revoke: "txn_ok txn \<Longrightarrow> txn_ok (revoke_block b txn)"
  by (simp add: txn_ok_def revoke_block_def)

lemma pinned_pin:
  "txn_ok txn \<Longrightarrow> pinned (pin_block b data txn) = (pinned txn)(b \<mapsto> data)"
  using txn_ok_pin[of txn b data]
  by (simp add: fun_eq_iff pinned_map_of) (simp add: pin_block_def map_of_pin_in)

lemma pinned_revoke: "pinned (revoke_block b txn) = pinned txn"
  by (simp add: fun_eq_iff pinned_def revoke_block_def)

section \<open>The pin store as an interface\<close>

locale pin_store =
  fixes pin :: "nat \<Rightarrow> 'v \<Rightarrow> 't \<Rightarrow> 't"
    and lookup :: "'t \<Rightarrow> nat \<Rightarrow> 'v option"
    and ok :: "'t \<Rightarrow> bool"
  assumes pin_ok: "ok t \<Longrightarrow> ok (pin b v t)"
    and lookup_pin: "ok t \<Longrightarrow> lookup (pin b v t) = (lookup t)(b \<mapsto> v)"
begin

lemma lookup_pin_same: "ok t \<Longrightarrow> lookup (pin b v t) b = Some v"
  by (simp add: lookup_pin)

lemma lookup_pin_other: "ok t \<Longrightarrow> c \<noteq> b \<Longrightarrow> lookup (pin b v t) c = lookup t c"
  by (simp add: lookup_pin)

lemma lookup_pin_pin: "ok t \<Longrightarrow> lookup (pin b v (pin b w t)) = lookup (pin b v t)"
  by (simp add: lookup_pin pin_ok)

lemma lookup_pins:
  "ok t \<Longrightarrow> ok (fold (\<lambda>(b, v). pin b v) bvs t) \<and>
   lookup (fold (\<lambda>(b, v). pin b v) bvs t) = lookup t ++ map_of (rev bvs)"
proof (induction bvs arbitrary: t)
  case (Cons bv bvs)
  have "ok (pin (fst bv) (snd bv) t)" using Cons.prems by (rule pin_ok)
  from Cons.IH[OF this] Cons.prems show ?case
    by (auto simp: lookup_pin case_prod_beta map_add_def fun_eq_iff split: option.split)
qed simp

end

interpretation txn_pins: pin_store pin_block pinned txn_ok
  by unfold_locales (simp_all add: txn_ok_pin pinned_pin)

end
