(* ===== verification/Inode.thy ===== *)
theory Inode
  imports Group_Desc Transaction
begin

text \<open>
  Inodes (\<open>ext4-core/src/inode.rs\<close>): the 128-byte on-disk inode and its fields, decoding,
  and reading an inode from the device or, inside a transaction, from the pinned version
  of its inode-table block.
\<close>

section \<open>The on-disk inode\<close>

text \<open>
  A \<open>RawInode\<close> is a view of its 128 bytes, as in the code (\<open>mut_from\<close>, \<open>as_bytes\<close>);
  its fields are reads at the offsets of the struct.
\<close>

type_synonym raw_inode = "byte list"

definition i_mode :: "raw_inode \<Rightarrow> nat" where "i_mode raw = le16 0 raw"
definition i_uid :: "raw_inode \<Rightarrow> nat" where "i_uid raw = le16 2 raw"
definition i_size_lo :: "raw_inode \<Rightarrow> nat" where "i_size_lo raw = le32 4 raw"
definition i_atime :: "raw_inode \<Rightarrow> nat" where "i_atime raw = le32 8 raw"
definition i_ctime :: "raw_inode \<Rightarrow> nat" where "i_ctime raw = le32 12 raw"
definition i_mtime :: "raw_inode \<Rightarrow> nat" where "i_mtime raw = le32 16 raw"
definition i_dtime :: "raw_inode \<Rightarrow> nat" where "i_dtime raw = le32 20 raw"
definition i_gid :: "raw_inode \<Rightarrow> nat" where "i_gid raw = le16 24 raw"
definition i_links_count :: "raw_inode \<Rightarrow> nat" where "i_links_count raw = le16 26 raw"
definition i_blocks_lo :: "raw_inode \<Rightarrow> nat" where "i_blocks_lo raw = le32 28 raw"
definition i_flags :: "raw_inode \<Rightarrow> nat" where "i_flags raw = le32 32 raw"
definition i_block :: "raw_inode \<Rightarrow> byte list" where "i_block raw = bytes_at 40 60 raw"
definition i_size_hi :: "raw_inode \<Rightarrow> nat" where "i_size_hi raw = le32 108 raw"
definition i_uid_hi :: "raw_inode \<Rightarrow> nat" where "i_uid_hi raw = le16 120 raw"
definition i_gid_hi :: "raw_inode \<Rightarrow> nat" where "i_gid_hi raw = le16 122 raw"

definition raw_inode_read_from :: "byte list \<Rightarrow> raw_inode option" where
  "raw_inode_read_from bs = (if length bs = 128 then Some bs else None)"

lemmas raw_inode_defs = i_mode_def i_uid_def i_size_lo_def i_atime_def i_ctime_def i_mtime_def
  i_dtime_def i_gid_def i_links_count_def i_blocks_lo_def i_flags_def i_block_def i_size_hi_def
  i_uid_hi_def i_gid_hi_def

section \<open>The decoded inode\<close>

datatype file_type = Regular | Directory | Symlink | Other

record inode =
  ino_mode :: nat
  ino_uid :: nat
  ino_gid :: nat
  ino_size :: nat
  ino_atime :: nat
  ino_mtime :: nat
  ino_ctime :: nat
  ino_links_count :: nat
  ino_flags :: nat
  ino_block_data :: "byte list"

definition S_IFMT :: nat where "S_IFMT = 0xF000"
definition S_IFREG :: nat where "S_IFREG = 0x8000"
definition S_IFDIR :: nat where "S_IFDIR = 0x4000"
definition S_IFLNK :: nat where "S_IFLNK = 0xA000"

definition inode_file_type :: "inode \<Rightarrow> file_type" where
  "inode_file_type ino =
     (let t = ino_mode ino AND S_IFMT in
      if t = S_IFREG then Regular
      else if t = S_IFDIR then Directory
      else if t = S_IFLNK then Symlink
      else Other)"

definition is_dir :: "inode \<Rightarrow> bool" where
  "is_dir ino \<longleftrightarrow> inode_file_type ino = Directory"

definition is_file :: "inode \<Rightarrow> bool" where
  "is_file ino \<longleftrightarrow> inode_file_type ino = Regular"

definition is_symlink :: "inode \<Rightarrow> bool" where
  "is_symlink ino \<longleftrightarrow> inode_file_type ino = Symlink"

definition uses_extents :: "inode \<Rightarrow> bool" where
  "uses_extents ino \<longleftrightarrow> ino_flags ino AND 0x80000 \<noteq> 0"

datatype inode_error =
    InoOutOfRange nat nat
  | InoDeleted nat
  | InoBlockDevice bd_error
  | InoGroupDesc group_desc_error
  | InoInvalidBuffer

definition parse_raw :: "raw_inode \<Rightarrow> inode" where
  "parse_raw raw =
     \<lparr>ino_mode = i_mode raw,
      ino_uid = hi_lo 16 (i_uid_hi raw) (i_uid raw),
      ino_gid = hi_lo 16 (i_gid_hi raw) (i_gid raw),
      ino_size = hi_lo 32 (i_size_hi raw) (i_size_lo raw),
      ino_atime = i_atime raw,
      ino_mtime = i_mtime raw,
      ino_ctime = i_ctime raw,
      ino_links_count = i_links_count raw,
      ino_flags = i_flags raw,
      ino_block_data = i_block raw\<rparr>"

text \<open>The tail both readers share: a deleted inode is an error.\<close>

definition decode_inode :: "nat \<Rightarrow> raw_inode \<Rightarrow> (inode_error, inode) res" where
  "decode_inode inode_num raw =
     (if i_dtime raw \<noteq> 0 then Err (InoDeleted inode_num) else Ok (parse_raw raw))"

section \<open>Reading\<close>

definition read_inode :: "disk \<Rightarrow> superblock \<Rightarrow> gdt \<Rightarrow> nat \<Rightarrow> (inode_error, inode) res" where
  "read_inode dev sb gdt inode_num =
     (if inode_num = 0 \<or> inode_num > sb_inodes_count sb
      then Err (InoOutOfRange inode_num (sb_inodes_count sb))
      else
      rbind (rassert (sb_inodes_per_group sb \<noteq> 0)) (\<lambda>_.
      let grp = (inode_num - 1) div sb_inodes_per_group sb;
          index_in_group = (inode_num - 1) mod sb_inodes_per_group sb in
      rbind (map_err InoGroupDesc (gdt_get gdt grp)) (\<lambda>desc.
      let inode_size = sb_inode_size sb;
          offset_in_table = wmul 64 index_in_group inode_size;
          block_byte_offset = wmul 64 (gd_inode_table desc) (sb_block_size sb);
          byte_offset = wadd 64 block_byte_offset offset_in_table;
          start_sector = byte_offset div 512;
          off = byte_offset mod 512;
          sectors_needed = div_ceil (off + inode_size) 512 in
      rbind (map_err InoBlockDevice (read_sectors dev start_sector sectors_needed)) (\<lambda>raw_bytes.
      if off + 128 > length raw_bytes then Err InoInvalidBuffer
      else rbind (ok_or InoInvalidBuffer (raw_inode_read_from (bytes_at off 128 raw_bytes)))
             (decode_inode inode_num)))))"

definition read_inode_with_txn ::
  "disk \<Rightarrow> superblock \<Rightarrow> gdt \<Rightarrow> transaction \<Rightarrow> nat \<Rightarrow> (inode_error, inode) res" where
  "read_inode_with_txn dev sb gdt txn inode_num =
     (if inode_num = 0 \<or> inode_num > sb_inodes_count sb
      then Err (InoOutOfRange inode_num (sb_inodes_count sb))
      else
      rbind (rassert (sb_inodes_per_group sb \<noteq> 0)) (\<lambda>_.
      let grp = (inode_num - 1) div sb_inodes_per_group sb;
          index_in_group = (inode_num - 1) mod sb_inodes_per_group sb in
      rbind (map_err InoGroupDesc (gdt_get gdt grp)) (\<lambda>desc.
      let inode_size = sb_inode_size sb in
      rbind (rassert (inode_size \<noteq> 0)) (\<lambda>_.
      let inodes_per_block = sb_block_size sb div inode_size in
      rbind (rassert (inodes_per_block \<noteq> 0)) (\<lambda>_.
      let block_index_in_table = index_in_group div inodes_per_block;
          phys_block = wadd 64 (gd_inode_table desc) block_index_in_table;
          offset_in_block = index_in_group mod inodes_per_block * inode_size in
      case pinned txn phys_block of
        Some blk \<Rightarrow>
          rbind (slice_r offset_in_block 128 blk) (\<lambda>bs.
          rbind (ok_or InoInvalidBuffer (raw_inode_read_from bs)) (decode_inode inode_num))
      | None \<Rightarrow> read_inode dev sb gdt inode_num)))))"

section \<open>Bounds of a decoded inode\<close>

definition inode_ok :: "inode \<Rightarrow> bool" where
  "inode_ok ino \<longleftrightarrow> ino_mode ino < 2 ^ 16 \<and> ino_uid ino < 2 ^ 32 \<and> ino_gid ino < 2 ^ 32 \<and>
     ino_size ino < 2 ^ 64 \<and> ino_links_count ino < 2 ^ 16 \<and> length (ino_block_data ino) = 60"

lemma inode_ok_parse_raw: "length raw = 128 \<Longrightarrow> inode_ok (parse_raw raw)"
proof -
  have 32: "hi_lo 32 hi lo < 2 ^ 64" if "hi < 4294967296" "lo < 4294967296" for hi lo
    using hi_lo_less[of hi 32 lo 32] that by simp
  have 16: "hi_lo 16 hi lo < 2 ^ 32" if "hi < 65536" "lo < 65536" for hi lo
    using hi_lo_less[of hi 16 lo 16] that by simp
  show "length raw = 128 \<Longrightarrow> inode_ok (parse_raw raw)"
    unfolding inode_ok_def parse_raw_def raw_inode_defs
    by (simp add: 32[simplified] 16[simplified] le16_less[simplified] le32_less)
qed

lemma decode_inode_ok: "decode_inode n raw = Ok ino \<Longrightarrow> length raw = 128 \<Longrightarrow> inode_ok ino"
  by (auto simp: decode_inode_def inode_ok_parse_raw split: if_splits)

lemma raw_inode_read_from_Some [simp]:
  "raw_inode_read_from bs = Some raw \<longleftrightarrow> length bs = 128 \<and> raw = bs"
  by (auto simp: raw_inode_read_from_def)

lemma read_inode_ok: "read_inode dev sb gdt n = Ok ino \<Longrightarrow> inode_ok ino"
  by (auto simp: read_inode_def Let_def split: if_split_asm intro: decode_inode_ok)

lemma read_inode_with_txn_ok: "read_inode_with_txn dev sb gdt txn n = Ok ino \<Longrightarrow> inode_ok ino"
  by (auto simp: read_inode_with_txn_def Let_def split: if_split_asm option.split_asm
      intro: decode_inode_ok read_inode_ok)

end
