(* ===== verification/Extent.thy ===== *)
theory Extent
  imports Inode
begin

text \<open>
  Extent trees, read side (\<open>ext4-core/src/extent.rs\<close>): nodes as byte buffers, lookup of
  a logical block, and collecting the leaves. The code follows child pointers without
  checking that a child's depth is smaller than its parent's, so the two recursions take
  fuel; \<open>Diverge\<close> is a recursion that the fuel does not cover.
\<close>

section \<open>Nodes\<close>

definition EXTENT_MAGIC :: nat where "EXTENT_MAGIC = 0xF30A"
definition MAX_DEPTH :: nat where "MAX_DEPTH = 5"
definition MAX_TOTAL_LEAVES :: nat where "MAX_TOTAL_LEAVES = 2 ^ 21"

record extent_header =
  eh_magic :: nat
  eh_entries :: nat
  eh_max :: nat
  eh_depth :: nat

record extent_idx =
  ei_block :: nat
  ei_leaf_lo :: nat
  ei_leaf_hi :: nat

record extent_leaf =
  ee_block :: nat
  ee_len :: nat
  ee_start_hi :: nat
  ee_start_lo :: nat

definition header_of :: "byte list \<Rightarrow> extent_header" where
  "header_of bs = \<lparr>eh_magic = le16 0 bs, eh_entries = le16 2 bs, eh_max = le16 4 bs,
                   eh_depth = le16 6 bs\<rparr>"

definition idx_at :: "byte list \<Rightarrow> nat \<Rightarrow> extent_idx" where
  "idx_at bs i = (let off = 12 + i * 12 in
     \<lparr>ei_block = le32 off bs, ei_leaf_lo = le32 (off + 4) bs, ei_leaf_hi = le16 (off + 8) bs\<rparr>)"

definition leaf_at :: "byte list \<Rightarrow> nat \<Rightarrow> extent_leaf" where
  "leaf_at bs i = (let off = 12 + i * 12 in
     \<lparr>ee_block = le32 off bs, ee_len = le16 (off + 4) bs, ee_start_hi = le16 (off + 6) bs,
      ee_start_lo = le32 (off + 8) bs\<rparr>)"

definition idx_child :: "extent_idx \<Rightarrow> nat" where
  "idx_child idx = hi_lo 32 (ei_leaf_hi idx) (ei_leaf_lo idx)"

definition leaf_start :: "extent_leaf \<Rightarrow> nat" where
  "leaf_start l = hi_lo 32 (ee_start_hi l) (ee_start_lo l)"

datatype extent_error =
    ExBadMagic nat
  | ExUnsupportedBlockMap
  | ExDepthExceeded nat
  | ExTruncatedNode
  | ExBlockNumberOverflow
  | ExTooManyLeaves
  | ExBlockDevice bd_error

definition extent_read_block :: "disk \<Rightarrow> superblock \<Rightarrow> nat \<Rightarrow> (extent_error, byte list) res" where
  "extent_read_block dev sb block =
     rbind (ok_or ExBlockNumberOverflow (checked_mul 64 block (spb sb))) (\<lambda>start_sector.
     map_err ExBlockDevice (read_sectors dev start_sector (spb sb)))"

text \<open>The checks both walks make on a node before they look at its entries.\<close>

definition check_node :: "byte list \<Rightarrow> (extent_error, extent_header) res" where
  "check_node node =
     (if length node < 12 then Err ExTruncatedNode
      else let h = header_of node in
        if eh_magic h \<noteq> EXTENT_MAGIC then Err (ExBadMagic (eh_magic h))
        else if eh_depth h > MAX_DEPTH then Err (ExDepthExceeded (eh_depth h))
        else if length node < sat_add 64 12 (sat_mul 64 (eh_entries h) 12) then Err ExTruncatedNode
        else Ok h)"

section \<open>Lookup\<close>

text \<open>The loop over the leaf entries: the first initialized extent that covers the block.\<close>

primrec lookup_leaves :: "extent_leaf list \<Rightarrow> nat \<Rightarrow> (extent_error, nat option) res" where
  "lookup_leaves [] lblock = Ok None"
| "lookup_leaves (l # ls) lblock =
     (if ee_len l > 32768 then lookup_leaves ls lblock
      else if ee_block l \<le> lblock \<and> lblock < ee_block l + ee_len l
        then rbind (ok_or ExBlockNumberOverflow (checked_add 64 (leaf_start l) (lblock - ee_block l)))
               (\<lambda>phys. Ok (Some phys))
      else lookup_leaves ls lblock)"

text \<open>The loop over the index entries: the last one at or below the block, stopping early.\<close>

primrec best_child :: "extent_idx list \<Rightarrow> nat \<Rightarrow> nat option \<Rightarrow> nat option" where
  "best_child [] lblock best = best"
| "best_child (x # xs) lblock best =
     (if ei_block x \<le> lblock then best_child xs lblock (Some (idx_child x)) else best)"

definition leaves_of :: "byte list \<Rightarrow> extent_leaf list" where
  "leaves_of node = map (leaf_at node) [0..<eh_entries (header_of node)]"

definition idxs_of :: "byte list \<Rightarrow> extent_idx list" where
  "idxs_of node = map (idx_at node) [0..<eh_entries (header_of node)]"

primrec lookup_in_node ::
  "nat \<Rightarrow> disk \<Rightarrow> superblock \<Rightarrow> byte list \<Rightarrow> nat \<Rightarrow> (extent_error, nat option) res" where
  "lookup_in_node 0 dev sb node lblock = Diverge"
| "lookup_in_node (Suc fuel) dev sb node lblock =
     rbind (check_node node) (\<lambda>h.
     if eh_depth h = 0 then lookup_leaves (leaves_of node) lblock
     else case best_child (idxs_of node) lblock None of
            None \<Rightarrow> Ok None
          | Some child_block \<Rightarrow>
              rbind (extent_read_block dev sb child_block) (\<lambda>child_data.
              lookup_in_node fuel dev sb child_data lblock))"

text \<open>
  A walk that follows more pointers than the device has sectors has read some block twice
  and never ends (in the program, the stack overflows); a tree whose depths decrease has
  at most six levels. This fuel covers both.
\<close>

definition tree_fuel :: "disk \<Rightarrow> nat" where "tree_fuel dev = sector_count dev + 6"

definition lookup_block ::
  "disk \<Rightarrow> superblock \<Rightarrow> inode \<Rightarrow> nat \<Rightarrow> (extent_error, nat option) res" where
  "lookup_block dev sb ino lblock =
     (if \<not> uses_extents ino then Err ExUnsupportedBlockMap
      else lookup_in_node (tree_fuel dev) dev sb (ino_block_data ino) lblock)"

section \<open>Collecting the leaves\<close>

text \<open>
  \<open>out\<close> is the vector the code appends to; the loop over the children of an index node
  passes it on.
\<close>

primrec collect_leaves ::
  "nat \<Rightarrow> disk \<Rightarrow> superblock \<Rightarrow> byte list \<Rightarrow> extent_leaf list \<Rightarrow> (extent_error, extent_leaf list) res"
where
  "collect_leaves 0 dev sb node out = Diverge"
| "collect_leaves (Suc fuel) dev sb node out =
     rbind (check_node node) (\<lambda>h.
     if eh_depth h = 0 then
       (if sat_add 64 (length out) (eh_entries h) > MAX_TOTAL_LEAVES then Err ExTooManyLeaves
        else Ok (out @ leaves_of node))
     else foldl (\<lambda>acc idx. rbind acc (\<lambda>o1.
            rbind (extent_read_block dev sb (idx_child idx)) (\<lambda>child_data.
            collect_leaves fuel dev sb child_data o1))) (Ok out) (idxs_of node))"

definition collect_leaves_pub ::
  "disk \<Rightarrow> superblock \<Rightarrow> inode \<Rightarrow> (extent_error, extent_leaf list) res" where
  "collect_leaves_pub dev sb ino =
     (if \<not> uses_extents ino then Err ExUnsupportedBlockMap
      else collect_leaves (tree_fuel dev) dev sb (ino_block_data ino) [])"

section \<open>The extent iterator\<close>

text \<open>
  \<open>ExtentIter\<close>: the leaves sorted by their first block (a stable sort), a cursor into
  them, and the next logical block to yield.
\<close>

record extent_iter =
  it_leaves :: "extent_leaf list"
  it_leaf_idx :: nat
  it_next_lblock :: nat
  it_total_lblocks :: nat

definition extent_iter_new :: "disk \<Rightarrow> superblock \<Rightarrow> inode \<Rightarrow> (extent_error, extent_iter) res" where
  "extent_iter_new dev sb ino =
     rbind (collect_leaves_pub dev sb ino) (\<lambda>leaves.
     rbind (rassert (sb_block_size sb \<noteq> 0)) (\<lambda>_.
     Ok \<lparr>it_leaves = sort_key ee_block leaves, it_leaf_idx = 0, it_next_lblock = 0,
         it_total_lblocks = div_ceil (ino_size ino) (sb_block_size sb)\<rparr>))"

text \<open>
  The inner loop of \<open>next\<close> over the leaves not yet passed: what the block maps to and how
  many leaves were skipped.
\<close>

primrec iter_scan :: "extent_leaf list \<Rightarrow> nat \<Rightarrow> (extent_error, nat option) res \<times> nat" where
  "iter_scan [] lblock = (Ok None, 0)"
| "iter_scan (l # ls) lblock =
     (let is_uninit = ee_len l > 32768;
          count = (if is_uninit then ee_len l - 32768 else ee_len l) in
      if lblock < ee_block l then (Ok None, 0)
      else if lblock < ee_block l + count then
        (if is_uninit then (Ok None, 0)
         else (map_res id Some (ok_or ExBlockNumberOverflow
                 (checked_add 64 (leaf_start l) (lblock - ee_block l))), 0))
      else (case iter_scan ls lblock of (r, k) \<Rightarrow> (r, Suc k)))"

definition extent_iter_next ::
  "extent_iter \<Rightarrow> (extent_error, nat \<times> nat option) res option \<times> extent_iter" where
  "extent_iter_next it =
     (if it_next_lblock it \<ge> it_total_lblocks it then (None, it)
      else case iter_scan (drop (it_leaf_idx it) (it_leaves it)) (it_next_lblock it) of
        (r, k) \<Rightarrow>
          (Some (map_res id (\<lambda>p. (it_next_lblock it, p)) r),
           it\<lparr>it_leaf_idx := it_leaf_idx it + k, it_next_lblock := it_next_lblock it + 1\<rparr>))"

end
