(* ===== verification/Dir.thy ===== *)
theory Dir
  imports Extent
begin

text \<open>
  Directories, read side (\<open>ext4-core/src/dir.rs\<close>): parsing the variable-length records of
  a directory block, listing a directory, and looking a name up.
\<close>

record dir_entry =
  de_inode_num :: nat
  de_name :: "byte list"
  de_file_type :: nat

definition FT_UNKNOWN :: nat where "FT_UNKNOWN = 0"
definition FT_REG_FILE :: nat where "FT_REG_FILE = 1"
definition FT_DIR :: nat where "FT_DIR = 2"
definition FT_SYMLINK :: nat where "FT_SYMLINK = 7"

definition MAX_DIR_BLOCKS :: nat where "MAX_DIR_BLOCKS = 65536"

datatype dir_error =
    DirNotADirectory
  | DirInvalidRecLen nat
  | DirSizeTooLarge
  | DirBlockNumberOverflow
  | DirExtent extent_error
  | DirBlockDevice bd_error

section \<open>Records\<close>

text \<open>The fixed part of the record at \<open>pos\<close>: inode number, record length, name length, type.\<close>

definition rec_inode :: "byte list \<Rightarrow> nat \<Rightarrow> nat" where "rec_inode buf pos = le32 pos buf"
definition rec_len :: "byte list \<Rightarrow> nat \<Rightarrow> nat" where "rec_len buf pos = le16 (pos + 4) buf"
definition rec_name_len :: "byte list \<Rightarrow> nat \<Rightarrow> nat" where "rec_name_len buf pos = u8_at (pos + 6) buf"
definition rec_file_type :: "byte list \<Rightarrow> nat \<Rightarrow> nat" where "rec_file_type buf pos = u8_at (pos + 7) buf"

lemmas rec_defs = rec_inode_def rec_len_def rec_name_len_def rec_file_type_def

definition parse_dirent :: "byte list \<Rightarrow> nat \<Rightarrow> (dir_error, (dir_entry \<times> nat) option) res" where
  "parse_dirent buf offset =
     (if length buf < offset then Panic
      else if length buf - offset < 8 then Ok None
      else let inode_num = rec_inode buf offset;
               rl = rec_len buf offset;
               name_len = rec_name_len buf offset;
               ft = rec_file_type buf offset in
        if rl < 8 then Err (DirInvalidRecLen rl)
        else if offset + rl > length buf then Err (DirInvalidRecLen rl)
        else if name_len > rl - 8 then Err (DirInvalidRecLen rl)
        else if inode_num = 0 then
          Ok (Some (\<lparr>de_inode_num = 0, de_name = [], de_file_type = ft\<rparr>, rl))
        else
          Ok (Some (\<lparr>de_inode_num = inode_num,
                     de_name = utf8_lossy (bytes_at (offset + 8) name_len buf),
                     de_file_type = ft\<rparr>, rl)))"

lemma parse_dirent_consumed: "parse_dirent buf off = Ok (Some (e, n)) \<Longrightarrow> 8 \<le> n \<and> off + n \<le> length buf"
  by (auto simp: parse_dirent_def Let_def split: if_split_asm)

text \<open>
  The scan of \<open>parse_block_entries\<close> from a position: the live entries in order, the
  first malformed record stops it.
\<close>

function parse_entries_from :: "byte list \<Rightarrow> nat \<Rightarrow> (dir_error, dir_entry list) res" where
  "parse_entries_from block pos =
     (if pos < length block then
        rbind (parse_dirent block pos) (\<lambda>r.
          case r of
            None \<Rightarrow> Ok []
          | Some (entry, consumed) \<Rightarrow>
              rbind (parse_entries_from block (pos + consumed)) (\<lambda>es.
              Ok (if de_inode_num entry \<noteq> 0 then entry # es else es)))
      else Ok [])"
  by pat_completeness auto
termination
  by (relation "measure (\<lambda>(block, pos). length block - pos)")
     (auto dest!: parse_dirent_consumed)

declare parse_entries_from.simps [simp del]

definition parse_block_entries :: "byte list \<Rightarrow> dir_entry list \<Rightarrow> (dir_error, dir_entry list) res" where
  "parse_block_entries block out = rbind (parse_entries_from block 0) (\<lambda>es. Ok (out @ es))"

text \<open>The inner loop of \<open>lookup\<close>.\<close>

function lookup_from :: "byte list \<Rightarrow> byte list \<Rightarrow> nat \<Rightarrow> (dir_error, nat option) res" where
  "lookup_from name block pos =
     (if pos < length block then
        rbind (parse_dirent block pos) (\<lambda>r.
          case r of
            None \<Rightarrow> Ok None
          | Some (entry, consumed) \<Rightarrow>
              if de_inode_num entry \<noteq> 0 \<and> de_name entry = name then Ok (Some (de_inode_num entry))
              else lookup_from name block (pos + consumed))
      else Ok None)"
  by pat_completeness auto
termination
  by (relation "measure (\<lambda>(name, block, pos). length block - pos)")
     (auto dest!: parse_dirent_consumed)

declare lookup_from.simps [simp del]

section \<open>Directories\<close>

definition dir_read_block :: "disk \<Rightarrow> superblock \<Rightarrow> nat \<Rightarrow> (dir_error, byte list) res" where
  "dir_read_block dev sb block =
     rbind (ok_or DirBlockNumberOverflow (checked_mul 64 block (spb sb))) (\<lambda>start_sector.
     map_err DirBlockDevice (read_sectors dev start_sector (spb sb)))"

text \<open>The guards of \<open>read_dir\<close> and \<open>lookup\<close>, and the number of blocks to scan.\<close>

definition dir_block_count :: "superblock \<Rightarrow> inode \<Rightarrow> (dir_error, nat) res" where
  "dir_block_count sb dir_inode =
     (if \<not> is_dir dir_inode then Err DirNotADirectory
      else rbind (rassert (sb_block_size sb \<noteq> 0)) (\<lambda>_.
        let block_count = div_ceil (ino_size dir_inode) (sb_block_size sb) in
        if block_count > MAX_DIR_BLOCKS then Err DirSizeTooLarge else Ok block_count))"

text \<open>The block at a logical position of the directory; a hole has none.\<close>

definition dir_block_at ::
  "disk \<Rightarrow> superblock \<Rightarrow> inode \<Rightarrow> nat \<Rightarrow> (dir_error, byte list option) res" where
  "dir_block_at dev sb dir_inode lblock =
     rbind (map_err DirExtent (lookup_block dev sb dir_inode lblock)) (\<lambda>phys.
       case phys of
         None \<Rightarrow> Ok None
       | Some block_num \<Rightarrow> rbind (dir_read_block dev sb block_num) (\<lambda>b. Ok (Some b)))"

definition read_dir :: "disk \<Rightarrow> superblock \<Rightarrow> gdt \<Rightarrow> inode \<Rightarrow> (dir_error, dir_entry list) res" where
  "read_dir dev sb gdt dir_inode =
     rbind (dir_block_count sb dir_inode) (\<lambda>block_count.
     foldl (\<lambda>acc lblock. rbind acc (\<lambda>entries.
         rbind (dir_block_at dev sb dir_inode lblock) (\<lambda>blk.
           case blk of None \<Rightarrow> Ok entries | Some block_data \<Rightarrow> parse_block_entries block_data entries)))
       (Ok []) [0..<block_count])"

text \<open>The outer loop of \<open>lookup\<close> over the logical blocks.\<close>

primrec lookup_blocks ::
  "disk \<Rightarrow> superblock \<Rightarrow> inode \<Rightarrow> byte list \<Rightarrow> nat list \<Rightarrow> (dir_error, nat option) res" where
  "lookup_blocks dev sb dir_inode name [] = Ok None"
| "lookup_blocks dev sb dir_inode name (lblock # ls) =
     rbind (dir_block_at dev sb dir_inode lblock) (\<lambda>blk.
       case blk of
         None \<Rightarrow> lookup_blocks dev sb dir_inode name ls
       | Some block_data \<Rightarrow>
           rbind (lookup_from name block_data 0) (\<lambda>r.
             case r of
               Some n \<Rightarrow> Ok (Some n)
             | None \<Rightarrow> lookup_blocks dev sb dir_inode name ls))"

definition dir_lookup ::
  "disk \<Rightarrow> superblock \<Rightarrow> gdt \<Rightarrow> inode \<Rightarrow> byte list \<Rightarrow> (dir_error, nat option) res" where
  "dir_lookup dev sb gdt dir_inode name =
     rbind (dir_block_count sb dir_inode) (\<lambda>block_count.
     lookup_blocks dev sb dir_inode name [0..<block_count])"

end
