(* ===== verification/File_Reader.thy ===== *)
theory File_Reader
  imports Extent
begin

text \<open>
  Reading a file (\<open>ext4-core/src/file.rs\<close>): a \<open>FileReader\<close> holds the extent leaves of its
  inode sorted by first block, resolves logical blocks by binary search in them, and
  reads and seeks like any Rust reader; short symlinks are read from the inode.
\<close>

datatype file_error =
    FileNotAFile
  | FileSlowSymlink
  | FileExtent extent_error
  | FileBlockDevice bd_error

text \<open>The kinds of \<open>io::Error\<close> that reading and seeking build.\<close>

datatype io_error = IoInvalidData | IoOther | IoInvalidInput

record file_reader =
  fr_inode :: inode
  fr_position :: nat
  fr_leaves :: "extent_leaf list"

definition file_reader_new :: "disk \<Rightarrow> superblock \<Rightarrow> inode \<Rightarrow> (file_error, file_reader) res" where
  "file_reader_new dev sb ino =
     (if \<not> is_file ino \<and> \<not> is_symlink ino then Err FileNotAFile
      else rbind (map_err FileExtent (collect_leaves_pub dev sb ino)) (\<lambda>leaves.
        Ok \<lparr>fr_inode = ino, fr_position = 0, fr_leaves = sort_key ee_block leaves\<rparr>))"

definition file_reader_size :: "file_reader \<Rightarrow> nat" where
  "file_reader_size fr = ino_size (fr_inode fr)"

text \<open>
  \<open>slice::partition_point\<close> on a slice partitioned by the predicate: the length of the
  prefix that satisfies it.
\<close>

definition partition_point :: "('a \<Rightarrow> bool) \<Rightarrow> 'a list \<Rightarrow> nat" where
  "partition_point p xs = length (takeWhile p xs)"

definition resolve_lblock :: "extent_leaf list \<Rightarrow> nat \<Rightarrow> nat option" where
  "resolve_lblock leaves lblock =
     (let idx = partition_point (\<lambda>l. ee_block l \<le> lblock) leaves in
      if idx = 0 then None
      else let leaf = leaves ! (idx - 1) in
        if ee_len leaf > 32768 then None
        else if lblock < ee_block leaf + ee_len leaf
          then Some (wadd 64 (leaf_start leaf) (lblock - ee_block leaf))
        else None)"

text \<open>One turn of the loop of \<open>read\<close>: the bytes of the block that holds the file offset.\<close>

definition read_chunk ::
  "disk \<Rightarrow> superblock \<Rightarrow> extent_leaf list \<Rightarrow> nat \<Rightarrow> nat \<Rightarrow> (io_error, byte list) res" where
  "read_chunk dev sb leaves file_off remaining =
     (let block_size = sb_block_size sb;
          lblock = file_off div block_size;
          block_off = file_off mod block_size;
          can_take = min (block_size - block_off) remaining in
      case resolve_lblock leaves lblock of
        None \<Rightarrow> Ok (replicate can_take 0)
      | Some block_num \<Rightarrow>
          rbind (ok_or IoInvalidData (checked_mul 64 block_num (spb sb))) (\<lambda>start_sector.
          rbind (map_err (\<lambda>_. IoOther) (read_sectors dev start_sector (spb sb))) (\<lambda>block_data.
          slice_r block_off can_take block_data)))"

lemma read_chunk_length:
  "read_chunk dev sb leaves off n = Ok bs \<Longrightarrow> length bs = min (sb_block_size sb - off mod sb_block_size sb) n"
  by (auto simp: read_chunk_def Let_def split: option.split_asm)

text \<open>
  The loop: \<open>remaining\<close> bytes still wanted at \<open>file_off\<close>. Without a block size the
  division panics.
\<close>

function read_loop_file ::
  "disk \<Rightarrow> superblock \<Rightarrow> extent_leaf list \<Rightarrow> nat \<Rightarrow> nat \<Rightarrow> (io_error, byte list) res" where
  "read_loop_file dev sb leaves file_off remaining =
     (if remaining = 0 then Ok []
      else if sb_block_size sb = 0 then Panic
      else rbind (read_chunk dev sb leaves file_off remaining) (\<lambda>chunk.
           rbind (read_loop_file dev sb leaves (file_off + length chunk) (remaining - length chunk))
             (\<lambda>rest. Ok (chunk @ rest))))"
  by pat_completeness auto
termination
  by (relation "measure (\<lambda>(dev, sb, leaves, off, n). n)") (auto dest!: read_chunk_length)

declare read_loop_file.simps [simp del]

text \<open>
  \<open>read\<close> into a buffer of \<open>buf_len\<close> bytes: the bytes that were stored at its start, and the
  reader at its new position.
\<close>

definition file_read ::
  "disk \<Rightarrow> superblock \<Rightarrow> nat \<Rightarrow> (file_reader, io_error, byte list) st" where
  "file_read dev sb buf_len = (\<lambda>fr.
     if fr_position fr \<ge> ino_size (fr_inode fr) then (Ok [], fr)
     else
       let remaining = ino_size (fr_inode fr) - fr_position fr;
           to_read = min buf_len remaining in
       case read_loop_file dev sb (fr_leaves fr) (fr_position fr) to_read of
         Ok bs \<Rightarrow> (Ok bs, fr\<lparr>fr_position := fr_position fr + length bs\<rparr>)
       | Err e \<Rightarrow> (Err e, fr)
       | Panic \<Rightarrow> (Panic, fr)
       | Diverge \<Rightarrow> (Diverge, fr))"

datatype seek_from = SeekStart nat | SeekEnd int | SeekCurrent int

text \<open>\<open>n as i64\<close>, and the 64-bit checked addition on signed integers.\<close>

definition as_i64 :: "nat \<Rightarrow> int" where
  "as_i64 n = (if n < 2 ^ 63 then int n else int n - 2 ^ 64)"

definition checked_add_i64 :: "int \<Rightarrow> int \<Rightarrow> int option" where
  "checked_add_i64 a b = (if - (2 ^ 63) \<le> a + b \<and> a + b < 2 ^ 63 then Some (a + b) else None)"

definition seek_target :: "file_reader \<Rightarrow> seek_from \<Rightarrow> (io_error, int) res" where
  "seek_target fr pos = (case pos of
       SeekStart n \<Rightarrow> if n < 2 ^ 63 then Ok (int n) else Err IoInvalidInput
     | SeekEnd n \<Rightarrow> ok_or IoInvalidInput (checked_add_i64 (as_i64 (ino_size (fr_inode fr))) n)
     | SeekCurrent n \<Rightarrow> ok_or IoInvalidInput (checked_add_i64 (as_i64 (fr_position fr)) n))"

definition file_seek :: "seek_from \<Rightarrow> (file_reader, io_error, nat) st" where
  "file_seek pos = (\<lambda>fr.
     case seek_target fr pos of
       Ok new_pos \<Rightarrow>
         if new_pos < 0 then (Err IoInvalidInput, fr)
         else let p = min (nat new_pos) (ino_size (fr_inode fr)) in
           (Ok p, fr\<lparr>fr_position := p\<rparr>)
     | Err e \<Rightarrow> (Err e, fr)
     | Panic \<Rightarrow> (Panic, fr)
     | Diverge \<Rightarrow> (Diverge, fr))"

definition read_symlink :: "inode \<Rightarrow> (file_error, byte list) res" where
  "read_symlink ino =
     (if ino_size ino < 60 then
        rbind (slice_r 0 (ino_size ino) (ino_block_data ino)) (\<lambda>bs. Ok (utf8_lossy bs))
      else Err FileSlowSymlink)"

section \<open>Two lookups of one list of leaves\<close>

text \<open>The number of blocks of an extent, initialized or not.\<close>

definition leaf_blocks :: "extent_leaf \<Rightarrow> nat" where
  "leaf_blocks l = (if ee_len l > 32768 then ee_len l - 32768 else ee_len l)"

text \<open>Leaves in order of their blocks, without overlaps, with fields inside their widths.\<close>

definition leaves_in_order :: "extent_leaf list \<Rightarrow> bool" where
  "leaves_in_order ls \<longleftrightarrow>
     sorted_wrt (\<lambda>a b. ee_block a \<le> ee_block b \<and> ee_block a + leaf_blocks a \<le> ee_block b) ls \<and>
     (\<forall>l \<in> set ls. ee_block l < 2 ^ 32 \<and> ee_len l < 2 ^ 16 \<and> ee_start_hi l < 2 ^ 16 \<and> ee_start_lo l < 2 ^ 32)"

lemma leaf_start_less: "ee_start_hi l < 2 ^ 16 \<Longrightarrow> ee_start_lo l < 2 ^ 32 \<Longrightarrow> leaf_start l < 2 ^ 48"
  using hi_lo_less[of "ee_start_hi l" 16 "ee_start_lo l" 32] by (simp add: leaf_start_def)

lemma lookup_leaves_after:
  "\<forall>l \<in> set ls. lblock < ee_block l \<Longrightarrow> lookup_leaves ls lblock = Ok None"
  by (induction ls) auto

lemma resolve_lblock_Cons:
  "ee_block l \<le> lblock \<Longrightarrow> resolve_lblock (l # ls) lblock =
     (case ls of m # _ \<Rightarrow> if ee_block m \<le> lblock then resolve_lblock ls lblock else resolve_lblock [l] lblock
      | [] \<Rightarrow> resolve_lblock [l] lblock)"
  by (auto simp: resolve_lblock_def partition_point_def Let_def split: list.split)

lemma lookup_leaves_resolve:
  "leaves_in_order ls \<Longrightarrow> lookup_leaves ls lblock = Ok (resolve_lblock ls lblock)"
proof (induction ls)
  case Nil
  then show ?case by (simp add: resolve_lblock_def partition_point_def)
next
  case (Cons l ls)
  have ord: "leaves_in_order ls" using Cons.prems by (auto simp: leaves_in_order_def)
  have later: "ee_block l \<le> ee_block m \<and> ee_block l + leaf_blocks l \<le> ee_block m" if "m \<in> set ls" for m
    using Cons.prems that by (simp add: leaves_in_order_def)
  have len: "ee_len l < 2 ^ 16" and start: "leaf_start l < 2 ^ 48"
    using Cons.prems leaf_start_less[of l] by (auto simp: leaves_in_order_def)
  show ?case
  proof (cases "ee_block l \<le> lblock")
    case False
    then have "\<forall>m \<in> set (l # ls). lblock < ee_block m" using later by fastforce
    then have "lookup_leaves (l # ls) lblock = Ok None" by (rule lookup_leaves_after)
    moreover have "resolve_lblock (l # ls) lblock = None"
      using False by (simp add: resolve_lblock_def partition_point_def)
    ultimately show ?thesis by simp
  next
    case True
    note resolve = resolve_lblock_Cons[OF True, of ls]
    have here: "resolve_lblock [l] lblock = (if ee_len l > 32768 then None
        else if lblock < ee_block l + ee_len l then Some (leaf_start l + (lblock - ee_block l)) else None)"
      using True len start by (simp add: resolve_lblock_def partition_point_def Let_def)
    have add: "leaf_start l + (lblock - ee_block l) < 2 ^ 64" if "lblock < ee_block l + ee_len l"
      using that len start by simp
    show ?thesis
    proof (cases "ls \<noteq> [] \<and> ee_block (hd ls) \<le> lblock")
      case next_covers: True
      then have "ee_block l + leaf_blocks l \<le> lblock" using later[of "hd ls"] by auto
      then have "lookup_leaves (l # ls) lblock = lookup_leaves ls lblock"
        by (auto simp: leaf_blocks_def split: if_splits)
      moreover have "resolve_lblock (l # ls) lblock = resolve_lblock ls lblock"
        using next_covers resolve by (cases ls) auto
      ultimately show ?thesis using Cons.IH[OF ord] by simp
    next
      case False
      have "\<forall>m \<in> set ls. lblock < ee_block m"
      proof (cases ls)
        case (Cons m ms)
        then have "lblock < ee_block m" using False by simp
        moreover have "ee_block m \<le> ee_block k" if "k \<in> set ms" for k
          using that Cons ord by (simp add: leaves_in_order_def)
        ultimately show ?thesis using Cons by fastforce
      qed simp
      then have rest: "lookup_leaves ls lblock = Ok None" by (rule lookup_leaves_after)
      have "resolve_lblock (l # ls) lblock = resolve_lblock [l] lblock"
        using False resolve by (cases ls) auto
      then show ?thesis using True here add rest by (auto simp: checked_add_def)
    qed
  qed
qed

text \<open>
  The binary search of the file reader and the linear search of the extent walk find the
  same physical block, a hole for the same blocks, on every ordered list of leaves without
  overlaps, uninitialized extents included.
\<close>

theorem binary_search_equals_linear:
  assumes "leaves_in_order ls"
  shows "lookup_leaves ls lblock = Ok (resolve_lblock ls lblock)"
  using assms by (rule lookup_leaves_resolve)

theorem binary_search_equals_linear_witness:
  "lookup_leaves [\<lparr>ee_block = 0, ee_len = 2, ee_start_hi = 0, ee_start_lo = 50\<rparr>,
      \<lparr>ee_block = 4, ee_len = 32770, ee_start_hi = 0, ee_start_lo = 60\<rparr>,
      \<lparr>ee_block = 6, ee_len = 3, ee_start_hi = 1, ee_start_lo = 70\<rparr>] 7 = Ok (Some (2 ^ 32 + 71))"
  by (subst binary_search_equals_linear)
     (simp_all add: leaves_in_order_def leaf_blocks_def resolve_lblock_def partition_point_def leaf_start_def hi_lo_def)

section \<open>Walks that end and walks that do not\<close>

text \<open>
  The nodes that can be reached from the root through the index entries; a tree whose depths
  decrease has in every node that is accepted, below one that is accepted, a smaller depth.
\<close>

inductive tree_node :: "disk \<Rightarrow> superblock \<Rightarrow> byte list \<Rightarrow> byte list \<Rightarrow> bool" for d sb root where
  root: "tree_node d sb root root"
| child: "tree_node d sb root node \<Longrightarrow> check_node node = Ok h \<Longrightarrow> eh_depth h \<noteq> 0 \<Longrightarrow> idx \<in> set (idxs_of node) \<Longrightarrow>
    extent_read_block d sb (idx_child idx) = Ok c \<Longrightarrow> tree_node d sb root c"

definition depths_decrease :: "disk \<Rightarrow> superblock \<Rightarrow> byte list \<Rightarrow> bool" where
  "depths_decrease d sb root \<longleftrightarrow> (\<forall>node h idx c h'. tree_node d sb root node \<and> check_node node = Ok h \<and> eh_depth h \<noteq> 0 \<and>
     idx \<in> set (idxs_of node) \<and> extent_read_block d sb (idx_child idx) = Ok c \<and> check_node c = Ok h' \<longrightarrow>
     eh_depth h' < eh_depth h)"

text \<open>A node that \<open>fuel\<close> turns are enough for.\<close>

definition shallow :: "nat \<Rightarrow> byte list \<Rightarrow> bool" where
  "shallow fuel node \<longleftrightarrow> 0 < fuel \<and> (\<forall>h. check_node node = Ok h \<longrightarrow> eh_depth h < fuel)"

lemma shallow_child:
  assumes "depths_decrease d sb root" and "tree_node d sb root node" and "shallow (Suc f) node"
    and "check_node node = Ok h" and "eh_depth h \<noteq> 0" and "idx \<in> set (idxs_of node)"
    and "extent_read_block d sb (idx_child idx) = Ok c"
  shows "shallow f c" and "tree_node d sb root c"
proof -
  have "eh_depth h' < eh_depth h" if "check_node c = Ok h'" for h'
    using assms(1,2,4-7) that unfolding depths_decrease_def by blast
  moreover have "eh_depth h < Suc f" using assms(3,4) by (simp add: shallow_def)
  ultimately show "shallow f c" using assms(5) by (fastforce simp: shallow_def)
  show "tree_node d sb root c" by (rule tree_node.child[OF assms(2,4-7)])
qed

text \<open>The code accepts no depth above \<open>MAX_DEPTH\<close>.\<close>

lemma shallow_checked: "MAX_DEPTH < fuel \<Longrightarrow> shallow fuel node"
  by (auto simp: shallow_def check_node_def Let_def split: if_split_asm)

lemma best_child_mem:
  "best_child idxs lblock best = Some b \<Longrightarrow> best = Some b \<or> (\<exists>idx \<in> set idxs. b = idx_child idx)"
  by (induction idxs arbitrary: best) (auto split: if_splits)

text \<open>Results that are not \<open>Diverge\<close>.\<close>

named_theorems halts_intros \<open>rules that exclude divergence\<close>

definition halts :: "('e, 'a) res \<Rightarrow> bool" where
  "halts r \<longleftrightarrow> r \<noteq> Diverge"

lemma halts_values [halts_intros]: "halts (Ok x)" "halts (Err e)" "halts Panic"
  by (simp_all add: halts_def)

lemma halts_rbind [halts_intros]:
  "halts r \<Longrightarrow> (\<And>x. r = Ok x \<Longrightarrow> halts (f x)) \<Longrightarrow> halts (rbind r f)"
  by (cases r) (simp_all add: halts_def)

lemma halts_map_err [halts_intros]: "halts r \<Longrightarrow> halts (map_err g r)"
  by (cases r) (simp_all add: halts_def)

lemma halts_ok_or [halts_intros]: "halts (ok_or e z)"
  by (cases z) (simp_all add: halts_def ok_or_def)

lemma halts_if [halts_intros]:
  "(b \<Longrightarrow> halts r) \<Longrightarrow> (\<not> b \<Longrightarrow> halts r') \<Longrightarrow> halts (if b then r else r')"
  by simp

lemma halts_let [halts_intros]: "(\<And>x. x = z \<Longrightarrow> halts (f x)) \<Longrightarrow> halts (let x = z in f x)"
  by simp

lemma halts_case_option [halts_intros]:
  "(z = None \<Longrightarrow> halts r) \<Longrightarrow> (\<And>x. z = Some x \<Longrightarrow> halts (f x)) \<Longrightarrow>
   halts (case z of None \<Rightarrow> r | Some x \<Rightarrow> f x)"
  by (cases z) simp_all

lemma halts_foldl:
  "halts acc \<Longrightarrow> (\<And>a x. x \<in> set xs \<Longrightarrow> halts a \<Longrightarrow> halts (f a x)) \<Longrightarrow> halts (foldl f acc xs)"
  by (induction xs arbitrary: acc) auto

lemma halts_read_loop: "halts (read_loop d s n)"
proof (induction n arbitrary: s)
  case (Suc n)
  show ?case unfolding read_loop.simps read_sector_def by (intro halts_intros Suc.IH)
qed (simp add: halts_def)

lemma halts_extent_read_block [halts_intros]: "halts (extent_read_block d sb b)"
  unfolding extent_read_block_def read_sectors_def by (intro halts_intros halts_read_loop)

lemma halts_check_node [halts_intros]: "halts (check_node node)"
  unfolding check_node_def by (intro halts_intros)

lemma halts_lookup_leaves [halts_intros]: "halts (lookup_leaves ls lblock)"
  by (induction ls) (auto intro!: halts_intros)

lemma halts_lookup_in_node:
  assumes "depths_decrease d sb root"
  shows "tree_node d sb root node \<Longrightarrow> shallow fuel node \<Longrightarrow> halts (lookup_in_node fuel d sb node lblock)"
proof (induction fuel arbitrary: node)
  case (Suc f)
  show ?case unfolding lookup_in_node.simps
  proof (intro halts_intros)
    fix h b c
    assume h: "check_node node = Ok h" "eh_depth h \<noteq> 0" and "best_child (idxs_of node) lblock None = Some b"
      and c: "extent_read_block d sb b = Ok c"
    then obtain idx where "idx \<in> set (idxs_of node)" "b = idx_child idx" using best_child_mem by fastforce
    then show "halts (lookup_in_node f d sb c lblock)"
      using shallow_child[OF assms Suc.prems h] c Suc.IH by blast
  qed
qed (simp add: shallow_def)

lemma halts_collect_leaves:
  assumes "depths_decrease d sb root"
  shows "tree_node d sb root node \<Longrightarrow> shallow fuel node \<Longrightarrow> halts (collect_leaves fuel d sb node out)"
proof (induction fuel arbitrary: node out)
  case (Suc f)
  show ?case unfolding collect_leaves.simps
  proof (intro halts_intros halts_foldl)
    fix h acc idx o1 c
    assume "check_node node = Ok h" "eh_depth h \<noteq> 0" "idx \<in> set (idxs_of node)" "extent_read_block d sb (idx_child idx) = Ok c"
    from shallow_child[OF assms Suc.prems this] Suc.IH show "halts (collect_leaves f d sb c o1)" by blast
  qed assumption
qed (simp add: shallow_def)

text \<open>
  C31. On a tree in which every child that is accepted has a smaller depth than its parent, the
  two walks return, whatever depth the root claims and whatever else the device holds: they
  follow at most five pointers, because no node with a depth above five is accepted, so that
  six turns are enough.
\<close>

theorem extent_walks_return:
  assumes "depths_decrease d sb (ino_block_data ino)"
  shows "lookup_in_node 6 d sb (ino_block_data ino) lblock \<noteq> Diverge \<and> lookup_block d sb ino lblock \<noteq> Diverge \<and>
    collect_leaves 6 d sb (ino_block_data ino) [] \<noteq> Diverge \<and> collect_leaves_pub d sb ino \<noteq> Diverge"
proof -
  have "MAX_DEPTH < 6" "MAX_DEPTH < tree_fuel d" by (simp_all add: tree_fuel_def MAX_DEPTH_def)
  note enough = this[THEN shallow_checked]
  note r = halts_lookup_in_node[OF assms tree_node.root] halts_collect_leaves[OF assms tree_node.root]
  show ?thesis using r[OF enough(1)] r[OF enough(2)]
    by (simp add: halts_def lookup_block_def collect_leaves_pub_def del: lookup_in_node.simps collect_leaves.simps)
qed

text \<open>
  An index node that names itself as the child for a block sends the walk round for ever:
  the code checks that depths are at most five, not that they decrease.
\<close>

theorem self_referring_node_diverges:
  assumes "check_node node = Ok h" and "eh_depth h \<noteq> 0"
    and "best_child (idxs_of node) lblock None = Some b" and "extent_read_block d sb b = Ok node"
  shows "lookup_in_node fuel d sb node lblock = Diverge"
  using assms by (induction fuel) simp_all

text \<open>A device of four blocks with the same node in each, and a node naming block 2.\<close>

definition node_disk :: "byte list \<Rightarrow> disk" where
  "node_disk node = \<lparr>sectors = (\<lambda>i. bytes_at (512 * (i mod 2)) 512 node), sector_count = 8,
     read_fails = (\<lambda>_. False), write_fails = (\<lambda>_. False), flush_fails = False,
     stable = (\<lambda>i. bytes_at (512 * (i mod 2)) 512 node)\<rparr>"

definition node_bytes :: "nat \<Rightarrow> byte list" where
  "node_bytes depth = patch 0 (to_le 2 0xF30A) (patch 2 (to_le 2 1) (patch 6 (to_le 2 depth)
     (patch 16 (to_le 4 2) (replicate 1024 0))))"

definition kib_sb :: superblock where
  "kib_sb = \<lparr>sb_block_size = 1024, sb_blocks_count = 4, sb_inodes_count = 16,
     sb_inodes_per_group = 16, sb_blocks_per_group = 24, sb_first_data_block = 1,
     sb_uuid = [], sb_volume_name = [], sb_desc_size = 32, sb_feature_incompat = 0x42,
     sb_feature_ro_compat = 0, sb_inode_size = 128, sb_state = 1\<rparr>"

lemma length_node_bytes [simp]: "length (node_bytes depth) = 1024"
  by (simp add: node_bytes_def)

lemma node_disk_read:
  assumes "length node = 1024"
  shows "extent_read_block (node_disk node) kib_sb 2 = Ok node"
proof -
  have wf: "wf_disk (node_disk node)" by (simp add: wf_disk_def node_disk_def assms)
  have "sector_run (node_disk node) 4 2 = take 512 node @ drop 512 node"
    by (simp add: sector_run_def node_disk_def upt_rec bytes_at_def assms)
  moreover have "readable (node_disk node) 4 2" by (simp add: readable_def node_disk_def)
  ultimately have "read_sectors (node_disk node) 4 2 = Ok node"
    by (simp add: read_sectors_Ok_iff[OF wf])
  then show ?thesis by (simp add: extent_read_block_def kib_sb_def checked_mul_def)
qed

lemma node_bytes_fields:
  assumes "depth \<le> 5"
  shows "check_node (node_bytes depth) = Ok \<lparr>eh_magic = 0xF30A, eh_entries = 1, eh_max = 0, eh_depth = depth\<rparr>"
    and "idxs_of (node_bytes depth) = [\<lparr>ei_block = 0, ei_leaf_lo = 2, ei_leaf_hi = 0\<rparr>]"
proof -
  have h: "header_of (node_bytes depth) = \<lparr>eh_magic = 0xF30A, eh_entries = 1, eh_max = 0, eh_depth = depth\<rparr>"
    using assms by (simp add: header_of_def node_bytes_def int_read_defs buffer_simps)
  then show "check_node (node_bytes depth) = Ok \<lparr>eh_magic = 0xF30A, eh_entries = 1, eh_max = 0, eh_depth = depth\<rparr>"
    using assms by (simp add: check_node_def EXTENT_MAGIC_def MAX_DEPTH_def sat_add_def sat_mul_def)
  have "idx_at (node_bytes depth) 0 = \<lparr>ei_block = 0, ei_leaf_lo = 2, ei_leaf_hi = 0\<rparr>"
    by (simp add: idx_at_def node_bytes_def int_read_defs buffer_simps)
  then show "idxs_of (node_bytes depth) = [\<lparr>ei_block = 0, ei_leaf_lo = 2, ei_leaf_hi = 0\<rparr>]"
    by (simp add: idxs_of_def h)
qed

lemma node_bytes_child: "idx_child \<lparr>ei_block = 0, ei_leaf_lo = v, ei_leaf_hi = 0\<rparr> = v"
  by (simp add: idx_child_def hi_lo_def)

theorem self_referring_node_diverges_witness:
  "lookup_in_node 1000 (node_disk (node_bytes 1)) kib_sb (node_bytes 1) 0 = Diverge"
  by (rule self_referring_node_diverges[OF node_bytes_fields(1) _ _ node_disk_read])
     (simp_all add: node_bytes_fields(2) node_bytes_child)

text \<open>An inode whose root names block 2, which holds a leaf node.\<close>

lemma node_bytes_depths: "depths_decrease (node_disk (node_bytes 0)) kib_sb (node_bytes 1)"
proof -
  have c: "c = node_bytes 0" if "idx \<in> set (idxs_of (node_bytes 1))" "extent_read_block (node_disk (node_bytes 0)) kib_sb (idx_child idx) = Ok c" for idx c
    using that by (simp add: node_bytes_fields(2) node_bytes_child node_disk_read del: One_nat_def)
  have "node = node_bytes 1 \<or> node = node_bytes 0" if "tree_node (node_disk (node_bytes 0)) kib_sb (node_bytes 1) node" for node
    using that
  proof induction
    case (child node h idx c')
    then show ?case using c by (auto simp: node_bytes_fields simp del: One_nat_def)
  qed simp
  then show ?thesis
    unfolding depths_decrease_def using c by (fastforce simp: node_bytes_fields simp del: One_nat_def)
qed

theorem extent_walks_return_witness:
  "lookup_block (node_disk (node_bytes 0)) kib_sb
     ((parse_raw (replicate 128 0))\<lparr>ino_flags := 0x80000, ino_block_data := node_bytes 1\<rparr>) 3 \<noteq> Diverge"
  by (rule extent_walks_return[THEN conjunct2, THEN conjunct1]) (simp add: node_bytes_depths del: One_nat_def)

section \<open>What a read returns\<close>

text \<open>The byte of the file at an offset, and the files whose mapped blocks can be read.\<close>

definition file_byte :: "disk \<Rightarrow> superblock \<Rightarrow> extent_leaf list \<Rightarrow> nat \<Rightarrow> byte" where
  "file_byte d sb leaves k = (case resolve_lblock leaves (k div sb_block_size sb) of
       None \<Rightarrow> 0
     | Some p \<Rightarrow> sector_run d (p * spb sb) (spb sb) ! (k mod sb_block_size sb))"

definition blocks_readable :: "disk \<Rightarrow> superblock \<Rightarrow> extent_leaf list \<Rightarrow> nat \<Rightarrow> bool" where
  "blocks_readable d sb leaves sz \<longleftrightarrow>
     (\<forall>k < sz. \<forall>p. resolve_lblock leaves (k div sb_block_size sb) = Some p \<longrightarrow> readable d (p * spb sb) (spb sb))"

lemma read_chunk_contents:
  assumes "sb_ok sb" and "wf_disk d" and "blocks_readable d sb leaves sz"
    and "off + n \<le> sz" and "0 < n"
  defines "t \<equiv> min (sb_block_size sb - off mod sb_block_size sb) n"
  shows "read_chunk d sb leaves off n = Ok (map (file_byte d sb leaves) [off..<off + t])"
proof -
  let ?bs = "sb_block_size sb"
  have bs: "0 < ?bs" "512 * spb sb = ?bs" "0 < spb sb" using sb_ok_block_size[OF assms(1)] by auto
  have t: "off mod ?bs + t \<le> ?bs" "0 < t" using mod_less_divisor[OF bs(1), of off] assms(5) by (auto simp: t_def)
  have place: "(off + i) div ?bs = off div ?bs \<and> (off + i) mod ?bs = off mod ?bs + i" if "i < t" for i
  proof -
    define q r where "q = off div ?bs" and "r = off mod ?bs"
    have eq: "off + i = (r + i) + ?bs * q" by (simp add: q_def r_def)
    have "r + i < ?bs" using that t(1) by (simp add: r_def)
    then have "((r + i) + ?bs * q) div ?bs = q" "((r + i) + ?bs * q) mod ?bs = r + i"
      using bs(1) by (simp_all only: div_mult_self2 mod_mult_self2 div_less mod_less)
    then show ?thesis unfolding eq q_def[symmetric] r_def[symmetric] by simp
  qed
  show ?thesis
  proof (cases "resolve_lblock leaves (off div ?bs)")
    case None
    have "map (file_byte d sb leaves) [off..<off + t] = replicate t 0"
      by (rule nth_equalityI) (simp_all add: file_byte_def place None)
    then show ?thesis by (simp add: read_chunk_def None t_def Let_def)
  next
    case (Some p)
    have "off < sz" using assms(4,5) by linarith
    then have r: "readable d (p * spb sb) (spb sb)" using assms(3) Some by (auto simp: blocks_readable_def)
    then have "p * spb sb < 2 ^ 64" using assms(2) bs(3) by (auto simp: readable_def wf_disk_def)
    moreover have "read_sectors d (p * spb sb) (spb sb) = Ok (sector_run d (p * spb sb) (spb sb))"
      using r by (simp add: read_sectors_Ok_iff[OF assms(2) bs(3)])
    moreover have len: "length (sector_run d (p * spb sb) (spb sb)) = ?bs"
      using length_sector_run[OF assms(2)] r bs(2) by (simp add: readable_def)
    moreover have "bytes_at (off mod ?bs) t (sector_run d (p * spb sb) (spb sb)) = map (file_byte d sb leaves) [off..<off + t]"
      using t(1) by (intro nth_equalityI) (auto simp: len nth_bytes_at file_byte_def place Some)
    ultimately show ?thesis
      using t(1) by (simp add: read_chunk_def Some Let_def checked_mul_def slice_r_def t_def)
  qed
qed

lemma read_loop_file_contents:
  assumes "sb_ok sb" and "wf_disk d" and "blocks_readable d sb leaves sz" and "off + n \<le> sz"
  shows "read_loop_file d sb leaves off n = Ok (map (file_byte d sb leaves) [off..<off + n])"
  using assms(4)
proof (induction n arbitrary: off rule: less_induct)
  case (less n)
  let ?bs = "sb_block_size sb"
  have bs: "0 < ?bs" using sb_ok_block_size[OF assms(1)] by auto
  show ?case
  proof (cases "n = 0")
    case False
    define t where "t = min (?bs - off mod ?bs) n"
    have t: "0 < t" "t \<le> n" using False mod_less_divisor[OF bs, of off] by (auto simp: t_def)
    have "read_chunk d sb leaves off n = Ok (map (file_byte d sb leaves) [off..<off + t])"
      using read_chunk_contents[OF assms(1-3) less.prems] False by (simp add: t_def)
    moreover have "read_loop_file d sb leaves (off + t) (n - t) = Ok (map (file_byte d sb leaves) [off + t..<off + n])"
      using less.IH[of "n - t" "off + t"] t less.prems by simp
    moreover have "[off..<off + n] = [off..<off + t] @ [off + t..<off + n]"
      using t upt_add_eq_append[of off "off + t" "n - t"] by simp
    ultimately show ?thesis
      using False bs by (subst read_loop_file.simps) simp
  qed (simp add: read_loop_file.simps)
qed

lemma file_read_contents:
  assumes "sb_ok sb" and "wf_disk d"
    and "blocks_readable d sb (fr_leaves fr) (ino_size (fr_inode fr))"
  shows "file_read d sb len fr =
    (let n = min len (ino_size (fr_inode fr) - fr_position fr) in
     (Ok (map (file_byte d sb (fr_leaves fr)) [fr_position fr..<fr_position fr + n]),
      fr\<lparr>fr_position := fr_position fr + n\<rparr>))"
proof (cases "ino_size (fr_inode fr) \<le> fr_position fr")
  case False
  then have "fr_position fr + min len (ino_size (fr_inode fr) - fr_position fr) \<le> ino_size (fr_inode fr)"
    by linarith
  from read_loop_file_contents[OF assms this] False show ?thesis by (simp add: file_read_def Let_def)
qed (simp add: file_read_def)

text \<open>
  C17. A read at a position returns exactly the bytes of the file from there on, as many as
  fit the buffer and the file has: device bytes where a block is mapped, zeros in holes and
  uninitialized extents; the position moves by that many bytes.
\<close>

theorem file_read_returns_contents:
  assumes "sb_ok sb" and "wf_disk d"
    and "blocks_readable d sb (fr_leaves fr) (ino_size (fr_inode fr))"
  shows "file_read d sb len fr =
    (let n = min len (ino_size (fr_inode fr) - fr_position fr) in
     (Ok (map (file_byte d sb (fr_leaves fr)) [fr_position fr..<fr_position fr + n]),
      fr\<lparr>fr_position := fr_position fr + n\<rparr>))"
  using assms by (rule file_read_contents)

text \<open>One block of the letter A, and a file of 3000 bytes that has only that block.\<close>

definition letter_disk :: disk where "letter_disk = node_disk (replicate 1024 65)"

definition letter_reader :: file_reader where
  "letter_reader = \<lparr>fr_inode = (parse_raw (replicate 128 0))\<lparr>ino_size := 3000\<rparr>, fr_position = 1022,
     fr_leaves = [\<lparr>ee_block = 0, ee_len = 1, ee_start_hi = 0, ee_start_lo = 2\<rparr>]\<rparr>"

lemma kib_sb_ok: "sb_ok kib_sb" "sb_block_size kib_sb = 1024"
  by (simp_all add: sb_ok_def kib_sb_def UNSUPPORTED_MASK_def)

lemma letter_facts:
  "wf_disk letter_disk" "readable letter_disk 4 2" "sector_run letter_disk 4 2 = replicate 1024 65"
  "fr_position letter_reader = 1022" "ino_size (fr_inode letter_reader) = 3000"
  "resolve_lblock (fr_leaves letter_reader) k = (if k = 0 then Some 2 else None)"
  by (simp_all add: letter_disk_def letter_reader_def node_disk_def wf_disk_def readable_def sector_run_def
      upt_rec bytes_at_def replicate_add[symmetric] resolve_lblock_def partition_point_def leaf_start_def hi_lo_def)

lemma letter_readable: "blocks_readable letter_disk kib_sb (fr_leaves letter_reader) 3000"
  using letter_facts(2) by (simp add: blocks_readable_def letter_facts(6) kib_sb_ok)

theorem file_read_returns_contents_witness:
  "file_read letter_disk kib_sb 4 letter_reader = (Ok [65, 65, 0, 0], letter_reader\<lparr>fr_position := 1026\<rparr>)"
  using letter_readable
  by (subst file_read_returns_contents[OF kib_sb_ok(1) letter_facts(1)])
     (simp_all add: letter_facts file_byte_def kib_sb_ok upt_rec)

text \<open>
  Reading in two steps is reading in one: the bytes of consecutive reads joined are the
  bytes of one read of the total length, and the position ends in the same place.
\<close>

theorem file_reads_compose:
  assumes "sb_ok sb" and "wf_disk d"
    and "blocks_readable d sb (fr_leaves fr) (ino_size (fr_inode fr))"
    and "file_read d sb m fr = (Ok xs, fr1)" and "file_read d sb n fr1 = (Ok ys, fr2)"
  shows "file_read d sb (m + n) fr = (Ok (xs @ ys), fr2)"
proof -
  let ?sz = "ino_size (fr_inode fr)" and ?p = "fr_position fr"
  let ?a = "min m (?sz - ?p)"
  have 1: "xs = map (file_byte d sb (fr_leaves fr)) [?p..<?p + ?a]" "fr1 = fr\<lparr>fr_position := ?p + ?a\<rparr>"
    using assms(4) by (simp_all add: file_read_contents[OF assms(1-3)] Let_def)
  let ?b = "min n (?sz - (?p + ?a))"
  have r: "blocks_readable d sb (fr_leaves fr1) (ino_size (fr_inode fr1))" using assms(3) by (simp add: 1)
  have 2: "ys = map (file_byte d sb (fr_leaves fr)) [?p + ?a..<?p + ?a + ?b]"
      "fr2 = fr1\<lparr>fr_position := ?p + ?a + ?b\<rparr>"
    using assms(5)[unfolded file_read_contents[OF assms(1,2) r] Let_def] by (simp_all add: 1)
  have "min (m + n) (?sz - ?p) = ?a + ?b" by linarith
  moreover have "[?p..<?p + (?a + ?b)] = [?p..<?p + ?a] @ [?p + ?a..<?p + ?a + ?b]"
    using upt_add_eq_append[of ?p "?p + ?a" ?b] by (simp add: add.assoc)
  ultimately show ?thesis
    by (simp add: file_read_contents[OF assms(1-3)] Let_def 1 2 add.assoc)
qed

theorem file_reads_compose_witness:
  "file_read letter_disk kib_sb (1 + 2) letter_reader = (Ok ([65] @ [65, 0]), letter_reader\<lparr>fr_position := 1025\<rparr>)"
proof (rule file_reads_compose[OF kib_sb_ok(1) letter_facts(1)])
  show "blocks_readable letter_disk kib_sb (fr_leaves letter_reader) (ino_size (fr_inode letter_reader))"
    using letter_readable by (simp add: letter_facts)
  note contents = read_loop_file_contents[OF kib_sb_ok(1) letter_facts(1) letter_readable]
  show "file_read letter_disk kib_sb 1 letter_reader = (Ok [65], letter_reader\<lparr>fr_position := 1023\<rparr>)"
    by (simp add: file_read_def letter_facts contents file_byte_def kib_sb_ok)
  show "file_read letter_disk kib_sb 2 (letter_reader\<lparr>fr_position := 1023\<rparr>) =
      (Ok [65, 0], letter_reader\<lparr>fr_position := 1025\<rparr>)"
    by (simp add: file_read_def letter_facts contents file_byte_def kib_sb_ok upt_rec)
qed

text \<open>The target of a seek, as an integer.\<close>

definition seek_goal :: "file_reader \<Rightarrow> seek_from \<Rightarrow> int" where
  "seek_goal fr pos = (case pos of SeekStart n \<Rightarrow> int n | SeekEnd k \<Rightarrow> int (ino_size (fr_inode fr)) + k
     | SeekCurrent k \<Rightarrow> int (fr_position fr) + k)"

text \<open>
  C40. What a seek does, whatever position it is given: the target is the offset from the start,
  from the end of the file or from the position; when it fits 64 bits and is not below zero the
  seek succeeds, answers with the target cut at the end of the file and puts the position there;
  otherwise it fails and nothing changes. It never ends outside the file and never panics.
\<close>

theorem seek_stays_in_file:
  assumes "fr_position fr \<le> ino_size (fr_inode fr)" and "ino_size (fr_inode fr) < 2 ^ 63"
  shows "(0 \<le> seek_goal fr pos \<and> seek_goal fr pos < 2 ^ 63 \<longrightarrow>
      (let p = min (nat (seek_goal fr pos)) (ino_size (fr_inode fr)) in file_seek pos fr = (Ok p, fr\<lparr>fr_position := p\<rparr>))) \<and>
    (\<not> (0 \<le> seek_goal fr pos \<and> seek_goal fr pos < 2 ^ 63) \<longrightarrow> file_seek pos fr = (Err IoInvalidInput, fr)) \<and>
    fr_position (snd (file_seek pos fr)) \<le> ino_size (fr_inode fr)"
  using assms
  by (cases pos) (auto simp: file_seek_def seek_target_def seek_goal_def as_i64_def checked_add_i64_def ok_or_def Let_def)

theorem seek_stays_in_file_witness:
  "file_seek (SeekEnd (- 3)) \<lparr>fr_inode = (parse_raw (replicate 128 0))\<lparr>ino_size := 10\<rparr>, fr_position = 0, fr_leaves = []\<rparr> =
     (Ok 7, \<lparr>fr_inode = (parse_raw (replicate 128 0))\<lparr>ino_size := 10\<rparr>, fr_position = 7, fr_leaves = []\<rparr>) \<and>
   fst (file_seek (SeekStart 0) \<lparr>fr_inode = (parse_raw (replicate 128 0))\<lparr>ino_size := 10\<rparr>, fr_position = 4, fr_leaves = []\<rparr>) = Ok 0"
  using seek_stays_in_file[of "\<lparr>fr_inode = (parse_raw (replicate 128 0))\<lparr>ino_size := 10\<rparr>, fr_position = 0, fr_leaves = []\<rparr>" "SeekEnd (- 3)"]
    seek_stays_in_file[of "\<lparr>fr_inode = (parse_raw (replicate 128 0))\<lparr>ino_size := 10\<rparr>, fr_position = 4, fr_leaves = []\<rparr>" "SeekStart 0"]
  by (simp add: seek_goal_def)

end
