(* ===== verification/Journal.thy ===== *)
theory Journal
  imports Extent
begin

text \<open>
  The jbd2 journal as the file system sees it (\<open>ext4-core/src/journal/mod.rs\<close>,
  \<open>journal/superblock.rs\<close>): its superblock, the map from journal-relative block numbers to
  device blocks, and reading a journal block.
\<close>

definition EXT4_JOURNAL_INO :: nat where "EXT4_JOURNAL_INO = 8"
definition JOURNAL_MAGIC :: nat where "JOURNAL_MAGIC = 0xC03B3998"

datatype journal_error =
    JBadMagic nat
  | JBlockOutOfRange nat
  | JErrno int
  | JUnsupportedFeatures nat
  | JBlockDevice bd_error
  | JInode inode_error
  | JExtent extent_error
  | JInvalidBuffer
  | JInvalidGeometry nat nat

section \<open>The journal superblock\<close>

text \<open>\<open>RawJournalSuperblock\<close>: the fields the code reads, big-endian at their offsets.\<close>

record raw_journal_superblock =
  jr_magic :: nat
  jr_blocksize :: nat
  jr_maxlen :: nat
  jr_first :: nat
  jr_sequence :: nat
  jr_start :: nat
  jr_errno :: int
  jr_feature_incompat :: nat
  jr_uuid :: "byte list"

definition raw_jsb_read_from :: "byte list \<Rightarrow> raw_journal_superblock option" where
  "raw_jsb_read_from bs =
     (if length bs \<noteq> 1024 then None
      else Some \<lparr>jr_magic = be32 0 bs, jr_blocksize = be32 12 bs, jr_maxlen = be32 16 bs,
        jr_first = be32 20 bs, jr_sequence = be32 24 bs, jr_start = be32 28 bs,
        jr_errno = (let e = be32 32 bs in if e < 2 ^ 31 then int e else int e - 2 ^ 32),
        jr_feature_incompat = be32 40 bs, jr_uuid = bytes_at 48 16 bs\<rparr>)"

definition JBD2_64BIT :: nat where "JBD2_64BIT = 2"
definition JBD2_CSUM_V3 :: nat where "JBD2_CSUM_V3 = 0x10"

text \<open>Revoke, 64-bit, async commit and both checksum versions; \<open>!SUPPORTED_INCOMPAT\<close> is its
  32-bit complement.\<close>

definition SUPPORTED_INCOMPAT :: nat where
  "SUPPORTED_INCOMPAT = 1 OR JBD2_64BIT OR 4 OR 8 OR JBD2_CSUM_V3"

record journal_superblock =
  jsb_block_size :: nat
  jsb_total_blocks :: nat
  jsb_first_usable_block :: nat
  jsb_start_sequence :: nat
  jsb_start_block :: nat
  jsb_errno :: int
  jsb_feature_incompat :: nat
  jsb_uuid :: "byte list"

definition is_clean :: "journal_superblock \<Rightarrow> bool" where
  "is_clean jsb \<longleftrightarrow> jsb_start_block jsb = 0"

definition needs_recovery :: "journal_superblock \<Rightarrow> bool" where
  "needs_recovery jsb \<longleftrightarrow> jsb_start_block jsb \<noteq> 0"

definition has_64bit :: "journal_superblock \<Rightarrow> bool" where
  "has_64bit jsb \<longleftrightarrow> jsb_feature_incompat jsb AND JBD2_64BIT \<noteq> 0"

definition has_csum_v3 :: "journal_superblock \<Rightarrow> bool" where
  "has_csum_v3 jsb \<longleftrightarrow> jsb_feature_incompat jsb AND JBD2_CSUM_V3 \<noteq> 0"

definition parse_journal_superblock ::
  "raw_journal_superblock \<Rightarrow> (journal_error, journal_superblock) res" where
  "parse_journal_superblock raw =
     (let magic = jr_magic raw;
          incompat = jr_feature_incompat raw;
          unsupported = incompat AND (2 ^ 32 - 1 - SUPPORTED_INCOMPAT);
          total_blocks = jr_maxlen raw;
          first_usable_block = jr_first raw in
      if magic \<noteq> JOURNAL_MAGIC then Err (JBadMagic magic)
      else if unsupported \<noteq> 0 then Err (JUnsupportedFeatures unsupported)
      else if first_usable_block = 0 \<or> first_usable_block \<ge> total_blocks
        then Err (JInvalidGeometry total_blocks first_usable_block)
      else Ok \<lparr>jsb_block_size = jr_blocksize raw, jsb_total_blocks = total_blocks,
        jsb_first_usable_block = first_usable_block, jsb_start_sequence = jr_sequence raw,
        jsb_start_block = jr_start raw, jsb_errno = jr_errno raw,
        jsb_feature_incompat = incompat, jsb_uuid = jr_uuid raw\<rparr>)"

section \<open>The loaded journal\<close>

record journal =
  jn_blocks :: "nat list"
  jn_sb :: journal_superblock

primrec find_phys :: "extent_leaf list \<Rightarrow> nat \<Rightarrow> nat option" where
  "find_phys [] lblock = None"
| "find_phys (l # ls) lblock =
     (if ee_len l > 32768 then find_phys ls lblock
      else if lblock \<ge> ee_block l \<and> lblock < ee_block l + ee_len l
        then checked_add 64 (leaf_start l) (lblock - ee_block l)
      else find_phys ls lblock)"

definition read_phys_block :: "disk \<Rightarrow> superblock \<Rightarrow> nat \<Rightarrow> (journal_error, byte list) res" where
  "read_phys_block dev fs_sb phys =
     map_err JBlockDevice (read_sectors dev (wmul 64 phys (spb fs_sb)) (spb fs_sb))"

definition journal_block_addr :: "nat list \<Rightarrow> nat \<Rightarrow> (journal_error, nat) res" where
  "journal_block_addr blocks i = (if i < length blocks then Ok (blocks ! i) else Err (JBlockOutOfRange i))"

definition journal_read_block ::
  "disk \<Rightarrow> superblock \<Rightarrow> journal \<Rightarrow> nat \<Rightarrow> (journal_error, byte list) res" where
  "journal_read_block dev fs_sb jn jblock =
     rbind (journal_block_addr (jn_blocks jn) jblock) (read_phys_block dev fs_sb)"

definition read_journal_superblock ::
  "disk \<Rightarrow> superblock \<Rightarrow> nat list \<Rightarrow> (journal_error, journal_superblock) res" where
  "read_journal_superblock dev fs_sb blocks =
     rbind (journal_block_addr blocks 0) (\<lambda>phys.
     rbind (read_phys_block dev fs_sb phys) (\<lambda>data.
     if length data < 1024 then Err JInvalidBuffer
     else rbind (ok_or JInvalidBuffer (raw_jsb_read_from (bytes_at 0 1024 data)))
            parse_journal_superblock))"

definition journal_load :: "disk \<Rightarrow> superblock \<Rightarrow> gdt \<Rightarrow> (journal_error, journal) res" where
  "journal_load dev fs_sb gdt =
     rbind (map_err JInode (read_inode dev fs_sb gdt EXT4_JOURNAL_INO)) (\<lambda>ino.
     rbind (map_err JExtent (collect_leaves_pub dev fs_sb ino)) (\<lambda>leaves0.
     let leaves = sort_key ee_block leaves0 in
     rbind (rassert (sb_block_size fs_sb \<noteq> 0)) (\<lambda>_.
     let total_lblocks = div_ceil (ino_size ino) (sb_block_size fs_sb);
         blocks = map (\<lambda>l. case find_phys leaves l of Some p \<Rightarrow> p | None \<Rightarrow> 0) [0..<total_lblocks] in
     rbind (read_journal_superblock dev fs_sb blocks) (\<lambda>jsb.
     Ok \<lparr>jn_blocks = blocks, jn_sb = jsb\<rparr>))))"

section \<open>What a parsed journal superblock satisfies\<close>

definition jsb_ok :: "journal_superblock \<Rightarrow> bool" where
  "jsb_ok jsb \<longleftrightarrow> 0 < jsb_first_usable_block jsb \<and>
     jsb_first_usable_block jsb < jsb_total_blocks jsb \<and> jsb_total_blocks jsb < 2 ^ 32 \<and>
     jsb_start_sequence jsb < 2 ^ 32 \<and> jsb_start_block jsb < 2 ^ 32 \<and> length (jsb_uuid jsb) = 16"

lemma read_journal_superblock_ok:
  assumes "read_journal_superblock dev fs_sb blocks = Ok jsb"
  shows "jsb_ok jsb"
proof -
  obtain bs raw where raw: "raw_jsb_read_from bs = Some raw"
    and p: "parse_journal_superblock raw = Ok jsb"
    using assms by (auto simp: read_journal_superblock_def split: if_split_asm)
  have "jr_maxlen raw < 2 ^ 32 \<and> jr_sequence raw < 2 ^ 32 \<and> jr_start raw < 2 ^ 32 \<and>
      length (jr_uuid raw) = 16"
    using raw be32_less by (auto simp: raw_jsb_read_from_def Let_def split: if_split_asm)
  then show ?thesis
    using p by (auto simp: parse_journal_superblock_def Let_def jsb_ok_def split: if_split_asm)
qed

lemma journal_load_ok: "journal_load dev fs_sb gdt = Ok jn \<Longrightarrow> jsb_ok (jn_sb jn)"
  by (auto simp: journal_load_def Let_def intro: read_journal_superblock_ok)

end
