(* ===== verification/Read_Safety.thy ===== *)
theory Read_Safety
  imports Dir File_Reader Journal
begin

text \<open>
  Mounting and reading an arbitrary image: whatever bytes the device holds and whichever
  reads fail, the parsers and readers answer with a value or an error value. A panic needs
  an index out of range or a division by zero, and the checks of the code exclude both.
  Non-termination is a different matter, see \<open>Extent\<close>.
\<close>

section \<open>Results that are not a panic\<close>

named_theorems no_panic_intros \<open>rules that exclude a panic\<close>

definition no_panic :: "('e, 'a) res \<Rightarrow> bool" where
  "no_panic r \<longleftrightarrow> r \<noteq> Panic"

lemma no_panic_Ok [no_panic_intros]: "no_panic (Ok x)"
  and no_panic_Err [no_panic_intros]: "no_panic (Err e)"
  and no_panic_Diverge [no_panic_intros]: "no_panic Diverge"
  by (simp_all add: no_panic_def)

lemma no_panic_rbind [no_panic_intros]:
  "no_panic r \<Longrightarrow> (\<And>x. r = Ok x \<Longrightarrow> no_panic (f x)) \<Longrightarrow> no_panic (rbind r f)"
  by (cases r) (simp_all add: no_panic_def)

lemma no_panic_map_err [no_panic_intros]: "no_panic r \<Longrightarrow> no_panic (map_err g r)"
  by (cases r) (simp_all add: no_panic_def)

lemma no_panic_ok_or [no_panic_intros]: "no_panic (ok_or e z)"
  by (cases z) (simp_all add: no_panic_def ok_or_def)

lemma no_panic_rassert [no_panic_intros]: "b \<Longrightarrow> no_panic (rassert b)"
  by (simp add: no_panic_def)

lemma no_panic_if [no_panic_intros]:
  "(b \<Longrightarrow> no_panic r) \<Longrightarrow> (\<not> b \<Longrightarrow> no_panic r') \<Longrightarrow> no_panic (if b then r else r')"
  by simp

lemma no_panic_let [no_panic_intros]: "(\<And>x. x = z \<Longrightarrow> no_panic (f x)) \<Longrightarrow> no_panic (let x = z in f x)"
  by simp

lemma no_panic_case_option [no_panic_intros]:
  "(z = None \<Longrightarrow> no_panic r) \<Longrightarrow> (\<And>x. z = Some x \<Longrightarrow> no_panic (f x)) \<Longrightarrow>
   no_panic (case z of None \<Rightarrow> r | Some x \<Rightarrow> f x)"
  by (cases z) simp_all

lemma no_panic_case_prod [no_panic_intros]:
  "(\<And>x y. z = (x, y) \<Longrightarrow> no_panic (f x y)) \<Longrightarrow> no_panic (case z of (x, y) \<Rightarrow> f x y)"
  by (cases z) simp

lemma no_panic_rmap [no_panic_intros]: "(\<And>x. no_panic (f x)) \<Longrightarrow> no_panic (rmap f xs)"
  by (induction xs) (auto intro!: no_panic_intros)

lemma no_panic_foldl [no_panic_intros]:
  "no_panic acc \<Longrightarrow> (\<And>a x. no_panic a \<Longrightarrow> no_panic (f a x)) \<Longrightarrow> no_panic (foldl f acc xs)"
  by (induction xs arbitrary: acc) auto

section \<open>The readers\<close>

lemma no_panic_read_loop: "no_panic (read_loop d s n)"
proof (induction n arbitrary: s)
  case (Suc n)
  show ?case unfolding read_loop.simps read_sector_def by (intro no_panic_intros Suc.IH)
qed (simp add: no_panic_def)

lemma no_panic_read_sectors [no_panic_intros]: "no_panic (read_sectors d s n)"
  unfolding read_sectors_def by (intro no_panic_intros no_panic_read_loop)

lemma no_panic_parse: "no_panic (parse d)"
  unfolding parse_def parse_raw_superblock_def inode_size_of_def by (intro no_panic_intros)

lemma no_panic_gdt_load: "no_panic (gdt_load d sb)"
  unfolding gdt_load_def groups_count_def load_group_def by (intro no_panic_intros)

lemma no_panic_gdt_get [no_panic_intros]: "no_panic (gdt_get gdt i)"
  unfolding gdt_get_def by (intro no_panic_intros)

lemma no_panic_read_inode [no_panic_intros]: "sb_ok sb \<Longrightarrow> no_panic (read_inode d sb gdt n)"
  unfolding read_inode_def decode_inode_def by (intro no_panic_intros) (simp add: sb_ok_def)

lemma no_panic_extent_read_block [no_panic_intros]: "no_panic (extent_read_block d sb b)"
  unfolding extent_read_block_def by (intro no_panic_intros)

lemma no_panic_check_node [no_panic_intros]: "no_panic (check_node node)"
  unfolding check_node_def by (intro no_panic_intros)

lemma no_panic_lookup_leaves [no_panic_intros]: "no_panic (lookup_leaves ls lblock)"
  by (induction ls) (auto intro!: no_panic_intros)

lemma no_panic_lookup_in_node [no_panic_intros]: "no_panic (lookup_in_node fuel d sb node lblock)"
proof (induction fuel arbitrary: node)
  case (Suc fuel)
  show ?case unfolding lookup_in_node.simps by (intro no_panic_intros Suc.IH)
qed (simp add: no_panic_def)

lemma no_panic_collect_leaves [no_panic_intros]: "no_panic (collect_leaves fuel d sb node out)"
proof (induction fuel arbitrary: node out)
  case (Suc fuel)
  show ?case unfolding collect_leaves.simps by (intro no_panic_intros Suc.IH; assumption)
qed (simp add: no_panic_def)

lemma no_panic_lookup_block [no_panic_intros]: "no_panic (lookup_block d sb ino lblock)"
  unfolding lookup_block_def by (intro no_panic_intros)

lemma no_panic_collect_leaves_pub [no_panic_intros]: "no_panic (collect_leaves_pub d sb ino)"
  unfolding collect_leaves_pub_def by (intro no_panic_intros)

lemma no_panic_parse_dirent: "pos \<le> length block \<Longrightarrow> no_panic (parse_dirent block pos)"
  unfolding parse_dirent_def by (intro no_panic_intros) simp

lemma no_panic_parse_entries_from [no_panic_intros]: "no_panic (parse_entries_from block pos)"
proof (induction block pos rule: parse_entries_from.induct)
  case (1 block pos)
  show ?case unfolding parse_entries_from.simps[of block pos]
    by (intro no_panic_intros no_panic_parse_dirent "1.IH") auto
qed

lemma no_panic_lookup_from [no_panic_intros]: "no_panic (lookup_from nm block pos)"
proof (induction nm block pos rule: lookup_from.induct)
  case (1 nm block pos)
  show ?case unfolding lookup_from.simps[of nm block pos]
    by (intro no_panic_intros no_panic_parse_dirent "1.IH") auto
qed

lemma no_panic_dir_block_at [no_panic_intros]: "no_panic (dir_block_at d sb ino lblock)"
  unfolding dir_block_at_def dir_read_block_def by (intro no_panic_intros)

lemma no_panic_dir_block_count [no_panic_intros]: "sb_ok sb \<Longrightarrow> no_panic (dir_block_count sb ino)"
  unfolding dir_block_count_def by (intro no_panic_intros) (auto simp: sb_ok_def)

lemma no_panic_read_dir: "sb_ok sb \<Longrightarrow> no_panic (read_dir d sb gdt ino)"
  unfolding read_dir_def parse_block_entries_def by (intro no_panic_intros; assumption)

lemma no_panic_lookup_blocks [no_panic_intros]: "no_panic (lookup_blocks d sb ino nm ls)"
proof (induction ls)
  case (Cons l ls)
  show ?case unfolding lookup_blocks.simps by (intro no_panic_intros Cons.IH)
qed (simp add: no_panic_def)

lemma no_panic_dir_lookup: "sb_ok sb \<Longrightarrow> no_panic (dir_lookup d sb gdt ino nm)"
  unfolding dir_lookup_def by (intro no_panic_intros)

lemma no_panic_read_symlink: "inode_ok ino \<Longrightarrow> no_panic (read_symlink ino)"
  by (simp add: read_symlink_def no_panic_def slice_r_def inode_ok_def)

lemma no_panic_file_reader_new: "no_panic (file_reader_new d sb ino)"
  unfolding file_reader_new_def by (intro no_panic_intros)

lemma no_panic_read_chunk:
  assumes "sb_ok sb" and "wf_disk d"
  shows "no_panic (read_chunk d sb leaves off n)"
proof -
  have bs: "512 * spb sb = sb_block_size sb" "0 < spb sb" using sb_ok_block_size[OF assms(1)] by auto
  have slice: "no_panic (slice_r (off mod sb_block_size sb) (min (sb_block_size sb - off mod sb_block_size sb) n) blk)"
    if "read_sectors d s (spb sb) = Ok blk" for s blk
  proof -
    have len: "length blk = sb_block_size sb"
      using that length_sector_run[OF assms(2), of s "spb sb"] bs
      by (auto simp: read_sectors_Ok_iff[OF assms(2) bs(2)] readable_def)
    have "off mod sb_block_size sb < sb_block_size sb" using bs by (intro mod_less_divisor) linarith
    then show ?thesis by (simp add: slice_r_def no_panic_def len)
  qed
  show ?thesis unfolding read_chunk_def Let_def
    by (intro no_panic_intros) (auto intro: slice)
qed

lemma no_panic_read_loop_file:
  assumes "sb_ok sb" and "wf_disk d"
  shows "no_panic (read_loop_file d sb leaves off n)"
  using assms
proof (induction d sb leaves off n rule: read_loop_file.induct)
  case (1 d sb leaves off n)
  note chunk = no_panic_read_chunk[OF "1.prems"]
  show ?case unfolding read_loop_file.simps[of d sb leaves off n]
    by (intro no_panic_intros chunk "1.IH" "1.prems") (use "1.prems"(1) in \<open>simp add: sb_ok_def\<close>)
qed

lemma no_panic_file_read:
  "sb_ok sb \<Longrightarrow> wf_disk d \<Longrightarrow> no_panic (fst (file_read d sb len fr))"
  using no_panic_read_loop_file[of sb d "fr_leaves fr" "fr_position fr"]
  by (auto simp: file_read_def Let_def no_panic_def split: res.split)

lemma no_panic_journal_load: "sb_ok sb \<Longrightarrow> no_panic (journal_load d sb gdt)"
  unfolding journal_load_def Let_def read_journal_superblock_def journal_block_addr_def read_phys_block_def
    parse_journal_superblock_def
  by (intro no_panic_intros) (auto simp: sb_ok_def)

end
