(* ===== verification/Sector_Cache.thy ===== *)
theory Sector_Cache
  imports Block_Device
begin

text \<open>
  The caching device (\<open>pengwin/src/cache.rs\<close>): an LRU map of sectors in front of a device,
  filled on a read miss and invalidated by a write. The map is the \<open>LruCache\<close> of the
  \<open>lru\<close> crate, whose documented behaviour is the locale \<open>lru_map\<close>; it is interpreted on a
  bounded recency list. Under these laws the caching device implements the contract of
  the trait. The second part takes the locks into account: each of the two operations
  consists of several critical sections, which threads interleave.
\<close>

section \<open>The cache map\<close>

locale lru_map =
  fixes get :: "nat \<Rightarrow> 'c \<Rightarrow> byte list option \<times> 'c"
    and put :: "nat \<Rightarrow> byte list \<Rightarrow> 'c \<Rightarrow> 'c"
    and pop :: "nat \<Rightarrow> 'c \<Rightarrow> 'c"
    and peek :: "'c \<Rightarrow> nat \<Rightarrow> byte list option"
  assumes get_peek: "get k c = (r, c') \<Longrightarrow> r = peek c k \<and> peek c' = peek c"
    and put_peek: "peek (put k v c) j = Some w \<Longrightarrow> (j = k \<and> w = v) \<or> (j \<noteq> k \<and> peek c j = Some w)"
    and pop_peek: "peek (pop k c) = (peek c)(k := None)"

text \<open>A recency list of at most \<open>cap\<close> entries, most recent first.\<close>

type_synonym recency = "(nat \<times> byte list) list"

definition rl_get :: "nat \<Rightarrow> recency \<Rightarrow> byte list option \<times> recency" where
  "rl_get k c = (case map_of c k of
       None \<Rightarrow> (None, c)
     | Some v \<Rightarrow> (Some v, (k, v) # filter (\<lambda>e. fst e \<noteq> k) c))"

definition rl_put :: "nat \<Rightarrow> nat \<Rightarrow> byte list \<Rightarrow> recency \<Rightarrow> recency" where
  "rl_put cap k v c = take cap ((k, v) # filter (\<lambda>e. fst e \<noteq> k) c)"

definition rl_pop :: "nat \<Rightarrow> recency \<Rightarrow> recency" where
  "rl_pop k c = filter (\<lambda>e. fst e \<noteq> k) c"

lemma map_of_filter_key: "map_of (filter (\<lambda>e. fst e \<noteq> k) c) = (map_of c)(k := None)"
  by (induction c) (auto simp: fun_eq_iff)

lemma map_of_take_Some: "map_of (take n c) j = Some w \<Longrightarrow> map_of c j = Some w"
proof (induction c arbitrary: n)
  case (Cons e c)
  then show ?case by (cases n) (auto split: if_splits)
qed simp

interpretation recency_list: lru_map rl_get "rl_put cap" rl_pop map_of
proof unfold_locales
  fix k c r and c' :: recency
  assume "rl_get k c = (r, c')"
  then show "r = map_of c k \<and> map_of c' = map_of c"
    by (auto simp: rl_get_def map_of_filter_key fun_eq_iff split: option.splits)
next
  fix k v c j w
  assume "map_of (rl_put cap k v c) j = Some w"
  then have "map_of ((k, v) # filter (\<lambda>e. fst e \<noteq> k) c) j = Some w"
    unfolding rl_put_def by (rule map_of_take_Some)
  then show "(j = k \<and> w = v) \<or> (j \<noteq> k \<and> map_of c j = Some w)"
    by (auto simp: map_of_filter_key split: if_splits)
qed (simp add: rl_pop_def map_of_filter_key)

section \<open>The device\<close>

record 'c cached_device =
  cd_inner :: disk
  cd_cache :: 'c

definition cache_capacity :: "nat \<Rightarrow> nat" where
  "cache_capacity cache_size = (if cache_size = 0 then 1 else cache_size)"

definition cached_read ::
  "(nat \<Rightarrow> 'c \<Rightarrow> byte list option \<times> 'c) \<Rightarrow> (nat \<Rightarrow> byte list \<Rightarrow> 'c \<Rightarrow> 'c) \<Rightarrow> nat
     \<Rightarrow> ('c cached_device, bd_error, byte list) st" where
  "cached_read get put i = (\<lambda>d.
     case get i (cd_cache d) of
       (Some b, c) \<Rightarrow> (Ok b, d\<lparr>cd_cache := c\<rparr>)
     | (None, c) \<Rightarrow>
         sbind (sread (\<lambda>d. read_sector (cd_inner d) i)) (\<lambda>b.
         sbind (smodify (\<lambda>d. d\<lparr>cd_cache := put i b (cd_cache d)\<rparr>)) (\<lambda>_.
         sreturn b)) (d\<lparr>cd_cache := c\<rparr>))"

definition cached_write ::
  "(nat \<Rightarrow> 'c \<Rightarrow> 'c) \<Rightarrow> nat \<Rightarrow> byte list \<Rightarrow> ('c cached_device, bd_error, unit) st" where
  "cached_write pop i b = (\<lambda>d.
     case write_sector i b (cd_inner d) of
       (Ok _, inner) \<Rightarrow> (Ok (), d\<lparr>cd_inner := inner, cd_cache := pop i (cd_cache d)\<rparr>)
     | (Err e, inner) \<Rightarrow> (Err e, d\<lparr>cd_inner := inner\<rparr>)
     | (Panic, inner) \<Rightarrow> (Panic, d\<lparr>cd_inner := inner\<rparr>)
     | (Diverge, inner) \<Rightarrow> (Diverge, d\<lparr>cd_inner := inner\<rparr>))"

definition cached_flush :: "('c cached_device, bd_error, unit) st" where
  "cached_flush = (\<lambda>d. case dev_flush (cd_inner d) of (r, inner) \<Rightarrow> (r, d\<lparr>cd_inner := inner\<rparr>))"

text \<open>A cached sector is what the device would answer.\<close>

definition coherent :: "('c \<Rightarrow> nat \<Rightarrow> byte list option) \<Rightarrow> 'c cached_device \<Rightarrow> bool" where
  "coherent peek d \<longleftrightarrow> (\<forall>i b. peek (cd_cache d) i = Some b \<longrightarrow> read_sector (cd_inner d) i = Ok b)"

lemma read_sector_write_other:
  "j \<noteq> i \<Longrightarrow> read_sector (d\<lparr>sectors := (sectors d)(i := b)\<rparr>) j = read_sector d j"
  by (simp add: read_sector_def)

lemma write_sector_cases:
  obtains "write_sector i b d = (Ok (), d\<lparr>sectors := (sectors d)(i := b)\<rparr>)"
  | e where "write_sector i b d = (Err e, d)"
proof -
  have "write_sector i b d = (Ok (), d\<lparr>sectors := (sectors d)(i := b)\<rparr>) \<or>
      (\<exists>e. write_sector i b d = (Err e, d))"
    by (simp add: write_sector_def split: option.split)
  with that show ?thesis by blast
qed

context lru_map
begin

lemma cached_read_view:
  assumes "coherent peek d" and "cached_read get put i d = (r, d')"
  shows "r = read_sector (cd_inner d) i \<and> cd_inner d' = cd_inner d \<and> coherent peek d'"
proof -
  obtain hit c where g: "get i (cd_cache d) = (hit, c)" by (cases "get i (cd_cache d)")
  note p = get_peek[OF g]
  show ?thesis
  proof (cases hit)
    case (Some b)
    then show ?thesis using assms g p by (auto simp: cached_read_def coherent_def)
  next
    case None
    have put': "coherent peek (d\<lparr>cd_cache := put i b c\<rparr>)"
      if "read_sector (cd_inner d) i = Ok b" for b
      using assms(1) p that by (auto simp: coherent_def dest!: put_peek)
    show ?thesis
      using assms g p None put'
      by (cases "read_sector (cd_inner d) i") (auto simp: cached_read_def coherent_def)
  qed
qed

lemma cached_write_view:
  assumes "coherent peek d" and "cached_write pop i b d = (r, d')"
  shows "write_sector i b (cd_inner d) = (r, cd_inner d') \<and> coherent peek d'"
proof (cases rule: write_sector_cases[of i b "cd_inner d"])
  case 1
  then show ?thesis
    using assms by (auto simp: cached_write_def coherent_def pop_peek read_sector_write_other
        split: if_splits)
next
  case (2 e)
  then show ?thesis using assms by (auto simp: cached_write_def coherent_def)
qed

end

sublocale lru_map \<subseteq> cached: block_device "cached_read get put" "cached_write pop" cd_inner
  "coherent peek"
  by unfold_locales (auto dest: cached_read_view cached_write_view)

section \<open>Interleavings\<close>

text \<open>
  One reader and one writer of the same cache. The reader looks the sector up under the
  lock, on a miss reads the device without it, and takes it again to store what it read;
  the writer writes the device and then takes the lock to remove the entry. The cache may
  drop an entry at any time.
\<close>

datatype reader = RIdle | RMissed nat | RFetched nat "byte list" | RDone nat "byte list"

datatype writer = WIdle | WStored nat

record shared_cache =
  sc_dev :: "nat \<Rightarrow> byte list"
  sc_cache :: "nat \<Rightarrow> byte list option"
  sc_reader :: reader
  sc_writer :: writer

inductive cache_step :: "shared_cache \<Rightarrow> shared_cache \<Rightarrow> bool" where
  read_hit: "sc_reader s = RIdle \<Longrightarrow> sc_cache s i = Some b \<Longrightarrow>
     cache_step s (s\<lparr>sc_reader := RDone i b\<rparr>)"
| read_miss: "sc_reader s = RIdle \<Longrightarrow> sc_cache s i = None \<Longrightarrow>
     cache_step s (s\<lparr>sc_reader := RMissed i\<rparr>)"
| read_fetch: "sc_reader s = RMissed i \<Longrightarrow>
     cache_step s (s\<lparr>sc_reader := RFetched i (sc_dev s i)\<rparr>)"
| read_put: "sc_reader s = RFetched i b \<Longrightarrow>
     cache_step s (s\<lparr>sc_reader := RDone i b, sc_cache := (sc_cache s)(i \<mapsto> b)\<rparr>)"
| read_return: "sc_reader s = RDone i b \<Longrightarrow> cache_step s (s\<lparr>sc_reader := RIdle\<rparr>)"
| write_store: "sc_writer s = WIdle \<Longrightarrow>
     cache_step s (s\<lparr>sc_writer := WStored i, sc_dev := (sc_dev s)(i := b)\<rparr>)"
| write_pop: "sc_writer s = WStored i \<Longrightarrow>
     cache_step s (s\<lparr>sc_writer := WIdle, sc_cache := (sc_cache s)(i := None)\<rparr>)"
| evict: "cache_step s (s\<lparr>sc_cache := (sc_cache s)(i := None)\<rparr>)"

definition cache_start :: "(nat \<Rightarrow> byte list) \<Rightarrow> shared_cache" where
  "cache_start dev = \<lparr>sc_dev = dev, sc_cache = (\<lambda>_. None), sc_reader = RIdle, sc_writer = WIdle\<rparr>"

definition cache_fresh :: "shared_cache \<Rightarrow> bool" where
  "cache_fresh s \<longleftrightarrow> (\<forall>i b. sc_cache s i = Some b \<longrightarrow> sc_dev s i = b)"

inductive_cases cache_stepE: "cache_step s t"

text \<open>
  The steps of a schedule that keeps the two operations apart: a write starts only while
  no read is between its miss and its store, and a read only while no write is open.
\<close>

definition apart :: "shared_cache \<Rightarrow> bool" where
  "apart s \<longleftrightarrow> sc_writer s = WIdle \<or> (\<forall>i b. sc_reader s \<noteq> RMissed i \<and> sc_reader s \<noteq> RFetched i b)"

definition cache_inv :: "shared_cache \<Rightarrow> bool" where
  "cache_inv s \<longleftrightarrow>
     (\<forall>i b. sc_cache s i = Some b \<longrightarrow> sc_dev s i = b \<or> sc_writer s = WStored i) \<and>
     (\<forall>i b. sc_reader s = RFetched i b \<longrightarrow> sc_dev s i = b)"

lemma cache_inv_step:
  "cache_step s t \<Longrightarrow> cache_inv s \<Longrightarrow> apart s \<Longrightarrow> apart t \<Longrightarrow> cache_inv t"
  by (erule cache_stepE) (auto simp: cache_inv_def apart_def split: if_splits)

lemma cache_inv_fresh: "cache_inv s \<Longrightarrow> sc_writer s = WIdle \<Longrightarrow> cache_fresh s"
  by (auto simp: cache_inv_def cache_fresh_def)

lemma cache_inv_run:
  "(\<lambda>s t. cache_step s t \<and> apart t)\<^sup>*\<^sup>* s t \<Longrightarrow> cache_inv s \<Longrightarrow> apart s \<Longrightarrow> cache_inv t \<and> apart t"
  by (induction rule: rtranclp_induct) (auto dest: cache_inv_step)

section \<open>Multi-sector operations through the cache\<close>

context lru_map
begin

lemma cached_read_sectors_view:
  "coherent peek d \<Longrightarrow> dyn_read_sectors (cached_read get put) s n d = (r, d') \<Longrightarrow>
   r = read_sectors (cd_inner d) s n \<and> cd_inner d' = cd_inner d \<and> coherent peek d'"
  by (rule cached.read_sectors_view)

lemma cached_write_sectors_view:
  "coherent peek d \<Longrightarrow> dyn_write_sectors (cached_write pop) s data d = (r, d') \<Longrightarrow>
   write_sectors s data (cd_inner d) = (r, cd_inner d') \<and> coherent peek d'"
  by (rule cached.write_sectors_view)

end

section \<open>Properties\<close>

text \<open>
  C14. The sector cache is transparent: over any cache that keeps the laws of an LRU map, and
  from any state in which what is cached is what the device holds, multi-sector reads and
  writes through the cache return and store what they do on the device, and the cache stays
  right.
\<close>

theorem cached_device_transparent:
  assumes "lru_map get put pop peek" and "coherent peek d"
  shows "\<exists>dr dw. dyn_read_sectors (cached_read get put) s n d = (read_sectors (cd_inner d) s n, dr) \<and>
     cd_inner dr = cd_inner d \<and> coherent peek dr \<and>
     dyn_write_sectors (cached_write pop) s data d = (fst (write_sectors s data (cd_inner d)), dw) \<and>
     cd_inner dw = snd (write_sectors s data (cd_inner d)) \<and> coherent peek dw"
proof -
  obtain r dr where r: "dyn_read_sectors (cached_read get put) s n d = (r, dr)" by fastforce
  obtain q dw where q: "dyn_write_sectors (cached_write pop) s data d = (q, dw)" by fastforce
  show ?thesis
    using lru_map.cached_read_sectors_view[OF assms r] lru_map.cached_write_sectors_view[OF assms q] r q
    by (metis fst_conv snd_conv)
qed

theorem cached_device_transparent_witness:
  "\<exists>dr. dyn_read_sectors (cached_read rl_get (rl_put 2)) 0 4 \<lparr>cd_inner = blank_disk 8, cd_cache = []\<rparr> =
     (read_sectors (blank_disk 8) 0 4, dr) \<and> coherent map_of dr"
  using cached_device_transparent[OF recency_list.lru_map_axioms[of 2],
      of "\<lparr>cd_inner = blank_disk 8, cd_cache = []\<rparr>" 0 4 "[]"]
  by (auto simp: coherent_def)

text \<open>
  C39. With a concurrent reader and writer the cache can go stale: a read that misses before
  the write and stores its result after the writer's removal leaves the old sector cached,
  with both operations finished.
\<close>

theorem cache_can_go_stale:
  "\<exists>dev t. cache_step\<^sup>*\<^sup>* (cache_start dev) t \<and> sc_reader t = RIdle \<and> sc_writer t = WIdle \<and>
     \<not> cache_fresh t"
proof -
  define dev :: "nat \<Rightarrow> byte list" where "dev = (\<lambda>_. [0])"
  define s1 where "s1 = (cache_start dev)\<lparr>sc_reader := RMissed 0\<rparr>"
  define s2 where "s2 = s1\<lparr>sc_reader := RFetched 0 (sc_dev s1 0)\<rparr>"
  define s3 where "s3 = s2\<lparr>sc_writer := WStored 0, sc_dev := (sc_dev s2)(0 := [1])\<rparr>"
  define s4 where "s4 = s3\<lparr>sc_writer := WIdle, sc_cache := (sc_cache s3)(0 := None)\<rparr>"
  define s5 where "s5 = s4\<lparr>sc_reader := RDone 0 [0], sc_cache := (sc_cache s4)(0 \<mapsto> [0])\<rparr>"
  define s6 where "s6 = s5\<lparr>sc_reader := RIdle\<rparr>"
  note defs = dev_def s1_def s2_def s3_def s4_def s5_def s6_def cache_start_def
  have "cache_step (cache_start dev) s1" unfolding s1_def by (rule read_miss) (simp_all add: cache_start_def)
  moreover have "cache_step s1 s2" unfolding s2_def by (rule read_fetch) (simp add: s1_def)
  moreover have "cache_step s2 s3" unfolding s3_def by (rule write_store) (simp add: defs)
  moreover have "cache_step s3 s4" unfolding s4_def by (rule write_pop) (simp add: s3_def)
  moreover have "cache_step s4 s5" unfolding s5_def by (rule read_put) (simp add: defs)
  moreover have "cache_step s5 s6" unfolding s6_def by (rule read_return) (simp add: s5_def)
  ultimately have "cache_step\<^sup>*\<^sup>* (cache_start dev) s6" by (meson converse_rtranclp_into_rtranclp rtranclp.rtrancl_refl)
  moreover have "\<not> cache_fresh s6" by (auto simp: cache_fresh_def defs)
  moreover have "sc_reader s6 = RIdle" "sc_writer s6 = WIdle" by (simp_all add: defs)
  ultimately show ?thesis by blast
qed

text \<open>
  C38. When no write overlaps the part of a read between its miss and its store, every
  schedule leaves a cache in which each cached sector is the device's.
\<close>

theorem cache_fresh_without_overlap:
  assumes "(\<lambda>s t. cache_step s t \<and> apart t)\<^sup>*\<^sup>* (cache_start dev) t" and "sc_writer t = WIdle"
  shows "cache_fresh t"
proof -
  have "cache_inv (cache_start dev)" "apart (cache_start dev)"
    by (simp_all add: cache_inv_def apart_def cache_start_def)
  from cache_inv_run[OF assms(1) this] show ?thesis using cache_inv_fresh assms(2) by blast
qed

theorem cache_fresh_without_overlap_witness:
  "\<exists>t. (\<lambda>s t. cache_step s t \<and> apart t)\<^sup>*\<^sup>* (cache_start (\<lambda>_. [0])) t \<and> sc_reader t = RMissed 5 \<and> cache_fresh t"
proof -
  let ?t = "(cache_start (\<lambda>_. [0]))\<lparr>sc_reader := RMissed 5\<rparr>"
  have run: "(\<lambda>s t. cache_step s t \<and> apart t)\<^sup>*\<^sup>* (cache_start (\<lambda>_. [0])) ?t"
    by (rule r_into_rtranclp, rule conjI, rule read_miss) (simp_all add: cache_start_def apart_def)
  then show ?thesis
    using cache_fresh_without_overlap[OF run] by (intro exI[of _ ?t]) (auto simp: cache_start_def)
qed

end
