(* ===== verification/Journal_Writer.thy ===== *)
theory Journal_Writer
  imports Journal
begin

text \<open>
  The write side of the journal (\<open>ext4-core/src/journal/writer.rs\<close>): \<open>commit\<close> appends a
  transaction to the circular log as revoke, descriptor, data and commit blocks, then stores
  the pinned blocks at their own places.
\<close>

section \<open>Block layout\<close>

text \<open>Block types and tag flags of \<open>journal/replay.rs\<close>, shared by both sides.\<close>

definition BT_DESCRIPTOR :: nat where "BT_DESCRIPTOR = 1"
definition BT_COMMIT :: nat where "BT_COMMIT = 2"
definition BT_REVOKE :: nat where "BT_REVOKE = 5"

definition TF_SAME_UUID :: nat where "TF_SAME_UUID = 1"
definition TF_DELETED :: nat where "TF_DELETED = 2"
definition TF_ESCAPE :: nat where "TF_ESCAPE = 4"
definition TF_LAST_TAG :: nat where "TF_LAST_TAG = 8"

definition build_block_header :: "nat \<Rightarrow> nat \<Rightarrow> nat \<Rightarrow> byte list" where
  "build_block_header magic blocktype sequence = to_be 4 magic @ to_be 4 blocktype @ to_be 4 sequence"

record journal_writer =
  jw_write_head :: nat
  jw_next_sequence :: nat
  jw_journal_blocks :: "nat list"
  jw_block_size :: nat
  jw_first_usable_block :: nat
  jw_total_journal_blocks :: nat
  jw_journal_uuid :: "byte list"
  jw_has_csum_v3 :: bool

definition journal_writer_new :: "journal \<Rightarrow> journal_writer" where
  "journal_writer_new jn =
     \<lparr>jw_write_head = (if is_clean (jn_sb jn) then jsb_first_usable_block (jn_sb jn)
                       else jsb_start_block (jn_sb jn)),
      jw_next_sequence = jsb_start_sequence (jn_sb jn),
      jw_journal_blocks = jn_blocks jn,
      jw_block_size = jsb_block_size (jn_sb jn),
      jw_first_usable_block = jsb_first_usable_block (jn_sb jn),
      jw_total_journal_blocks = jsb_total_blocks (jn_sb jn),
      jw_journal_uuid = jsb_uuid (jn_sb jn),
      jw_has_csum_v3 = has_csum_v3 (jn_sb jn)\<rparr>"

definition begin_transaction :: "journal_writer \<Rightarrow> transaction" where
  "begin_transaction w = txn_new (jw_next_sequence w)"

text \<open>The writer and the device it writes to.\<close>

record jstate =
  js_w :: journal_writer
  js_dev :: disk

definition js_on_dev :: "(disk, 'e, 'a) st \<Rightarrow> (jstate, 'e, 'a) st" where
  "js_on_dev m = (\<lambda>s. case m (js_dev s) of (r, d) \<Rightarrow> (r, s\<lparr>js_dev := d\<rparr>))"

section \<open>The log\<close>

definition advance_write_head :: "journal_writer \<Rightarrow> journal_writer" where
  "advance_write_head w =
     (let h = wadd 32 (jw_write_head w) 1 in
      w\<lparr>jw_write_head := (if h \<ge> jw_total_journal_blocks w then jw_first_usable_block w else h)\<rparr>)"

definition write_to_journal :: "byte list \<Rightarrow> (jstate, journal_error, unit) st" where
  "write_to_journal data =
     sbind (sread (\<lambda>s. journal_block_addr (jw_journal_blocks (js_w s)) (jw_write_head (js_w s)))) (\<lambda>phys.
     sbind (sread (\<lambda>s. Ok (jw_block_size (js_w s)))) (\<lambda>block_size.
     sbind (smap_err JBlockDevice (js_on_dev (write_sectors (wmul 64 phys (block_size div 512))
              (resize0 block_size data)))) (\<lambda>_.
     smodify (\<lambda>s. s\<lparr>js_w := advance_write_head (js_w s)\<rparr>))))"

definition tag_bytes :: "nat \<Rightarrow> nat \<Rightarrow> byte list" where
  "tag_bytes fs_block flags =
     to_be 4 fs_block @ to_be 2 flags @ to_be 2 (fs_block div 2 ^ 32) @ to_be 4 0"

text \<open>
  The loop over the blocks of a transaction: \<open>i\<close> counts from zero, the last tag is marked,
  the first one is followed by the UUID when it fits.
\<close>

primrec descriptor_tags ::
  "journal_writer \<Rightarrow> (nat \<times> byte list) list \<Rightarrow> nat \<Rightarrow> nat \<Rightarrow> byte list
     \<Rightarrow> (journal_error, byte list) res" where
  "descriptor_tags w [] i off buf = Ok buf"
| "descriptor_tags w (b # bs) i off buf =
     (let flags = (if i > 0 then TF_SAME_UUID else 0) OR (if bs = [] then TF_LAST_TAG else 0) in
      if off + 12 > length buf then Err (JBlockOutOfRange (jw_write_head w))
      else
        let buf1 = patch off (tag_bytes (fst b) flags) buf;
            off1 = off + 12 in
        if i = 0 \<and> off1 + 16 \<le> length buf1
        then rbind (patch_r off1 (jw_journal_uuid w) buf1) (descriptor_tags w bs (i + 1) (off1 + 16))
        else descriptor_tags w bs (i + 1) off1 buf1)"

definition descriptor_block ::
  "journal_writer \<Rightarrow> (nat \<times> byte list) list \<Rightarrow> nat \<Rightarrow> (journal_error, byte list) res" where
  "descriptor_block w blocks sequence =
     rbind (patch_r 0 (build_block_header JOURNAL_MAGIC BT_DESCRIPTOR sequence)
              (replicate (jw_block_size w) 0))
       (descriptor_tags w blocks 0 12)"

definition write_descriptor_block ::
  "(nat \<times> byte list) list \<Rightarrow> nat \<Rightarrow> (jstate, journal_error, unit) st" where
  "write_descriptor_block blocks sequence =
     sbind (sread (\<lambda>s. descriptor_block (js_w s) blocks sequence)) write_to_journal"

text \<open>Data that starts with the journal magic has its first four bytes zeroed.\<close>

definition escaped :: "byte list \<Rightarrow> byte list" where
  "escaped data =
     (if length data \<ge> 4 \<and> bytes_at 0 4 data = to_be 4 JOURNAL_MAGIC
      then patch 0 [0, 0, 0, 0] data else data)"

definition write_data_block :: "byte list \<Rightarrow> (jstate, journal_error, unit) st" where
  "write_data_block data = write_to_journal (escaped data)"

text \<open>The loops of \<open>crc32c_commit\<close> on a 32-bit word.\<close>

definition crc_bit :: "32 word \<Rightarrow> 32 word" where
  "crc_bit h = (if h AND 1 \<noteq> 0 then drop_bit 1 h XOR 0x82F63B78 else drop_bit 1 h)"

definition crc32c_commit :: "byte list \<Rightarrow> nat \<Rightarrow> nat" where
  "crc32c_commit uuid sequence =
     unat (NOT (fold (\<lambda>b h. (crc_bit ^^ 8) (h XOR ucast b)) uuid 0xFFFFFFFF XOR of_nat sequence))"

definition commit_block :: "journal_writer \<Rightarrow> nat \<Rightarrow> (journal_error, byte list) res" where
  "commit_block w sequence =
     rbind (patch_r 0 (build_block_header JOURNAL_MAGIC BT_COMMIT sequence)
              (replicate (jw_block_size w) 0)) (\<lambda>buf.
     if jw_has_csum_v3 w
     then patch_r 12 (to_le 4 (crc32c_commit (jw_journal_uuid w) sequence)) buf
     else Ok buf)"

definition write_commit_block :: "nat \<Rightarrow> (jstate, journal_error, unit) st" where
  "write_commit_block sequence = sbind (sread (\<lambda>s. commit_block (js_w s) sequence)) write_to_journal"

primrec revoke_entries :: "nat list \<Rightarrow> nat \<Rightarrow> byte list \<Rightarrow> byte list" where
  "revoke_entries [] off buf = buf"
| "revoke_entries (b # bs) off buf =
     (if off + 4 > length buf then buf
      else revoke_entries bs (off + 4) (patch off (to_be 4 b) buf))"

definition revoke_block_bytes :: "journal_writer \<Rightarrow> nat list \<Rightarrow> nat \<Rightarrow> (journal_error, byte list) res" where
  "revoke_block_bytes w revoked sequence =
     rbind (patch_r 0 (build_block_header JOURNAL_MAGIC BT_REVOKE sequence)
              (replicate (jw_block_size w) 0)) (\<lambda>b1.
     rbind (patch_r 12 (to_be 4 (length revoked)) b1) (\<lambda>b2.
     Ok (revoke_entries revoked 16 b2)))"

definition write_revoke_block :: "nat list \<Rightarrow> nat \<Rightarrow> (jstate, journal_error, unit) st" where
  "write_revoke_block revoked sequence =
     sbind (sread (\<lambda>s. revoke_block_bytes (js_w s) revoked sequence)) write_to_journal"

section \<open>Commit and checkpoint\<close>

definition write_fs_block :: "nat \<Rightarrow> byte list \<Rightarrow> nat \<Rightarrow> (disk, journal_error, unit) st" where
  "write_fs_block fs_block data block_size =
     smap_err JBlockDevice
       (write_sectors (wmul 64 fs_block (block_size div 512)) (resize0 block_size data))"

text \<open>The three blocks of the log, in order, then the blocks in place.\<close>

definition log_transaction :: "transaction \<Rightarrow> (jstate, journal_error, unit) st" where
  "log_transaction txn =
     sbind (if txn_revoked txn \<noteq> [] then write_revoke_block (txn_revoked txn) (txn_sequence txn)
            else sreturn ()) (\<lambda>_.
     sbind (if txn_blocks txn \<noteq> [] then
              sbind (write_descriptor_block (txn_blocks txn) (txn_sequence txn)) (\<lambda>_.
              sfor (txn_blocks txn) (\<lambda>e. write_data_block (snd e)))
            else sreturn ()) (\<lambda>_.
     write_commit_block (txn_sequence txn)))"

definition store_in_place :: "(nat \<times> byte list) list \<Rightarrow> (jstate, journal_error, unit) st" where
  "store_in_place blocks =
     sfor blocks (\<lambda>e. sbind (sread (\<lambda>s. Ok (jw_block_size (js_w s)))) (\<lambda>block_size.
       js_on_dev (write_fs_block (fst e) (snd e) block_size)))"

definition commit :: "transaction \<Rightarrow> (jstate, journal_error, unit) st" where
  "commit txn =
     sbind (log_transaction txn) (\<lambda>_.
     sbind (store_in_place (txn_blocks txn)) (\<lambda>_.
     smodify (\<lambda>s. s\<lparr>js_w := (js_w s)\<lparr>jw_next_sequence := wadd 32 (jw_next_sequence (js_w s)) 1\<rparr>\<rparr>)))"

definition advance_journal_tail :: "(jstate, journal_error, unit) st" where
  "advance_journal_tail =
     sbind (sread (\<lambda>s. journal_block_addr (jw_journal_blocks (js_w s)) 0)) (\<lambda>phys.
     sbind (sread (\<lambda>s. Ok (js_w s))) (\<lambda>w.
     let spb = jw_block_size w div 512;
         start_sector = wmul 64 phys spb in
     sbind (sread (\<lambda>s. map_err JBlockDevice (read_sectors (js_dev s) start_sector spb))) (\<lambda>data.
     if length data < 1024 then sfail JInvalidBuffer
     else smap_err JBlockDevice (js_on_dev (write_sectors start_sector
            (patch 24 (to_be 4 (jw_next_sequence w))
              (patch 28 (to_be 4 (jw_first_usable_block w)) data)))))))"

definition checkpoint :: "(nat \<times> byte list) list \<Rightarrow> (jstate, journal_error, unit) st" where
  "checkpoint blocks =
     sbind (store_in_place blocks) (\<lambda>_.
     sbind (smap_err JBlockDevice (js_on_dev dev_flush)) (\<lambda>_.
     advance_journal_tail))"

definition flush_pending :: "(jstate, journal_error, unit) st" where
  "flush_pending = sreturn ()"

end
