(* ===== verification/Journal_Replay.thy ===== *)
theory Journal_Replay
  imports Journal_Writer
begin

text \<open>
  Journal recovery (\<open>ext4-core/src/journal/replay.rs\<close>): the scan of the log from its start,
  the transactions it applies, and the journal superblock it marks clean. The scan takes
  fuel: the code does not bound it, and a log made of revoke blocks of one sequence number
  keeps it going round for ever, which the model answers with \<open>Diverge\<close>.
\<close>

section \<open>Blocks of the log\<close>

record jheader =
  jh_magic :: nat
  jh_blocktype :: nat
  jh_sequence :: nat

definition jheader_of :: "byte list \<Rightarrow> jheader" where
  "jheader_of buf = \<lparr>jh_magic = be32 0 buf, jh_blocktype = be32 4 buf, jh_sequence = be32 8 buf\<rparr>"

definition advance_jblock :: "nat \<Rightarrow> journal \<Rightarrow> nat" where
  "advance_jblock jblock jn =
     (let next = wadd 32 jblock 1 in
      if next \<ge> jsb_total_blocks (jn_sb jn) then jsb_first_usable_block (jn_sb jn) else next)"

text \<open>The block number of the tag at \<open>off\<close>, and what becomes of its data block.\<close>

definition tag_block :: "journal \<Rightarrow> byte list \<Rightarrow> nat \<Rightarrow> nat" where
  "tag_block jn buf off =
     (if has_64bit (jn_sb jn) then hi_lo 32 (be16 (off + 6) buf) (be32 off buf) else be32 off buf)"

definition tag_flags :: "byte list \<Rightarrow> nat \<Rightarrow> nat" where "tag_flags buf off = be16 (off + 4) buf"

definition unescaped :: "nat \<Rightarrow> byte list \<Rightarrow> byte list" where
  "unescaped flags data =
     (if flags AND TF_ESCAPE \<noteq> 0 \<and> length data \<ge> 4 then patch 0 [0xC0, 0x3B, 0x39, 0x98] data else data)"

text \<open>
  The loop of \<open>parse_descriptor_block\<close>: from byte \<open>off\<close> of the descriptor, \<open>jblock\<close> being
  the log block that holds the data of the next tag.
\<close>

function parse_tags ::
  "disk \<Rightarrow> superblock \<Rightarrow> journal \<Rightarrow> nat list \<Rightarrow> byte list \<Rightarrow> nat \<Rightarrow> nat
     \<Rightarrow> (journal_error, nat \<times> (nat \<times> byte list) list) res" where
  "parse_tags dev fs_sb jn revoked buf off jblock =
     (if off + 12 > length buf then Ok (jblock, [])
      else
        let flags = tag_flags buf off;
            fs_block = tag_block jn buf off;
            off1 = off + 12 + (if flags AND TF_SAME_UUID = 0 then 16 else 0) in
        rbind (if fs_block \<notin> set revoked \<and> flags AND TF_DELETED = 0
               then rbind (journal_read_block dev fs_sb jn jblock) (\<lambda>data.
                    Ok [(fs_block, resize0 (sb_block_size fs_sb) (unescaped flags data))])
               else Ok []) (\<lambda>here.
        let jblock1 = advance_jblock jblock jn in
        if flags AND TF_LAST_TAG \<noteq> 0 then Ok (jblock1, here)
        else rbind (parse_tags dev fs_sb jn revoked buf off1 jblock1) (\<lambda>r.
             Ok (fst r, here @ snd r))))"
  by pat_completeness auto
termination
  by (relation "measure (\<lambda>(dev, sb, jn, rv, buf, off, jb). length buf - off)") auto

declare parse_tags.simps [simp del]

definition parse_descriptor_block ::
  "disk \<Rightarrow> superblock \<Rightarrow> journal \<Rightarrow> nat \<Rightarrow> nat list
     \<Rightarrow> (journal_error, nat \<times> (nat \<times> byte list) list) res" where
  "parse_descriptor_block dev fs_sb jn desc_jblock revoked =
     rbind (journal_read_block dev fs_sb jn desc_jblock) (\<lambda>buf.
     parse_tags dev fs_sb jn revoked buf 12 (advance_jblock desc_jblock jn))"

primrec revoked_entries :: "nat \<Rightarrow> nat \<Rightarrow> byte list \<Rightarrow> nat list" where
  "revoked_entries 0 off buf = []"
| "revoked_entries (Suc n) off buf =
     (if off + 4 > length buf then [] else be32 off buf # revoked_entries n (off + 4) buf)"

definition collect_revoked_blocks :: "byte list \<Rightarrow> nat list \<Rightarrow> nat list" where
  "collect_revoked_blocks buf revoked =
     (if length buf < 16 then revoked else revoked @ revoked_entries (be32 12 buf) 16 buf)"

section \<open>The scan\<close>

definition is_commit_block :: "byte list \<Rightarrow> nat \<Rightarrow> bool" where
  "is_commit_block buf sequence \<longleftrightarrow> length buf \<ge> 12 \<and>
     jheader_of buf = \<lparr>jh_magic = JOURNAL_MAGIC, jh_blocktype = BT_COMMIT, jh_sequence = sequence\<rparr>"

definition apply_pending ::
  "superblock \<Rightarrow> (nat \<times> byte list) list \<Rightarrow> (disk, journal_error, unit) st" where
  "apply_pending fs_sb pending =
     sfor pending (\<lambda>e. smap_err JBlockDevice (write_sectors (wmul 64 (fst e) (spb fs_sb)) (snd e)))"

text \<open>The loop of \<open>replay\<close>; its result is the sequence number at which it stopped.\<close>

primrec replay_loop ::
  "nat \<Rightarrow> superblock \<Rightarrow> journal \<Rightarrow> nat \<Rightarrow> nat \<Rightarrow> nat list \<Rightarrow> (disk, journal_error, nat) st" where
  "replay_loop 0 fs_sb jn sequence jblock revoked = lift_res Diverge"
| "replay_loop (Suc fuel) fs_sb jn sequence jblock revoked =
     sbind (sread (\<lambda>dev. journal_read_block dev fs_sb jn jblock)) (\<lambda>buf.
     let header = jheader_of buf in
     if length buf < 12 \<or> jh_magic header \<noteq> JOURNAL_MAGIC \<or> jh_sequence header \<noteq> sequence
     then sreturn sequence
     else if jh_blocktype header = BT_DESCRIPTOR then
       sbind (sread (\<lambda>dev. parse_descriptor_block dev fs_sb jn jblock revoked)) (\<lambda>(jblock1, pending).
       sbind (sread (\<lambda>dev. journal_read_block dev fs_sb jn jblock1)) (\<lambda>commit_buf.
       if \<not> is_commit_block commit_buf sequence then sreturn sequence
       else sbind (apply_pending fs_sb pending) (\<lambda>_.
         replay_loop fuel fs_sb jn (wadd 32 sequence 1) (advance_jblock jblock1 jn) revoked)))
     else if jh_blocktype header = BT_COMMIT then
       replay_loop fuel fs_sb jn (wadd 32 sequence 1) (advance_jblock jblock jn) revoked
     else if jh_blocktype header = BT_REVOKE then
       replay_loop fuel fs_sb jn sequence (advance_jblock jblock jn)
         (collect_revoked_blocks buf revoked)
     else sreturn sequence)"

definition mark_journal_clean ::
  "superblock \<Rightarrow> journal \<Rightarrow> nat \<Rightarrow> (disk, journal_error, unit) st" where
  "mark_journal_clean fs_sb jn next_seq =
     sbind (lift_res (journal_block_addr (jn_blocks jn) 0)) (\<lambda>phys.
     let start_sector = wmul 64 phys (spb fs_sb) in
     sbind (sread (\<lambda>dev. map_err JBlockDevice (read_sectors dev start_sector (spb fs_sb)))) (\<lambda>data.
     if length data < 1024 then sfail JInvalidBuffer
     else
       sbind (smap_err JBlockDevice (write_sectors start_sector
         (patch 24 (to_be 4 next_seq) (patch 28 (to_be 4 0) data)))) (\<lambda>_.
       smap_err JBlockDevice dev_flush)))"

definition replay :: "nat \<Rightarrow> superblock \<Rightarrow> journal \<Rightarrow> (disk, journal_error, unit) st" where
  "replay fuel fs_sb jn =
     (if is_clean (jn_sb jn) then sreturn ()
      else sbind (replay_loop fuel fs_sb jn (jsb_start_sequence (jn_sb jn)) (jsb_start_block (jn_sb jn)) [])
        (mark_journal_clean fs_sb jn))"

text \<open>\<open>check_and_recover\<close> of \<open>journal/mod.rs\<close>: the journal it returns is the one loaded before the replay.\<close>

definition check_and_recover ::
  "nat \<Rightarrow> superblock \<Rightarrow> gdt \<Rightarrow> (disk, journal_error, journal) st" where
  "check_and_recover fuel fs_sb gdt =
     sbind (sread (\<lambda>dev. journal_load dev fs_sb gdt)) (\<lambda>jn.
     if jsb_errno (jn_sb jn) \<noteq> 0 then sfail (JErrno (jsb_errno (jn_sb jn)))
     else sbind (replay fuel fs_sb jn) (\<lambda>_. sreturn jn))"

end
