(* ===== verification/Mount.thy ===== *)
theory Mount
  imports Journal_Replay
begin

text \<open>
  Read-write mounting (\<open>ext4-core/src/journal/mount.rs\<close>): the safety sequence of \<open>open_rw\<close>,
  the dirty flag in the superblock, and unmounting.
\<close>

datatype mount_error =
    MtFilesystemError
  | MtJournal journal_error
  | MtSuperblock superblock_error
  | MtGroupDesc group_desc_error
  | MtBlockDevice bd_error
  | MtInvalidBuffer

text \<open>\<open>Ext4FsRw\<close>; the device it owns is the state.\<close>

record ext4_fs_rw =
  rw_sb :: superblock
  rw_gdt :: gdt
  rw_journal :: journal_writer

text \<open>The state word sits at byte 58 of the superblock; \<open>!VALID_FS\<close> is a 16-bit complement.\<close>

definition update_state_word :: "(nat \<Rightarrow> nat) \<Rightarrow> (disk, mount_error, unit) st" where
  "update_state_word f =
     sbind (sread (\<lambda>dev. map_err MtBlockDevice (read_sectors dev 2 2))) (\<lambda>data.
     if length data \<noteq> 1024 then sfail MtInvalidBuffer
     else smap_err MtBlockDevice (write_sectors 2 (patch 58 (to_le 2 (f (le16 58 data))) data)))"

definition set_dirty_flag :: "(disk, mount_error, unit) st" where
  "set_dirty_flag = update_state_word (\<lambda>current. current AND (2 ^ 16 - 1 - VALID_FS))"

definition clear_dirty_flag :: "(disk, mount_error, unit) st" where
  "clear_dirty_flag =
     sbind (update_state_word (\<lambda>current. current OR VALID_FS)) (\<lambda>_.
     smap_err MtBlockDevice dev_flush)"

definition open_rw :: "nat \<Rightarrow> (disk, mount_error, ext4_fs_rw) st" where
  "open_rw fuel =
     sbind (sread (\<lambda>dev. map_err MtSuperblock (parse dev))) (\<lambda>sb.
     if state_has_error sb then sfail MtFilesystemError
     else
       sbind (sread (\<lambda>dev. map_err MtGroupDesc (gdt_load dev sb))) (\<lambda>gdt.
       sbind (smap_err MtJournal (check_and_recover fuel sb gdt)) (\<lambda>jn.
       sbind set_dirty_flag (\<lambda>_.
       sbind (smap_err MtBlockDevice dev_flush) (\<lambda>_.
       sreturn \<lparr>rw_sb = sb, rw_gdt = gdt, rw_journal = journal_writer_new jn\<rparr>)))))"

text \<open>The journal writer leaves with the volume, so only its effect on the device is kept.\<close>

definition unmount :: "ext4_fs_rw \<Rightarrow> (disk, mount_error, unit) st" where
  "unmount fs =
     sbind (\<lambda>dev. case smap_err MtJournal flush_pending \<lparr>js_w = rw_journal fs, js_dev = dev\<rparr> of
              (r, s) \<Rightarrow> (r, js_dev s)) (\<lambda>_.
     sbind clear_dirty_flag (\<lambda>_. smap_err MtBlockDevice dev_flush))"

end
