(* ===== verification/Fs_State.thy ===== *)
theory Fs_State
  imports Inode
begin

text \<open>
  The state a write operation threads: the device behind \<open>&dyn BlockDevice\<close>, the group
  descriptor table behind \<open>&mut GroupDescTable\<close> (held by the \<open>Allocator\<close>) and the pending
  \<open>&mut Transaction\<close>. A component that works on one of them is lifted to the whole state.
  \<open>fs_inv\<close> is the invariant every operation of the write path keeps.
\<close>

record fs =
  f_dev :: disk
  f_gdt :: gdt
  f_txn :: transaction

section \<open>Lifting\<close>

definition on_dev :: "(disk, 'e, 'a) st \<Rightarrow> (fs, 'e, 'a) st" where
  "on_dev m = (\<lambda>s. case m (f_dev s) of (r, d) \<Rightarrow> (r, s\<lparr>f_dev := d\<rparr>))"

definition on_gdt :: "(gdt, 'e, 'a) st \<Rightarrow> (fs, 'e, 'a) st" where
  "on_gdt m = (\<lambda>s. case m (f_gdt s) of (r, g) \<Rightarrow> (r, s\<lparr>f_gdt := g\<rparr>))"

definition pin :: "nat \<Rightarrow> byte list \<Rightarrow> (fs, 'e, unit) st" where
  "pin b data = smodify (\<lambda>s. s\<lparr>f_txn := pin_block b data (f_txn s)\<rparr>)"

definition revoke :: "nat \<Rightarrow> (fs, 'e, unit) st" where
  "revoke b = smodify (\<lambda>s. s\<lparr>f_txn := revoke_block b (f_txn s)\<rparr>)"

text \<open>A computation on a local buffer: its result and what the buffer is afterwards.\<close>

definition run_local :: "('t, 'e, 'a) st \<Rightarrow> 't \<Rightarrow> ('e, 'a \<times> 't) res" where
  "run_local m t = (case m t of (r, t') \<Rightarrow> rbind r (\<lambda>x. Ok (x, t')))"

section \<open>The invariant of the write path\<close>

text \<open>
  The device keeps its shape and is not flushed, the table keeps its length and field widths,
  and the transaction one version per block, each of a whole block.
\<close>

definition pins_sized :: "nat \<Rightarrow> transaction \<Rightarrow> bool" where
  "pins_sized n txn \<longleftrightarrow> (\<forall>e \<in> set (txn_blocks txn). length (snd e) = n)"

definition fs_inv :: "superblock \<Rightarrow> disk \<Rightarrow> nat \<Rightarrow> fs \<Rightarrow> bool" where
  "fs_inv sb d0 n s \<longleftrightarrow> unflushed d0 (f_dev s) \<and> gdt_ok (f_gdt s) \<and> length (f_gdt s) = n \<and>
     txn_ok (f_txn s) \<and> pins_sized (sb_block_size sb) (f_txn s)"

lemma set_pin_in: "set (pin_in b data es) \<subseteq> insert (b, data) (set es)"
  by (induction es) auto

lemma pins_sized_pin: "pins_sized n txn \<Longrightarrow> length data = n \<Longrightarrow> pins_sized n (pin_block b data txn)"
  using set_pin_in[of b data "txn_blocks txn"]
  by (auto simp: pins_sized_def pin_block_def)

lemma pins_sized_revoke: "pins_sized n txn \<Longrightarrow> pins_sized n (revoke_block b txn)"
  by (simp add: pins_sized_def revoke_block_def)

lemma pinned_sized: "pins_sized n txn \<Longrightarrow> pinned txn b = Some data \<Longrightarrow> length data = n"
  by (auto simp: pins_sized_def pinned_def find_Some_iff in_set_conv_nth rev_nth)
     (metis Suc_diff_Suc diff_less less_imp_diff_less nth_mem snd_conv zero_less_Suc
        length_greater_0_conv list.size(3) not_less_zero rev_nth length_rev)

lemma run_local_Ok [simp]:
  "run_local m t = Ok (x, t') \<longleftrightarrow> m t = (Ok x, t')"
  by (auto simp: run_local_def split: prod.split)

lemma on_dev_Ok_iff:
  "on_dev m s = (Ok x, s') \<longleftrightarrow> (\<exists>d. m (f_dev s) = (Ok x, d) \<and> s' = s\<lparr>f_dev := d\<rparr>)"
  by (auto simp: on_dev_def split: prod.split)

lemma on_gdt_Ok_iff:
  "on_gdt m s = (Ok x, s') \<longleftrightarrow> (\<exists>g. m (f_gdt s) = (Ok x, g) \<and> s' = s\<lparr>f_gdt := g\<rparr>)"
  by (auto simp: on_gdt_def split: prod.split)

lemma preserves_write_sectors [preserves_intros]:
  "preserves (fs_inv sb d0 n) (on_dev (write_sectors start data))"
  using unflushed_write_sectors
  by (auto simp: preserves_def on_dev_def fs_inv_def split: prod.split) (metis snd_conv)

lemma preserves_pin: "length data = sb_block_size sb \<Longrightarrow> preserves (fs_inv sb d0 n) (pin b data)"
  by (simp add: preserves_def pin_def fs_inv_def txn_ok_pin pins_sized_pin)

lemma preserves_revoke [preserves_intros]: "preserves (fs_inv sb d0 n) (revoke b)"
  by (simp add: preserves_def revoke_def fs_inv_def txn_ok_revoke pins_sized_revoke)

lemma preserves_gdt_update [preserves_intros]:
  "(\<And>d. gd_ok d \<Longrightarrow> gd_ok (f d)) \<Longrightarrow> preserves (fs_inv sb d0 n) (on_gdt (gdt_update g f))"
  using gdt_ok_update[of _ f g]
  by (auto simp: preserves_def on_gdt_def fs_inv_def split: prod.split)
     (metis snd_conv, metis length_gdt_update snd_conv)

lemma fs_inv_shape: "fs_inv sb d0 n s \<Longrightarrow> same_shape d0 (f_dev s)"
  by (simp add: fs_inv_def unflushed_def)

lemma fs_inv_wf_disk: "fs_inv sb d0 n s \<Longrightarrow> wf_disk (f_dev s)"
  using fs_inv_shape by (simp add: same_shape_def)

text \<open>A whole block that was read has the size of a block.\<close>

lemma read_block_length:
  assumes "sb_ok sb" and "wf_disk d" and "read_sectors d start (spb sb) = Ok bs"
  shows "length bs = sb_block_size sb"
proof -
  have "0 < spb sb" using sb_ok_block_size(5)[OF assms(1)] by linarith
  with assms have "readable d start (spb sb) \<and> bs = sector_run d start (spb sb)"
    by (simp add: read_sectors_Ok_iff)
  then have "length bs = 512 * spb sb" using assms(2) by (simp add: length_sector_run readable_def)
  then show ?thesis using sb_ok_block_size(4)[OF assms(1)] by linarith
qed

lemma fs_inv_pinned:
  "fs_inv sb d0 n s \<Longrightarrow> pinned (f_txn s) b = Some data \<Longrightarrow> length data = sb_block_size sb"
  by (auto simp: fs_inv_def intro: pinned_sized)

end
