(* ===== verification/Inode_Write.thy ===== *)
theory Inode_Write
  imports Fs_State
begin

text \<open>
  Updating inodes and the superblock inside a transaction
  (\<open>ext4-core/src/inode_write.rs\<close>, \<open>superblock_write.rs\<close>): both edit a copy of the block
  that holds the structure and pin it; the device is not written.
\<close>

section \<open>Inodes\<close>

datatype inode_write_error =
    IwOutOfRange nat nat
  | IwBlockDevice bd_error
  | IwGroupDesc group_desc_error
  | IwInvalidBuffer

record inode_update =
  upd_size :: "nat option"
  upd_mode :: "nat option"
  upd_uid :: "nat option"
  upd_gid :: "nat option"
  upd_atime :: "nat option"
  upd_mtime :: "nat option"
  upd_ctime :: "nat option"
  upd_links_count :: "nat option"
  upd_flags :: "nat option"

definition no_update :: inode_update where
  "no_update = \<lparr>upd_size = None, upd_mode = None, upd_uid = None, upd_gid = None, upd_atime = None,
     upd_mtime = None, upd_ctime = None, upd_links_count = None, upd_flags = None\<rparr>"

definition inode_location ::
  "superblock \<Rightarrow> gdt \<Rightarrow> nat \<Rightarrow> (inode_write_error, nat \<times> nat) res" where
  "inode_location sb gdt inode_num =
     (if inode_num = 0 \<or> inode_num > sb_inodes_count sb
      then Err (IwOutOfRange inode_num (sb_inodes_count sb))
      else
      rbind (rassert (sb_inodes_per_group sb \<noteq> 0)) (\<lambda>_.
      let grp = (inode_num - 1) div sb_inodes_per_group sb;
          index_in_group = (inode_num - 1) mod sb_inodes_per_group sb in
      rbind (map_err IwGroupDesc (gdt_get gdt grp)) (\<lambda>desc.
      Ok (gd_inode_table desc, wmul 64 index_in_group (sb_inode_size sb)))))"

text \<open>One \<open>if let Some(v)\<close>: an integer of \<open>n\<close> bytes stored at \<open>off\<close>.\<close>

definition patch_opt :: "nat \<Rightarrow> nat \<Rightarrow> nat option \<Rightarrow> byte list \<Rightarrow> byte list" where
  "patch_opt off n v raw = (case v of None \<Rightarrow> raw | Some x \<Rightarrow> patch off (to_le n x) raw)"

definition apply_update :: "inode_update \<Rightarrow> raw_inode \<Rightarrow> raw_inode" where
  "apply_update upd raw0 =
     (let raw1 = patch_opt 4 4 (upd_size upd) raw0;
          raw2 = patch_opt 108 4 (map_option (\<lambda>v. v div 2 ^ 32) (upd_size upd)) raw1;
          raw3 = patch_opt 0 2 (upd_mode upd) raw2;
          raw4 = patch_opt 8 4 (upd_atime upd) raw3;
          raw5 = patch_opt 16 4 (upd_mtime upd) raw4;
          raw6 = patch_opt 12 4 (upd_ctime upd) raw5;
          raw7 = patch_opt 26 2 (upd_links_count upd) raw6;
          raw8 = patch_opt 32 4 (upd_flags upd) raw7;
          raw9 = patch_opt 2 2 (upd_uid upd) raw8;
          raw10 = patch_opt 120 2 (map_option (\<lambda>v. v div 2 ^ 16) (upd_uid upd)) raw9;
          raw11 = patch_opt 24 2 (upd_gid upd) raw10 in
      patch_opt 122 2 (map_option (\<lambda>v. v div 2 ^ 16) (upd_gid upd)) raw11)"

text \<open>The pinned version of a block, or the one on the device.\<close>

definition block_with_txn ::
  "(bd_error \<Rightarrow> 'e) \<Rightarrow> superblock \<Rightarrow> nat \<Rightarrow> fs \<Rightarrow> ('e, byte list) res" where
  "block_with_txn conv sb block s =
     (case pinned (f_txn s) block of
        Some data \<Rightarrow> Ok data
      | None \<Rightarrow> map_err conv (read_sectors (f_dev s) (wmul 64 block (spb sb)) (spb sb)))"

definition update_inode ::
  "superblock \<Rightarrow> gdt \<Rightarrow> nat \<Rightarrow> inode_update \<Rightarrow> (fs, inode_write_error, unit) st" where
  "update_inode sb gdt inode_num upd =
     sbind (lift_res (inode_location sb gdt inode_num)) (\<lambda>(inode_table_block, offset_in_table).
     sbind (lift_res (rassert (sb_block_size sb \<noteq> 0))) (\<lambda>_.
     let block_index_in_table = offset_in_table div sb_block_size sb;
         offset_within_block = offset_in_table mod sb_block_size sb;
         phys_block = wadd 64 inode_table_block block_index_in_table in
     sbind (sread (block_with_txn IwBlockDevice sb phys_block)) (\<lambda>block_data.
     if offset_within_block + 128 > length block_data then sfail IwInvalidBuffer
     else
       pin phys_block
         (patch offset_within_block
            (apply_update upd (bytes_at offset_within_block 128 block_data)) block_data))))"

section \<open>The superblock\<close>

datatype superblock_write_error = SwBlockDevice bd_error | SwInvalidBuffer

definition superblock_place :: "superblock \<Rightarrow> nat \<times> nat" where
  "superblock_place sb = (if sb_block_size sb \<le> 1024 then (1, 0) else (0, 1024))"

definition store_superblock_counts :: "nat \<Rightarrow> nat \<Rightarrow> nat \<Rightarrow> nat \<Rightarrow> byte list \<Rightarrow> byte list" where
  "store_superblock_counts off free_blocks free_inodes wtime block_buf =
     patch (off + 48) (to_le 4 wtime)
    (patch (off + 16) (to_le 4 free_inodes)
    (patch (off + 344) (to_le 4 (free_blocks div 2 ^ 32))
    (patch (off + 12) (to_le 4 free_blocks) block_buf)))"

definition update_superblock ::
  "superblock \<Rightarrow> nat \<Rightarrow> nat \<Rightarrow> nat \<Rightarrow> (fs, superblock_write_error, unit) st" where
  "update_superblock sb free_blocks free_inodes wtime =
     (case superblock_place sb of (sb_fs_block, sb_offset_in_block) \<Rightarrow>
      sbind (sread (\<lambda>s. map_err SwBlockDevice
        (read_sectors (f_dev s) (sb_fs_block * spb sb) (spb sb)))) (\<lambda>block_buf.
      if length block_buf < sb_offset_in_block + 1024 then sfail SwInvalidBuffer
      else pin sb_fs_block
        (store_superblock_counts sb_offset_in_block free_blocks free_inodes wtime block_buf)))"

section \<open>The invariant\<close>

lemma length_patch_opt:
  "off + k \<le> length raw \<Longrightarrow> length (patch_opt off k v raw) = length raw"
  by (simp add: patch_opt_def split: option.split)

lemma length_apply_update [simp]:
  "length raw = 128 \<Longrightarrow> length (apply_update upd raw) = 128"
  by (simp add: apply_update_def Let_def length_patch_opt)

lemma block_with_txn_len:
  "block_with_txn conv sb b s = Ok x \<Longrightarrow> fs_inv sb d0 n s \<Longrightarrow> sb_ok sb \<Longrightarrow> length x = sb_block_size sb"
  by (auto simp: block_with_txn_def fs_inv_pinned intro: read_block_length fs_inv_wf_disk
      split: option.splits)

lemma update_inode_inv [preserves_intros]:
  "sb_ok sb \<Longrightarrow> preserves (fs_inv sb d0 n) (update_inode sb gdt i upd)"
  unfolding update_inode_def Let_def
  by (intro preserves_intros preserves_pin) (auto dest!: block_with_txn_len)

lemma update_superblock_inv [preserves_intros]:
  assumes "sb_ok sb"
  shows "preserves (fs_inv sb d0 n) (update_superblock sb fb fi wt)"
  unfolding update_superblock_def
  by (intro preserves_intros preserves_pin)
     (auto simp: store_superblock_counts_def intro: read_block_length[OF assms] fs_inv_wf_disk)

end
