(* ===== verification/Bitmap.thy ===== *)
theory Bitmap
  imports Fs_State
begin

text \<open>
  Allocation bitmaps (\<open>ext4-core/src/alloc/block_bitmap.rs\<close>, \<open>inode_bitmap.rs\<close>) and the
  error type of the allocator (\<open>alloc/mod.rs\<close>). The two bitmap types carry the same code;
  both are modelled and shown to be the same functions.
\<close>

datatype alloc_error =
    AllocNoFreeBlocks
  | AllocNoFreeInodes
  | AllocDoubleFreed nat
  | AllocGroupDesc group_desc_error
  | AllocBlockDevice bd_error

type_synonym bitmap = "byte list"

section \<open>The block bitmap\<close>

definition bm_load :: "disk \<Rightarrow> superblock \<Rightarrow> gdt \<Rightarrow> nat \<Rightarrow> (alloc_error, bitmap) res" where
  "bm_load dev sb gdt grp =
     rbind (map_err AllocGroupDesc (gdt_get gdt grp)) (\<lambda>desc.
     map_err AllocBlockDevice (read_sectors dev (wmul 64 (gd_block_bitmap desc) (spb sb)) (spb sb)))"

definition bm_is_allocated :: "bitmap \<Rightarrow> nat \<Rightarrow> ('e, bool) res" where
  "bm_is_allocated bm i =
     (let byte = i div 8; b = i mod 8 in
      if byte < length bm then Ok ((bm ! byte) AND push_bit b 1 \<noteq> 0) else Panic)"

definition bm_allocate :: "nat \<Rightarrow> (bitmap, 'e, bool) st" where
  "bm_allocate i =
     sbind (sread (\<lambda>bm. bm_is_allocated bm i)) (\<lambda>taken.
       if taken then sreturn False
       else sbind (smodify (\<lambda>bm. bm[i div 8 := (bm ! (i div 8)) OR push_bit (i mod 8) 1]))
              (\<lambda>_. sreturn True))"

definition bm_free :: "nat \<Rightarrow> (bitmap, 'e, bool) st" where
  "bm_free i =
     sbind (sread (\<lambda>bm. bm_is_allocated bm i)) (\<lambda>taken.
       if \<not> taken then sreturn False
       else sbind (smodify (\<lambda>bm. bm[i div 8 := (bm ! (i div 8)) AND NOT (push_bit (i mod 8) 1)]))
              (\<lambda>_. sreturn True))"

definition trailing_ones :: "byte \<Rightarrow> nat" where
  "trailing_ones b = length (takeWhile (bit b) [0..<8])"

primrec first_free_from :: "nat \<Rightarrow> byte list \<Rightarrow> nat option" where
  "first_free_from i [] = None"
| "first_free_from i (b # bs) =
     (if b \<noteq> 0xFF then Some (wadd 32 (wmul 32 (i mod 2 ^ 32) 8) (trailing_ones b))
      else first_free_from (Suc i) bs)"

definition bm_first_free :: "bitmap \<Rightarrow> nat option" where
  "bm_first_free bm = first_free_from 0 bm"

text \<open>The loop of \<open>first_free_run\<close> over the bits, with the start and length of the current run.\<close>

primrec free_run_loop ::
  "bitmap \<Rightarrow> nat \<Rightarrow> nat list \<Rightarrow> nat \<Rightarrow> nat \<Rightarrow> ('e, nat option) res" where
  "free_run_loop bm count [] run_start run_len = Ok None"
| "free_run_loop bm count (b # bs) run_start run_len =
     rbind (bm_is_allocated bm b) (\<lambda>taken.
     if \<not> taken then
       (let run_start1 = (if run_len = 0 then b else run_start);
            run_len1 = wadd 32 run_len 1 in
        if run_len1 \<ge> count then Ok (Some run_start1)
        else free_run_loop bm count bs run_start1 run_len1)
     else free_run_loop bm count bs run_start 0)"

definition bm_first_free_run :: "bitmap \<Rightarrow> nat \<Rightarrow> nat \<Rightarrow> ('e, nat option) res" where
  "bm_first_free_run bm count bits_in_group =
     (if count = 0 then Ok (Some 0)
      else let limit = min bits_in_group (wmul 32 (length bm mod 2 ^ 32) 8) in
        free_run_loop bm count [0..<limit] 0 0)"

section \<open>The inode bitmap\<close>

definition ibm_load :: "disk \<Rightarrow> superblock \<Rightarrow> gdt \<Rightarrow> nat \<Rightarrow> (alloc_error, bitmap) res" where
  "ibm_load dev sb gdt grp =
     rbind (map_err AllocGroupDesc (gdt_get gdt grp)) (\<lambda>desc.
     map_err AllocBlockDevice (read_sectors dev (wmul 64 (gd_inode_bitmap desc) (spb sb)) (spb sb)))"

definition ibm_is_allocated :: "bitmap \<Rightarrow> nat \<Rightarrow> ('e, bool) res" where
  "ibm_is_allocated bm i =
     (let byte = i div 8; b = i mod 8 in
      if byte < length bm then Ok ((bm ! byte) AND push_bit b 1 \<noteq> 0) else Panic)"

definition ibm_allocate :: "nat \<Rightarrow> (bitmap, 'e, bool) st" where
  "ibm_allocate i =
     sbind (sread (\<lambda>bm. ibm_is_allocated bm i)) (\<lambda>taken.
       if taken then sreturn False
       else sbind (smodify (\<lambda>bm. bm[i div 8 := (bm ! (i div 8)) OR push_bit (i mod 8) 1]))
              (\<lambda>_. sreturn True))"

definition ibm_free :: "nat \<Rightarrow> (bitmap, 'e, bool) st" where
  "ibm_free i =
     sbind (sread (\<lambda>bm. ibm_is_allocated bm i)) (\<lambda>taken.
       if \<not> taken then sreturn False
       else sbind (smodify (\<lambda>bm. bm[i div 8 := (bm ! (i div 8)) AND NOT (push_bit (i mod 8) 1)]))
              (\<lambda>_. sreturn True))"

definition ibm_first_free :: "bitmap \<Rightarrow> nat option" where
  "ibm_first_free bm = first_free_from 0 bm"

lemma ibm_eq_bm:
  "ibm_is_allocated = bm_is_allocated" "ibm_allocate = bm_allocate" "ibm_free = bm_free"
  "ibm_first_free = bm_first_free"
  by (simp_all add: fun_eq_iff ibm_is_allocated_def bm_is_allocated_def ibm_allocate_def
      bm_allocate_def ibm_free_def bm_free_def ibm_first_free_def bm_first_free_def)

section \<open>Bits of a bitmap\<close>

text \<open>The set of taken positions, on which the operations act as on a set.\<close>

definition bm_bit :: "bitmap \<Rightarrow> nat \<Rightarrow> bool" where
  "bm_bit bm i \<longleftrightarrow> i div 8 < length bm \<and> bit (bm ! (i div 8)) (i mod 8)"

lemma and_push_bit_ne_0: "n < 8 \<Longrightarrow> (w :: byte) AND push_bit n 1 \<noteq> 0 \<longleftrightarrow> bit w n"
  by (simp add: and_exp_eq_0_iff_not_bit push_bit_of_1)

lemma bm_is_allocated_bit:
  "i div 8 < length bm \<Longrightarrow> bm_is_allocated bm i = Ok (bm_bit bm i)"
  by (simp add: bm_is_allocated_def bm_bit_def and_push_bit_ne_0 Let_def del: push_bit_of_1)

lemma bm_is_allocated_Panic: "length bm \<le> i div 8 \<Longrightarrow> bm_is_allocated bm i = Panic"
  by (simp add: bm_is_allocated_def Let_def)

lemma bit_index_neq: "j \<noteq> i \<Longrightarrow> j div 8 = i div 8 \<Longrightarrow> j mod 8 \<noteq> i mod (8::nat)"
  by (metis div_mod_decomp)

lemma bm_bit_set:
  assumes "i div 8 < length bm"
  shows "bm_bit (bm[i div 8 := (bm ! (i div 8)) OR push_bit (i mod 8) 1]) j \<longleftrightarrow> j = i \<or> bm_bit bm j"
proof (cases "j = i")
  case False
  then show ?thesis
    using assms bit_index_neq[of j i]
    by (auto simp: bm_bit_def nth_list_update bit_or_iff push_bit_of_1 bit_exp_iff)
qed (use assms in \<open>auto simp: bm_bit_def bit_or_iff push_bit_of_1 bit_exp_iff\<close>)

lemma bm_bit_clear:
  "i div 8 < length bm \<Longrightarrow>
   bm_bit (bm[i div 8 := (bm ! (i div 8)) AND NOT (push_bit (i mod 8) 1)]) j \<longleftrightarrow> j \<noteq> i \<and> bm_bit bm j"
  using bit_index_neq[of j i]
  by (auto simp: bm_bit_def nth_list_update bit_and_iff bit_not_iff push_bit_of_1 bit_exp_iff)

section \<open>The operations on the set of taken positions\<close>

lemma bm_allocate_spec:
  "i div 8 < length bm \<Longrightarrow> bm_allocate i bm = (r, bm') \<Longrightarrow>
   r = Ok (\<not> bm_bit bm i) \<and> length bm' = length bm \<and> (\<forall>j. bm_bit bm' j \<longleftrightarrow> j = i \<or> bm_bit bm j)"
  using bm_bit_set[of i bm]
  by (cases "bm_bit bm i") (auto simp: bm_allocate_def bm_is_allocated_bit)

lemma bm_free_spec:
  assumes "i div 8 < length bm" and "bm_free i bm = (r, bm')"
  shows "r = Ok (bm_bit bm i) \<and> length bm' = length bm \<and> (\<forall>j. bm_bit bm' j \<longleftrightarrow> j \<noteq> i \<and> bm_bit bm j)"
proof (cases "bm_bit bm i")
  case True
  then have "r = Ok True" "bm' = bm[i div 8 := (bm ! (i div 8)) AND NOT (push_bit (i mod 8) 1)]"
    using assms by (simp_all add: bm_free_def bm_is_allocated_bit)
  then show ?thesis using True bm_bit_clear[OF assms(1)] by simp
next
  case False
  then have "r = Ok False" "bm' = bm" using assms by (simp_all add: bm_free_def bm_is_allocated_bit)
  then show ?thesis using False by auto
qed

text \<open>Marking a list of positions, as \<open>alloc_blocks\<close> does.\<close>

lemma bm_allocate_all:
  "\<forall>i \<in> set is. i div 8 < length bm \<Longrightarrow>
   \<exists>bm'. sfor is (\<lambda>b. sbind (bm_allocate b) (\<lambda>_. sreturn ())) bm = (Ok () :: ('e, unit) res, bm') \<and>
     length bm' = length bm \<and> (\<forall>j. bm_bit bm' j \<longleftrightarrow> j \<in> set is \<or> bm_bit bm j)"
proof (induction "is" arbitrary: bm)
  case (Cons i "is")
  obtain r :: "('e, bool) res" and bm1 where 1: "bm_allocate i bm = (r, bm1)" by fastforce
  have s: "r = Ok (\<not> bm_bit bm i)" "length bm1 = length bm"
    "\<And>j. bm_bit bm1 j \<longleftrightarrow> j = i \<or> bm_bit bm j"
    using bm_allocate_spec[OF _ 1] Cons.prems by auto
  have "\<forall>j \<in> set is. j div 8 < length bm1" using Cons.prems s(2) by simp
  from Cons.IH[OF this] obtain bm' where
    "sfor is (\<lambda>b. sbind (bm_allocate b) (\<lambda>_. sreturn ())) bm1 = (Ok () :: ('e, unit) res, bm')"
    "length bm' = length bm1" "\<forall>j. bm_bit bm' j \<longleftrightarrow> j \<in> set is \<or> bm_bit bm1 j" by blast
  moreover have "sbind (bm_allocate i) (\<lambda>_. sreturn ()) bm = (Ok () :: ('e, unit) res, bm1)"
    by (simp add: sbind_def 1 s(1))
  ultimately show ?case using s by (auto simp: sbind_Ok simp del: sreturn_apply)
qed simp

section \<open>The first free run\<close>

text \<open>A run of \<open>count\<close> free positions inside the limit.\<close>

definition free_run :: "bitmap \<Rightarrow> nat \<Rightarrow> nat \<Rightarrow> nat \<Rightarrow> bool" where
  "free_run bm limit count s \<longleftrightarrow> s + count \<le> limit \<and> (\<forall>i < count. \<not> bm_bit bm (s + i))"

definition run_answer :: "bitmap \<Rightarrow> nat \<Rightarrow> nat \<Rightarrow> ('e, nat option) res \<Rightarrow> bool" where
  "run_answer bm limit count r \<longleftrightarrow>
     (r = Ok None \<and> (\<forall>s. \<not> free_run bm limit count s)) \<or>
     (\<exists>s. r = Ok (Some s) \<and> free_run bm limit count s \<and> (\<forall>t < s. \<not> free_run bm limit count t))"

lemma free_run_loop_spec:
  assumes "limit \<le> 8 * length bm" and "limit < 2 ^ 32" and "0 < count"
    and "b \<le> limit" and "run_len < count" and "run_len \<le> b" and "0 < run_len \<Longrightarrow> start = b - run_len"
    and "\<forall>i < run_len. \<not> bm_bit bm (b - run_len + i)"
    and "run_len < b \<Longrightarrow> bm_bit bm (b - run_len - 1)"
    and "\<forall>s. s + count \<le> b \<longrightarrow> \<not> free_run bm limit count s"
  shows "run_answer bm limit count (free_run_loop bm count [b..<limit] start run_len :: ('e, nat option) res)"
  using assms(4-)
proof (induction "limit - b" arbitrary: b start run_len)
  case 0
  then show ?case by (auto simp: free_run_def run_answer_def)
next
  case (Suc k)
  then have b: "b < limit" by simp
  have upt: "[b..<limit] = b # [Suc b..<limit]" using b by (rule upt_conv_Cons)
  have idx: "b div 8 < length bm" using b assms(1) by linarith
  note alloc = bm_is_allocated_bit[OF idx]
  show ?case
  proof (cases "bm_bit bm b")
    case True
    have "\<not> free_run bm limit count s" if "s + count \<le> Suc b" for s
    proof (cases "s + count \<le> b")
      case False
      then have "b = s + (count - 1)" using that assms(3) by linarith
      then show ?thesis using True assms(3) unfolding free_run_def by (metis diff_less zero_less_one)
    qed (use Suc.prems in blast)
    then have "run_answer bm limit count (free_run_loop bm count [Suc b..<limit] start 0 :: ('e, nat option) res)"
      using Suc.hyps(2) b assms(3) True by (intro Suc.hyps(1)) auto
    then show ?thesis using True by (simp add: upt alloc)
  next
    case False
    define start1 where "start1 = (if run_len = 0 then b else start)"
    have start1: "start1 = b - run_len" using Suc.prems(4) by (auto simp: start1_def)
    have wrap: "wadd 32 run_len (Suc 0) = Suc run_len" using Suc.prems(3) b assms(2) by (simp add: wadd_def)
    have free: "\<not> bm_bit bm (b - run_len + i)" if "i < Suc run_len" for i
      using that False Suc.prems(3,5) by (cases "i = run_len") auto
    have before: "\<not> free_run bm limit count t" if "t < b - run_len" for t
    proof (cases "t + count \<le> b")
      case False
      have "t + (b - run_len - 1 - t) = b - run_len - 1" using that by linarith
      moreover have "bm_bit bm (b - run_len - 1)" using Suc.prems(6) that by linarith
      moreover have "b - run_len - 1 - t < count" using False that by linarith
      ultimately show ?thesis unfolding free_run_def by metis
    qed (use Suc.prems in blast)
    show ?thesis
    proof (cases "Suc run_len \<ge> count")
      case True
      then have c: "count = Suc run_len" using Suc.prems(2) by linarith
      have "free_run bm limit count (b - run_len)"
        using free b Suc.prems(3) by (simp add: free_run_def c)
      then show ?thesis using False True before by (simp add: upt alloc wrap start1_def[symmetric] start1 Let_def run_answer_def)
    next
      case not: False
      have none: "\<not> free_run bm limit count s" if "s + count \<le> Suc b" for s
        using that before[of s] not by (cases "s + count \<le> b") (use Suc.prems in auto)
      have eq: "Suc b - Suc run_len = b - run_len" by simp
      have "run_answer bm limit count
          (free_run_loop bm count [Suc b..<limit] start1 (Suc run_len) :: ('e, nat option) res)"
        using Suc.hyps(2) b not free none start1 Suc.prems(3,6)
        by (intro Suc.hyps(1)) (auto simp: eq)
      then show ?thesis using False not by (simp add: upt alloc wrap start1_def[symmetric] Let_def)
    qed
  qed
qed

lemma bm_first_free_run_spec:
  assumes "0 < count" and "8 * length bm < 2 ^ 32"
  shows "run_answer bm (min bits (8 * length bm)) count
    (bm_first_free_run bm count bits :: ('e, nat option) res)"
proof -
  have len: "wmul 32 (length bm mod 2 ^ 32) 8 = 8 * length bm"
    using assms(2) by (simp add: wmul_def)
  have "run_answer bm (min bits (8 * length bm)) count
      (free_run_loop bm count [0..<min bits (8 * length bm)] 0 0 :: ('e, nat option) res)"
    using assms by (intro free_run_loop_spec) (auto simp: free_run_def)
  then show ?thesis using assms(1) unfolding bm_first_free_run_def len Let_def by simp
qed

section \<open>The first free position\<close>

lemma trailing_ones_spec:
  assumes "b \<noteq> 0xFF"
  shows "trailing_ones b < 8" and "\<not> bit b (trailing_ones b)" and "\<And>i. i < trailing_ones b \<Longrightarrow> bit b i"
proof -
  have "\<exists>i < 8. \<not> bit b i"
  proof (rule ccontr)
    assume all: "\<not> (\<exists>i < 8. \<not> bit b i)"
    have "b = - 1" by (rule bit_word_eqI) (use all in simp)
    then show False using assms by simp
  qed
  then have "takeWhile (bit b) [0..<8] \<noteq> [0..<8]" by (auto simp: takeWhile_eq_all_conv)
  then have "length (takeWhile (bit b) [0..<8]) < length [0..<8]"
    using length_takeWhile_le[of "bit b" "[0..<8]"] takeWhile_eq_take[of "bit b" "[0..<8]"]
    by (metis le_neq_implies_less take_all_iff order_refl)
  then show *: "trailing_ones b < 8" by (simp add: trailing_ones_def)
  then show "\<not> bit b (trailing_ones b)"
    using nth_length_takeWhile[of "bit b" "[0..<8]"] by (simp add: trailing_ones_def del: upt_conv_Cons)
  fix i assume "i < trailing_ones b"
  then show "bit b i"
    using * nth_mem[of i "takeWhile (bit b) [0..<8]"] set_takeWhileD[of "[0..<8] ! i" "bit b" "[0..<8]"]
    by (simp add: trailing_ones_def takeWhile_nth)
qed

text \<open>The first free position: free, inside the bitmap, with every position before it taken.\<close>

lemma first_free_from_spec:
  "first_free_from n bs = Some k \<Longrightarrow> 8 * (n + length bs) < 2 ^ 32 \<Longrightarrow>
   \<exists>j < length bs. \<exists>r < 8. k = 8 * (n + j) + r \<and> \<not> bit (bs ! j) r \<and> (\<forall>i < r. bit (bs ! j) i) \<and> (\<forall>i < j. bs ! i = 0xFF)"
proof (induction bs arbitrary: n)
  case (Cons b bs)
  show ?case
  proof (cases "b = 0xFF")
    case True
    then obtain j r where "j < length bs" "r < 8" "k = 8 * (Suc n + j) + r" "\<not> bit (bs ! j) r"
        "\<forall>i < r. bit (bs ! j) i" "\<forall>i < j. bs ! i = 0xFF"
      using Cons.IH[of "Suc n"] Cons.prems by auto
    then show ?thesis using True by (intro exI[of _ "Suc j"]) (auto simp: nth_Cons split: nat.split)
  next
    case False
    then have "k = wadd 32 (wmul 32 (n mod 2 ^ 32) 8) (trailing_ones b)" using Cons.prems(1) by simp
    then have "k = 8 * n + trailing_ones b"
      using Cons.prems(2) trailing_ones_spec(1)[OF False] by (simp add: wmul_def wadd_def)
    then show ?thesis using trailing_ones_spec[OF False] by (intro exI[of _ 0]) auto
  qed
qed simp

lemma bm_first_free_spec:
  assumes "bm_first_free bm = Some k" and "8 * length bm < 2 ^ 32"
  shows "k div 8 < length bm" and "\<not> bm_bit bm k" and "\<forall>i < k. bm_bit bm i"
proof -
  obtain j r where k: "j < length bm" "r < 8" "k = 8 * j + r" "\<not> bit (bm ! j) r"
      "\<forall>i < r. bit (bm ! j) i" "\<forall>i < j. bm ! i = 0xFF"
    using first_free_from_spec[of 0 bm k] assms by (auto simp: bm_first_free_def)
  then show "k div 8 < length bm" "\<not> bm_bit bm k" by (simp_all add: bm_bit_def)
  have ones: "bit (0xFF :: byte) n" if "n < 8" for n
    using that by (simp add: less_Suc_eq numeral_eq_Suc) (auto simp: bit_iff_odd)
  show "\<forall>i < k. bm_bit bm i"
  proof (intro allI impI)
    fix i assume "i < k"
    moreover have "i = 8 * (i div 8) + i mod 8" "i mod 8 < 8" by simp_all
    ultimately have "i div 8 < j \<or> i div 8 = j \<and> i mod 8 < r" using k(2,3) by linarith
    then consider "i div 8 < j" | "i div 8 = j" "i mod 8 < r" by blast
    then show "bm_bit bm i" using k ones by cases (auto simp: bm_bit_def)
  qed
qed

end
