(* ===== verification/Alloc.thy ===== *)
theory Alloc
  imports Bitmap
begin

text \<open>
  The allocator (\<open>ext4-core/src/alloc/block_alloc.rs\<close>, \<open>inode_alloc.rs\<close>): allocation and
  release of blocks and inodes. Each operation reads a bitmap from the device, writes it
  back, pins it, adjusts the in-memory descriptor and pins a copy of the first block of
  the descriptor table with the counters of that group replaced.
\<close>

section \<open>Blocks\<close>

definition read_fs_block :: "superblock \<Rightarrow> nat \<Rightarrow> (fs, alloc_error, byte list) st" where
  "read_fs_block sb block =
     sread (\<lambda>s. map_err AllocBlockDevice (read_sectors (f_dev s) (wmul 64 block (spb sb)) (spb sb)))"

definition flush_bitmap :: "superblock \<Rightarrow> nat \<Rightarrow> byte list \<Rightarrow> (fs, alloc_error, unit) st" where
  "flush_bitmap sb bitmap_block data =
     (let start_sector = wmul 64 bitmap_block (spb sb);
          padded = resize0 (sb_block_size sb) data in
      sbind (smap_err AllocBlockDevice (on_dev (write_sectors start_sector padded))) (\<lambda>_.
      pin bitmap_block padded))"

text \<open>The counters of the descriptor \<open>desc\<close> stored into the table block, where it lies inside it.\<close>

definition store_free_blocks ::
  "nat \<Rightarrow> nat \<Rightarrow> group_desc \<Rightarrow> byte list \<Rightarrow> (alloc_error, byte list) res" where
  "store_free_blocks desc_size off desc gdt_data =
     rbind (patch_r (wadd 64 off 12) (to_le 2 (gd_free_blocks_count desc)) gdt_data) (\<lambda>data1.
     if desc_size \<ge> 64 then
       patch_r (wadd 64 off 44) (to_le 2 (gd_free_blocks_count desc div 2 ^ 16)) data1
     else Ok data1)"

definition update_gdt_free_blocks :: "superblock \<Rightarrow> nat \<Rightarrow> int \<Rightarrow> (fs, alloc_error, unit) st" where
  "update_gdt_free_blocks sb grp delta =
     sbind (smap_err AllocGroupDesc (on_gdt (adjust_free_blocks grp delta))) (\<lambda>_.
     let gdt_block = sb_first_data_block sb + 1 in
     sbind (read_fs_block sb gdt_block) (\<lambda>gdt_data.
     let desc_size = sb_desc_size sb;
         off = wmul 64 grp desc_size in
     sbind (sread (\<lambda>s.
       if wadd 64 off 16 \<le> length gdt_data then
         rbind (map_err AllocGroupDesc (gdt_get (f_gdt s) grp)) (\<lambda>desc.
         store_free_blocks desc_size off desc gdt_data)
       else Ok gdt_data)) (\<lambda>new_data.
     pin gdt_block new_data)))"

text \<open>The walk over the groups, from the hint group on.\<close>

primrec alloc_blocks_in :: "superblock \<Rightarrow> nat \<Rightarrow> nat list \<Rightarrow> (fs, alloc_error, nat) st" where
  "alloc_blocks_in sb count [] = sfail AllocNoFreeBlocks"
| "alloc_blocks_in sb count (grp # gs) =
     sbind (sread (\<lambda>s. map_err AllocGroupDesc (gdt_get (f_gdt s) grp))) (\<lambda>desc.
     if gd_free_blocks_count desc < count then alloc_blocks_in sb count gs
     else
       sbind (sread (\<lambda>s. bm_load (f_dev s) sb (f_gdt s) grp)) (\<lambda>bm.
       sbind (lift_res (bm_first_free_run bm count (sb_blocks_per_group sb))) (\<lambda>r.
       case r of
         None \<Rightarrow> alloc_blocks_in sb count gs
       | Some start_bit \<Rightarrow>
           sbind (lift_res (run_local
             (sfor [start_bit..<wadd 32 start_bit count]
                (\<lambda>b. sbind (bm_allocate b) (\<lambda>_. sreturn ()))) bm)) (\<lambda>(_, bm').
           sbind (sread (\<lambda>s. map_err AllocGroupDesc (gdt_get (f_gdt s) grp))) (\<lambda>desc'.
           sbind (flush_bitmap sb (gd_block_bitmap desc') bm') (\<lambda>_.
           sbind (update_gdt_free_blocks sb grp (- int count)) (\<lambda>_.
           sreturn (wadd 64 (wmul 64 grp (sb_blocks_per_group sb)) start_bit))))))))"

text \<open>The order in which groups are tried; the remainder is taken only when there are groups.\<close>

definition group_order :: "nat \<Rightarrow> nat \<Rightarrow> nat list" where
  "group_order hint_group num_groups = map (\<lambda>i. wadd 64 hint_group i mod num_groups) [0..<num_groups]"

definition alloc_blocks :: "superblock \<Rightarrow> nat \<Rightarrow> nat \<Rightarrow> (fs, alloc_error, nat) st" where
  "alloc_blocks sb count hint_block =
     sbind (lift_res (rassert (sb_blocks_per_group sb \<noteq> 0))) (\<lambda>_.
     sbind (sread (\<lambda>s. Ok (length (f_gdt s)))) (\<lambda>num_groups.
     let hint_group = hint_block div sb_blocks_per_group sb in
     alloc_blocks_in sb count (group_order hint_group num_groups)))"

definition free_block :: "superblock \<Rightarrow> nat \<Rightarrow> (fs, alloc_error, unit) st" where
  "free_block sb block =
     sbind (lift_res (rassert (sb_blocks_per_group sb \<noteq> 0))) (\<lambda>_.
     let grp = block div sb_blocks_per_group sb;
         b = block mod sb_blocks_per_group sb in
     sbind (sread (\<lambda>s. bm_load (f_dev s) sb (f_gdt s) grp)) (\<lambda>bm.
     sbind (lift_res (run_local (bm_free b) bm)) (\<lambda>(was_taken, bm').
     if \<not> was_taken then sfail (AllocDoubleFreed block)
     else
       sbind (sread (\<lambda>s. map_err AllocGroupDesc (gdt_get (f_gdt s) grp))) (\<lambda>desc.
       sbind (flush_bitmap sb (gd_block_bitmap desc) bm') (\<lambda>_.
       sbind (revoke block) (\<lambda>_.
       update_gdt_free_blocks sb grp 1))))))"

section \<open>Inodes\<close>

definition EXTENTS_FL :: nat where "EXTENTS_FL = 0x80000"

definition EXTENT_HEADER_BYTES :: "byte list" where
  "EXTENT_HEADER_BYTES = [0x0A, 0xF3, 0, 0, 4, 0, 0, 0, 0, 0, 0, 0]"

definition flush_inode_bitmap :: "superblock \<Rightarrow> nat \<Rightarrow> byte list \<Rightarrow> (fs, alloc_error, unit) st" where
  "flush_inode_bitmap sb bitmap_block data =
     (let start_sector = wmul 64 bitmap_block (spb sb);
          padded = resize0 (sb_block_size sb) data in
      sbind (smap_err AllocBlockDevice (on_dev (write_sectors start_sector padded))) (\<lambda>_.
      pin bitmap_block padded))"

definition flush_inode_table :: "superblock \<Rightarrow> nat \<Rightarrow> byte list \<Rightarrow> (fs, alloc_error, unit) st" where
  "flush_inode_table sb inode_table_block data =
     (let start_sector = wmul 64 inode_table_block (spb sb);
          padded = resize0 (sb_block_size sb) data in
      sbind (smap_err AllocBlockDevice (on_dev (write_sectors start_sector padded))) (\<lambda>_.
      pin inode_table_block padded))"

text \<open>Where inode \<open>inode_num\<close> lies: its table block and the byte offset in it.\<close>

definition alloc_inode_location ::
  "superblock \<Rightarrow> gdt \<Rightarrow> nat \<Rightarrow> (alloc_error, nat \<times> nat) res" where
  "alloc_inode_location sb gdt inode_num =
     rbind (rassert (sb_inodes_per_group sb \<noteq> 0)) (\<lambda>_.
     let grp = wsub 32 inode_num 1 div sb_inodes_per_group sb;
         index_in_group = wsub 32 inode_num 1 mod sb_inodes_per_group sb in
     rbind (map_err AllocGroupDesc (gdt_get gdt grp)) (\<lambda>desc.
     let inode_size = sb_inode_size sb in
     rbind (rassert (inode_size \<noteq> 0)) (\<lambda>_.
     let inodes_per_block = sb_block_size sb div inode_size in
     rbind (rassert (inodes_per_block \<noteq> 0)) (\<lambda>_.
     let block_index_in_table = index_in_group div inodes_per_block;
         index_in_block = index_in_group mod inodes_per_block in
     Ok (wadd 64 (gd_inode_table desc) block_index_in_table, index_in_block * inode_size)))))"

definition load_inode_table_block ::
  "superblock \<Rightarrow> nat \<Rightarrow> (fs, alloc_error, byte list \<times> nat \<times> nat) st" where
  "load_inode_table_block sb inode_num =
     sbind (sread (\<lambda>s. alloc_inode_location sb (f_gdt s) inode_num)) (\<lambda>(target_block, off).
     sbind (read_fs_block sb target_block) (\<lambda>data. sreturn (data, off, target_block)))"

definition load_inode_table_block_with_txn ::
  "superblock \<Rightarrow> nat \<Rightarrow> (fs, alloc_error, byte list \<times> nat \<times> nat) st" where
  "load_inode_table_block_with_txn sb inode_num =
     sbind (load_inode_table_block sb inode_num) (\<lambda>(disk_data, off, target_block).
     sread (\<lambda>s. Ok (case pinned (f_txn s) target_block of
                      Some data \<Rightarrow> data | None \<Rightarrow> disk_data, off, target_block)))"

definition store_free_inodes ::
  "nat \<Rightarrow> nat \<Rightarrow> group_desc \<Rightarrow> byte list \<Rightarrow> (alloc_error, byte list) res" where
  "store_free_inodes desc_size off desc gdt_data =
     rbind (patch_r (wadd 64 off 14) (to_le 2 (gd_free_inodes_count desc)) gdt_data) (\<lambda>data1.
     rbind (patch_r (wadd 64 off 28) (to_le 2 (gd_itable_unused desc)) data1) (\<lambda>data2.
     if desc_size \<ge> 64 then
       rbind (patch_r (wadd 64 off 46) (to_le 2 (gd_free_inodes_count desc div 2 ^ 16)) data2) (\<lambda>data3.
       patch_r (wadd 64 off 50) (to_le 2 (gd_itable_unused desc div 2 ^ 16)) data3)
     else Ok data2))"

definition sync_gdt_block :: "superblock \<Rightarrow> nat \<Rightarrow> (fs, alloc_error, unit) st" where
  "sync_gdt_block sb grp =
     (let gdt_block = sb_first_data_block sb + 1 in
      sbind (read_fs_block sb gdt_block) (\<lambda>gdt_data.
      let desc_size = sb_desc_size sb;
          off = wmul 64 grp desc_size in
      sbind (sread (\<lambda>s.
        if wadd 64 off 32 \<le> length gdt_data then
          rbind (map_err AllocGroupDesc (gdt_get (f_gdt s) grp)) (\<lambda>desc.
          store_free_inodes desc_size off desc gdt_data)
        else Ok gdt_data)) (\<lambda>new_data.
      pin gdt_block new_data)))"

definition update_gdt_free_inodes :: "superblock \<Rightarrow> nat \<Rightarrow> int \<Rightarrow> (fs, alloc_error, unit) st" where
  "update_gdt_free_inodes sb grp delta =
     sbind (smap_err AllocGroupDesc (on_gdt (adjust_free_inodes grp delta))) (\<lambda>_.
     sync_gdt_block sb grp)"

definition update_gdt_itable_unused :: "superblock \<Rightarrow> nat \<Rightarrow> (fs, alloc_error, unit) st" where
  "update_gdt_itable_unused sb grp = sync_gdt_block sb grp"

primrec alloc_inode_in :: "superblock \<Rightarrow> nat list \<Rightarrow> (fs, alloc_error, nat) st" where
  "alloc_inode_in sb [] = sfail AllocNoFreeInodes"
| "alloc_inode_in sb (grp # gs) =
     sbind (sread (\<lambda>s. map_err AllocGroupDesc (gdt_get (f_gdt s) grp))) (\<lambda>desc.
     if gd_free_inodes_count desc = 0 then alloc_inode_in sb gs
     else
       sbind (sread (\<lambda>s. ibm_load (f_dev s) sb (f_gdt s) grp)) (\<lambda>bm.
       case ibm_first_free bm of
         None \<Rightarrow> alloc_inode_in sb gs
       | Some slot \<Rightarrow>
           sbind (lift_res (run_local (ibm_allocate slot) bm)) (\<lambda>(_, bm').
           sbind (sread (\<lambda>s. map_err AllocGroupDesc (gdt_get (f_gdt s) grp))) (\<lambda>desc'.
           sbind (flush_inode_bitmap sb (gd_inode_bitmap desc') bm') (\<lambda>_.
           sbind (update_gdt_free_inodes sb grp (- 1)) (\<lambda>_.
           sbind (smap_err AllocGroupDesc (on_gdt (update_itable_unused grp slot sb))) (\<lambda>_.
           sbind (update_gdt_itable_unused sb grp) (\<lambda>_.
           sreturn (wadd 32 (wadd 32 (wmul 32 (grp mod 2 ^ 32) (sb_inodes_per_group sb)) slot) 1)))))))))"

definition alloc_inode :: "superblock \<Rightarrow> bool \<Rightarrow> nat \<Rightarrow> (fs, alloc_error, nat) st" where
  "alloc_inode sb is_directory hint_group =
     sbind (sread (\<lambda>s. Ok (length (f_gdt s)))) (\<lambda>num_groups.
     alloc_inode_in sb (group_order hint_group num_groups))"

text \<open>The 128 bytes \<open>init_inode\<close> stores: a zeroed inode with its fields set in order.\<close>

definition new_raw_inode :: "nat \<Rightarrow> nat \<Rightarrow> nat \<Rightarrow> nat \<Rightarrow> raw_inode" where
  "new_raw_inode now mode uid gid =
     patch 40 EXTENT_HEADER_BYTES
    (patch 122 (to_le 2 (gid div 2 ^ 16))
    (patch 120 (to_le 2 (uid div 2 ^ 16))
    (patch 32 (to_le 4 EXTENTS_FL)
    (patch 16 (to_le 4 now)
    (patch 12 (to_le 4 now)
    (patch 8 (to_le 4 now)
    (patch 26 (to_le 2 1)
    (patch 24 (to_le 2 gid)
    (patch 2 (to_le 2 uid)
    (patch 0 (to_le 2 mode) (replicate 128 0)))))))))))"

definition init_inode ::
  "nat \<Rightarrow> superblock \<Rightarrow> nat \<Rightarrow> nat \<Rightarrow> nat \<Rightarrow> nat \<Rightarrow> (fs, alloc_error, unit) st" where
  "init_inode now sb inode_num mode uid gid =
     sbind (load_inode_table_block_with_txn sb inode_num) (\<lambda>(table_block, off, inode_table_block).
     sbind (lift_res (patch_r off (new_raw_inode now mode uid gid) table_block)) (\<lambda>table_block'.
     flush_inode_table sb inode_table_block table_block'))"

definition free_inode :: "nat \<Rightarrow> superblock \<Rightarrow> nat \<Rightarrow> (fs, alloc_error, unit) st" where
  "free_inode now sb inode_num =
     sbind (lift_res (rassert (sb_inodes_per_group sb \<noteq> 0))) (\<lambda>_.
     let grp = wsub 32 inode_num 1 div sb_inodes_per_group sb;
         slot = wsub 32 inode_num 1 mod sb_inodes_per_group sb in
     sbind (sread (\<lambda>s. ibm_load (f_dev s) sb (f_gdt s) grp)) (\<lambda>bm.
     sbind (lift_res (run_local (ibm_free slot) bm)) (\<lambda>(_, bm').
     sbind (sread (\<lambda>s. map_err AllocGroupDesc (gdt_get (f_gdt s) grp))) (\<lambda>desc.
     sbind (flush_inode_bitmap sb (gd_inode_bitmap desc) bm') (\<lambda>_.
     sbind (load_inode_table_block_with_txn sb inode_num) (\<lambda>(table_block, off, inode_table_block).
     sbind (lift_res (slice_r off 128 table_block)) (\<lambda>raw.
     sbind (lift_res (patch_r off (patch 20 (to_le 4 now) raw) table_block)) (\<lambda>table_block'.
     sbind (flush_inode_table sb inode_table_block table_block') (\<lambda>_.
     sbind (update_gdt_itable_unused sb grp) (\<lambda>_.
     update_gdt_free_inodes sb grp 1))))))))))"

section \<open>The invariant\<close>

lemma read_fs_block_len:
  "read_fs_block sb b s = (Ok x, s') \<Longrightarrow> fs_inv sb d0 n s \<Longrightarrow> sb_ok sb \<Longrightarrow> length x = sb_block_size sb"
  by (auto simp: read_fs_block_def intro: read_block_length fs_inv_wf_disk)

lemma flush_bitmap_inv: "preserves (fs_inv sb d0 n) (flush_bitmap sb b data)"
  unfolding flush_bitmap_def Let_def
  by (intro preserves_intros preserves_pin) simp_all

lemma store_free_blocks_len:
  "store_free_blocks ds off desc data = Ok data' \<Longrightarrow> length data' = length data"
  by (auto simp: store_free_blocks_def split: if_splits)

lemma store_free_inodes_len:
  "store_free_inodes ds off desc data = Ok data' \<Longrightarrow> length data' = length data"
  by (auto simp: store_free_inodes_def split: if_splits)

lemma adjust_free_blocks_inv: "preserves (fs_inv sb d0 n) (on_gdt (adjust_free_blocks grp delta))"
  unfolding adjust_free_blocks_def
  by (intro preserves_intros) (simp add: gd_ok_def adjust_count_less[simplified])

lemma adjust_free_inodes_inv: "preserves (fs_inv sb d0 n) (on_gdt (adjust_free_inodes grp delta))"
  unfolding adjust_free_inodes_def
  by (intro preserves_intros) (simp add: gd_ok_def adjust_count_less[simplified])

lemma update_itable_unused_inv:
  "preserves (fs_inv sb d0 n) (on_gdt (update_itable_unused grp slot sb))"
  unfolding update_itable_unused_def
  by (intro preserves_intros) (auto simp: gd_ok_def Let_def)

lemma read_fs_block_inv [preserves_intros]: "preserves P (read_fs_block sb b)"
  by (simp add: read_fs_block_def preserves_sread)

lemma update_gdt_free_blocks_inv:
  assumes "sb_ok sb"
  shows "preserves (fs_inv sb d0 n) (update_gdt_free_blocks sb grp delta)"
  unfolding update_gdt_free_blocks_def Let_def
  by (intro preserves_intros adjust_free_blocks_inv preserves_pin)
     (auto dest!: read_fs_block_len[OF _ _ assms] dest: store_free_blocks_len split: if_splits)

lemma sync_gdt_block_inv:
  assumes "sb_ok sb"
  shows "preserves (fs_inv sb d0 n) (sync_gdt_block sb grp)"
  unfolding sync_gdt_block_def Let_def
  by (intro preserves_intros preserves_pin)
     (auto dest!: read_fs_block_len[OF _ _ assms] dest: store_free_inodes_len split: if_splits)

lemma alloc_blocks_in_inv:
  "sb_ok sb \<Longrightarrow> preserves (fs_inv sb d0 n) (alloc_blocks_in sb count gs)"
  by (induction gs)
     (simp_all add: preserves_intros flush_bitmap_inv update_gdt_free_blocks_inv)

lemma alloc_blocks_inv [preserves_intros]:
  "sb_ok sb \<Longrightarrow> preserves (fs_inv sb d0 n) (alloc_blocks sb count hint)"
  unfolding alloc_blocks_def Let_def by (intro preserves_intros alloc_blocks_in_inv)

lemma free_block_inv [preserves_intros]:
  "sb_ok sb \<Longrightarrow> preserves (fs_inv sb d0 n) (free_block sb b)"
  unfolding free_block_def Let_def
  by (intro preserves_intros flush_bitmap_inv update_gdt_free_blocks_inv)

lemma flush_inode_inv [preserves_intros]:
  "preserves (fs_inv sb d0 n) (flush_inode_bitmap sb b data)"
  "preserves (fs_inv sb d0 n) (flush_inode_table sb b data)"
  unfolding flush_inode_bitmap_def flush_inode_table_def Let_def
  by (intro preserves_intros preserves_pin; simp)+

lemma load_inode_table_block_inv [preserves_intros]:
  "preserves P (load_inode_table_block_with_txn sb i)"
  unfolding load_inode_table_block_with_txn_def load_inode_table_block_def
  by (intro preserves_intros)

lemma update_gdt_inodes_inv:
  assumes "sb_ok sb"
  shows "preserves (fs_inv sb d0 n) (update_gdt_free_inodes sb grp delta)"
    and "preserves (fs_inv sb d0 n) (update_gdt_itable_unused sb grp)"
  unfolding update_gdt_free_inodes_def update_gdt_itable_unused_def
  by (intro preserves_intros adjust_free_inodes_inv sync_gdt_block_inv assms)+

lemma alloc_inode_in_inv:
  "sb_ok sb \<Longrightarrow> preserves (fs_inv sb d0 n) (alloc_inode_in sb gs)"
  by (induction gs)
     (simp_all add: preserves_intros update_gdt_inodes_inv update_itable_unused_inv)

lemma alloc_inode_inv [preserves_intros]:
  "sb_ok sb \<Longrightarrow> preserves (fs_inv sb d0 n) (alloc_inode sb is_directory hint)"
  unfolding alloc_inode_def by (intro preserves_intros alloc_inode_in_inv)

lemma init_inode_inv [preserves_intros]:
  "preserves (fs_inv sb d0 n) (init_inode now sb i mode uid gid)"
  unfolding init_inode_def by (intro preserves_intros)

lemma free_inode_inv [preserves_intros]:
  "sb_ok sb \<Longrightarrow> preserves (fs_inv sb d0 n) (free_inode now sb i)"
  unfolding free_inode_def Let_def by (intro preserves_intros update_gdt_inodes_inv)

section \<open>What allocation does\<close>

lemma flush_bitmap_OkD:
  assumes "flush_bitmap sb b data s = (Ok (), s')" and "length data = sb_block_size sb"
  obtains d where "write_sectors (wmul 64 b (spb sb)) data (f_dev s) = (Ok (), d)"
    and "s' = s\<lparr>f_dev := d, f_txn := pin_block b data (f_txn s)\<rparr>"
  using assms by (auto simp: flush_bitmap_def Let_def sbind_Ok_iff on_dev_Ok_iff pin_def)

lemma on_gdt_update_OkD:
  assumes "on_gdt (gdt_update grp f) s = (Ok (), s')"
  shows "grp < length (f_gdt s) \<and> s' = s\<lparr>f_gdt := (f_gdt s)[grp := f (f_gdt s ! grp)]\<rparr>"
  using assms by (auto simp: on_gdt_Ok_iff gdt_update_def split: if_splits)

lemma update_gdt_free_blocks_OkD:
  assumes "update_gdt_free_blocks sb grp delta s = (Ok (), s')"
  shows "f_dev s' = f_dev s" and "grp < length (f_gdt s)"
    and "f_gdt s' = (f_gdt s)[grp := (f_gdt s ! grp)\<lparr>gd_free_blocks_count :=
      adjust_count (gd_free_blocks_count (f_gdt s ! grp)) delta\<rparr>]"
    and "txn_revoked (f_txn s') = txn_revoked (f_txn s)"
  using assms
  by (auto simp: update_gdt_free_blocks_def Let_def sbind_Ok_iff pin_def read_fs_block_def
      adjust_free_blocks_def pin_block_def dest!: on_gdt_update_OkD simp del: sbind_sread)

lemma bm_load_length:
  "sb_ok sb \<Longrightarrow> wf_disk d \<Longrightarrow> bm_load d sb gdt grp = Ok bm \<Longrightarrow> length bm = sb_block_size sb"
  by (auto simp: bm_load_def intro: read_block_length)

text \<open>What was stored at the bitmap's place is what the next load finds.\<close>

lemma bm_load_after_flush:
  assumes "sb_ok sb" and "wf_disk d" and "bm_load d sb gdt grp = Ok bm"
    and "write_sectors (wmul 64 (gd_block_bitmap (gdt ! grp)) (spb sb)) bm' d = (Ok (), d')"
    and "length bm' = sb_block_size sb" and "length gdt' = length gdt"
    and "gd_block_bitmap (gdt' ! grp) = gd_block_bitmap (gdt ! grp)"
  shows "bm_load d' sb gdt' grp = Ok bm'"
proof -
  have spb: "0 < spb sb" "length bm' = 512 * spb sb"
    using sb_ok_block_size(4,5)[OF assms(1)] assms(5) by linarith+
  have grp: "grp < length gdt"
    and r: "read_sectors d (wmul 64 (gd_block_bitmap (gdt ! grp)) (spb sb)) (spb sb) = Ok bm"
    using assms(3) by (auto simp: bm_load_def)
  have "read_sectors d' (wmul 64 (gd_block_bitmap (gdt ! grp)) (spb sb)) (spb sb) = Ok bm'"
    using read_after_write_same[OF assms(2) spb(2,1) assms(4)] r
    by (simp add: read_sectors_Ok_iff[OF assms(2) spb(1)])
  then show ?thesis using grp assms(6,7) by (simp add: bm_load_def gdt_get_def)
qed

text \<open>
  The outcome of a successful allocation: a run of free bits of some group's bitmap is
  taken on the device, and the group's counter goes down.
\<close>

definition first_run :: "bitmap \<Rightarrow> nat \<Rightarrow> nat \<Rightarrow> bool" where
  "first_run bm count start \<longleftrightarrow> (\<forall>t < start. \<exists>j \<in> {t..<t + count}. bm_bit bm j)"

text \<open>A change of the device inside one block.\<close>

definition block_written :: "superblock \<Rightarrow> nat \<Rightarrow> disk \<Rightarrow> disk \<Rightarrow> bool" where
  "block_written sb b d d' \<longleftrightarrow> (\<exists>data. length data = sb_block_size sb \<and>
     write_sectors (wmul 64 b (spb sb)) data d = (Ok (), d'))"

definition allocated_in ::
  "superblock \<Rightarrow> nat \<Rightarrow> fs \<Rightarrow> nat \<Rightarrow> fs \<Rightarrow> nat \<Rightarrow> nat \<Rightarrow> bool" where
  "allocated_in sb count s p s' grp start \<longleftrightarrow>
     grp < length (f_gdt s) \<and> p = wadd 64 (wmul 64 grp (sb_blocks_per_group sb)) start \<and>
     count \<le> gd_free_blocks_count (f_gdt s ! grp) \<and>
     start + count \<le> sb_blocks_per_group sb \<and>
     f_gdt s' = (f_gdt s)[grp := (f_gdt s ! grp)\<lparr>gd_free_blocks_count :=
       adjust_count (gd_free_blocks_count (f_gdt s ! grp)) (- int count)\<rparr>] \<and>
     txn_revoked (f_txn s') = txn_revoked (f_txn s) \<and>
     block_written sb (gd_block_bitmap (f_gdt s ! grp)) (f_dev s) (f_dev s') \<and>
     (\<exists>bm bm'. bm_load (f_dev s) sb (f_gdt s) grp = Ok bm \<and>
       bm_load (f_dev s') sb (f_gdt s') grp = Ok bm' \<and>
       (\<forall>j. bm_bit bm' j \<longleftrightarrow> (start \<le> j \<and> j < start + count) \<or> bm_bit bm j) \<and>
       (\<forall>j. start \<le> j \<and> j < start + count \<longrightarrow> \<not> bm_bit bm j) \<and> first_run bm count start)"

text \<open>A group that has nothing to give.\<close>

definition group_full :: "superblock \<Rightarrow> nat \<Rightarrow> fs \<Rightarrow> nat \<Rightarrow> bool" where
  "group_full sb count s grp \<longleftrightarrow>
     gd_free_blocks_count (f_gdt s ! grp) < count \<or>
     (\<exists>bm. bm_load (f_dev s) sb (f_gdt s) grp = Ok bm \<and>
        (\<forall>start. \<not> free_run bm (min (sb_blocks_per_group sb) (8 * length bm)) count start))"

lemma alloc_blocks_in_spec:
  assumes "sb_ok sb" and "fs_inv sb d0 n s" and "0 < count"
    and "alloc_blocks_in sb count gs s = (Ok p, s')"
  shows "\<exists>grp start before after. gs = before @ grp # after \<and> (\<forall>g \<in> set before. group_full sb count s g) \<and>
    allocated_in sb count s p s' grp start"
  using assms(4)
proof (induction gs)
  case (Cons grp gs)
  note wf = fs_inv_wf_disk[OF assms(2)]
  have later: ?case if "alloc_blocks_in sb count gs s = (Ok p, s')" "group_full sb count s grp"
  proof -
    from Cons.IH[OF that(1)] obtain g start before after where "gs = before @ g # after"
      "\<forall>h \<in> set before. group_full sb count s h" "allocated_in sb count s p s' g start" by blast
    with that(2) show ?thesis by (intro exI[of _ g] exI[of _ start] exI[of _ "grp # before"] exI[of _ after]) simp
  qed
  consider (few) "gd_free_blocks_count (f_gdt s ! grp) < count" "alloc_blocks_in sb count gs s = (Ok p, s')"
    | (full) bm where "bm_load (f_dev s) sb (f_gdt s) grp = Ok bm"
        "bm_first_free_run bm count (sb_blocks_per_group sb) = (Ok None :: (alloc_error, nat option) res)"
        "alloc_blocks_in sb count gs s = (Ok p, s')"
    | (here) bm start where "count \<le> gd_free_blocks_count (f_gdt s ! grp)" "bm_load (f_dev s) sb (f_gdt s) grp = Ok bm"
        "bm_first_free_run bm count (sb_blocks_per_group sb) = (Ok (Some start) :: (alloc_error, nat option) res)"
  proof (cases "gd_free_blocks_count (f_gdt s ! grp) < count")
    case False
    with Cons.prems obtain bm r where r: "bm_load (f_dev s) sb (f_gdt s) grp = Ok bm"
      "bm_first_free_run bm count (sb_blocks_per_group sb) = (Ok r :: (alloc_error, nat option) res)"
      "r = None \<longrightarrow> alloc_blocks_in sb count gs s = (Ok p, s')"
      by (auto simp: sbind_Ok_iff simp del: sbind_sread split: option.split_asm)
    with False full here show ?thesis by (cases r) auto
  qed (use Cons.prems few in \<open>auto simp: sbind_Ok_iff simp del: sbind_sread\<close>)
  then show ?case
  proof cases
    case few
    then show ?thesis by (intro later) (simp_all add: group_full_def)
  next
    case (full bm)
    have "8 * length bm < 2 ^ 32" using bm_load_length[OF assms(1) wf full(1)] sb_ok_block_size(2)[OF assms(1)] by simp
    from bm_first_free_run_spec[OF assms(3) this, of "sb_blocks_per_group sb", where ?'e = alloc_error] full
    show ?thesis by (intro later) (auto simp: group_full_def run_answer_def)
  next
    case (here bm start)
    with Cons.prems obtain bm' s1 where
      g: "grp < length (f_gdt s)" "count \<le> gd_free_blocks_count (f_gdt s ! grp)" and
      set: "sfor [start..<wadd 32 start count] (\<lambda>b. sbind (bm_allocate b) (\<lambda>_. sreturn ())) bm
        = (Ok () :: (alloc_error, unit) res, bm')" and
      flush: "flush_bitmap sb (gd_block_bitmap (f_gdt s ! grp)) bm' s = (Ok (), s1)" and
      upd: "update_gdt_free_blocks sb grp (- int count) s1 = (Ok (), s')" and
      p: "p = wadd 64 (wmul 64 grp (sb_blocks_per_group sb)) start"
      by (auto simp: sbind_Ok_iff simp del: sbind_sread)
    note bm = here(2) and run = here(3)
    have len: "length bm = sb_block_size sb" using bm_load_length[OF assms(1) wf bm] .
    have small: "8 * length bm < 2 ^ 32" using len sb_ok_block_size(2)[OF assms(1)] by simp
    have free: "free_run bm (min (sb_blocks_per_group sb) (8 * length bm)) count start"
      and least: "\<forall>t < start. \<not> free_run bm (min (sb_blocks_per_group sb) (8 * length bm)) count t"
    proof -
      have "run_answer bm (min (sb_blocks_per_group sb) (8 * length bm)) count
          (bm_first_free_run bm count (sb_blocks_per_group sb) :: (alloc_error, nat option) res)"
        by (rule bm_first_free_run_spec[OF assms(3) small])
      then show "free_run bm (min (sb_blocks_per_group sb) (8 * length bm)) count start"
        "\<forall>t < start. \<not> free_run bm (min (sb_blocks_per_group sb) (8 * length bm)) count t"
        by (simp_all add: run run_answer_def)
    qed
    have range: "[start..<wadd 32 start count] = [start..<start + count]"
      using free small by (simp add: free_run_def)
    have "\<forall>i \<in> set [start..<start + count]. i div 8 < length bm"
      using free by (auto simp: free_run_def)
    from bm_allocate_all[OF this, where ?'e = alloc_error] set[unfolded range]
    have bits: "length bm' = length bm"
      "\<And>j. bm_bit bm' j \<longleftrightarrow> (start \<le> j \<and> j < start + count) \<or> bm_bit bm j"
      by simp_all
    obtain d where w: "write_sectors (wmul 64 (gd_block_bitmap (f_gdt s ! grp)) (spb sb)) bm' (f_dev s)
        = (Ok (), d)" and s1: "s1 = s\<lparr>f_dev := d, f_txn := pin_block (gd_block_bitmap (f_gdt s ! grp)) bm' (f_txn s)\<rparr>"
      using flush_bitmap_OkD[OF flush] bits(1) len by metis
    note u = update_gdt_free_blocks_OkD[OF upd]
    have dev: "f_dev s' = d" by (simp add: u(1) s1)
    have after: "bm_load (f_dev s') sb (f_gdt s') grp = Ok bm'"
      unfolding dev
      by (rule bm_load_after_flush[OF assms(1) wf bm w]) (use bits(1) len u(3) g(1) in \<open>simp_all add: s1\<close>)
    have nobit: "\<not> bm_bit bm j" if "start \<le> j" "j < start + count" for j
      using free that unfolding free_run_def by (metis add_diff_inverse_nat nat_add_left_cancel_less not_less)
    have first: "first_run bm count start"
      unfolding first_run_def
    proof (intro allI impI)
      fix t assume t: "t < start"
      then have "t + count \<le> min (sb_blocks_per_group sb) (8 * length bm)" using free by (simp add: free_run_def)
      with least t obtain i where "i < count" "bm_bit bm (t + i)" unfolding free_run_def by blast
      then show "\<exists>j \<in> {t..<t + count}. bm_bit bm j" by (intro bexI[of _ "t + i"]) simp_all
    qed
    have written: "block_written sb (gd_block_bitmap (f_gdt s ! grp)) (f_dev s) (f_dev s')"
      unfolding block_written_def dev using w bits(1) len by (intro exI[of _ bm']) simp
    have "txn_revoked (f_txn s') = txn_revoked (f_txn s)" using u(4) by (simp add: s1 pin_block_def)
    then have "allocated_in sb count s p s' grp start"
      using g p bm after bits(2) nobit free u(3) first written
      by (auto simp: allocated_in_def s1 free_run_def)
    then show ?thesis by (intro exI[of _ grp] exI[of _ start] exI[of _ "[]"] exI[of _ gs]) simp
  qed
qed simp

lemma alloc_blocks_spec:
  assumes "sb_ok sb" and "fs_inv sb d0 n s" and "0 < count"
    and "alloc_blocks sb count hint s = (Ok p, s')"
  shows "\<exists>grp start before after. group_order (hint div sb_blocks_per_group sb) (length (f_gdt s)) = before @ grp # after \<and>
    (\<forall>g \<in> set before. group_full sb count s g) \<and> allocated_in sb count s p s' grp start"
proof -
  have "alloc_blocks_in sb count (group_order (hint div sb_blocks_per_group sb) (length (f_gdt s))) s = (Ok p, s')"
    using assms(4) by (auto simp: alloc_blocks_def Let_def sbind_Ok_iff simp del: sbind_sread)
  from alloc_blocks_in_spec[OF assms(1-3) this] show ?thesis by blast
qed

text \<open>Freeing clears exactly one bit, or reports a double free.\<close>

definition freed_in :: "superblock \<Rightarrow> nat \<Rightarrow> fs \<Rightarrow> fs \<Rightarrow> nat \<Rightarrow> nat \<Rightarrow> bool" where
  "freed_in sb block s s' grp b \<longleftrightarrow>
     grp = block div sb_blocks_per_group sb \<and> b = block mod sb_blocks_per_group sb \<and>
     grp < length (f_gdt s) \<and> txn_revoked (f_txn s') = txn_revoked (f_txn s) @ [block] \<and>
     f_gdt s' = (f_gdt s)[grp := (f_gdt s ! grp)\<lparr>gd_free_blocks_count :=
       adjust_count (gd_free_blocks_count (f_gdt s ! grp)) 1\<rparr>] \<and>
     block_written sb (gd_block_bitmap (f_gdt s ! grp)) (f_dev s) (f_dev s') \<and>
     (\<exists>bm bm'. bm_load (f_dev s) sb (f_gdt s) grp = Ok bm \<and>
       bm_load (f_dev s') sb (f_gdt s') grp = Ok bm' \<and>
       bm_bit bm b \<and> (\<forall>j. bm_bit bm' j \<longleftrightarrow> j \<noteq> b \<and> bm_bit bm j))"

lemma free_block_spec:
  assumes "sb_ok sb" and "fs_inv sb d0 n s" and "free_block sb block s = (Ok (), s')"
    and bpg: "sb_blocks_per_group sb \<le> 8 * sb_block_size sb"
  shows "freed_in sb block s s' (block div sb_blocks_per_group sb) (block mod sb_blocks_per_group sb)"
proof -
  note wf = fs_inv_wf_disk[OF assms(2)]
  define grp b where "grp = block div sb_blocks_per_group sb" and "b = block mod sb_blocks_per_group sb"
  from assms(3) obtain bm bm' s1 where
    pos: "sb_blocks_per_group sb \<noteq> 0" and g: "grp < length (f_gdt s)" and
    bm: "bm_load (f_dev s) sb (f_gdt s) grp = Ok bm" and
    set: "bm_free b bm = (Ok True :: (alloc_error, bool) res, bm')" and
    flush: "flush_bitmap sb (gd_block_bitmap (f_gdt s ! grp)) bm' s = (Ok (), s1)" and
    upd: "update_gdt_free_blocks sb grp 1 (s1\<lparr>f_txn := revoke_block block (f_txn s1)\<rparr>) = (Ok (), s')"
    by (auto simp: free_block_def Let_def grp_def[symmetric] b_def[symmetric] sbind_Ok_iff revoke_def
      simp del: sbind_sread split: if_split_asm)
  have len: "length bm = sb_block_size sb" using bm_load_length[OF assms(1) wf bm] .
  have "b < sb_blocks_per_group sb" using pos by (simp add: b_def)
  then have "b div 8 < length bm" using bpg len by linarith
  from bm_free_spec[OF this set]
  have bits: "bm_bit bm b" "length bm' = length bm" "\<And>j. bm_bit bm' j \<longleftrightarrow> j \<noteq> b \<and> bm_bit bm j"
    by simp_all
  obtain d where w: "write_sectors (wmul 64 (gd_block_bitmap (f_gdt s ! grp)) (spb sb)) bm' (f_dev s)
      = (Ok (), d)" and s1: "s1 = s\<lparr>f_dev := d, f_txn := pin_block (gd_block_bitmap (f_gdt s ! grp)) bm' (f_txn s)\<rparr>"
    using flush_bitmap_OkD[OF flush] bits(2) len by metis
  note u = update_gdt_free_blocks_OkD[OF upd]
  have dev: "f_dev s' = d" by (simp add: u(1) s1)
  have "bm_load (f_dev s') sb (f_gdt s') grp = Ok bm'"
    unfolding dev
    by (rule bm_load_after_flush[OF assms(1) wf bm w]) (use bits(2) len u(3) g in \<open>simp_all add: s1\<close>)
  moreover have "block_written sb (gd_block_bitmap (f_gdt s ! grp)) (f_dev s) (f_dev s')"
    unfolding block_written_def dev using w bits(2) len by (intro exI[of _ bm']) simp
  ultimately show ?thesis
    unfolding freed_in_def grp_def[symmetric] b_def[symmetric]
    using g bm bits(1,3) u(3,4) by (simp add: s1 revoke_block_def pin_block_def)
qed

lemma free_block_double:
  assumes "bm_load (f_dev s) sb (f_gdt s) (block div sb_blocks_per_group sb) = Ok bm"
    and "sb_blocks_per_group sb \<noteq> 0" and "block mod sb_blocks_per_group sb div 8 < length bm"
    and "\<not> bm_bit bm (block mod sb_blocks_per_group sb)"
  shows "free_block sb block s = (Err (AllocDoubleFreed block), s)"
  using assms
  by (simp add: free_block_def Let_def run_local_def bm_free_def bm_is_allocated_bit)

end
