(* ===== verification/Extent_Write.thy ===== *)
theory Extent_Write
  imports Extent Alloc
begin

text \<open>
  Extent trees, write side (\<open>ext4-core/src/extent_write.rs\<close>): appending newly allocated
  blocks to the tree of an inode, growing and splitting it, and truncation. Nodes are edited
  as byte buffers; an edited buffer is a value that the operation returns, since the code
  drops it when a later step fails.
\<close>

definition ROOT_MAX_ENTRIES :: nat where "ROOT_MAX_ENTRIES = 4"
definition MAX_EXTENT_LEN :: nat where "MAX_EXTENT_LEN = 32768"

definition leaf_max_entries :: "nat \<Rightarrow> nat" where
  "leaf_max_entries block_size = wsub 32 block_size 12 div 12 mod 2 ^ 16"

datatype extent_write_error =
    EwNotExtentBased
  | EwDepthLimitExceeded
  | EwCorruptTree nat
  | EwAlloc alloc_error
  | EwBlockDevice bd_error
  | EwInode inode_error
  | EwGroupDesc group_desc_error

section \<open>Helpers\<close>

definition ew_read_block :: "superblock \<Rightarrow> nat \<Rightarrow> (fs, extent_write_error, byte list) st" where
  "ew_read_block sb block =
     sread (\<lambda>s. map_err EwBlockDevice (read_sectors (f_dev s) (wmul 64 block (spb sb)) (spb sb)))"

definition ew_write_block :: "superblock \<Rightarrow> nat \<Rightarrow> byte list \<Rightarrow> (fs, extent_write_error, unit) st" where
  "ew_write_block sb block data =
     sbind (smap_err EwBlockDevice (on_dev (write_sectors (wmul 64 block (spb sb)) data))) (\<lambda>_.
     pin block data)"

definition parse_header :: "byte list \<Rightarrow> nat \<Rightarrow> (extent_write_error, extent_header) res" where
  "parse_header data location =
     (if length data < 12 then Err (EwCorruptTree location)
      else let hdr = header_of data in
        if eh_magic hdr \<noteq> EXTENT_MAGIC then Err (EwCorruptTree location) else Ok hdr)"

definition ew_inode_location ::
  "superblock \<Rightarrow> gdt \<Rightarrow> nat \<Rightarrow> (extent_write_error, nat \<times> nat) res" where
  "ew_inode_location sb gdt inode_num =
     rbind (rassert (sb_inodes_per_group sb \<noteq> 0)) (\<lambda>_.
     let grp = wsub 32 inode_num 1 div sb_inodes_per_group sb;
         idx_in_group = wsub 32 inode_num 1 mod sb_inodes_per_group sb in
     rbind (map_err EwGroupDesc (gdt_get gdt grp)) (\<lambda>desc.
     let inode_size = sb_inode_size sb in
     rbind (rassert (inode_size \<noteq> 0)) (\<lambda>_.
     let inodes_per_block = sb_block_size sb div inode_size in
     rbind (rassert (inodes_per_block \<noteq> 0)) (\<lambda>_.
     let block_index = idx_in_group div inodes_per_block;
         offset_in_block = idx_in_group mod inodes_per_block * inode_size in
     Ok (wadd 64 (gd_inode_table desc) block_index, offset_in_block)))))"

text \<open>The pinned version of a block, or the one on the device.\<close>

definition ew_block_with_txn :: "superblock \<Rightarrow> nat \<Rightarrow> (fs, extent_write_error, byte list) st" where
  "ew_block_with_txn sb block =
     sread (\<lambda>s. case pinned (f_txn s) block of
        Some data \<Rightarrow> Ok data
      | None \<Rightarrow> map_err EwBlockDevice (read_sectors (f_dev s) (wmul 64 block (spb sb)) (spb sb)))"

definition read_raw_inode_at_with_txn ::
  "superblock \<Rightarrow> nat \<Rightarrow> nat \<Rightarrow> (fs, extent_write_error, raw_inode) st" where
  "read_raw_inode_at_with_txn sb table_block off =
     sbind (ew_block_with_txn sb table_block) (\<lambda>data.
     lift_res (rbind (slice_r off 128 data) (\<lambda>bs.
       ok_or (EwCorruptTree 0) (raw_inode_read_from bs))))"

definition flush_raw_inode ::
  "superblock \<Rightarrow> nat \<Rightarrow> nat \<Rightarrow> raw_inode \<Rightarrow> (fs, extent_write_error, unit) st" where
  "flush_raw_inode sb table_block off raw =
     sbind (ew_block_with_txn sb table_block) (\<lambda>data.
     sbind (lift_res (patch_r off raw data)) (\<lambda>data'.
     ew_write_block sb table_block data'))"

definition make_header :: "nat \<Rightarrow> nat \<Rightarrow> nat \<Rightarrow> byte list" where
  "make_header entries mx depth =
     to_le 2 EXTENT_MAGIC @ to_le 2 entries @ to_le 2 mx @ to_le 2 depth @ replicate 4 0"

definition make_leaf_entry :: "nat \<Rightarrow> nat \<Rightarrow> nat \<Rightarrow> byte list" where
  "make_leaf_entry block len phys =
     to_le 4 block @ to_le 2 len @ to_le 2 (phys div 2 ^ 32) @ to_le 4 phys"

definition make_idx_entry :: "nat \<Rightarrow> nat \<Rightarrow> byte list" where
  "make_idx_entry block child_phys =
     to_le 4 block @ to_le 4 child_phys @ to_le 2 (child_phys div 2 ^ 32) @ replicate 2 0"

text \<open>The length of an extent without the mark of an uninitialized one.\<close>

definition real_len :: "extent_leaf \<Rightarrow> nat" where
  "real_len l = (if ee_len l > 32768 then ee_len l - 32768 else ee_len l)"

definition next_logical_block :: "byte list \<Rightarrow> ('e, nat) res" where
  "next_logical_block node_data =
     rbind (slice_r 0 12 node_data) (\<lambda>_.
     let entries = eh_entries (header_of node_data) in
     if entries = 0 then Ok 0
     else rbind (slice_r (12 + (entries - 1) * 12) 12 node_data) (\<lambda>_.
       let leaf = leaf_at node_data (entries - 1) in
       Ok (sat_add 32 (ee_block leaf) (real_len leaf))))"

definition set_i_block :: "byte list \<Rightarrow> raw_inode \<Rightarrow> raw_inode" where
  "set_i_block blk raw = patch 40 blk raw"

definition update_iblocks :: "superblock \<Rightarrow> nat \<Rightarrow> raw_inode \<Rightarrow> raw_inode" where
  "update_iblocks sb added raw =
     patch 28 (to_le 4 (sat_add 32 (i_blocks_lo raw) (wmul 32 added (spb sb)))) raw"

section \<open>Coalescing\<close>

text \<open>The edited buffer when the new blocks continue the trailing extent.\<close>

definition coalesce_leaf_in_buf ::
  "byte list \<Rightarrow> nat \<Rightarrow> extent_leaf \<Rightarrow> nat \<Rightarrow> nat \<Rightarrow> ('e, byte list option) res" where
  "coalesce_leaf_in_buf buf off leaf phys_start block_count =
     (let raw_len = ee_len leaf in
      if raw_len = 0 \<or> raw_len > MAX_EXTENT_LEN then Ok None
      else let phys_end = wadd 64 (leaf_start leaf) raw_len in
        if phys_end \<noteq> phys_start then Ok None
        else let combined = raw_len + block_count in
          if combined > MAX_EXTENT_LEN then Ok None
          else rbind (patch_r (off + 4) (to_le 2 combined) buf) (\<lambda>buf'. Ok (Some buf')))"

definition try_coalesce_root_leaf :: "byte list \<Rightarrow> nat \<Rightarrow> nat \<Rightarrow> ('e, byte list option) res" where
  "try_coalesce_root_leaf root phys_start block_count =
     rbind (slice_r 0 12 root) (\<lambda>_.
     let hdr = header_of root in
     if eh_depth hdr \<noteq> 0 then Ok None
     else if eh_entries hdr = 0 then Ok None
     else let off = 12 + (eh_entries hdr - 1) * 12 in
       rbind (slice_r off 12 root) (\<lambda>_.
       coalesce_leaf_in_buf root off (leaf_at root (eh_entries hdr - 1)) phys_start block_count))"

definition try_coalesce_leaf_block ::
  "superblock \<Rightarrow> nat \<Rightarrow> nat \<Rightarrow> nat \<Rightarrow> (fs, extent_write_error, bool) st" where
  "try_coalesce_leaf_block sb leaf_phys phys_start block_count =
     sbind (ew_block_with_txn sb leaf_phys) (\<lambda>leaf_data.
     sbind (lift_res (parse_header leaf_data leaf_phys)) (\<lambda>hdr.
     if eh_entries hdr = 0 then sreturn False
     else let off = 12 + (eh_entries hdr - 1) * 12 in
       sbind (lift_res (slice_r off 12 leaf_data)) (\<lambda>_.
       sbind (lift_res (coalesce_leaf_in_buf leaf_data off (leaf_at leaf_data (eh_entries hdr - 1))
                          phys_start block_count)) (\<lambda>r.
       case r of
         Some leaf_data' \<Rightarrow> sbind (ew_write_block sb leaf_phys leaf_data') (\<lambda>_. sreturn True)
       | None \<Rightarrow> sreturn False))))"

section \<open>Growing and splitting\<close>

text \<open>\<open>find_rightmost_leaf\<close> for depth \<open>Suc d\<close>; it is only called on a root with a positive depth.\<close>

primrec find_rightmost_leaf ::
  "superblock \<Rightarrow> nat \<Rightarrow> byte list \<Rightarrow> (fs, extent_write_error, nat) st" where
  "find_rightmost_leaf sb 0 node_data =
     sbind (lift_res (parse_header node_data 0)) (\<lambda>hdr.
     if eh_entries hdr = 0 then sfail (EwCorruptTree 0)
     else sbind (lift_res (slice_r (12 + (eh_entries hdr - 1) * 12) 12 node_data)) (\<lambda>_.
       sreturn (idx_child (idx_at node_data (eh_entries hdr - 1)))))"
| "find_rightmost_leaf sb (Suc d) node_data =
     sbind (lift_res (parse_header node_data 0)) (\<lambda>hdr.
     if eh_entries hdr = 0 then sfail (EwCorruptTree 0)
     else sbind (lift_res (slice_r (12 + (eh_entries hdr - 1) * 12) 12 node_data)) (\<lambda>_.
       sbind (ew_read_block sb (idx_child (idx_at node_data (eh_entries hdr - 1)))) (\<lambda>child_data.
       find_rightmost_leaf sb d child_data)))"

definition logical_next_in_leaf :: "superblock \<Rightarrow> nat \<Rightarrow> (fs, extent_write_error, nat) st" where
  "logical_next_in_leaf sb leaf_phys =
     sbind (ew_read_block sb leaf_phys) (\<lambda>data. lift_res (next_logical_block data))"

definition add_idx_to_root :: "byte list \<Rightarrow> nat \<Rightarrow> nat \<Rightarrow> (extent_write_error, byte list) res" where
  "add_idx_to_root root_data first_logical child_phys =
     rbind (parse_header root_data 0) (\<lambda>hdr.
     if eh_entries hdr \<ge> eh_max hdr then Err EwDepthLimitExceeded
     else rbind (patch_r (12 + eh_entries hdr * 12) (make_idx_entry first_logical child_phys) root_data)
       (\<lambda>root1. patch_r 0 (make_header (eh_entries hdr + 1) (eh_max hdr) (eh_depth hdr)) root1))"

definition extent_leaf_split ::
  "superblock \<Rightarrow> nat \<Rightarrow> nat \<Rightarrow> byte list \<Rightarrow> (fs, extent_write_error, nat \<times> byte list) st" where
  "extent_leaf_split sb leaf_block inode_hint root_data =
     sbind (ew_read_block sb leaf_block) (\<lambda>old_data.
     sbind (lift_res (parse_header old_data leaf_block)) (\<lambda>hdr.
     let entries = eh_entries hdr; mx = eh_max hdr in
     sbind (smap_err EwAlloc (alloc_blocks sb 1 inode_hint)) (\<lambda>new_block.
     let split_at = entries div 2;
         new_entries = entries - split_at in
     sbind (lift_res (
       rbind (patch_r 0 (make_header new_entries mx 0) (replicate (sb_block_size sb) 0)) (\<lambda>new1.
       rbind (rassert (12 + new_entries * 12 \<le> length new1)) (\<lambda>_.
       rbind (slice_r (12 + split_at * 12) (new_entries * 12) old_data) (\<lambda>moved.
       patch_r 12 moved new1))))) (\<lambda>new_data.
     sbind (lift_res (patch_r 0 (make_header split_at mx 0) old_data)) (\<lambda>old_data'.
     sbind (ew_write_block sb leaf_block old_data') (\<lambda>_.
     sbind (ew_write_block sb new_block new_data) (\<lambda>_.
     sbind (lift_res (slice_r 12 12 new_data)) (\<lambda>_.
     sbind (lift_res (add_idx_to_root root_data (ee_block (leaf_at new_data 0)) new_block)) (\<lambda>root'.
     sreturn (new_block, root'))))))))))"

text \<open>
  The new entry is stored when the block, or after a split the new block, has room; the
  result is the root, to which a split adds an index entry.
\<close>

definition append_to_leaf_block ::
  "superblock \<Rightarrow> nat \<Rightarrow> nat \<Rightarrow> byte list \<Rightarrow> byte list \<Rightarrow> (fs, extent_write_error, byte list) st" where
  "append_to_leaf_block sb inode_hint leaf_phys new_leaf root_data =
     sbind (ew_read_block sb leaf_phys) (\<lambda>leaf_data.
     sbind (lift_res (parse_header leaf_data leaf_phys)) (\<lambda>hdr.
     let entries = eh_entries hdr; mx = eh_max hdr in
     if entries < mx then
       sbind (lift_res (
         rbind (patch_r (12 + entries * 12) new_leaf leaf_data) (\<lambda>d1.
         patch_r 0 (make_header (entries + 1) mx 0) d1))) (\<lambda>leaf_data'.
       sbind (ew_write_block sb leaf_phys leaf_data') (\<lambda>_. sreturn root_data))
     else
       sbind (extent_leaf_split sb leaf_phys inode_hint root_data) (\<lambda>(new_block, root').
       sbind (ew_read_block sb new_block) (\<lambda>new_leaf_data.
       sbind (lift_res (parse_header new_leaf_data new_block)) (\<lambda>hdr2.
       let e2 = eh_entries hdr2; m2 = eh_max hdr2 in
       if e2 < m2 then
         sbind (lift_res (
           rbind (patch_r (12 + e2 * 12) new_leaf new_leaf_data) (\<lambda>d1.
           patch_r 0 (make_header (e2 + 1) m2 0) d1))) (\<lambda>new_leaf_data'.
         sbind (ew_write_block sb new_block new_leaf_data') (\<lambda>_. sreturn root'))
       else sreturn root')))))"

definition extent_tree_grow ::
  "superblock \<Rightarrow> nat \<Rightarrow> nat \<Rightarrow> nat \<Rightarrow> raw_inode \<Rightarrow> (fs, extent_write_error, raw_inode) st" where
  "extent_tree_grow sb inode_num table_block inode_off raw =
     sbind (lift_res (parse_header (i_block raw) 0)) (\<lambda>hdr.
     let depth = eh_depth hdr in
     sbind (lift_res (rassert (depth < MAX_DEPTH))) (\<lambda>_.
     sbind (smap_err EwAlloc (alloc_blocks sb 1 inode_num)) (\<lambda>new_block.
     let entries = eh_entries hdr;
         new_max = leaf_max_entries (sb_block_size sb) in
     sbind (lift_res (
       rbind (patch_r 0 (make_header entries new_max depth) (replicate (sb_block_size sb) 0)) (\<lambda>c1.
       rbind (rassert (12 + entries * 12 \<le> length c1)) (\<lambda>_.
       rbind (slice_r 12 (entries * 12) (i_block raw)) (\<lambda>old_entries.
       patch_r 12 old_entries c1))))) (\<lambda>child_data.
     sbind (ew_write_block sb new_block child_data) (\<lambda>_.
     let new_root = patch 12 (make_idx_entry 0 new_block)
           (patch 0 (make_header 1 ROOT_MAX_ENTRIES (depth + 1)) (replicate 60 0));
         raw' = set_i_block new_root raw in
     sbind (flush_raw_inode sb table_block inode_off raw') (\<lambda>_. sreturn raw'))))))"

section \<open>Appending\<close>

text \<open>The root with the entry for the new blocks, when its depth is zero.\<close>

definition append_at_root ::
  "superblock \<Rightarrow> nat \<Rightarrow> nat \<Rightarrow> nat \<Rightarrow> extent_header \<Rightarrow> nat \<Rightarrow> nat \<Rightarrow> raw_inode
     \<Rightarrow> (fs, extent_write_error, raw_inode) st" where
  "append_at_root sb inode_num table_block inode_off hdr phys_start block_count raw =
     sbind (lift_res (next_logical_block (i_block raw))) (\<lambda>logical.
     let new_leaf = make_leaf_entry logical block_count phys_start in
     if eh_entries hdr < eh_max hdr then
       lift_res (
         rbind (patch_r (12 + eh_entries hdr * 12) new_leaf (i_block raw)) (\<lambda>b1.
         rbind (patch_r 0 (make_header (eh_entries hdr + 1) (eh_max hdr) 0) b1) (\<lambda>b2.
         Ok (set_i_block b2 raw))))
     else
       sbind (extent_tree_grow sb inode_num table_block inode_off raw) (\<lambda>raw'.
       sbind (lift_res (parse_header (i_block raw') 0)) (\<lambda>hdr2.
       let n = eh_entries hdr2 in
       sbind (lift_res (slice_r (12 + (n - 1) * 12) 12 (i_block raw'))) (\<lambda>_.
       let child_phys = idx_child (idx_at (i_block raw') (n - 1)) in
       sbind (append_to_leaf_block sb inode_num child_phys new_leaf (i_block raw')) (\<lambda>root'.
       sreturn (set_i_block root' raw'))))))"

definition extent_append ::
  "superblock \<Rightarrow> nat \<Rightarrow> nat \<Rightarrow> nat \<Rightarrow> (fs, extent_write_error, unit) st" where
  "extent_append sb inode_num phys_start block_count =
     sbind (sread (\<lambda>s. map_err EwInode (read_inode (f_dev s) sb (f_gdt s) inode_num))) (\<lambda>ino.
     sbind (sread (\<lambda>s. ew_inode_location sb (f_gdt s) inode_num)) (\<lambda>(table_block, inode_off).
     if \<not> uses_extents ino then sfail EwNotExtentBased
     else
     sbind (read_raw_inode_at_with_txn sb table_block inode_off) (\<lambda>raw.
     sbind (lift_res (parse_header (i_block raw) 0)) (\<lambda>hdr.
     if eh_depth hdr = 0 then
       sbind (lift_res (try_coalesce_root_leaf (i_block raw) phys_start block_count)) (\<lambda>r.
       case r of
         Some root' \<Rightarrow>
           flush_raw_inode sb table_block inode_off
             (update_iblocks sb block_count (set_i_block root' raw))
       | None \<Rightarrow>
           sbind (append_at_root sb inode_num table_block inode_off hdr phys_start block_count raw)
             (\<lambda>raw'. flush_raw_inode sb table_block inode_off (update_iblocks sb block_count raw')))
     else
       sbind (find_rightmost_leaf sb (eh_depth hdr - 1) (i_block raw)) (\<lambda>leaf_phys.
       sbind (try_coalesce_leaf_block sb leaf_phys phys_start block_count) (\<lambda>merged.
       if merged then
         flush_raw_inode sb table_block inode_off (update_iblocks sb block_count raw)
       else
         sbind (logical_next_in_leaf sb leaf_phys) (\<lambda>logical.
         let new_leaf = make_leaf_entry logical block_count phys_start in
         sbind (append_to_leaf_block sb inode_num leaf_phys new_leaf (i_block raw)) (\<lambda>root'.
         flush_raw_inode sb table_block inode_off
           (update_iblocks sb block_count (set_i_block root' raw))))))))))"

section \<open>Truncation\<close>

text \<open>\<open>for b in 0..len\<close>: free the block and revoke it.\<close>

definition free_range :: "superblock \<Rightarrow> nat \<Rightarrow> nat \<Rightarrow> (fs, extent_write_error, unit) st" where
  "free_range sb phys len =
     sfor [0..<len] (\<lambda>b.
       sbind (smap_err EwAlloc (free_block sb (wadd 64 phys b))) (\<lambda>_. revoke (wadd 64 phys b)))"

text \<open>\<open>copy_within\<close>: the entries after the one at \<open>off\<close> move over it.\<close>

definition remove_entry :: "nat \<Rightarrow> nat \<Rightarrow> byte list \<Rightarrow> ('e, byte list) res" where
  "remove_entry off remaining node =
     (if remaining > 0 then
        rbind (slice_r (off + 12) (remaining * 12) node) (\<lambda>rest. patch_r off rest node)
      else Ok node)"

text \<open>
  The loop over the leaf entries: \<open>k\<close> entries remain from index \<open>i\<close> on. Every turn
  either drops an entry or moves on. The result is the number of entries left.
\<close>

primrec trunc_leaf_loop ::
  "superblock \<Rightarrow> nat \<Rightarrow> nat \<Rightarrow> nat \<Rightarrow> byte list \<Rightarrow> (fs, extent_write_error, nat \<times> byte list) st" where
  "trunc_leaf_loop sb keep_from 0 i node = sreturn (i, node)"
| "trunc_leaf_loop sb keep_from (Suc k) i node =
     (let off = 12 + i * 12 in
      sbind (lift_res (slice_r off 12 node)) (\<lambda>_.
      let leaf = leaf_at node i;
          first = ee_block leaf;
          len = real_len leaf;
          last_excl = sat_add 32 first len;
          phys = leaf_start leaf in
      if first \<ge> keep_from then
        sbind (free_range sb phys len) (\<lambda>_.
        sbind (lift_res (remove_entry off k node)) (\<lambda>node'.
        trunc_leaf_loop sb keep_from k i node'))
      else if last_excl > keep_from then
        let keep_len = (keep_from - first) mod 2 ^ 16;
            free_start = wadd 64 phys keep_len in
        sbind (free_range sb free_start (last_excl - keep_from)) (\<lambda>_.
        let actual_keep = (if ee_len leaf > 32768 then wadd 16 keep_len 32768 else keep_len) in
        sbind (lift_res (patch_r (off + 4) (to_le 2 actual_keep) node)) (\<lambda>node'.
        trunc_leaf_loop sb keep_from k (Suc i) node'))
      else trunc_leaf_loop sb keep_from k (Suc i) node))"

primrec free_subtree ::
  "superblock \<Rightarrow> nat \<Rightarrow> nat \<Rightarrow> (fs, extent_write_error, unit) st" where
  "free_subtree sb 0 block_phys =
     sbind (ew_read_block sb block_phys) (\<lambda>data.
     sbind (lift_res (parse_header data block_phys)) (\<lambda>hdr.
     sbind (sfor [0..<eh_entries hdr] (\<lambda>i.
       sbind (lift_res (slice_r (12 + i * 12) 12 data)) (\<lambda>_.
       free_range sb (leaf_start (leaf_at data i)) (real_len (leaf_at data i))))) (\<lambda>_.
     sbind (smap_err EwAlloc (free_block sb block_phys)) (\<lambda>_. revoke block_phys))))"
| "free_subtree sb (Suc d) block_phys =
     sbind (ew_read_block sb block_phys) (\<lambda>data.
     sbind (lift_res (parse_header data block_phys)) (\<lambda>hdr.
     sbind (sfor [0..<eh_entries hdr] (\<lambda>i.
       sbind (lift_res (slice_r (12 + i * 12) 12 data)) (\<lambda>_.
       let child_phys = idx_child (idx_at data i) in
       sbind (free_subtree sb d child_phys) (\<lambda>_.
       sbind (smap_err EwAlloc (free_block sb child_phys)) (\<lambda>_. revoke child_phys))))) (\<lambda>_.
     sbind (smap_err EwAlloc (free_block sb block_phys)) (\<lambda>_. revoke block_phys))))"

text \<open>
  The loop over the index entries of a node of depth \<open>Suc d\<close>; \<open>child\<close> truncates a child node
  and says whether it became empty.
\<close>

primrec trunc_idx_loop ::
  "(byte list \<Rightarrow> (fs, extent_write_error, bool \<times> byte list) st) \<Rightarrow> superblock \<Rightarrow> nat \<Rightarrow> nat
     \<Rightarrow> nat \<Rightarrow> nat \<Rightarrow> byte list \<Rightarrow> (fs, extent_write_error, nat \<times> byte list) st" where
  "trunc_idx_loop child sb keep_from d 0 i node = sreturn (i, node)"
| "trunc_idx_loop child sb keep_from d (Suc k) i node =
     (let off = 12 + i * 12 in
      sbind (lift_res (slice_r off 12 node)) (\<lambda>_.
      let idx = idx_at node i;
          child_phys = idx_child idx in
      if ei_block idx \<ge> keep_from \<and> keep_from > 0 then
        sbind (free_subtree sb d child_phys) (\<lambda>_.
        sbind (lift_res (remove_entry off k node)) (\<lambda>node'.
        trunc_idx_loop child sb keep_from d k i node'))
      else
        sbind (ew_read_block sb child_phys) (\<lambda>child_data.
        sbind (child child_data) (\<lambda>(child_empty, child_data').
        if child_empty then
          sbind (smap_err EwAlloc (free_block sb child_phys)) (\<lambda>_.
          sbind (revoke child_phys) (\<lambda>_.
          sbind (lift_res (remove_entry off k node)) (\<lambda>node'.
          trunc_idx_loop child sb keep_from d k i node')))
        else
          sbind (ew_write_block sb child_phys child_data') (\<lambda>_.
          trunc_idx_loop child sb keep_from d k (Suc i) node)))))"

primrec truncate_node ::
  "superblock \<Rightarrow> nat \<Rightarrow> nat \<Rightarrow> bool \<Rightarrow> byte list \<Rightarrow> (fs, extent_write_error, bool \<times> byte list) st"
where
  "truncate_node sb keep_from 0 is_root node =
     sbind (lift_res (parse_header node 0)) (\<lambda>hdr.
     sbind (trunc_leaf_loop sb keep_from (eh_entries hdr) 0 node) (\<lambda>(entries, node1).
     sbind (lift_res (patch_r 0 (make_header entries (eh_max hdr) 0) node1)) (\<lambda>node2.
     sreturn (entries = 0 \<and> keep_from = 0, node2))))"
| "truncate_node sb keep_from (Suc d) is_root node =
     sbind (lift_res (parse_header node 0)) (\<lambda>hdr.
     sbind (trunc_idx_loop (truncate_node sb keep_from d False) sb keep_from d (eh_entries hdr) 0 node)
       (\<lambda>(entries, node1).
     sbind (lift_res (patch_r 0 (make_header entries (eh_max hdr) (Suc d)) node1)) (\<lambda>node2.
     sreturn (entries = 0 \<and> \<not> is_root, node2))))"

primrec count_iblocks_loop :: "byte list \<Rightarrow> nat \<Rightarrow> nat list \<Rightarrow> nat \<Rightarrow> nat" where
  "count_iblocks_loop root_data block_size [] acc = acc"
| "count_iblocks_loop root_data block_size (i # is) acc =
     (if 12 + i * 12 + 12 > length root_data then acc
      else count_iblocks_loop root_data block_size is
        (sat_add 32 acc (wmul 32 (real_len (leaf_at root_data i)) (block_size div 512))))"

definition count_iblocks :: "byte list \<Rightarrow> nat \<Rightarrow> nat" where
  "count_iblocks root_data block_size =
     (if length root_data < 12 then 0
      else if eh_depth (header_of root_data) \<noteq> 0 then 0
      else count_iblocks_loop root_data block_size [0..<eh_entries (header_of root_data)] 0)"

definition extent_truncate :: "superblock \<Rightarrow> nat \<Rightarrow> nat \<Rightarrow> (fs, extent_write_error, unit) st" where
  "extent_truncate sb inode_num keep_from =
     sbind (sread (\<lambda>s. map_err EwInode (read_inode (f_dev s) sb (f_gdt s) inode_num))) (\<lambda>ino.
     sbind (sread (\<lambda>s. ew_inode_location sb (f_gdt s) inode_num)) (\<lambda>(table_block, inode_off).
     if \<not> uses_extents ino then sfail EwNotExtentBased
     else
     sbind (read_raw_inode_at_with_txn sb table_block inode_off) (\<lambda>raw.
     sbind (lift_res (parse_header (i_block raw) 0)) (\<lambda>hdr.
     sbind (truncate_node sb keep_from (eh_depth hdr) True (i_block raw)) (\<lambda>(_, root_buf).
     let raw1 = set_i_block root_buf raw;
         raw2 = patch 28 (to_le 4 (count_iblocks (i_block raw1) (sb_block_size sb))) raw1 in
     flush_raw_inode sb table_block inode_off raw2)))))"

section \<open>The invariant\<close>

lemma ew_read_block_len:
  "ew_read_block sb b s = (Ok x, s') \<Longrightarrow> fs_inv sb d0 n s \<Longrightarrow> sb_ok sb \<Longrightarrow> length x = sb_block_size sb"
  by (auto simp: ew_read_block_def intro: read_block_length fs_inv_wf_disk)

lemma ew_block_with_txn_len:
  "ew_block_with_txn sb b s = (Ok x, s') \<Longrightarrow> fs_inv sb d0 n s \<Longrightarrow> sb_ok sb \<Longrightarrow> length x = sb_block_size sb"
  by (auto simp: ew_block_with_txn_def fs_inv_pinned intro: read_block_length fs_inv_wf_disk
      split: option.splits)

lemma ew_read_block_inv [preserves_intros]: "preserves P (ew_read_block sb b)"
  by (simp add: ew_read_block_def preserves_sread)

lemma ew_block_with_txn_inv [preserves_intros]: "preserves P (ew_block_with_txn sb b)"
  by (simp add: ew_block_with_txn_def preserves_sread)

lemma ew_write_block_inv:
  "length data = sb_block_size sb \<Longrightarrow> preserves (fs_inv sb d0 n) (ew_write_block sb b data)"
  unfolding ew_write_block_def by (intro preserves_intros preserves_pin)

lemma flush_raw_inode_inv [preserves_intros]:
  "sb_ok sb \<Longrightarrow> preserves (fs_inv sb d0 n) (flush_raw_inode sb b off raw)"
  unfolding flush_raw_inode_def
  by (intro preserves_intros ew_write_block_inv) (auto dest!: ew_block_with_txn_len)

lemma read_raw_inode_inv [preserves_intros]: "preserves P (read_raw_inode_at_with_txn sb b off)"
  unfolding read_raw_inode_at_with_txn_def by (intro preserves_intros)

lemma coalesce_len:
  "coalesce_leaf_in_buf buf off leaf p c = Ok (Some buf') \<Longrightarrow> length buf' = length buf"
  by (auto simp: coalesce_leaf_in_buf_def Let_def split: if_splits)

lemma try_coalesce_leaf_block_inv [preserves_intros]:
  "sb_ok sb \<Longrightarrow> preserves (fs_inv sb d0 n) (try_coalesce_leaf_block sb l p c)"
  unfolding try_coalesce_leaf_block_def Let_def
  by (intro preserves_intros ew_write_block_inv) (auto dest!: ew_block_with_txn_len coalesce_len)

lemma find_rightmost_leaf_inv [preserves_intros]: "preserves P (find_rightmost_leaf sb d node)"
  by (induction d arbitrary: node) (auto intro!: preserves_intros)

lemma logical_next_inv [preserves_intros]: "preserves P (logical_next_in_leaf sb l)"
  unfolding logical_next_in_leaf_def by (intro preserves_intros)

lemma extent_leaf_split_inv [preserves_intros]:
  assumes "sb_ok sb"
  shows "preserves (fs_inv sb d0 n) (extent_leaf_split sb l h root)"
  unfolding extent_leaf_split_def Let_def
  by (intro preserves_intros ew_write_block_inv assms) (auto dest!: ew_read_block_len[OF _ _ assms])

lemma append_to_leaf_block_inv [preserves_intros]:
  assumes "sb_ok sb"
  shows "preserves (fs_inv sb d0 n) (append_to_leaf_block sb h l new_leaf root)"
  unfolding append_to_leaf_block_def Let_def
  by (intro preserves_intros ew_write_block_inv assms) (auto dest!: ew_read_block_len[OF _ _ assms])

lemma extent_tree_grow_inv [preserves_intros]:
  "sb_ok sb \<Longrightarrow> preserves (fs_inv sb d0 n) (extent_tree_grow sb i b off raw)"
  unfolding extent_tree_grow_def Let_def
  by (intro preserves_intros ew_write_block_inv) auto

lemma extent_append_inv [preserves_intros]:
  "sb_ok sb \<Longrightarrow> preserves (fs_inv sb d0 n) (extent_append sb i p c)"
  unfolding extent_append_def append_at_root_def Let_def
  by (intro preserves_intros)

lemma free_range_inv [preserves_intros]:
  "sb_ok sb \<Longrightarrow> preserves (fs_inv sb d0 n) (free_range sb p c)"
  unfolding free_range_def by (intro preserves_intros)

lemma free_subtree_inv [preserves_intros]:
  "sb_ok sb \<Longrightarrow> preserves (fs_inv sb d0 n) (free_subtree sb d b)"
  by (induction d arbitrary: b) (simp_all add: Let_def preserves_intros)

lemma remove_entry_len: "remove_entry off k node = Ok node' \<Longrightarrow> length node' = length node"
  by (auto simp: remove_entry_def split: if_splits)

lemma trunc_leaf_loop_len:
  "trunc_leaf_loop sb kf k i node s = (Ok (e, node'), s') \<Longrightarrow> length node' = length node"
proof (induction k arbitrary: i node s)
  case (Suc k)
  then show ?case
    by (auto simp: Let_def sbind_Ok_iff simp del: sbind_sread dest!: Suc.IH remove_entry_len split: if_split_asm)
qed simp

lemma trunc_idx_loop_len:
  "trunc_idx_loop child sb kf d k i node s = (Ok (e, node'), s') \<Longrightarrow> length node' = length node"
proof (induction k arbitrary: i node s)
  case (Suc k)
  then show ?case
    by (auto simp: Let_def sbind_Ok_iff simp del: sbind_sread dest!: Suc.IH remove_entry_len split: if_split_asm)
qed simp

lemma truncate_node_len:
  "truncate_node sb kf d is_root node s = (Ok (e, node'), s') \<Longrightarrow> length node' = length node"
  by (cases d) (auto simp: sbind_Ok_iff simp del: sbind_sread dest!: trunc_leaf_loop_len trunc_idx_loop_len)

lemma trunc_leaf_loop_inv [preserves_intros]:
  "sb_ok sb \<Longrightarrow> preserves (fs_inv sb d0 n) (trunc_leaf_loop sb kf k i node)"
  by (induction k arbitrary: i node) (simp_all add: Let_def preserves_intros)

lemma trunc_idx_loop_inv:
  assumes "sb_ok sb" and "\<And>nd. preserves (fs_inv sb d0 n) (child nd)"
    and len: "\<And>nd s e nd' s'. child nd s = (Ok (e, nd'), s') \<Longrightarrow> length nd' = length nd"
  shows "preserves (fs_inv sb d0 n) (trunc_idx_loop child sb kf d k i node)"
proof (induction k arbitrary: i node)
  case (Suc k)
  show ?case
    unfolding trunc_idx_loop.simps Let_def
    by (intro preserves_intros Suc.IH assms ew_write_block_inv)
       (auto dest!: len ew_read_block_len[OF _ _ assms(1)])
qed (simp add: preserves_intros)

lemma truncate_node_inv [preserves_intros]:
  assumes "sb_ok sb"
  shows "preserves (fs_inv sb d0 n) (truncate_node sb kf d is_root node)"
proof (induction d arbitrary: is_root node)
  case 0
  show ?case unfolding truncate_node.simps by (intro preserves_intros assms)
next
  case (Suc d)
  show ?case
    unfolding truncate_node.simps
    by (intro preserves_intros trunc_idx_loop_inv assms Suc.IH) (auto dest: truncate_node_len)
qed

lemma extent_truncate_inv [preserves_intros]:
  "sb_ok sb \<Longrightarrow> preserves (fs_inv sb d0 n) (extent_truncate sb i kf)"
  unfolding extent_truncate_def Let_def by (intro preserves_intros)

end
