(* ===== verification/Dir_Write.thy ===== *)
theory Dir_Write
  imports Dir Inode_Write Extent_Write
begin

text \<open>
  Directories, write side (\<open>ext4-core/src/dir_write.rs\<close>): inserting, removing and looking
  up records inside directory blocks, and the operations built on them: adding and removing
  an entry, renaming, and hard links. The table \<open>gdt\<close> that the code passes beside the
  allocator is an argument of its own: the callers pass a copy of it, while the allocator
  changes the one in the state.
\<close>

datatype dir_write_error =
    DwAlreadyExists "byte list"
  | DwNotFound "byte list"
  | DwNotEmpty
  | DwHardLinkToDirectory
  | DwTooManyLinks
  | DwNameTooLong
  | DwInodeWrite inode_write_error
  | DwAlloc alloc_error
  | DwBlockDevice bd_error
  | DwInode inode_error
  | DwExtent extent_error
  | DwExtentWrite extent_write_error
  | DwBlockNumberOverflow
  | DwSizeTooLarge
  | DwInvalidRecLen nat

section \<open>Records in a block\<close>

text \<open>\<open>((8 + name_len + 3) & !3) as u16\<close>.\<close>

definition min_rec_len :: "nat \<Rightarrow> nat" where
  "min_rec_len name_len = (8 + name_len + 3) div 4 * 4 mod 2 ^ 16"

definition dw_read_block :: "superblock \<Rightarrow> nat \<Rightarrow> disk \<Rightarrow> (dir_write_error, byte list) res" where
  "dw_read_block sb block dev =
     rbind (ok_or DwBlockNumberOverflow (checked_mul 64 block (spb sb))) (\<lambda>start_sector.
     map_err DwBlockDevice (read_sectors dev start_sector (spb sb)))"

text \<open>The five stores of \<open>write_dirent\<close> cover adjacent bytes.\<close>

definition dirent_bytes :: "nat \<Rightarrow> byte list \<Rightarrow> nat \<Rightarrow> nat \<Rightarrow> byte list" where
  "dirent_bytes inode_num name ft rl =
     to_le 4 inode_num @ to_le 2 rl @ to_le 1 (length name) @ to_le 1 ft @ name"

definition write_dirent ::
  "nat \<Rightarrow> nat \<Rightarrow> byte list \<Rightarrow> nat \<Rightarrow> nat \<Rightarrow> byte list \<Rightarrow> ('e, byte list) res" where
  "write_dirent offset inode_num name ft rl buf =
     (if offset + 8 + length name \<le> length buf
      then Ok (patch offset (dirent_bytes inode_num name ft rl) buf) else Panic)"

text \<open>
  The loop of \<open>try_insert_in_block\<close> from \<open>pos\<close>: the block with the entry stored, or
  \<open>None\<close> when no record has room.
\<close>

function try_insert_from ::
  "byte list \<Rightarrow> nat \<Rightarrow> nat \<Rightarrow> byte list \<Rightarrow> nat \<Rightarrow> (dir_write_error, byte list option) res" where
  "try_insert_from name child_inode_num ft block pos =
     (if length block < pos + 8 then Ok None
      else let needed = min_rec_len (length name);
               inode_num = rec_inode block pos;
               rl = rec_len block pos;
               name_len = rec_name_len block pos in
        if rl < 8 then Err (DwInvalidRecLen rl)
        else let is_last = pos + rl \<ge> length block in
          if inode_num = 0 then
            (if rl \<ge> needed then
               rbind (write_dirent pos child_inode_num name ft rl block) (\<lambda>b. Ok (Some b))
             else try_insert_from name child_inode_num ft block (pos + rl))
          else
            let actual = min_rec_len name_len;
                slack = rl - actual in
            if is_last \<and> slack \<ge> needed then
              rbind (patch_r (pos + 4) (to_le 2 actual) block) (\<lambda>b1.
              rbind (write_dirent (pos + actual) child_inode_num name ft (rl - actual) b1) (\<lambda>b2.
              Ok (Some b2)))
            else try_insert_from name child_inode_num ft block (pos + rl))"
  by pat_completeness auto
termination
  by (relation "measure (\<lambda>(name, c, ft, block, pos). length block - pos)") auto

declare try_insert_from.simps [simp del]

definition try_insert_in_block ::
  "byte list \<Rightarrow> nat \<Rightarrow> nat \<Rightarrow> byte list \<Rightarrow> (dir_write_error, byte list option) res" where
  "try_insert_in_block name child_inode_num ft block =
     try_insert_from name child_inode_num ft block 0"

text \<open>The closure of \<open>dir_add_entry\<close>: is the name in this block?\<close>

function scan_exists :: "byte list \<Rightarrow> byte list \<Rightarrow> nat \<Rightarrow> (dir_write_error, unit option) res" where
  "scan_exists name block pos =
     (if length block < pos + 8 then Ok None
      else let inum = rec_inode block pos; rl = rec_len block pos in
        if rl < 8 then Ok None
        else let name_len = rec_name_len block pos in
          if inum \<noteq> 0 \<and> name_len = length name then
            rbind (slice_r (pos + 8) (min name_len (rl - 8)) block) (\<lambda>entry_name.
            if entry_name = name then Ok (Some ()) else scan_exists name block (pos + rl))
          else scan_exists name block (pos + rl))"
  by pat_completeness auto
termination
  by (relation "measure (\<lambda>(name, block, pos). length block - pos)") auto

declare scan_exists.simps [simp del]

text \<open>
  The loop of \<open>dir_remove_entry\<close> in one block, with the position of the previous live
  record: the removed inode number and the edited block.
\<close>

function remove_from ::
  "byte list \<Rightarrow> byte list \<Rightarrow> nat \<Rightarrow> nat option \<Rightarrow> (dir_write_error, (nat \<times> byte list) option) res"
where
  "remove_from name block pos prev_end =
     (if length block < pos + 8 then Ok None
      else let inum = rec_inode block pos; rl = rec_len block pos in
        if rl < 8 then Err (DwInvalidRecLen rl)
        else let name_len = rec_name_len block pos in
          rbind (if inum \<noteq> 0 \<and> name_len = length name
                 then rbind (slice_r (pos + 8) name_len block) (\<lambda>n. Ok (n = name))
                 else Ok False) (\<lambda>is_match.
          if is_match then
            rbind (case prev_end of
                Some prev_pos \<Rightarrow>
                  patch_r (prev_pos + 4) (to_le 2 (wadd 16 (rec_len block prev_pos) rl)) block
              | None \<Rightarrow> patch_r pos (to_le 4 0) block) (\<lambda>block'.
            Ok (Some (inum, block')))
          else remove_from name block (pos + rl) (if inum \<noteq> 0 then Some pos else prev_end)))"
  by pat_completeness auto
termination
  by (relation "measure (\<lambda>(name, block, pos, prev). length block - pos)") auto

declare remove_from.simps [simp del]

text \<open>The closures of \<open>dir_lookup_entry\<close> and \<open>dir_is_empty\<close>, and the loop of \<open>update_dotdot\<close>.\<close>

function scan_lookup ::
  "byte list \<Rightarrow> byte list \<Rightarrow> nat \<Rightarrow> (dir_write_error, (nat \<times> nat) option) res" where
  "scan_lookup name block pos =
     (if length block < pos + 8 then Ok None
      else let inum = rec_inode block pos; rl = rec_len block pos in
        if rl < 8 then Ok None
        else let name_len = rec_name_len block pos; ft = rec_file_type block pos in
          if inum \<noteq> 0 \<and> name_len = length name then
            rbind (slice_r (pos + 8) name_len block) (\<lambda>n.
            if n = name then Ok (Some (inum, ft)) else scan_lookup name block (pos + rl))
          else scan_lookup name block (pos + rl))"
  by pat_completeness auto
termination
  by (relation "measure (\<lambda>(name, block, pos). length block - pos)") auto

declare scan_lookup.simps [simp del]

definition DOT :: "byte list" where "DOT = [0x2E]"
definition DOTDOT :: "byte list" where "DOTDOT = [0x2E, 0x2E]"

function scan_non_dot :: "byte list \<Rightarrow> nat \<Rightarrow> (dir_write_error, unit option) res" where
  "scan_non_dot block pos =
     (if length block < pos + 8 then Ok None
      else let inum = rec_inode block pos; rl = rec_len block pos in
        if rl < 8 then Ok None
        else let name_len = rec_name_len block pos in
          if inum \<noteq> 0 then
            rbind (slice_r (pos + 8) name_len block) (\<lambda>n.
            if n \<noteq> DOT \<and> n \<noteq> DOTDOT then Ok (Some ()) else scan_non_dot block (pos + rl))
          else scan_non_dot block (pos + rl))"
  by pat_completeness auto
termination
  by (relation "measure (\<lambda>(block, pos). length block - pos)") auto

declare scan_non_dot.simps [simp del]

function dotdot_from :: "nat \<Rightarrow> byte list \<Rightarrow> nat \<Rightarrow> (dir_write_error, byte list option) res" where
  "dotdot_from new_parent_inode block pos =
     (if length block < pos + 8 then Ok None
      else let inum = rec_inode block pos; rl = rec_len block pos in
        if rl < 8 then Ok None
        else let name_len = rec_name_len block pos in
          if inum \<noteq> 0 \<and> name_len = 2 then
            rbind (slice_r (pos + 8) 2 block) (\<lambda>n.
            if n = DOTDOT then
              rbind (patch_r pos (to_le 4 new_parent_inode) block) (\<lambda>b. Ok (Some b))
            else dotdot_from new_parent_inode block (pos + rl))
          else dotdot_from new_parent_inode block (pos + rl))"
  by pat_completeness auto
termination
  by (relation "measure (\<lambda>(p, block, pos). length block - pos)") auto

declare dotdot_from.simps [simp del]

section \<open>Walking a directory\<close>

text \<open>\<open>walk_dir_blocks\<close>: the first result of \<open>f\<close> on the mapped blocks in order.\<close>

primrec walk_blocks ::
  "disk \<Rightarrow> superblock \<Rightarrow> inode \<Rightarrow> (nat \<Rightarrow> byte list \<Rightarrow> (dir_write_error, 'a option) res)
     \<Rightarrow> nat list \<Rightarrow> (dir_write_error, 'a option) res" where
  "walk_blocks dev sb ino f [] = Ok None"
| "walk_blocks dev sb ino f (lblock # ls) =
     rbind (map_err DwExtent (lookup_block dev sb ino lblock)) (\<lambda>phys.
       case phys of
         None \<Rightarrow> walk_blocks dev sb ino f ls
       | Some phys_block \<Rightarrow>
           rbind (dw_read_block sb phys_block dev) (\<lambda>data.
           rbind (f phys_block data) (\<lambda>r.
             case r of Some x \<Rightarrow> Ok (Some x) | None \<Rightarrow> walk_blocks dev sb ino f ls)))"

definition dw_block_count :: "superblock \<Rightarrow> inode \<Rightarrow> (dir_write_error, nat) res" where
  "dw_block_count sb ino =
     rbind (rassert (sb_block_size sb \<noteq> 0)) (\<lambda>_.
     let block_count = div_ceil (ino_size ino) (sb_block_size sb) in
     if block_count > MAX_DIR_BLOCKS then Err DwSizeTooLarge else Ok block_count)"

definition walk_dir_blocks ::
  "disk \<Rightarrow> superblock \<Rightarrow> gdt \<Rightarrow> nat \<Rightarrow> (nat \<Rightarrow> byte list \<Rightarrow> (dir_write_error, 'a option) res)
     \<Rightarrow> (dir_write_error, 'a option) res" where
  "walk_dir_blocks dev sb gdt dir_inode_num f =
     rbind (map_err DwInode (read_inode dev sb gdt dir_inode_num)) (\<lambda>ino.
     rbind (dw_block_count sb ino) (\<lambda>block_count.
     walk_blocks dev sb ino f [0..<block_count]))"

definition dir_lookup_entry ::
  "disk \<Rightarrow> superblock \<Rightarrow> gdt \<Rightarrow> nat \<Rightarrow> byte list \<Rightarrow> (dir_write_error, (nat \<times> nat) option) res" where
  "dir_lookup_entry dev sb gdt dir_inode_num name =
     walk_dir_blocks dev sb gdt dir_inode_num (\<lambda>_ block. scan_lookup name block 0)"

definition dir_is_empty ::
  "disk \<Rightarrow> superblock \<Rightarrow> gdt \<Rightarrow> nat \<Rightarrow> (dir_write_error, bool) res" where
  "dir_is_empty dev sb gdt dir_inode_num =
     rbind (walk_dir_blocks dev sb gdt dir_inode_num (\<lambda>_ block. scan_non_dot block 0))
       (\<lambda>non_dot. Ok (non_dot = None))"

section \<open>Inserting\<close>

text \<open>The pinned version of a block; else the device's, which is read again when that failed.\<close>

definition insert_block_data :: "superblock \<Rightarrow> nat \<Rightarrow> fs \<Rightarrow> (dir_write_error, byte list) res" where
  "insert_block_data sb phys_block s =
     (let block_data = (case pinned (f_txn s) phys_block of
            Some d \<Rightarrow> d
          | None \<Rightarrow> (case dw_read_block sb phys_block (f_dev s) of Ok d \<Rightarrow> d | _ \<Rightarrow> [])) in
      if block_data = [] then dw_read_block sb phys_block (f_dev s) else Ok block_data)"

primrec insert_in_blocks ::
  "superblock \<Rightarrow> inode \<Rightarrow> byte list \<Rightarrow> nat \<Rightarrow> nat \<Rightarrow> nat list \<Rightarrow> (fs, dir_write_error, bool) st" where
  "insert_in_blocks sb ino name child ft [] = sreturn False"
| "insert_in_blocks sb ino name child ft (lblock # ls) =
     sbind (sread (\<lambda>s. map_err DwExtent (lookup_block (f_dev s) sb ino lblock))) (\<lambda>phys.
       case phys of
         None \<Rightarrow> insert_in_blocks sb ino name child ft ls
       | Some phys_block \<Rightarrow>
           sbind (sread (insert_block_data sb phys_block)) (\<lambda>block_data.
           sbind (lift_res (try_insert_in_block name child ft block_data)) (\<lambda>r.
             case r of
               Some block' \<Rightarrow> sbind (pin phys_block block') (\<lambda>_. sreturn True)
             | None \<Rightarrow> insert_in_blocks sb ino name child ft ls)))"

definition dir_insert_entry ::
  "superblock \<Rightarrow> gdt \<Rightarrow> nat \<Rightarrow> byte list \<Rightarrow> nat \<Rightarrow> nat \<Rightarrow> (fs, dir_write_error, unit) st" where
  "dir_insert_entry sb gdt dir_inode_num name child ft =
     sbind (sread (\<lambda>s. map_err DwInode
       (read_inode_with_txn (f_dev s) sb gdt (f_txn s) dir_inode_num))) (\<lambda>ino.
     sbind (lift_res (dw_block_count sb ino)) (\<lambda>block_count.
     sbind (insert_in_blocks sb ino name child ft [0..<block_count]) (\<lambda>inserted.
     if inserted then sreturn ()
     else
       sbind (sread (\<lambda>s.
         if block_count > 0 then
           rbind (map_err DwExtent (lookup_block (f_dev s) sb ino (block_count - 1)))
             (\<lambda>r. Ok (case r of Some p \<Rightarrow> p | None \<Rightarrow> 0))
         else Ok 0)) (\<lambda>hint.
       sbind (smap_err DwAlloc (alloc_blocks sb 1 hint)) (\<lambda>new_phys_block.
       sbind (lift_res (write_dirent 0 child name ft (sb_block_size sb mod 2 ^ 16)
                          (replicate (sb_block_size sb) 0))) (\<lambda>new_block.
       sbind (pin new_phys_block new_block) (\<lambda>_.
       sbind (smap_err DwExtentWrite (extent_append sb dir_inode_num new_phys_block 1)) (\<lambda>_.
       smap_err DwInodeWrite (update_inode sb gdt dir_inode_num
         (no_update\<lparr>upd_size := Some (wadd 64 (ino_size ino) (sb_block_size sb))\<rparr>))))))))))"

definition dir_add_entry ::
  "superblock \<Rightarrow> gdt \<Rightarrow> nat \<Rightarrow> byte list \<Rightarrow> nat \<Rightarrow> nat \<Rightarrow> (fs, dir_write_error, unit) st" where
  "dir_add_entry sb gdt dir_inode_num name child ft =
     (if length name > 255 then sfail DwNameTooLong
      else
      sbind (sread (\<lambda>s. walk_dir_blocks (f_dev s) sb gdt dir_inode_num
        (\<lambda>_ block. scan_exists name block 0))) (\<lambda>existing.
      if existing \<noteq> None then sfail (DwAlreadyExists name)
      else dir_insert_entry sb gdt dir_inode_num name child ft))"

section \<open>Removing\<close>

text \<open>\<open>unwrap_or(read_block(..)?)\<close> reads the device block even when a pinned version is used.\<close>

definition remove_block_data :: "superblock \<Rightarrow> nat \<Rightarrow> fs \<Rightarrow> (dir_write_error, byte list) res" where
  "remove_block_data sb phys_block s =
     rbind (dw_read_block sb phys_block (f_dev s)) (\<lambda>disk_data.
     Ok (case pinned (f_txn s) phys_block of Some d \<Rightarrow> d | None \<Rightarrow> disk_data))"

primrec remove_in_blocks ::
  "superblock \<Rightarrow> inode \<Rightarrow> byte list \<Rightarrow> nat list \<Rightarrow> (fs, dir_write_error, nat) st" where
  "remove_in_blocks sb ino name [] = sfail (DwNotFound name)"
| "remove_in_blocks sb ino name (lblock # ls) =
     sbind (sread (\<lambda>s. map_err DwExtent (lookup_block (f_dev s) sb ino lblock))) (\<lambda>phys.
       case phys of
         None \<Rightarrow> remove_in_blocks sb ino name ls
       | Some phys_block \<Rightarrow>
           sbind (sread (remove_block_data sb phys_block)) (\<lambda>block_data.
           sbind (lift_res (remove_from name block_data 0 None)) (\<lambda>r.
             case r of
               Some (inum, block') \<Rightarrow> sbind (pin phys_block block') (\<lambda>_. sreturn inum)
             | None \<Rightarrow> remove_in_blocks sb ino name ls)))"

definition dir_remove_entry ::
  "superblock \<Rightarrow> gdt \<Rightarrow> nat \<Rightarrow> byte list \<Rightarrow> (fs, dir_write_error, nat) st" where
  "dir_remove_entry sb gdt dir_inode_num name =
     sbind (sread (\<lambda>s. map_err DwInode
       (read_inode_with_txn (f_dev s) sb gdt (f_txn s) dir_inode_num))) (\<lambda>ino.
     sbind (lift_res (dw_block_count sb ino)) (\<lambda>block_count.
     remove_in_blocks sb ino name [0..<block_count]))"

section \<open>Renaming and linking\<close>

primrec dotdot_in_blocks ::
  "superblock \<Rightarrow> inode \<Rightarrow> nat \<Rightarrow> nat list \<Rightarrow> (fs, dir_write_error, unit) st" where
  "dotdot_in_blocks sb ino new_parent [] = sreturn ()"
| "dotdot_in_blocks sb ino new_parent (lblock # ls) =
     sbind (sread (\<lambda>s. map_err DwExtent (lookup_block (f_dev s) sb ino lblock))) (\<lambda>phys.
       case phys of
         None \<Rightarrow> dotdot_in_blocks sb ino new_parent ls
       | Some phys_block \<Rightarrow>
           sbind (sread (\<lambda>s. dw_read_block sb phys_block (f_dev s))) (\<lambda>block_data.
           sbind (lift_res (dotdot_from new_parent block_data 0)) (\<lambda>r.
             case r of
               Some block' \<Rightarrow> pin phys_block block'
             | None \<Rightarrow> dotdot_in_blocks sb ino new_parent ls)))"

definition update_dotdot ::
  "superblock \<Rightarrow> gdt \<Rightarrow> nat \<Rightarrow> nat \<Rightarrow> (fs, dir_write_error, unit) st" where
  "update_dotdot sb gdt dir_inode_num new_parent_inode =
     sbind (sread (\<lambda>s. map_err DwInode (read_inode (f_dev s) sb gdt dir_inode_num))) (\<lambda>ino.
     sbind (lift_res (rassert (sb_block_size sb \<noteq> 0))) (\<lambda>_.
     let block_count = div_ceil (ino_size ino) (sb_block_size sb) in
     dotdot_in_blocks sb ino new_parent_inode [0..<min block_count MAX_DIR_BLOCKS]))"

text \<open>Step 2 of \<open>dir_rename\<close>: what was at the destination.\<close>

definition rename_displace ::
  "superblock \<Rightarrow> gdt \<Rightarrow> nat \<Rightarrow> byte list \<Rightarrow> (fs, dir_write_error, unit) st" where
  "rename_displace sb gdt dst_dir_inode dst_name =
     sbind (sread (\<lambda>s. dir_lookup_entry (f_dev s) sb gdt dst_dir_inode dst_name)) (\<lambda>found.
     case found of
       None \<Rightarrow> sreturn ()
     | Some (dst_inode_num, _) \<Rightarrow>
         sbind (sread (\<lambda>s. map_err DwInode (read_inode (f_dev s) sb gdt dst_inode_num))) (\<lambda>dst_inode.
         if inode_file_type dst_inode = Directory then
           sbind (sread (\<lambda>s. dir_is_empty (f_dev s) sb gdt dst_inode_num)) (\<lambda>empty.
           if \<not> empty then sfail DwNotEmpty
           else sbind (dir_remove_entry sb gdt dst_dir_inode dst_name) (\<lambda>_. sreturn ()))
         else
           sbind (dir_remove_entry sb gdt dst_dir_inode dst_name) (\<lambda>_.
           if ino_links_count dst_inode > 1 then
             smap_err DwInodeWrite (update_inode sb gdt dst_inode_num
               (no_update\<lparr>upd_links_count := Some (ino_links_count dst_inode - 1)\<rparr>))
           else sreturn ())))"

definition dir_rename ::
  "superblock \<Rightarrow> gdt \<Rightarrow> nat \<Rightarrow> byte list \<Rightarrow> nat \<Rightarrow> byte list \<Rightarrow> (fs, dir_write_error, unit) st" where
  "dir_rename sb gdt src_dir_inode src_name dst_dir_inode dst_name =
     sbind (sread (\<lambda>s. rbind (dir_lookup_entry (f_dev s) sb gdt src_dir_inode src_name)
       (ok_or (DwNotFound src_name)))) (\<lambda>(src_inode_num, src_file_type).
     sbind (sread (\<lambda>s. map_err DwInode (read_inode (f_dev s) sb gdt src_inode_num))) (\<lambda>src_inode.
     let src_is_dir = (inode_file_type src_inode = Directory) in
     sbind (rename_displace sb gdt dst_dir_inode dst_name) (\<lambda>_.
     sbind (dir_insert_entry sb gdt dst_dir_inode dst_name src_inode_num src_file_type) (\<lambda>_.
     sbind (dir_remove_entry sb gdt src_dir_inode src_name) (\<lambda>_.
     if src_is_dir \<and> src_dir_inode \<noteq> dst_dir_inode
     then update_dotdot sb gdt src_inode_num dst_dir_inode
     else sreturn ())))))"

definition hard_link ::
  "superblock \<Rightarrow> gdt \<Rightarrow> nat \<Rightarrow> nat \<Rightarrow> byte list \<Rightarrow> (fs, dir_write_error, unit) st" where
  "hard_link sb gdt target_inode_num dst_dir_inode link_name =
     (if length link_name > 255 then sfail DwNameTooLong
      else
      sbind (sread (\<lambda>s. map_err DwInode (read_inode (f_dev s) sb gdt target_inode_num))) (\<lambda>target.
      if inode_file_type target = Directory then sfail DwHardLinkToDirectory
      else if ino_links_count target \<ge> 65000 then sfail DwTooManyLinks
      else
        let ft = (case inode_file_type target of
                    Regular \<Rightarrow> FT_REG_FILE | Symlink \<Rightarrow> FT_SYMLINK | _ \<Rightarrow> FT_UNKNOWN) in
        sbind (dir_add_entry sb gdt dst_dir_inode link_name target_inode_num ft) (\<lambda>_.
        smap_err DwInodeWrite (update_inode sb gdt target_inode_num
          (no_update\<lparr>upd_links_count := Some (ino_links_count target + 1)\<rparr>)))))"

section \<open>The invariant\<close>

lemma write_dirent_len: "write_dirent off i nm ft rl buf = Ok buf' \<Longrightarrow> length buf' = length buf"
  by (auto simp: write_dirent_def dirent_bytes_def split: if_splits)

lemma try_insert_from_len:
  "try_insert_from nm c ft block pos = Ok (Some block') \<Longrightarrow> length block' = length block"
proof (induction nm c ft block pos rule: try_insert_from.induct)
  case (1 nm c ft block pos)
  then show ?case
    by (subst (asm) (3) try_insert_from.simps)
       (auto simp: Let_def dest!: write_dirent_len split: if_split_asm)
qed

lemma remove_from_len:
  "remove_from nm block pos prev = Ok (Some (i, block')) \<Longrightarrow> length block' = length block"
proof (induction nm block pos prev rule: remove_from.induct)
  case (1 nm block pos prev)
  then show ?case
    by (subst (asm) (2) remove_from.simps)
       (auto simp: Let_def split: if_split_asm option.split_asm)
qed

lemma dotdot_from_len:
  "dotdot_from p block pos = Ok (Some block') \<Longrightarrow> length block' = length block"
proof (induction p block pos rule: dotdot_from.induct)
  case (1 p block pos)
  then show ?case
    by (subst (asm) (3) dotdot_from.simps) (auto simp: Let_def split: if_split_asm)
qed

lemma dw_read_block_len:
  "dw_read_block sb b d = Ok x \<Longrightarrow> wf_disk d \<Longrightarrow> sb_ok sb \<Longrightarrow> length x = sb_block_size sb"
  by (auto simp: dw_read_block_def intro: read_block_length)

lemma insert_block_data_len:
  "insert_block_data sb b s = Ok x \<Longrightarrow> fs_inv sb d0 n s \<Longrightarrow> sb_ok sb \<Longrightarrow> length x = sb_block_size sb"
  by (auto simp: insert_block_data_def Let_def fs_inv_pinned split: if_split_asm option.split_asm res.split_asm
      dest: dw_read_block_len[OF _ fs_inv_wf_disk])

lemma insert_in_blocks_inv [preserves_intros]:
  assumes "sb_ok sb"
  shows "preserves (fs_inv sb d0 n) (insert_in_blocks sb ino nm c ft ls)"
proof (induction ls)
  case (Cons l ls)
  show ?case
    unfolding insert_in_blocks.simps try_insert_in_block_def
    by (intro preserves_intros preserves_pin Cons.IH assms)
       (auto dest!: insert_block_data_len[OF _ _ assms] try_insert_from_len)
qed (simp only: insert_in_blocks.simps preserves_sreturn)

lemma dir_insert_entry_inv [preserves_intros]:
  assumes "sb_ok sb"
  shows "preserves (fs_inv sb d0 n) (dir_insert_entry sb gdt i nm c ft)"
  unfolding dir_insert_entry_def
  by (intro preserves_intros preserves_pin assms) (auto dest: write_dirent_len)

lemma dir_add_entry_inv [preserves_intros]:
  "sb_ok sb \<Longrightarrow> preserves (fs_inv sb d0 n) (dir_add_entry sb gdt i nm c ft)"
  unfolding dir_add_entry_def by (intro preserves_intros)

lemma remove_block_data_len:
  "remove_block_data sb b s = Ok x \<Longrightarrow> fs_inv sb d0 n s \<Longrightarrow> sb_ok sb \<Longrightarrow> length x = sb_block_size sb"
  using dw_read_block_len[OF _ fs_inv_wf_disk]
  by (auto simp: remove_block_data_def fs_inv_pinned split: option.splits)

lemma remove_in_blocks_inv [preserves_intros]:
  assumes "sb_ok sb"
  shows "preserves (fs_inv sb d0 n) (remove_in_blocks sb ino nm ls)"
proof (induction ls)
  case (Cons l ls)
  show ?case
    unfolding remove_in_blocks.simps
    by (intro preserves_intros preserves_pin Cons.IH assms)
       (auto dest!: remove_block_data_len[OF _ _ assms] remove_from_len)
qed (simp only: remove_in_blocks.simps preserves_sfail)

lemma dir_remove_entry_inv [preserves_intros]:
  "sb_ok sb \<Longrightarrow> preserves (fs_inv sb d0 n) (dir_remove_entry sb gdt i nm)"
  unfolding dir_remove_entry_def by (intro preserves_intros)

lemma dotdot_in_blocks_inv [preserves_intros]:
  assumes "sb_ok sb"
  shows "preserves (fs_inv sb d0 n) (dotdot_in_blocks sb ino p ls)"
proof (induction ls)
  case (Cons l ls)
  show ?case
    unfolding dotdot_in_blocks.simps
    by (intro preserves_intros preserves_pin Cons.IH assms)
       (auto dest!: dotdot_from_len dw_read_block_len[OF _ fs_inv_wf_disk assms])
qed (simp only: dotdot_in_blocks.simps preserves_sreturn)

lemma dir_rename_inv [preserves_intros]:
  "sb_ok sb \<Longrightarrow> preserves (fs_inv sb d0 n) (dir_rename sb gdt si sn di dn)"
  unfolding dir_rename_def rename_displace_def update_dotdot_def Let_def by (intro preserves_intros)

lemma hard_link_inv [preserves_intros]:
  "sb_ok sb \<Longrightarrow> preserves (fs_inv sb d0 n) (hard_link sb gdt t di nm)"
  unfolding hard_link_def Let_def by (intro preserves_intros)

end
