(* ===== verification/File_Write.thy ===== *)
theory File_Write
  imports Extent_Write
begin

text \<open>
  Writing file data (\<open>ext4-core/src/file_write.rs\<close>): the first phase finds or allocates a
  physical block for every logical block of the range, the second stores the data.
\<close>

definition EXTENT_BATCH_MAX :: nat where "EXTENT_BATCH_MAX = 32768"

datatype file_write_error =
    FwBlockDevice bd_error
  | FwExtent extent_error
  | FwExtentWrite extent_write_error
  | FwAlloc alloc_error

section \<open>Provisioning blocks\<close>

text \<open>
  The inner \<open>loop\<close> around \<open>alloc_blocks\<close>: the request is halved until it succeeds; a failed
  request for one block is the error. The result is the first block and the size granted.
  The code calls it with a positive request, so the test for one block ends the recursion.
\<close>

function alloc_shrinking ::
  "superblock \<Rightarrow> nat \<Rightarrow> nat \<Rightarrow> (fs, file_write_error, nat \<times> nat) st" where
  "alloc_shrinking sb hint want s =
     (case alloc_blocks sb want hint s of
        (Ok p, s') \<Rightarrow> (Ok (p, want), s')
      | (Err e, s') \<Rightarrow>
          if want \<le> 1 then (Err (FwAlloc e), s') else alloc_shrinking sb hint (want div 2) s'
      | (Panic, s') \<Rightarrow> (Panic, s')
      | (Diverge, s') \<Rightarrow> (Diverge, s'))"
  by pat_completeness auto
termination
  by (relation "measure (\<lambda>(sb, hint, want, s). want)") auto

declare alloc_shrinking.simps [simp del]

lemma alloc_shrinking_got:
  "alloc_shrinking sb hint want s = (Ok (p, got), s') \<Longrightarrow> 0 < want \<Longrightarrow> 0 < got \<and> got \<le> want"
proof (induction sb hint want s arbitrary: s' rule: alloc_shrinking.induct)
  case (1 sb hint want s)
  obtain r s1 where m: "alloc_blocks sb want hint s = (r, s1)" by (cases "alloc_blocks sb want hint s")
  note run = "1.prems"(1)[unfolded alloc_shrinking.simps[of sb hint want s] m]
  show ?case
  proof (cases r)
    case (Err e)
    show ?thesis
    proof (cases "want \<le> 1")
      case False
      then have "0 < got \<and> got \<le> want div 2"
        using "1.IH"[OF m[symmetric] Err False] run Err by simp
      then show ?thesis using div_le_dividend[of want 2] by linarith
    qed (use run Err in simp)
  qed (use run "1.prems"(2) in simp_all)
qed

text \<open>The part of the block map from \<open>at\<close> on gets \<open>got\<close> consecutive blocks.\<close>

definition map_run :: "nat \<Rightarrow> nat \<Rightarrow> nat \<Rightarrow> nat list \<Rightarrow> ('e, nat list) res" where
  "map_run at phys_start got phys_map =
     (if at + got \<le> length phys_map
      then Ok (take at phys_map @ map (\<lambda>i. wadd 64 phys_start i) [0..<got] @ drop (at + got) phys_map)
      else Panic)"

lemma sbind_cong [fundef_cong]:
  "m s = m' s' \<Longrightarrow> (\<And>x t. m' s' = (Ok x, t) \<Longrightarrow> f x t = g x t) \<Longrightarrow> sbind m f s = sbind m' g s'"
  by (auto simp: sbind_def split: prod.split res.split)

text \<open>
  The loop that fills a run of \<open>remaining\<close> unallocated blocks; \<open>at\<close> is the position of the
  cursor in the map.
\<close>

function fill_run ::
  "superblock \<Rightarrow> nat \<Rightarrow> nat \<Rightarrow> nat \<Rightarrow> nat \<Rightarrow> nat list \<Rightarrow> (fs, file_write_error, nat list) st" where
  "fill_run sb inode_num hint at remaining phys_map s =
     (if remaining = 0 then (Ok phys_map, s)
      else sbind (alloc_shrinking sb hint (min remaining EXTENT_BATCH_MAX)) (\<lambda>r.
        sbind (smap_err FwBlockDevice (on_dev (write_sectors (wmul 64 (fst r) (spb sb))
                 (replicate (snd r * sb_block_size sb) 0)))) (\<lambda>_.
        sbind (smap_err FwExtentWrite (extent_append sb inode_num (fst r) (snd r mod 2 ^ 16))) (\<lambda>_.
        sbind (lift_res (map_run at (fst r) (snd r) phys_map)) (\<lambda>phys_map' s'.
        fill_run sb inode_num hint (at + snd r) (remaining - snd r) phys_map' s')))) s)"
  by pat_completeness auto
termination
  by (relation "measure (\<lambda>(sb, i, h, c, remaining, m, s). remaining)")
     (auto dest!: alloc_shrinking_got simp: EXTENT_BATCH_MAX_def)

declare fill_run.simps [simp del]

text \<open>
  The walk to the end of an unallocated run: how many of the logical blocks from \<open>lblock\<close> on,
  at most \<open>k\<close>, have no mapping.
\<close>

primrec run_length ::
  "disk \<Rightarrow> superblock \<Rightarrow> inode \<Rightarrow> nat \<Rightarrow> nat \<Rightarrow> (file_write_error, nat) res" where
  "run_length dev sb ino lblock 0 = Ok 0"
| "run_length dev sb ino lblock (Suc k) =
     rbind (map_err FwExtent (lookup_block dev sb ino lblock)) (\<lambda>r.
       case r of
         Some _ \<Rightarrow> Ok 0
       | None \<Rightarrow> rbind (run_length dev sb ino (lblock + 1) k) (\<lambda>n. Ok (n + 1)))"

lemma run_length_pos:
  "run_length dev sb ino lblock k = Ok n \<Longrightarrow> lookup_block dev sb ino lblock = Ok None \<Longrightarrow>
   0 < k \<Longrightarrow> 0 < n"
  by (cases k) auto

text \<open>
  The outer loop of the first phase from \<open>lblock\<close> to \<open>last_lblock\<close>. A run is cut at
  \<open>EXTENT_BATCH_MAX\<close> blocks and at the end of the range.
\<close>

function provision ::
  "superblock \<Rightarrow> nat \<Rightarrow> inode \<Rightarrow> nat \<Rightarrow> nat \<Rightarrow> nat \<Rightarrow> nat list
     \<Rightarrow> (fs, file_write_error, nat list) st" where
  "provision sb inode_num ino first_lblock last_lblock lblock phys_map s =
     (if last_lblock < lblock then (Ok phys_map, s)
      else sbind (sread (\<lambda>s. map_err FwExtent (lookup_block (f_dev s) sb ino lblock))) (\<lambda>phys_opt s1.
        if phys_opt \<noteq> None then
          sbind (lift_res (map_run (lblock - first_lblock) (the phys_opt) 1 phys_map)) (\<lambda>phys_map' s2.
          provision sb inode_num ino first_lblock last_lblock (lblock + 1) phys_map' s2) s1
        else
          sbind (sread (\<lambda>s. run_length (f_dev s) sb ino lblock
                   (min (last_lblock + 1 - lblock) EXTENT_BATCH_MAX))) (\<lambda>run.
          sbind (fill_run sb inode_num (max (ino_size ino div sb_block_size sb) lblock)
                   (lblock - first_lblock) run phys_map) (\<lambda>phys_map' s3.
          provision sb inode_num ino first_lblock last_lblock (lblock + run) phys_map' s3)) s1) s)"
  by pat_completeness auto
termination
  by (relation "measure (\<lambda>(sb, i, ino, f, l, lblock, m, s). Suc l - lblock)")
     (auto dest: run_length_pos simp: EXTENT_BATCH_MAX_def)

declare provision.simps [simp del]

section \<open>Storing the data\<close>

text \<open>One turn of the second loop: the block number, where in the block, and which bytes.\<close>

definition write_one_block ::
  "superblock \<Rightarrow> nat \<Rightarrow> byte list \<Rightarrow> nat \<Rightarrow> nat list \<Rightarrow> nat \<Rightarrow> (fs, file_write_error, unit) st" where
  "write_one_block sb offset data first_lblock phys_map lb =
     (let block_size = sb_block_size sb;
          block_start = wmul 64 lb block_size;
          intra_off = (if lb = first_lblock then wsub 64 offset block_start else 0);
          data_start = (if lb = first_lblock then 0 else wsub 64 block_start offset);
          data_end = min (wsub 64 (wmul 64 (lb + 1) block_size) offset) (length data) in
      sbind (lift_res (rassert (data_start \<le> data_end))) (\<lambda>_.
      let slice = bytes_at data_start (data_end - data_start) data in
      sbind (lift_res (if lb - first_lblock < length phys_map
                       then Ok (phys_map ! (lb - first_lblock)) else Panic)) (\<lambda>phys.
      let start_sector = wmul 64 phys (spb sb) in
      sbind (if intra_off = 0 \<and> length slice = block_size
             then sreturn (replicate block_size 0)
             else sread (\<lambda>s. map_err FwBlockDevice (read_sectors (f_dev s) start_sector (spb sb))))
        (\<lambda>block_data.
      sbind (lift_res (patch_r intra_off slice block_data)) (\<lambda>block_data'.
      sbind (smap_err FwBlockDevice (on_dev (write_sectors start_sector block_data'))) (\<lambda>_.
      pin phys block_data'))))))"

text \<open>
  A range that wraps around \<open>u64\<close> asks for a map larger than the address space, which
  \<open>vec!\<close> refuses with a panic.
\<close>

definition write_file_data ::
  "superblock \<Rightarrow> nat \<Rightarrow> inode \<Rightarrow> nat \<Rightarrow> byte list \<Rightarrow> (fs, file_write_error, unit) st" where
  "write_file_data sb inode_num ino offset data =
     (if data = [] then sreturn ()
      else
      sbind (lift_res (rassert (sb_block_size sb \<noteq> 0))) (\<lambda>_.
      let block_size = sb_block_size sb;
          first_lblock = offset div block_size;
          last_lblock = wsub 64 (wadd 64 offset (length data)) 1 div block_size;
          total_lblocks = wadd 64 (wsub 64 last_lblock first_lblock) 1 in
      sbind (lift_res (rassert (total_lblocks * 8 < 2 ^ 63))) (\<lambda>_.
      sbind (provision sb inode_num ino first_lblock last_lblock first_lblock
               (replicate total_lblocks 0)) (\<lambda>phys_map.
      sfor [first_lblock..<last_lblock + 1] (write_one_block sb offset data first_lblock phys_map)))))"

section \<open>The invariant\<close>

lemma alloc_shrinking_inv [preserves_intros]:
  assumes "sb_ok sb"
  shows "preserves (fs_inv sb d0 n) (alloc_shrinking sb hint want)"
proof -
  have "fs_inv sb d0 n s \<Longrightarrow> fs_inv sb d0 n (snd (alloc_shrinking sb hint want s))" for s
    using assms
  proof (induction sb hint want s rule: alloc_shrinking.induct)
    case (1 sb hint want s)
    obtain r s1 where m: "alloc_blocks sb want hint s = (r, s1)" by (cases "alloc_blocks sb want hint s")
    have inv: "fs_inv sb d0 n s1"
      using preservesD[OF alloc_blocks_inv[OF "1.prems"(2)] "1.prems"(1) m] .
    show ?case
      using 1 m inv by (subst alloc_shrinking.simps) (cases r, auto)
  qed
  then show ?thesis by (rule preservesI)
qed

lemma fill_run_inv [preserves_intros]:
  assumes "sb_ok sb"
  shows "preserves (fs_inv sb d0 n) (fill_run sb i hint at rem m)"
proof (induction rem arbitrary: at m rule: less_induct)
  case (less rem)
  show ?case
  proof (cases "rem = 0")
    case False
    have e: "fill_run sb i hint at rem m =
      sbind (alloc_shrinking sb hint (min rem EXTENT_BATCH_MAX)) (\<lambda>r.
        sbind (smap_err FwBlockDevice (on_dev (write_sectors (wmul 64 (fst r) (spb sb))
                 (replicate (snd r * sb_block_size sb) 0)))) (\<lambda>_.
        sbind (smap_err FwExtentWrite (extent_append sb i (fst r) (snd r mod 2 ^ 16))) (\<lambda>_.
        sbind (lift_res (map_run at (fst r) (snd r) m)) (\<lambda>m'.
        fill_run sb i hint (at + snd r) (rem - snd r) m'))))"
      using False by (subst fill_run.simps[abs_def]) simp
    have smaller: "rem - snd r < rem"
      if "alloc_shrinking sb hint (min rem EXTENT_BATCH_MAX) s = (Ok r, s')" for r s s'
      using alloc_shrinking_got[of sb hint "min rem EXTENT_BATCH_MAX" s "fst r" "snd r" s'] that False
      by (simp add: EXTENT_BATCH_MAX_def)
    show ?thesis
      unfolding e by (intro preserves_intros less.IH smaller assms)
  qed (simp add: fill_run.simps[abs_def] preserves_def)
qed

lemma provision_inv [preserves_intros]:
  assumes "sb_ok sb"
  shows "preserves (fs_inv sb d0 n) (provision sb i ino f l lb m)"
proof (induction "Suc l - lb" arbitrary: lb m rule: less_induct)
  case less
  show ?case
  proof (cases "l < lb")
    case False
    have e: "provision sb i ino f l lb m =
      sbind (sread (\<lambda>s. map_err FwExtent (lookup_block (f_dev s) sb ino lb))) (\<lambda>p.
        if p \<noteq> None then
          sbind (lift_res (map_run (lb - f) (the p) 1 m)) (provision sb i ino f l (lb + 1))
        else
          sbind (sread (\<lambda>s. run_length (f_dev s) sb ino lb (min (l + 1 - lb) EXTENT_BATCH_MAX)))
          (\<lambda>run. sbind (fill_run sb i (max (ino_size ino div sb_block_size sb) lb) (lb - f) run m)
            (provision sb i ino f l (lb + run))))"
      using False by (subst provision.simps[abs_def]) (simp add: fun_eq_iff sbind_def split: res.split)
    show ?thesis
      unfolding e
    proof (rule preserves_sbind_Ok[OF preserves_sread])
      fix s p s'
      assume s: "fs_inv sb d0 n s'" and "sread (\<lambda>s. map_err FwExtent (lookup_block (f_dev s) sb ino lb)) s = (Ok p, s')"
      then have p: "lookup_block (f_dev s') sb ino lb = Ok p" by auto
      let ?run = "run_length (f_dev s') sb ino lb (min (l + 1 - lb) EXTENT_BATCH_MAX)"
      have next_block: "preserves (fs_inv sb d0 n)
          (sbind (lift_res (map_run (lb - f) (the p) 1 m)) (provision sb i ino f l (lb + 1)))"
        by (intro preserves_intros less.hyps) (use False in simp)
      have next_run: "preserves (fs_inv sb d0 n)
          (sbind (fill_run sb i (max (ino_size ino div sb_block_size sb) lb) (lb - f) k m)
            (provision sb i ino f l (lb + k)))" if "?run = Ok k" "p = None" for k
      proof -
        have "0 < k" using run_length_pos[OF that(1)] p that(2) False by (simp add: EXTENT_BATCH_MAX_def)
        then show ?thesis by (intro preserves_intros assms less.hyps) (use False in simp)
      qed
      show "fs_inv sb d0 n (snd ((if p \<noteq> None then
          sbind (lift_res (map_run (lb - f) (the p) 1 m)) (provision sb i ino f l (lb + 1))
        else sbind (sread (\<lambda>s. run_length (f_dev s) sb ino lb (min (l + 1 - lb) EXTENT_BATCH_MAX)))
          (\<lambda>run. sbind (fill_run sb i (max (ino_size ino div sb_block_size sb) lb) (lb - f) run m)
            (provision sb i ino f l (lb + run)))) s'))"
        using next_block next_run s
        by (cases p; cases ?run) (simp_all add: preserves_def del: sbind_sread, simp_all)
    qed
  qed (simp add: provision.simps[abs_def] preserves_def)
qed

lemma write_one_block_inv [preserves_intros]:
  assumes "sb_ok sb"
  shows "preserves (fs_inv sb d0 n) (write_one_block sb off data f m lb)"
  unfolding write_one_block_def Let_def
  by (intro preserves_intros preserves_pin assms)
     (auto split: if_split_asm intro: read_block_length[OF assms] fs_inv_wf_disk)

lemma write_file_data_inv [preserves_intros]:
  "sb_ok sb \<Longrightarrow> preserves (fs_inv sb d0 n) (write_file_data sb i ino off data)"
  unfolding write_file_data_def Let_def by (intro preserves_intros)

end
