(* ===== verification/Fs_Context.thy ===== *)
theory Fs_Context
  imports Mount Dir_Write File_Write File_Reader
begin

text \<open>
  The mounted file system of the driver (\<open>pengwin/src/fs_context.rs\<close>, and \<open>open_fs\<close> of
  \<open>main.rs\<close>): opening it in one of three modes, and the lookups every callback uses. The
  group descriptor table and the journal writer sit behind mutexes that are not
  reentrant; a thread that locks one it already holds waits for ever, which is
  \<open>Diverge\<close>. The device is the one the file system sees, whatever implements it.
\<close>

record ext4fs =
  x_dev :: disk
  x_sb :: superblock
  x_gdt :: gdt
  x_journal :: journal_writer
  x_read_only :: bool
  x_gdt_held :: bool
  x_journal_held :: bool

datatype fs_error =
    XSuperblock superblock_error
  | XGroupDesc group_desc_error
  | XInode inode_error
  | XDir dir_error
  | XFile file_error
  | XJournal journal_error
  | XNotFound "byte list"
  | XNotADirectory "byte list"
  | XDotDotNotAllowed
  | XSymlinkLoop
  | XDirtyJournalReadOnly

section \<open>Locks\<close>

text \<open>A guard is released when its scope is left, by a result, an error or a panic.\<close>

definition with_gdt :: "(ext4fs, 'e, 'a) st \<Rightarrow> (ext4fs, 'e, 'a) st" where
  "with_gdt m = (\<lambda>x.
     if x_gdt_held x then (Diverge, x)
     else case m (x\<lparr>x_gdt_held := True\<rparr>) of
            (Diverge, x') \<Rightarrow> (Diverge, x')
          | (r, x') \<Rightarrow> (r, x'\<lparr>x_gdt_held := False\<rparr>))"

definition with_journal :: "(ext4fs, 'e, 'a) st \<Rightarrow> (ext4fs, 'e, 'a) st" where
  "with_journal m = (\<lambda>x.
     if x_journal_held x then (Diverge, x)
     else case m (x\<lparr>x_journal_held := True\<rparr>) of
            (Diverge, x') \<Rightarrow> (Diverge, x')
          | (r, x') \<Rightarrow> (r, x'\<lparr>x_journal_held := False\<rparr>))"

section \<open>Opening\<close>

datatype open_mode = ReadOnly | ReadOnlyForce | ReadWrite

definition open_journal ::
  "nat \<Rightarrow> open_mode \<Rightarrow> superblock \<Rightarrow> gdt \<Rightarrow> (disk, fs_error, journal) st" where
  "open_journal fuel mode sb gdt = (case mode of
       ReadWrite \<Rightarrow> smap_err XJournal (check_and_recover fuel sb gdt)
     | ReadOnly \<Rightarrow>
         sread (\<lambda>dev. rbind (map_err XJournal (journal_load dev sb gdt)) (\<lambda>j.
           if jsb_errno (jn_sb j) \<noteq> 0 then Err (XJournal (JErrno (jsb_errno (jn_sb j))))
           else if needs_recovery (jn_sb j) then Err XDirtyJournalReadOnly
           else Ok j))
     | ReadOnlyForce \<Rightarrow> sread (\<lambda>dev. map_err XJournal (journal_load dev sb gdt)))"

definition open_inner :: "nat \<Rightarrow> open_mode \<Rightarrow> (disk, fs_error, ext4fs) st" where
  "open_inner fuel mode =
     sbind (sread (\<lambda>dev. map_err XSuperblock (parse dev))) (\<lambda>sb.
     sbind (sread (\<lambda>dev. map_err XGroupDesc (gdt_load dev sb))) (\<lambda>gdt.
     sbind (open_journal fuel mode sb gdt) (\<lambda>jn.
     sread (\<lambda>dev. Ok \<lparr>x_dev = dev, x_sb = sb, x_gdt = gdt, x_journal = journal_writer_new jn,
       x_read_only = (mode \<noteq> ReadWrite), x_gdt_held = False, x_journal_held = False\<rparr>))))"

definition open_fs :: "nat \<Rightarrow> bool \<Rightarrow> bool \<Rightarrow> (disk, fs_error, ext4fs) st" where
  "open_fs fuel rw force =
     (if rw then open_inner fuel ReadWrite
      else if force then open_inner fuel ReadOnlyForce
      else open_inner fuel ReadOnly)"

definition volume_serial :: "superblock \<Rightarrow> nat" where
  "volume_serial sb = le32 0 (sb_uuid sb)"

section \<open>Lookups\<close>

definition ctx_inode :: "nat \<Rightarrow> (ext4fs, fs_error, inode) st" where
  "ctx_inode num = with_gdt (sread (\<lambda>x. map_err XInode (read_inode (x_dev x) (x_sb x) (x_gdt x) num)))"

definition ctx_read_dir :: "inode \<Rightarrow> (ext4fs, fs_error, dir_entry list) st" where
  "ctx_read_dir dir_inode =
     with_gdt (sread (\<lambda>x. map_err XDir (read_dir (x_dev x) (x_sb x) (x_gdt x) dir_inode)))"

definition ctx_lookup :: "inode \<Rightarrow> byte list \<Rightarrow> (ext4fs, fs_error, nat option) st" where
  "ctx_lookup dir_inode name =
     with_gdt (sread (\<lambda>x. map_err XDir (dir_lookup (x_dev x) (x_sb x) (x_gdt x) dir_inode name)))"

text \<open>
  \<open>read_to_string\<close> reads to the end of the file and checks that the bytes are UTF-8; the
  reader starts at position zero, so it reads the whole file.
\<close>

definition read_to_string ::
  "disk \<Rightarrow> superblock \<Rightarrow> file_reader \<Rightarrow> (io_error, byte list) res" where
  "read_to_string dev sb fr =
     rbind (fst (file_read dev sb (ino_size (fr_inode fr)) fr)) (\<lambda>bs.
     if valid_utf8 bs then Ok bs else Err IoInvalidData)"

definition read_symlink_target ::
  "disk \<Rightarrow> superblock \<Rightarrow> inode \<Rightarrow> (fs_error, byte list) res" where
  "read_symlink_target dev sb ino = (case read_symlink ino of
       Ok s \<Rightarrow> Ok s
     | Err FileSlowSymlink \<Rightarrow>
         rbind (map_err XFile (file_reader_new dev sb ino)) (\<lambda>reader.
         map_err (\<lambda>_. XFile (FileBlockDevice BdIo)) (read_to_string dev sb reader))
     | Err e \<Rightarrow> Err (XFile e)
     | Panic \<Rightarrow> Panic
     | Diverge \<Rightarrow> Diverge)"

section \<open>Paths\<close>

definition SLASH :: byte where "SLASH = 0x2F"
definition BACKSLASH :: byte where "BACKSLASH = 0x5C"

definition to_slashes :: "byte list \<Rightarrow> byte list" where
  "to_slashes = map (\<lambda>b. if b = BACKSLASH then SLASH else b)"

fun split_slash :: "byte list \<Rightarrow> byte list list" where
  "split_slash [] = [[]]"
| "split_slash (b # bs) =
     (if b = SLASH then [] # split_slash bs
      else case split_slash bs of [] \<Rightarrow> [[b]] | c # cs \<Rightarrow> (b # c) # cs)"

definition path_components :: "byte list \<Rightarrow> byte list list" where
  "path_components path = filter (\<lambda>c. c \<noteq> []) (split_slash path)"

primrec resolve_from :: "byte list \<Rightarrow> byte list list \<Rightarrow> nat \<Rightarrow> (ext4fs, fs_error, nat) st" where
  "resolve_from path [] current = sreturn current"
| "resolve_from path (component # cs) current =
     (if component = DOTDOT then sfail XDotDotNotAllowed
      else if component = DOT then resolve_from path cs current
      else
        sbind (ctx_inode current) (\<lambda>ino.
        if \<not> is_dir ino then sfail (XNotADirectory component)
        else sbind (ctx_lookup ino component) (\<lambda>found.
          case found of
            Some n \<Rightarrow> resolve_from path cs n
          | None \<Rightarrow> sfail (XNotFound path))))"

definition MAX_SYMLINK_HOPS :: nat where "MAX_SYMLINK_HOPS = 40"

definition resolve_path_with_hops :: "byte list \<Rightarrow> nat \<Rightarrow> (ext4fs, fs_error, nat) st" where
  "resolve_path_with_hops path hops =
     (if hops > MAX_SYMLINK_HOPS then sfail XSymlinkLoop
      else resolve_from path (path_components path) 2)"

definition resolve_path :: "byte list \<Rightarrow> (ext4fs, fs_error, nat) st" where
  "resolve_path path = resolve_path_with_hops path 0"

text \<open>\<open>split_path\<close> of \<open>fsp_impl/create.rs\<close>: the parent and the last component.\<close>

definition trim_end_slash :: "byte list \<Rightarrow> byte list" where
  "trim_end_slash path = rev (dropWhile (\<lambda>b. b = SLASH) (rev path))"

definition rfind_slash :: "byte list \<Rightarrow> nat option" where
  "rfind_slash path =
     (let tail = takeWhile (\<lambda>b. b \<noteq> SLASH) (rev path) in
      if length tail = length path then None else Some (length path - length tail - 1))"

definition split_path :: "byte list \<Rightarrow> (byte list \<times> byte list) option" where
  "split_path path0 =
     (let path = trim_end_slash path0 in
      case rfind_slash path of
        None \<Rightarrow> None
      | Some pos \<Rightarrow>
          let parent = (if pos = 0 then [SLASH] else take pos path);
              name = drop (pos + 1) path in
          if name = [] then None else Some (parent, name))"

lemma with_gdt_Ok_iff:
  "with_gdt m x = (Ok a, y) \<longleftrightarrow>
     \<not> x_gdt_held x \<and> (\<exists>z. m (x\<lparr>x_gdt_held := True\<rparr>) = (Ok a, z) \<and> y = z\<lparr>x_gdt_held := False\<rparr>)"
  by (auto simp: with_gdt_def split: prod.splits res.splits)

lemma with_journal_Ok_iff:
  "with_journal m x = (Ok a, y) \<longleftrightarrow>
     \<not> x_journal_held x \<and> (\<exists>z. m (x\<lparr>x_journal_held := True\<rparr>) = (Ok a, z) \<and> y = z\<lparr>x_journal_held := False\<rparr>)"
  by (auto simp: with_journal_def split: prod.splits res.splits)

lemma ctx_inode_held: "x_gdt_held x \<Longrightarrow> ctx_inode i x = (Diverge, x)"
  by (simp add: ctx_inode_def with_gdt_def)

end
