(* ===== verification/Handlers.thy ===== *)
theory Handlers
  imports Fs_Context
begin

text \<open>
  The callbacks WinFsp calls (\<open>pengwin/src/fsp_impl\<close>). A file name is the UTF-8 string that
  \<open>to_string_lossy\<close> makes of the wide string WinFsp passes; the current time is an argument;
  out-parameters are part of the result. The directory buffer that WinFsp keeps per handle
  is not part of the handle here.
\<close>

section \<open>Statuses, handles and file information\<close>

datatype ntstatus =
    StMediaWriteProtected
  | StObjectPathNotFound
  | StObjectNameInvalid
  | StObjectNameNotFound
  | StObjectNameCollision
  | StNotADirectory
  | StNotAReparsePoint
  | StDirectoryNotEmpty
  | StInvalidDeviceRequest
  | StAccessDenied
  | StBufferTooSmall
  | StNameTooLong
  | StDiskFull
  | StInternalError
  | StHost nat

datatype file_handle =
    HFile (h_inode_num: nat) (h_inode: inode)
  | HDirectory (h_inode_num: nat) (h_inode: inode)
  | HSymlink (h_inode_num: nat) (h_inode: inode) (h_target: "byte list")

definition FILE_ATTRIBUTE_READONLY :: nat where "FILE_ATTRIBUTE_READONLY = 0x1"
definition FILE_ATTRIBUTE_DIRECTORY :: nat where "FILE_ATTRIBUTE_DIRECTORY = 0x10"
definition FILE_ATTRIBUTE_NORMAL :: nat where "FILE_ATTRIBUTE_NORMAL = 0x80"
definition FILE_ATTRIBUTE_REPARSE_POINT :: nat where "FILE_ATTRIBUTE_REPARSE_POINT = 0x400"
definition IO_REPARSE_TAG_SYMLINK :: nat where "IO_REPARSE_TAG_SYMLINK = 0xA000000C"

record file_info =
  fi_file_attributes :: nat
  fi_reparse_tag :: nat
  fi_allocation_size :: nat
  fi_file_size :: nat
  fi_creation_time :: nat
  fi_last_access_time :: nat
  fi_last_write_time :: nat
  fi_change_time :: nat
  fi_index_number :: nat
  fi_hard_links :: nat
  fi_ea_size :: nat

definition to_filetime :: "nat \<Rightarrow> nat" where
  "to_filetime unix_secs = (unix_secs + 11644473600) * 10000000"

definition from_filetime :: "nat \<Rightarrow> nat" where
  "from_filetime ft = (if ft = 0 then 0 else (ft div 10000000 - 11644473600) mod 2 ^ 32)"

text \<open>\<open>x & !FILE_ATTRIBUTE_NORMAL\<close> and \<open>(size + 4095) & !4095\<close>, on 32 and 64 bits.\<close>

definition without_normal :: "nat \<Rightarrow> nat" where
  "without_normal attrs = attrs AND (2 ^ 32 - 1 - FILE_ATTRIBUTE_NORMAL)"

definition file_info_from_inode :: "inode \<Rightarrow> nat \<Rightarrow> file_info" where
  "file_info_from_inode ino inode_num =
     (let attrs0 = (if ino_mode ino AND 0x80 = 0 then FILE_ATTRIBUTE_READONLY
                    else FILE_ATTRIBUTE_NORMAL);
          attrs1 = (if is_dir ino then without_normal attrs0 OR FILE_ATTRIBUTE_DIRECTORY else attrs0);
          attrs2 = (if is_symlink ino then attrs1 OR FILE_ATTRIBUTE_REPARSE_POINT else attrs1) in
      \<lparr>fi_file_attributes = attrs2,
       fi_reparse_tag = (if is_symlink ino then IO_REPARSE_TAG_SYMLINK else 0),
       fi_allocation_size = wadd 64 (ino_size ino) 4095 div 4096 * 4096,
       fi_file_size = ino_size ino,
       fi_creation_time = to_filetime (ino_ctime ino),
       fi_last_access_time = to_filetime (ino_atime ino),
       fi_last_write_time = to_filetime (ino_mtime ino),
       fi_change_time = to_filetime (ino_mtime ino),
       fi_index_number = inode_num,
       fi_hard_links = ino_links_count ino,
       fi_ea_size = 0\<rparr>)"

definition inode_to_file_attributes :: "inode \<Rightarrow> nat" where
  "inode_to_file_attributes ino =
     (let attrs0 = FILE_ATTRIBUTE_NORMAL;
          attrs1 = (if is_dir ino then without_normal attrs0 OR FILE_ATTRIBUTE_DIRECTORY else attrs0) in
      if is_symlink ino then without_normal attrs1 OR FILE_ATTRIBUTE_REPARSE_POINT else attrs1)"

section \<open>Running core operations\<close>

text \<open>Errors of a call that the callback answers with one status.\<close>

abbreviation status_of :: "ntstatus \<Rightarrow> ('s, 'e, 'a) st \<Rightarrow> ('s, ntstatus, 'a) st" where
  "status_of st m \<equiv> smap_err (\<lambda>_. st) m"

text \<open>An operation on device, table and transaction; an error drops the transaction.\<close>

definition on_fs :: "(fs, 'e, 'a) st \<Rightarrow> transaction \<Rightarrow> (ext4fs, 'e, 'a \<times> transaction) st" where
  "on_fs m txn = (\<lambda>x.
     case m \<lparr>f_dev = x_dev x, f_gdt = x_gdt x, f_txn = txn\<rparr> of
       (r, s) \<Rightarrow> (rbind r (\<lambda>a. Ok (a, f_txn s)), x\<lparr>x_dev := f_dev s, x_gdt := f_gdt s\<rparr>))"

definition ctx_begin :: "(ext4fs, 'e, transaction) st" where
  "ctx_begin = sread (\<lambda>x. Ok (begin_transaction (x_journal x)))"

definition ctx_commit :: "transaction \<Rightarrow> (ext4fs, journal_error, unit) st" where
  "ctx_commit txn = (\<lambda>x.
     case commit txn \<lparr>js_w = x_journal x, js_dev = x_dev x\<rparr> of
       (r, s) \<Rightarrow> (r, x\<lparr>x_journal := js_w s, x_dev := js_dev s\<rparr>))"

definition ctx_flush_pending :: "(ext4fs, journal_error, unit) st" where
  "ctx_flush_pending = (\<lambda>x.
     case flush_pending \<lparr>js_w = x_journal x, js_dev = x_dev x\<rparr> of
       (r, s) \<Rightarrow> (r, x\<lparr>x_journal := js_w s, x_dev := js_dev s\<rparr>))"

definition ctx_dev_flush :: "(ext4fs, bd_error, unit) st" where
  "ctx_dev_flush = (\<lambda>x. case dev_flush (x_dev x) of (r, d) \<Rightarrow> (r, x\<lparr>x_dev := d\<rparr>))"

definition ctx_sb :: "(ext4fs, 'e, superblock) st" where
  "ctx_sb = sread (\<lambda>x. Ok (x_sb x))"

definition guard_writable :: "(ext4fs, ntstatus, 'a) st \<Rightarrow> (ext4fs, ntstatus, 'a) st" where
  "guard_writable m = (\<lambda>x. if x_read_only x then (Err StMediaWriteProtected, x) else m x)"

section \<open>Creating\<close>

definition FILE_DIRECTORY_FILE :: nat where "FILE_DIRECTORY_FILE = 1"

text \<open>What happens to device, table and transaction while both locks are held.\<close>

definition create_txn ::
  "nat \<Rightarrow> superblock \<Rightarrow> bool \<Rightarrow> nat \<Rightarrow> byte list \<Rightarrow> nat \<Rightarrow> (fs, ntstatus, nat) st" where
  "create_txn now sb is_directory parent_inode_num name parent_links =
     (let mode = (if is_directory then 0x41ED else 0x81A4);
          ft = (if is_directory then FT_DIR else FT_REG_FILE) in
      sbind (lift_res (rassert (sb_inodes_per_group sb \<noteq> 0))) (\<lambda>_.
      let parent_group = wsub 32 parent_inode_num 1 div sb_inodes_per_group sb in
      sbind (status_of StDiskFull (alloc_inode sb is_directory parent_group)) (\<lambda>new_inode_num.
      sbind (status_of StInternalError (init_inode now sb new_inode_num mode 0 0)) (\<lambda>_.
      sbind (sread (\<lambda>s. Ok (f_gdt s))) (\<lambda>gdt_snap.
      sbind (status_of StInternalError
        (dir_add_entry sb gdt_snap parent_inode_num name new_inode_num ft)) (\<lambda>_.
      if is_directory then
        sbind (sread (\<lambda>s. Ok (f_gdt s))) (\<lambda>gdt_snap1.
        sbind (status_of StInternalError
          (dir_add_entry sb gdt_snap1 new_inode_num DOT new_inode_num FT_DIR)) (\<lambda>_.
        sbind (sread (\<lambda>s. Ok (f_gdt s))) (\<lambda>gdt_snap2.
        sbind (status_of StInternalError
          (dir_add_entry sb gdt_snap2 new_inode_num DOTDOT parent_inode_num FT_DIR)) (\<lambda>_.
        sbind (sread (\<lambda>s. Ok (f_gdt s))) (\<lambda>gdt.
        sbind (status_of StInternalError (update_inode sb gdt parent_inode_num
          (no_update\<lparr>upd_links_count := Some (wadd 16 parent_links 1), upd_ctime := Some now\<rparr>))) (\<lambda>_.
        sreturn new_inode_num))))))
      else sreturn new_inode_num))))))"

definition create_handle ::
  "nat \<Rightarrow> byte list \<Rightarrow> nat \<Rightarrow> (ext4fs, ntstatus, file_handle \<times> file_info) st" where
  "create_handle now file_name create_options =
     guard_writable (
       let path = to_slashes file_name in
       case split_path path of
         None \<Rightarrow> sfail StObjectNameInvalid
       | Some (parent_path, name) \<Rightarrow>
           let is_directory = (create_options AND FILE_DIRECTORY_FILE \<noteq> 0) in
           sbind (status_of StObjectPathNotFound (resolve_path parent_path)) (\<lambda>parent_inode_num.
           sbind (status_of StInternalError (ctx_inode parent_inode_num)) (\<lambda>parent_inode.
           if \<not> is_dir parent_inode then sfail StNotADirectory
           else
           sbind (status_of StInternalError (ctx_lookup parent_inode name)) (\<lambda>found.
           if found \<noteq> None then sfail StObjectNameCollision
           else
           sbind ctx_sb (\<lambda>sb.
           sbind (with_journal (
             sbind ctx_begin (\<lambda>txn.
             sbind (with_gdt (on_fs (create_txn now sb is_directory parent_inode_num name
                                       (ino_links_count parent_inode)) txn)) (\<lambda>(new_inode_num, txn').
             sbind (status_of StInternalError (ctx_commit txn')) (\<lambda>_.
             sreturn new_inode_num))))) (\<lambda>new_inode_num.
           sbind (status_of StInternalError (ctx_inode new_inode_num)) (\<lambda>new_inode.
           sreturn (if is_directory then HDirectory new_inode_num new_inode
                    else HFile new_inode_num new_inode,
                    file_info_from_inode new_inode new_inode_num))))))))"

section \<open>Opening and closing\<close>

definition S_IFBLK :: nat where "S_IFBLK = 0x6000"
definition S_IFCHR :: nat where "S_IFCHR = 0x2000"
definition S_IFIFO :: nat where "S_IFIFO = 0x1000"
definition S_IFSOCK :: nat where "S_IFSOCK = 0xC000"

definition open_handle :: "byte list \<Rightarrow> (ext4fs, ntstatus, file_handle \<times> file_info) st" where
  "open_handle file_name =
     (let path = to_slashes file_name in
      sbind (status_of StObjectNameNotFound (resolve_path path)) (\<lambda>inode_num.
      sbind (status_of StObjectNameNotFound (ctx_inode inode_num)) (\<lambda>ino.
      let itype = ino_mode ino AND S_IFMT;
          info = file_info_from_inode ino inode_num in
      if itype \<in> {S_IFCHR, S_IFBLK, S_IFIFO, S_IFSOCK} then sfail StAccessDenied
      else if is_symlink ino then
        sbind (sread (\<lambda>x. map_err (\<lambda>_. StObjectNameNotFound)
          (read_symlink_target (x_dev x) (x_sb x) ino))) (\<lambda>target.
        sreturn (HSymlink inode_num ino target, info))
      else if is_dir ino then sreturn (HDirectory inode_num ino, info)
      else sreturn (HFile inode_num ino, info))))"

definition file_info_for_handle :: "file_handle \<Rightarrow> (ext4fs, ntstatus, file_info) st" where
  "file_info_for_handle h =
     sbind (status_of StInternalError (ctx_inode (h_inode_num h))) (\<lambda>ino.
     sreturn (file_info_from_inode ino (h_inode_num h)))"

section \<open>Symlinks\<close>

definition MAX_SYMLINK_UTF16_LEN :: nat where "MAX_SYMLINK_UTF16_LEN = 16380"

text \<open>The code point of one well-formed UTF-8 character, and \<open>encode_utf16\<close>.\<close>

definition code_point :: "byte list \<Rightarrow> nat" where
  "code_point c = (let b = byte_or0 c in
     if length c = 1 then b 0
     else if length c = 2 then (b 0 - 0xC0) * 64 + (b 1 - 0x80)
     else if length c = 3 then (b 0 - 0xE0) * 4096 + (b 1 - 0x80) * 64 + (b 2 - 0x80)
     else (b 0 - 0xF0) * 262144 + (b 1 - 0x80) * 4096 + (b 2 - 0x80) * 64 + (b 3 - 0x80))"

definition utf16_of :: "nat \<Rightarrow> nat list" where
  "utf16_of cp = (if cp < 0x10000 then [cp]
     else [0xD800 + (cp - 0x10000) div 1024, 0xDC00 + (cp - 0x10000) mod 1024])"

function encode_utf16 :: "byte list \<Rightarrow> nat list" where
  "encode_utf16 s =
     (if s = [] then []
      else let k = fst (utf8_step s) in utf16_of (code_point (take k s)) @ encode_utf16 (drop k s))"
  by pat_completeness auto
termination
  by (relation "measure length") (use utf8_step_pos in \<open>auto simp: Let_def\<close>)

declare encode_utf16.simps [simp del]

definition encode_symlink_reparse_buffer :: "byte list \<Rightarrow> (ntstatus, byte list) res" where
  "encode_symlink_reparse_buffer unix_target =
     (let win_target = map (\<lambda>b. if b = SLASH then BACKSLASH else b) unix_target;
          units = encode_utf16 win_target in
      if length units > MAX_SYMLINK_UTF16_LEN then Err StNameTooLong
      else
        let target_bytes = concat (map (to_le 2) units);
            name_len = length target_bytes mod 2 ^ 16;
            path_buffer_len = 2 * length target_bytes;
            reparse_data_len = (12 + path_buffer_len) mod 2 ^ 16;
            flags = (if unix_target \<noteq> [] \<and> hd unix_target = SLASH then 0 else 1) in
        Ok (to_le 4 IO_REPARSE_TAG_SYMLINK @ to_le 2 reparse_data_len @ to_le 2 0 @
            to_le 2 0 @ to_le 2 name_len @ to_le 2 name_len @ to_le 2 name_len @
            to_le 4 flags @ target_bytes @ target_bytes))"

text \<open>The count of bytes and the buffer after the copy.\<close>

definition copy_reparse ::
  "byte list \<Rightarrow> byte list \<Rightarrow> (ntstatus, nat \<times> byte list) res" where
  "copy_reparse target buffer =
     rbind (encode_symlink_reparse_buffer target) (\<lambda>encoded.
     if length buffer < length encoded then Err StBufferTooSmall
     else Ok (length encoded, patch 0 encoded buffer))"

definition get_reparse_point_data ::
  "file_handle \<Rightarrow> byte list \<Rightarrow> (ntstatus, nat \<times> byte list) res" where
  "get_reparse_point_data h buffer = (case h of
       HSymlink _ _ target \<Rightarrow> copy_reparse target buffer
     | _ \<Rightarrow> Err StNotAReparsePoint)"

definition get_reparse_point_data_by_name ::
  "byte list \<Rightarrow> byte list \<Rightarrow> (ext4fs, ntstatus, nat \<times> byte list) st" where
  "get_reparse_point_data_by_name file_name buffer =
     (let path = to_slashes file_name in
      sbind (status_of StNotAReparsePoint (resolve_path path)) (\<lambda>inode_num.
      sbind (status_of StNotAReparsePoint (ctx_inode inode_num)) (\<lambda>ino.
      if \<not> is_symlink ino then sfail StNotAReparsePoint
      else
        sbind (sread (\<lambda>x. map_err (\<lambda>_. StNotAReparsePoint)
          (read_symlink_target (x_dev x) (x_sb x) ino))) (\<lambda>target.
        lift_res (copy_reparse target buffer)))))"

section \<open>Reading\<close>

definition read_file_data :: "file_handle \<Rightarrow> nat \<Rightarrow> nat \<Rightarrow> (ext4fs, ntstatus, byte list) st" where
  "read_file_data h buf_len offset = (case h of
       HFile inode_num _ \<Rightarrow>
         sbind (status_of StInternalError (ctx_inode inode_num)) (\<lambda>ino.
         sread (\<lambda>x.
           rbind (map_err (\<lambda>_. StInternalError) (file_reader_new (x_dev x) (x_sb x) ino)) (\<lambda>reader.
           rbind (map_err (\<lambda>_. StInternalError)
             (run_local (file_seek (SeekStart offset)) reader)) (\<lambda>(_, reader').
           map_err (\<lambda>_. StInternalError) (fst (file_read (x_dev x) (x_sb x) buf_len reader'))))))
     | _ \<Rightarrow> sfail StInvalidDeviceRequest)"

text \<open>
  The directory buffer of a handle is kept by the host: the calls on it are a parameter, what
  \<open>acquire\<close> answers (\<open>Some\<close> a status it fails with), which names \<open>set_name\<close> accepts, and which
  entries \<open>write\<close> takes.
\<close>

record dir_buffer =
  db_acquire :: "ntstatus option"
  db_set_name :: "byte list \<Rightarrow> bool"
  db_write :: "byte list \<times> file_info \<Rightarrow> bool"

text \<open>
  The entries put into the directory buffer on a call without a marker; a call with a marker
  only reads the buffer.
\<close>

primrec list_entries ::
  "dir_buffer \<Rightarrow> dir_entry list \<Rightarrow> (ext4fs, ntstatus, (byte list \<times> file_info) list) st"
where
  "list_entries buf [] = sreturn []"
| "list_entries buf (e # es) =
     (if de_name e = DOT \<or> de_name e = DOTDOT then list_entries buf es
      else
        sbind (status_of StInternalError (ctx_inode (de_inode_num e))) (\<lambda>ino.
        sbind (lift_res (rcheck (db_set_name buf (de_name e)) StInternalError)) (\<lambda>_.
        let dir_info = (de_name e, file_info_from_inode ino (de_inode_num e)) in
        sbind (lift_res (rcheck (db_write buf dir_info) StInternalError)) (\<lambda>_.
        sbind (list_entries buf es) (\<lambda>rest.
        sreturn (dir_info # rest))))))"

definition read_dir_entries ::
  "dir_buffer \<Rightarrow> file_handle \<Rightarrow> bool
     \<Rightarrow> (ext4fs, ntstatus, (byte list \<times> file_info) list) st" where
  "read_dir_entries buf h marker_is_none = (case h of
       HDirectory _ ino \<Rightarrow>
         (case db_acquire buf of
            Some st \<Rightarrow> sfail st
          | None \<Rightarrow>
              if marker_is_none then
                sbind (status_of StInternalError (ctx_read_dir ino)) (list_entries buf)
              else sreturn [])
     | _ \<Rightarrow> sfail StNotADirectory)"

section \<open>Writing\<close>

text \<open>Sums of the counters over the groups, in \<open>u64\<close> and \<open>u32\<close>.\<close>

definition total_free_blocks :: "gdt \<Rightarrow> nat" where
  "total_free_blocks gdt = foldl (\<lambda>acc d. wadd 64 acc (gd_free_blocks_count d)) 0 gdt"

definition total_free_inodes :: "gdt \<Rightarrow> nat" where
  "total_free_inodes gdt = foldl (\<lambda>acc d. wadd 32 acc (gd_free_inodes_count d)) 0 gdt"

definition sync_superblock :: "nat \<Rightarrow> superblock \<Rightarrow> (fs, ntstatus, unit) st" where
  "sync_superblock now sb =
     sbind (sread (\<lambda>s. Ok (total_free_blocks (f_gdt s), total_free_inodes (f_gdt s))))
       (\<lambda>(free_blocks, free_inodes).
     status_of StInternalError (update_superblock sb free_blocks free_inodes now))"

definition set_size_update :: "nat \<Rightarrow> nat \<Rightarrow> inode_update" where
  "set_size_update now new_size =
     no_update\<lparr>upd_size := Some new_size, upd_mtime := Some now, upd_ctime := Some now\<rparr>"

definition write_txn ::
  "nat \<Rightarrow> superblock \<Rightarrow> nat \<Rightarrow> inode \<Rightarrow> nat \<Rightarrow> byte list \<Rightarrow> nat \<Rightarrow> (fs, ntstatus, unit) st" where
  "write_txn now sb inode_num ino write_offset buffer new_size =
     sbind (status_of StDiskFull (write_file_data sb inode_num ino write_offset buffer)) (\<lambda>_.
     sbind (sread (\<lambda>s. Ok (f_gdt s))) (\<lambda>gdt.
     sbind (status_of StInternalError
       (update_inode sb gdt inode_num (set_size_update now new_size))) (\<lambda>_.
     sync_superblock now sb)))"

text \<open>The scope of the journal lock; \<open>Some\<close> is an early return.\<close>

definition write_locked ::
  "nat \<Rightarrow> nat \<Rightarrow> byte list \<Rightarrow> nat \<Rightarrow> bool \<Rightarrow> bool
     \<Rightarrow> (ext4fs, ntstatus, (nat \<times> file_info) option) st" where
  "write_locked now inode_num buffer offset write_to_eof constrained_io =
     sbind ctx_begin (\<lambda>txn.
     sbind (status_of StInternalError (ctx_inode inode_num)) (\<lambda>ino.
     let write_offset = (if write_to_eof then ino_size ino else offset);
         write_end = wadd 64 write_offset (length buffer) in
     if constrained_io \<and> write_end > ino_size ino
     then sreturn (Some (0, file_info_from_inode ino inode_num))
     else
       let new_size = max write_end (ino_size ino) in
       sbind ctx_sb (\<lambda>sb.
       sbind (with_gdt (on_fs (write_txn now sb inode_num ino write_offset buffer new_size) txn))
         (\<lambda>(_, txn').
       sbind (status_of StInternalError (ctx_commit txn')) (\<lambda>_.
       sreturn None)))))"

definition write_file_data_cb ::
  "nat \<Rightarrow> file_handle \<Rightarrow> byte list \<Rightarrow> nat \<Rightarrow> bool \<Rightarrow> bool \<Rightarrow> (ext4fs, ntstatus, nat \<times> file_info) st"
where
  "write_file_data_cb now h buffer offset write_to_eof constrained_io =
     guard_writable (case h of
       HFile inode_num _ \<Rightarrow>
         if buffer = [] then
           sbind (status_of StInternalError (ctx_inode inode_num)) (\<lambda>ino.
           sreturn (0, file_info_from_inode ino inode_num))
         else
           sbind (with_journal (write_locked now inode_num buffer offset write_to_eof constrained_io))
             (\<lambda>early.
           case early of
             Some r \<Rightarrow> sreturn r
           | None \<Rightarrow>
               sbind (status_of StInternalError (ctx_inode inode_num)) (\<lambda>updated.
               sreturn (length buffer mod 2 ^ 32, file_info_from_inode updated inode_num)))
     | _ \<Rightarrow> sfail StInvalidDeviceRequest)"

definition set_size_txn ::
  "nat \<Rightarrow> superblock \<Rightarrow> nat \<Rightarrow> inode \<Rightarrow> nat \<Rightarrow> (fs, ntstatus, unit) st" where
  "set_size_txn now sb inode_num ino new_size =
     sbind (if new_size < ino_size ino then
              sbind (lift_res (rassert (sb_block_size sb \<noteq> 0))) (\<lambda>_.
              let keep_from = div_ceil new_size (sb_block_size sb) mod 2 ^ 32 in
              status_of StInternalError (extent_truncate sb inode_num keep_from))
            else sreturn ()) (\<lambda>_.
     sbind (sread (\<lambda>s. Ok (f_gdt s))) (\<lambda>gdt.
     sbind (status_of StInternalError
       (update_inode sb gdt inode_num (set_size_update now new_size))) (\<lambda>_.
     sync_superblock now sb)))"

definition set_file_size_cb ::
  "nat \<Rightarrow> file_handle \<Rightarrow> nat \<Rightarrow> (ext4fs, ntstatus, file_info) st" where
  "set_file_size_cb now h new_size =
     guard_writable (case h of
       HFile inode_num _ \<Rightarrow>
         sbind (status_of StInternalError (ctx_inode inode_num)) (\<lambda>ino.
         sbind ctx_sb (\<lambda>sb.
         sbind (with_journal (
           sbind ctx_begin (\<lambda>txn.
           sbind (with_gdt (on_fs (set_size_txn now sb inode_num ino new_size) txn)) (\<lambda>(_, txn').
           status_of StInternalError (ctx_commit txn'))))) (\<lambda>_.
         sbind (status_of StInternalError (ctx_inode inode_num)) (\<lambda>updated.
         sreturn (file_info_from_inode updated inode_num)))))
     | _ \<Rightarrow> sfail StInvalidDeviceRequest)"

definition basic_info_update :: "nat \<Rightarrow> nat \<Rightarrow> nat \<Rightarrow> inode_update" where
  "basic_info_update last_access_time last_write_time last_change_time =
     no_update\<lparr>
       upd_atime := (if last_access_time \<noteq> 0 then Some (from_filetime last_access_time) else None),
       upd_mtime := (if last_write_time \<noteq> 0 then Some (from_filetime last_write_time) else None),
       upd_ctime := (if last_change_time \<noteq> 0 then Some (from_filetime last_change_time) else None)\<rparr>"

definition set_basic_info_cb ::
  "file_handle \<Rightarrow> nat \<Rightarrow> nat \<Rightarrow> nat \<Rightarrow> (ext4fs, ntstatus, file_info) st" where
  "set_basic_info_cb h last_access_time last_write_time last_change_time =
     guard_writable (
       let inode_num = h_inode_num h;
           upd = basic_info_update last_access_time last_write_time last_change_time in
       sbind ctx_sb (\<lambda>sb.
       sbind (with_journal (
         sbind ctx_begin (\<lambda>txn.
         sbind (with_gdt (on_fs (sbind (sread (\<lambda>s. Ok (f_gdt s))) (\<lambda>gdt.
           status_of StInternalError (update_inode sb gdt inode_num upd))) txn)) (\<lambda>(_, txn').
         status_of StInternalError (ctx_commit txn'))))) (\<lambda>_.
       sbind (status_of StInternalError (ctx_inode inode_num)) (\<lambda>updated.
       sreturn (file_info_from_inode updated inode_num)))))"

section \<open>Deleting\<close>

definition FSP_CLEANUP_DELETE :: nat where "FSP_CLEANUP_DELETE = 1"

definition set_delete_cb :: "file_handle \<Rightarrow> bool \<Rightarrow> (ext4fs, ntstatus, unit) st" where
  "set_delete_cb h delete_file =
     (if \<not> delete_file then sreturn ()
      else guard_writable (
        if is_dir (h_inode h) then
          sbind (status_of StInternalError (ctx_read_dir (h_inode h))) (\<lambda>entries.
          if filter (\<lambda>e. de_name e \<noteq> DOT \<and> de_name e \<noteq> DOTDOT) entries \<noteq> []
          then sfail StDirectoryNotEmpty else sreturn ())
        else sreturn ()))"

definition delete_txn ::
  "nat \<Rightarrow> superblock \<Rightarrow> nat \<Rightarrow> byte list \<Rightarrow> nat \<Rightarrow> inode \<Rightarrow> (fs, ntstatus, unit) st" where
  "delete_txn now sb parent_inode_num name inode_num ino =
     sbind (sread (\<lambda>s. Ok (f_gdt s))) (\<lambda>gdt.
     sbind (status_of StInternalError (dir_remove_entry sb gdt parent_inode_num name)) (\<lambda>_.
     let new_links = ino_links_count ino - 1 in
     if new_links = 0 then
       sbind (status_of StInternalError (extent_truncate sb inode_num 0)) (\<lambda>_.
       status_of StInternalError (free_inode now sb inode_num))
     else
       status_of StInternalError (update_inode sb gdt inode_num
         (no_update\<lparr>upd_links_count := Some new_links, upd_ctime := Some now\<rparr>))))"

text \<open>For a directory the parent is looked up through \<open>self.inode\<close>, inside the table's lock.\<close>

definition delete_parent_links ::
  "nat \<Rightarrow> superblock \<Rightarrow> nat \<Rightarrow> transaction \<Rightarrow> (ext4fs, ntstatus, transaction) st" where
  "delete_parent_links now sb parent_inode_num txn =
     sbind (status_of StInternalError (ctx_inode parent_inode_num)) (\<lambda>parent_inode.
     sbind (on_fs (sbind (sread (\<lambda>s. Ok (f_gdt s))) (\<lambda>gdt.
       status_of StInternalError (update_inode sb gdt parent_inode_num
         (no_update\<lparr>upd_links_count := Some (ino_links_count parent_inode - 1),
                    upd_ctime := Some now\<rparr>)))) txn) (\<lambda>(_, txn').
     sreturn txn'))"

definition do_delete ::
  "nat \<Rightarrow> byte list \<Rightarrow> byte list \<Rightarrow> file_handle \<Rightarrow> (ext4fs, ntstatus, unit) st" where
  "do_delete now parent_path name h =
     sbind (status_of StInternalError (resolve_path parent_path)) (\<lambda>parent_inode_num.
     let inode_num = h_inode_num h;
         is_directory = (case h of HDirectory _ _ \<Rightarrow> True | _ \<Rightarrow> False) in
     sbind (status_of StInternalError (ctx_inode inode_num)) (\<lambda>ino.
     sbind ctx_sb (\<lambda>sb.
     with_journal (
       sbind ctx_begin (\<lambda>txn.
       sbind (with_gdt (
         sbind (on_fs (delete_txn now sb parent_inode_num name inode_num ino) txn) (\<lambda>(_, txn').
         if is_directory then delete_parent_links now sb parent_inode_num txn'
         else sreturn txn'))) (\<lambda>txn''.
       status_of StInternalError (ctx_commit txn'')))))))"

text \<open>Cleanup reports nothing: an error of \<open>do_delete\<close> is logged.\<close>

definition cleanup_handle_write ::
  "nat \<Rightarrow> file_handle \<Rightarrow> byte list option \<Rightarrow> nat \<Rightarrow> (ext4fs, ntstatus, unit) st" where
  "cleanup_handle_write now h file_name flags = (\<lambda>x.
     if flags AND FSP_CLEANUP_DELETE = 0 then (Ok (), x)
     else if x_read_only x then (Ok (), x)
     else case file_name of
       None \<Rightarrow> (Ok (), x)
     | Some n \<Rightarrow> (case split_path (to_slashes n) of
           None \<Rightarrow> (Ok (), x)
         | Some (parent_path, name) \<Rightarrow>
             (case do_delete now parent_path name h x of
                (Err e, x') \<Rightarrow> (Ok (), x')
              | (r, x') \<Rightarrow> (r, x'))))"

section \<open>Renaming\<close>

definition rename_handle ::
  "byte list \<Rightarrow> byte list \<Rightarrow> bool \<Rightarrow> (ext4fs, ntstatus, unit) st" where
  "rename_handle file_name new_file_name replace_if_exists =
     guard_writable (case (split_path (to_slashes file_name), split_path (to_slashes new_file_name)) of
       (Some (src_parent, src_name), Some (dst_parent, dst_name)) \<Rightarrow>
         sbind (status_of StObjectPathNotFound (resolve_path dst_parent)) (\<lambda>dst_parent_inode_num.
         sbind (status_of StInternalError (ctx_inode dst_parent_inode_num)) (\<lambda>dst_parent_inode.
         sbind (status_of StInternalError (ctx_lookup dst_parent_inode dst_name)) (\<lambda>found.
         if found \<noteq> None \<and> \<not> replace_if_exists then sfail StObjectNameCollision
         else
         sbind (status_of StObjectPathNotFound (resolve_path src_parent)) (\<lambda>src_parent_inode_num.
         sbind ctx_sb (\<lambda>sb.
         with_journal (
           sbind ctx_begin (\<lambda>txn.
           sbind (with_gdt (on_fs (sbind (sread (\<lambda>s. Ok (f_gdt s))) (\<lambda>gdt_snap.
             status_of StInternalError (dir_rename sb gdt_snap src_parent_inode_num src_name
               dst_parent_inode_num dst_name))) txn)) (\<lambda>(_, txn').
           status_of StInternalError (ctx_commit txn')))))))))
     | _ \<Rightarrow> sfail StObjectNameInvalid)"

section \<open>Flushing, volume and security information\<close>

definition flush_cb :: "file_handle option \<Rightarrow> (ext4fs, ntstatus, file_info option) st" where
  "flush_cb h = (\<lambda>x.
     sbind (if \<not> x_read_only x then
              sbind (with_journal (status_of StInternalError ctx_flush_pending)) (\<lambda>_.
              status_of StInternalError ctx_dev_flush)
            else sreturn ()) (\<lambda>_.
     sreturn (map_option (\<lambda>h. file_info_from_inode (h_inode h) (h_inode_num h)) h)) x)"

record volume_info =
  vi_total_size :: nat
  vi_free_size :: nat
  vi_volume_label :: "byte list"

definition fill_volume_info :: "(ext4fs, ntstatus, volume_info) st" where
  "fill_volume_info = with_gdt (sread (\<lambda>x.
     let block_size = sb_block_size (x_sb x) in
     Ok \<lparr>vi_total_size = wmul 64 (sb_blocks_count (x_sb x)) block_size,
         vi_free_size = wmul 64 (total_free_blocks (x_gdt x)) block_size,
         vi_volume_label = sb_volume_name (x_sb x)\<rparr>))"

definition EVERYONE_SID :: "byte list" where
  "EVERYONE_SID = [1, 1, 0, 0, 0, 0, 0, 1, 0, 0, 0, 0]"

definition FIXED_SD :: "byte list" where
  "FIXED_SD =
     [0x01, 0x00, 0x04, 0x80] @ to_le 4 0x30 @ to_le 4 0x3C @ to_le 4 0 @ to_le 4 0x14 @
     [0x02, 0x00, 0x1C, 0x00] @ [0x01, 0x00, 0x00, 0x00] @
     [0x00, 0x00, 0x14, 0x00] @ [0xFF, 0x01, 0x1F, 0x00] @ EVERYONE_SID @
     EVERYONE_SID @ EVERYONE_SID"

record file_security =
  fs_reparse :: bool
  fs_sd_size :: nat
  fs_attributes :: nat
  fs_buffer :: "byte list option"

definition security_by_name ::
  "byte list \<Rightarrow> byte list option \<Rightarrow> (ext4fs, ntstatus, file_security) st" where
  "security_by_name file_name security_descriptor =
     (let path = to_slashes file_name in
      sbind (status_of StObjectNameNotFound (resolve_path path)) (\<lambda>inode_num.
      sbind (status_of StObjectNameNotFound (ctx_inode inode_num)) (\<lambda>ino.
      sreturn \<lparr>fs_reparse = is_symlink ino,
        fs_sd_size = length FIXED_SD,
        fs_attributes = inode_to_file_attributes ino,
        fs_buffer = map_option (\<lambda>buf.
          patch 0 (take (min (length buf) (length FIXED_SD)) FIXED_SD) buf) security_descriptor\<rparr>)))"

section \<open>The invariant of a mounted file system\<close>

lemma sync_superblock_inv [preserves_intros]:
  "sb_ok sb \<Longrightarrow> preserves (fs_inv sb d0 n) (sync_superblock now sb)"
  unfolding sync_superblock_def by (intro preserves_intros)

lemma create_txn_inv [preserves_intros]:
  "sb_ok sb \<Longrightarrow> preserves (fs_inv sb d0 n) (create_txn now sb is_d p nm l)"
  unfolding create_txn_def Let_def by (intro preserves_intros)

lemma write_txn_inv [preserves_intros]:
  "sb_ok sb \<Longrightarrow> preserves (fs_inv sb d0 n) (write_txn now sb i ino off buf sz)"
  unfolding write_txn_def by (intro preserves_intros)

lemma set_size_txn_inv [preserves_intros]:
  "sb_ok sb \<Longrightarrow> preserves (fs_inv sb d0 n) (set_size_txn now sb i ino sz)"
  unfolding set_size_txn_def Let_def by (intro preserves_intros)

lemma delete_txn_inv [preserves_intros]:
  "sb_ok sb \<Longrightarrow> preserves (fs_inv sb d0 n) (delete_txn now sb p nm i ino)"
  unfolding delete_txn_def Let_def by (intro preserves_intros)

text \<open>The invariant without the pending transaction, and what holds of that one.\<close>

definition ctx_inv :: "superblock \<Rightarrow> disk \<Rightarrow> nat \<Rightarrow> ext4fs \<Rightarrow> bool" where
  "ctx_inv sb d0 n x \<longleftrightarrow> x_sb x = sb \<and> unflushed d0 (x_dev x) \<and> gdt_ok (x_gdt x) \<and>
     length (x_gdt x) = n"

definition txn_inv :: "superblock \<Rightarrow> transaction \<Rightarrow> bool" where
  "txn_inv sb txn \<longleftrightarrow> txn_ok txn \<and> pins_sized (sb_block_size sb) txn"

lemma txn_inv_begin: "ctx_begin x = (Ok txn, x') \<Longrightarrow> txn_inv sb txn"
  using txn_ok_new[of "jw_next_sequence (x_journal x)"]
  by (auto simp: ctx_begin_def begin_transaction_def txn_inv_def pins_sized_def txn_new_def)

lemma on_fs_inv:
  assumes "txn_inv sb txn" and "\<And>d0 n. preserves (fs_inv sb d0 n) m"
  shows "preserves (ctx_inv sb d0 n) (on_fs m txn)"
    and "ctx_inv sb d0 n x \<Longrightarrow> on_fs m txn x = (Ok (a, txn'), x') \<Longrightarrow> txn_inv sb txn'"
proof -
  have step: "fs_inv sb d0 n (snd (m \<lparr>f_dev = x_dev x, f_gdt = x_gdt x, f_txn = txn\<rparr>))"
    if "ctx_inv sb d0 n x" for x
    using assms(2)[of d0 n] that assms(1)
    by (simp add: preserves_def ctx_inv_def txn_inv_def fs_inv_def)
  show "preserves (ctx_inv sb d0 n) (on_fs m txn)"
  proof (rule preservesI)
    fix x assume "ctx_inv sb d0 n x"
    with step[OF this] show "ctx_inv sb d0 n (snd (on_fs m txn x))"
      by (auto simp: on_fs_def ctx_inv_def fs_inv_def split: prod.split)
  qed
  show "txn_inv sb txn'" if "ctx_inv sb d0 n x" "on_fs m txn x = (Ok (a, txn'), x')"
    using step[OF that(1)] that(2)
    by (auto simp: on_fs_def fs_inv_def txn_inv_def split: prod.splits)
qed

lemma unflushed_js_write [preserves_intros]:
  "preserves (\<lambda>s. unflushed d0 (js_dev s)) (js_on_dev (write_sectors start data))"
  using unflushed_write_sectors
  by (auto simp: preserves_def js_on_dev_def split: prod.split) (metis snd_conv)

lemma unflushed_js_modify [preserves_intros]:
  "(\<And>s. js_dev (f s) = js_dev s) \<Longrightarrow> preserves (\<lambda>s. unflushed d0 (js_dev s)) (smodify f)"
  by (simp add: preserves_def)

lemma write_to_journal_unflushed [preserves_intros]:
  "preserves (\<lambda>s. unflushed d0 (js_dev s)) (write_to_journal data)"
  unfolding write_to_journal_def by (intro preserves_intros) simp

lemma js_on_smap_err: "js_on_dev (smap_err g m) = smap_err g (js_on_dev m)"
  by (simp add: fun_eq_iff js_on_dev_def smap_err_def split: prod.split)

lemma commit_unflushed [preserves_intros]:
  "preserves (\<lambda>s. unflushed d0 (js_dev s)) (commit txn)"
  unfolding commit_def log_transaction_def store_in_place_def write_fs_block_def js_on_smap_err
    write_descriptor_block_def write_data_block_def write_commit_block_def write_revoke_block_def
  by (intro preserves_intros) simp

lemma ctx_commit_inv [preserves_intros]: "preserves (ctx_inv sb d0 n) (ctx_commit txn)"
proof (rule preservesI)
  fix x assume x: "ctx_inv sb d0 n x"
  obtain r s where c: "commit txn \<lparr>js_w = x_journal x, js_dev = x_dev x\<rparr> = (r, s)"
    by (cases "commit txn \<lparr>js_w = x_journal x, js_dev = x_dev x\<rparr>")
  have "unflushed d0 (js_dev s)"
    by (rule preservesD[OF commit_unflushed _ c]) (use x in \<open>simp add: ctx_inv_def\<close>)
  then show "ctx_inv sb d0 n (snd (ctx_commit txn x))"
    using x c by (simp add: ctx_commit_def ctx_inv_def)
qed

lemma with_locks_inv [preserves_intros]:
  assumes "preserves (ctx_inv sb d0 n) m"
  shows "preserves (ctx_inv sb d0 n) (with_gdt m)"
    and "preserves (ctx_inv sb d0 n) (with_journal m)"
proof -
  have g: "ctx_inv sb d0 n (x\<lparr>x_gdt_held := b\<rparr>) = ctx_inv sb d0 n x"
    and j: "ctx_inv sb d0 n (x\<lparr>x_journal_held := b\<rparr>) = ctx_inv sb d0 n x" for x b
    by (simp_all add: ctx_inv_def)
  show "preserves (ctx_inv sb d0 n) (with_gdt m)"
    using assms by (auto simp: preserves_def with_gdt_def g split: prod.split res.split) (metis g snd_conv)+
  show "preserves (ctx_inv sb d0 n) (with_journal m)"
    using assms by (auto simp: preserves_def with_journal_def j split: prod.split res.split) (metis j snd_conv)+
qed


lemma preserves_ctx_sb:
  "preserves (ctx_inv sb d0 n) (f sb) \<Longrightarrow> preserves (ctx_inv sb d0 n) (sbind ctx_sb f)"
  by (simp add: preserves_def ctx_sb_def ctx_inv_def)

lemma ctx_reads_inv [preserves_intros]:
  "preserves (ctx_inv sb d0 n) ctx_begin"
  "preserves (ctx_inv sb d0 n) (ctx_inode i)"
  "preserves (ctx_inv sb d0 n) (ctx_lookup ino nm)"
  "preserves (ctx_inv sb d0 n) (ctx_read_dir ino)"
  unfolding ctx_begin_def ctx_inode_def ctx_lookup_def ctx_read_dir_def
  by (intro preserves_intros)+

lemma resolve_from_inv: "preserves (ctx_inv sb d0 n) (resolve_from path cs i)"
proof (induction cs arbitrary: i)
  case (Cons c cs)
  show ?case unfolding resolve_from.simps by (intro preserves_intros Cons.IH)
qed (simp only: resolve_from.simps preserves_sreturn)

lemma resolve_path_inv [preserves_intros]: "preserves (ctx_inv sb d0 n) (resolve_path path)"
  unfolding resolve_path_def resolve_path_with_hops_def
  by (intro preserves_intros resolve_from_inv)

lemma guard_writable_inv [preserves_intros]:
  "preserves P m \<Longrightarrow> preserves P (guard_writable m)"
  by (simp add: preserves_def guard_writable_def)

lemma preserves_case_handle [preserves_intros]:
  "(\<And>i ino. preserves P (f i ino)) \<Longrightarrow> (\<And>i ino. preserves P (g i ino)) \<Longrightarrow>
   (\<And>i ino t. preserves P (k i ino t)) \<Longrightarrow>
   preserves P (case h of HFile i ino \<Rightarrow> f i ino | HDirectory i ino \<Rightarrow> g i ino | HSymlink i ino t \<Rightarrow> k i ino t)"
  by (simp split: file_handle.split)

lemma create_handle_inv:
  assumes "sb_ok sb"
  shows "preserves (ctx_inv sb d0 n) (create_handle now nm opts)"
  unfolding create_handle_def Let_def
  by (intro preserves_ctx_sb preserves_intros on_fs_inv(1) assms) (erule txn_inv_begin)

lemma write_file_data_cb_inv:
  assumes "sb_ok sb"
  shows "preserves (ctx_inv sb d0 n) (write_file_data_cb now h buf off eof con)"
  unfolding write_file_data_cb_def write_locked_def Let_def
  by (intro preserves_ctx_sb preserves_intros on_fs_inv(1) assms) (erule txn_inv_begin)

lemma set_file_size_cb_inv:
  assumes "sb_ok sb"
  shows "preserves (ctx_inv sb d0 n) (set_file_size_cb now h sz)"
  unfolding set_file_size_cb_def
  by (intro preserves_ctx_sb preserves_intros on_fs_inv(1) assms) (erule txn_inv_begin)

lemma set_basic_info_cb_inv:
  assumes "sb_ok sb"
  shows "preserves (ctx_inv sb d0 n) (set_basic_info_cb h a w c)"
  unfolding set_basic_info_cb_def Let_def
  by (intro preserves_ctx_sb preserves_intros on_fs_inv(1) assms) (erule txn_inv_begin)

lemma rename_handle_inv:
  assumes "sb_ok sb"
  shows "preserves (ctx_inv sb d0 n) (rename_handle a b r)"
  unfolding rename_handle_def
  by (intro preserves_ctx_sb preserves_intros on_fs_inv(1) assms) (erule txn_inv_begin)

lemma do_delete_inv:
  assumes "sb_ok sb"
  shows "preserves (ctx_inv sb d0 n) (do_delete now p nm h)"
proof -
  have parent: "preserves (ctx_inv sb d0 n) (delete_parent_links now sb pi txn)"
    if "txn_inv sb txn" for pi txn
    unfolding delete_parent_links_def by (intro preserves_intros on_fs_inv(1) assms that)
  show ?thesis
    unfolding do_delete_def Let_def
    by (intro preserves_ctx_sb preserves_intros on_fs_inv(1) parent assms)
       (auto dest: txn_inv_begin on_fs_inv(2)[OF txn_inv_begin delete_txn_inv[OF assms], rotated])
qed

lemma cleanup_handle_write_inv:
  assumes "sb_ok sb"
  shows "preserves (ctx_inv sb d0 n) (cleanup_handle_write now h nm fl)"
  using do_delete_inv[OF assms, of d0 n now _ _ h]
  by (auto simp: preserves_def cleanup_handle_write_def split: option.split prod.split res.split)
     (metis snd_conv)+

end
