(* ===== verification/Dispatch.thy ===== *)
theory Dispatch
  imports Handlers
begin

text \<open>
  The callbacks as WinFsp sees them (\<open>pengwin/src/fsp_context_impl.rs\<close>): one request goes to
  one handler, and requests follow each other in any order. What a request does to the
  state is captured by relations that are kept through the handlers' steps, the locale
  \<open>step_relation\<close>.
\<close>

section \<open>Requests\<close>

datatype request =
    ReqGetVolumeInfo
  | ReqGetSecurityByName "byte list" "byte list option"
  | ReqCreate "byte list" nat
  | ReqOpen "byte list"
  | ReqCleanup file_handle "byte list option" nat
  | ReqClose file_handle
  | ReqGetFileInfo file_handle
  | ReqReadDirectory file_handle bool
  | ReqRead file_handle nat nat
  | ReqWrite file_handle "byte list" nat bool bool
  | ReqSetFileSize file_handle nat
  | ReqSetBasicInfo file_handle nat nat nat
  | ReqSetDelete file_handle bool
  | ReqRename "byte list" "byte list" bool
  | ReqFlush "file_handle option"
  | ReqGetReparsePoint file_handle "byte list"
  | ReqGetReparsePointByName "byte list" "byte list"

datatype response =
    RspUnit
  | RspVolume volume_info
  | RspSecurity file_security
  | RspHandle file_handle file_info
  | RspInfo file_info
  | RspFlush "file_info option"
  | RspEntries "(byte list \<times> file_info) list"
  | RspBytes "byte list"
  | RspWritten nat file_info
  | RspReparse nat "byte list"

definition smap :: "('a \<Rightarrow> 'b) \<Rightarrow> ('s, 'e, 'a) st \<Rightarrow> ('s, 'e, 'b) st" where
  "smap f m = sbind m (\<lambda>x. sreturn (f x))"

fun dispatch ::
  "dir_buffer \<Rightarrow> nat \<Rightarrow> request \<Rightarrow> (ext4fs, ntstatus, response) st" where
  "dispatch db now ReqGetVolumeInfo = smap RspVolume fill_volume_info"
| "dispatch db now (ReqGetSecurityByName nm buf) = smap RspSecurity (security_by_name nm buf)"
| "dispatch db now (ReqCreate nm opts) =
     smap (\<lambda>r. RspHandle (fst r) (snd r)) (create_handle now nm opts)"
| "dispatch db now (ReqOpen nm) = smap (\<lambda>r. RspHandle (fst r) (snd r)) (open_handle nm)"
| "dispatch db now (ReqCleanup h nm flags) =
     smap (\<lambda>_. RspUnit) (cleanup_handle_write now h nm flags)"
| "dispatch db now (ReqClose h) = sreturn RspUnit"
| "dispatch db now (ReqGetFileInfo h) = smap RspInfo (file_info_for_handle h)"
| "dispatch db now (ReqReadDirectory h marker_is_none) =
     smap RspEntries (read_dir_entries db h marker_is_none)"
| "dispatch db now (ReqRead h len off) = smap RspBytes (read_file_data h len off)"
| "dispatch db now (ReqWrite h buf off eof constrained) =
     smap (\<lambda>r. RspWritten (fst r) (snd r)) (write_file_data_cb now h buf off eof constrained)"
| "dispatch db now (ReqSetFileSize h sz) = smap RspInfo (set_file_size_cb now h sz)"
| "dispatch db now (ReqSetBasicInfo h atime mtime ctime) =
     smap RspInfo (set_basic_info_cb h atime mtime ctime)"
| "dispatch db now (ReqSetDelete h del) = smap (\<lambda>_. RspUnit) (set_delete_cb h del)"
| "dispatch db now (ReqRename nm new_nm repl) =
     smap (\<lambda>_. RspUnit) (rename_handle nm new_nm repl)"
| "dispatch db now (ReqFlush h) = smap RspFlush (flush_cb h)"
| "dispatch db now (ReqGetReparsePoint h buf) =
     smap (\<lambda>r. RspReparse (fst r) (snd r)) (lift_res (get_reparse_point_data h buf))"
| "dispatch db now (ReqGetReparsePointByName nm buf) =
     smap (\<lambda>r. RspReparse (fst r) (snd r)) (get_reparse_point_data_by_name nm buf)"

text \<open>
  One request that returns, with whatever result; a request that hangs takes no step.
\<close>

inductive serve_step :: "ext4fs \<Rightarrow> ext4fs \<Rightarrow> bool" where
  serve: "dispatch db now req x = (r, x') \<Longrightarrow> r \<noteq> Diverge \<Longrightarrow> serve_step x x'"

inductive_cases serve_stepE: "serve_step x x'"

abbreviation served :: "ext4fs \<Rightarrow> ext4fs \<Rightarrow> bool" where
  "served \<equiv> serve_step\<^sup>*\<^sup>*"

text \<open>The same without flush requests.\<close>

fun is_flush :: "request \<Rightarrow> bool" where
  "is_flush (ReqFlush _) = True"
| "is_flush _ = False"

inductive quiet_step :: "ext4fs \<Rightarrow> ext4fs \<Rightarrow> bool" where
  quiet: "dispatch db now req x = (r, x') \<Longrightarrow> r \<noteq> Diverge \<Longrightarrow> \<not> is_flush req \<Longrightarrow> quiet_step x x'"

inductive_cases quiet_stepE: "quiet_step x x'"

abbreviation served_unflushed :: "ext4fs \<Rightarrow> ext4fs \<Rightarrow> bool" where
  "served_unflushed \<equiv> quiet_step\<^sup>*\<^sup>*"

section \<open>Relations kept by the handlers\<close>

definition moves :: "('s \<Rightarrow> 's \<Rightarrow> bool) \<Rightarrow> ('s, 'e, 'a) st \<Rightarrow> bool" where
  "moves R m \<longleftrightarrow> (\<forall>x r x'. m x = (r, x') \<longrightarrow> r \<noteq> Diverge \<longrightarrow> R x x')"

lemma movesD: "moves R m \<Longrightarrow> m x = (r, x') \<Longrightarrow> r \<noteq> Diverge \<Longrightarrow> R x x'"
  by (simp add: moves_def)

locale step_relation =
  fixes R :: "ext4fs \<Rightarrow> ext4fs \<Rightarrow> bool"
  assumes refl: "R x x"
    and trans: "R x y \<Longrightarrow> R y z \<Longrightarrow> R x z"
    and gdt_lock: "\<not> x_gdt_held x \<Longrightarrow> R (x\<lparr>x_gdt_held := True\<rparr>) y \<Longrightarrow> R x (y\<lparr>x_gdt_held := False\<rparr>)"
    and journal_lock:
      "\<not> x_journal_held x \<Longrightarrow> R (x\<lparr>x_journal_held := True\<rparr>) y \<Longrightarrow> R x (y\<lparr>x_journal_held := False\<rparr>)"
begin

lemma moves_sreturn: "moves R (sreturn a)"
  by (simp add: moves_def refl)

lemma moves_sfail: "moves R (sfail e)"
  by (simp add: moves_def refl)

lemma moves_sread: "moves R (sread f)"
  by (simp add: moves_def refl)

lemma moves_sbind: "moves R m \<Longrightarrow> (\<And>a. moves R (f a)) \<Longrightarrow> moves R (sbind m f)"
  by (auto simp: moves_def sbind_def refl split: prod.splits res.splits) (metis trans res.distinct(5))

lemma moves_smap_err: "moves R m \<Longrightarrow> moves R (smap_err g m)"
  unfolding moves_def smap_err_def
  by (auto split: prod.splits) (metis map_err.simps(4))

lemma moves_smap: "moves R m \<Longrightarrow> moves R (smap f m)"
  unfolding smap_def by (intro moves_sbind moves_sreturn)

lemma moves_if: "moves R m \<Longrightarrow> moves R m' \<Longrightarrow> moves R (if b then m else m')"
  by simp

lemma moves_let: "(\<And>a. moves R (f a)) \<Longrightarrow> moves R (let a = z in f a)"
  by simp

lemma moves_case_option:
  "moves R m \<Longrightarrow> (\<And>a. moves R (f a)) \<Longrightarrow> moves R (case z of None \<Rightarrow> m | Some a \<Rightarrow> f a)"
  by (simp split: option.split)

lemma moves_case_prod:
  "(\<And>a b. moves R (f a b)) \<Longrightarrow> moves R (case z of (a, b) \<Rightarrow> f a b)"
  by (simp split: prod.split)

lemma moves_case_handle:
  "(\<And>i ino. moves R (f i ino)) \<Longrightarrow> (\<And>i ino. moves R (g i ino)) \<Longrightarrow>
   (\<And>i ino t. moves R (k i ino t)) \<Longrightarrow>
   moves R (case h of HFile i ino \<Rightarrow> f i ino | HDirectory i ino \<Rightarrow> g i ino | HSymlink i ino t \<Rightarrow> k i ino t)"
  by (simp split: file_handle.split)

lemma moves_with_gdt: "moves R m \<Longrightarrow> moves R (with_gdt m)"
  by (auto simp: moves_def with_gdt_def split: prod.splits res.splits if_splits) (metis gdt_lock res.distinct)+

lemma moves_with_journal: "moves R m \<Longrightarrow> moves R (with_journal m)"
  by (auto simp: moves_def with_journal_def split: prod.splits res.splits if_splits)
     (metis journal_lock res.distinct)+

lemma moves_guard: "moves R m \<Longrightarrow> moves R (guard_writable m)"
  by (auto simp: moves_def guard_writable_def refl)

lemmas moves_rules = moves_sreturn moves_sfail moves_sread moves_sbind moves_smap_err moves_smap
  moves_if moves_let moves_case_option moves_case_prod moves_case_handle moves_with_gdt
  moves_with_journal moves_guard

lemma moves_lookups:
  "moves R (ctx_inode i)" "moves R (ctx_lookup ino nm)" "moves R (ctx_read_dir ino)"
  "moves R ctx_begin" "moves R ctx_sb"
  unfolding ctx_inode_def ctx_lookup_def ctx_read_dir_def ctx_begin_def ctx_sb_def
  by (intro moves_rules)+

lemma moves_resolve_from: "moves R (resolve_from path cs i)"
proof (induction cs arbitrary: i)
  case (Cons c cs)
  show ?case unfolding resolve_from.simps by (intro moves_rules moves_lookups Cons.IH)
qed (simp only: resolve_from.simps moves_sreturn)

lemma moves_resolve_path: "moves R (resolve_path path)"
  unfolding resolve_path_def resolve_path_with_hops_def by (intro moves_rules moves_resolve_from)

lemma moves_list_entries: "moves R (list_entries db es)"
proof (induction es)
  case (Cons e es)
  show ?case unfolding list_entries.simps by (intro moves_rules moves_lookups Cons.IH)
qed (simp only: list_entries.simps moves_sreturn)

text \<open>The handlers that only read.\<close>

lemma moves_readers:
  "moves R fill_volume_info" "moves R (security_by_name nm buf)" "moves R (open_handle nm)"
  "moves R (file_info_for_handle h)" "moves R (read_dir_entries db h b)"
  "moves R (read_file_data h len off)" "moves R (get_reparse_point_data_by_name nm b')"
  "moves R (set_delete_cb h del)"
  unfolding fill_volume_info_def security_by_name_def open_handle_def file_info_for_handle_def
    read_dir_entries_def read_file_data_def get_reparse_point_data_by_name_def set_delete_cb_def
  by (intro moves_rules moves_lookups moves_resolve_path moves_list_entries)+

end

text \<open>Two relations: nothing changes, and both locks and the mode are as before.\<close>

interpretation unchanged: step_relation "\<lambda>x y. y = x"
  by unfold_locales auto

definition same_locks :: "ext4fs \<Rightarrow> ext4fs \<Rightarrow> bool" where
  "same_locks x y \<longleftrightarrow> x_gdt_held y = x_gdt_held x \<and> x_journal_held y = x_journal_held x \<and> x_read_only y = x_read_only x"

interpretation locks: step_relation same_locks
  by unfold_locales (auto simp: same_locks_def)

section \<open>Locks are released\<close>

lemma moves_on_fs: "moves same_locks (on_fs m txn)"
  by (auto simp: moves_def on_fs_def same_locks_def split: prod.splits)

lemma moves_ctx_commit: "moves same_locks (ctx_commit txn)"
  by (auto simp: moves_def ctx_commit_def same_locks_def split: prod.splits)

lemma moves_flush: "moves same_locks (flush_cb h)"
  unfolding flush_cb_def ctx_flush_pending_def ctx_dev_flush_def flush_pending_def
  by (auto simp: moves_def same_locks_def sbind_def smap_err_def with_journal_def split: prod.splits res.splits if_splits)

lemmas locks_rules = locks.moves_rules locks.moves_lookups locks.moves_resolve_path moves_on_fs
  moves_ctx_commit

lemma moves_do_delete: "moves same_locks (do_delete now p nm h)"
  unfolding do_delete_def delete_parent_links_def by (intro locks_rules)

lemma moves_cleanup: "moves same_locks (cleanup_handle_write now h nm fl)"
  using moves_do_delete[of now _ _ h]
  by (auto simp: moves_def cleanup_handle_write_def same_locks_def
      split: option.splits prod.splits res.splits if_splits)

lemma moves_writers:
  "moves same_locks (create_handle now nm opts)"
  "moves same_locks (write_file_data_cb now h buf off eof con)"
  "moves same_locks (set_file_size_cb now h sz)"
  "moves same_locks (set_basic_info_cb h a w c)"
  "moves same_locks (rename_handle nm nm' repl)"
  unfolding create_handle_def write_file_data_cb_def write_locked_def set_file_size_cb_def
    set_basic_info_cb_def rename_handle_def
  by (intro locks_rules)+

lemma moves_dispatch: "moves same_locks (dispatch db now req)"
  by (cases req; simp only: dispatch.simps;
      intro locks_rules locks.moves_readers moves_writers moves_cleanup moves_flush)

section \<open>What a mounted file system keeps\<close>

lemma read_only_handlers:
  assumes "x_read_only x"
  shows "create_handle now nm opts x = (Err StMediaWriteProtected, x)"
    and "write_file_data_cb now h buf off eof con x = (Err StMediaWriteProtected, x)"
    and "set_file_size_cb now h sz x = (Err StMediaWriteProtected, x)"
    and "set_basic_info_cb h a w c x = (Err StMediaWriteProtected, x)"
    and "rename_handle nm nm' repl x = (Err StMediaWriteProtected, x)"
    and "cleanup_handle_write now h fn fl x = (Ok (), x)"
    and "flush_cb ho x = (Ok (map_option (\<lambda>h. file_info_from_inode (h_inode h) (h_inode_num h)) ho), x)"
  using assms
  by (simp_all add: create_handle_def write_file_data_cb_def set_file_size_cb_def
      set_basic_info_cb_def rename_handle_def cleanup_handle_write_def flush_cb_def guard_writable_def
      sbind_def)

lemma smap_Err: "m x = (Err e, y) \<Longrightarrow> smap f m x = (Err e, y)"
  by (simp add: smap_def sbind_def)

lemma smap_Ok: "m x = (Ok a, y) \<Longrightarrow> smap f m x = (Ok (f a), y)"
  by (simp add: smap_def sbind_def)

fun is_write_request :: "request \<Rightarrow> bool" where
  "is_write_request (ReqCreate _ _) = True"
| "is_write_request (ReqWrite _ _ _ _ _) = True"
| "is_write_request (ReqSetFileSize _ _) = True"
| "is_write_request (ReqSetBasicInfo _ _ _ _) = True"
| "is_write_request (ReqRename _ _ _) = True"
| "is_write_request (ReqSetDelete _ del) = del"
| "is_write_request _ = False"

lemma read_only_refuses:
  assumes "x_read_only x" and "is_write_request req"
  shows "dispatch db now req x = (Err StMediaWriteProtected, x)"
  using assms
  by (cases req)
     (simp_all add: read_only_handlers smap_Err set_delete_cb_def guard_writable_def)

lemma read_only_dispatch:
  assumes ro: "x_read_only x" and d: "dispatch db now req x = (r, x')" and "r \<noteq> Diverge"
  shows "x' = x"
proof (cases "is_write_request req")
  case True
  then show ?thesis using read_only_refuses[OF ro] d by simp
next
  case False
  have pure: "x' = x" if "moves (\<lambda>x y. y = x) (dispatch db now req)"
    using movesD[OF that d] assms(3) by simp
  show ?thesis
  proof (cases req)
    case (ReqCleanup h fn fl)
    then show ?thesis using d ro by (simp add: read_only_handlers smap_Ok)
  next
    case (ReqFlush ho)
    then show ?thesis using d ro by (simp add: read_only_handlers smap_Ok)
  qed (use False in \<open>auto intro!: pure unchanged.moves_rules unchanged.moves_readers simp only: dispatch.simps is_write_request.simps\<close>)
qed

lemma served_read_only:
  "served x y \<Longrightarrow> x_read_only x \<Longrightarrow> y = x"
  by (induction rule: rtranclp_induct) (auto elim!: serve_stepE dest: read_only_dispatch)

lemma dispatch_inv:
  assumes "sb_ok sb" and "ctx_inv sb d0 n x" and "dispatch db now req x = (r, x')" and "r \<noteq> Diverge"
    and "\<not> is_flush req"
  shows "ctx_inv sb d0 n x'"
proof -
  have smap: "preserves (ctx_inv sb d0 n) (smap f m)" if "preserves (ctx_inv sb d0 n) m"
    for m :: "(ext4fs, ntstatus, 'a) st" and f
    unfolding smap_def by (intro preserves_intros that)
  have "is_flush req \<or> moves (\<lambda>x y. y = x) (dispatch db now req) \<or> preserves (ctx_inv sb d0 n) (dispatch db now req)"
    by (cases req; simp only: dispatch.simps is_flush.simps simp_thms;
        ((rule disjI1, (intro unchanged.moves_rules unchanged.moves_readers; fail))
        | (rule disjI2, intro smap create_handle_inv write_file_data_cb_inv set_file_size_cb_inv
            set_basic_info_cb_inv rename_handle_inv cleanup_handle_write_inv assms(1))))
  then show ?thesis
    using assms(5)
  proof (elim disjE)
    assume "moves (\<lambda>x y. y = x) (dispatch db now req)"
    from movesD[OF this assms(3,4)] show ?thesis using assms(2) by simp
  next
    assume "preserves (ctx_inv sb d0 n) (dispatch db now req)"
    then show ?thesis using assms(2,3) by (rule preservesD)
  qed simp
qed

text \<open>A mounted volume, on a device of the shape of \<open>d0\<close>; a flush makes the device's contents stable.\<close>

definition mounted :: "superblock \<Rightarrow> disk \<Rightarrow> nat \<Rightarrow> ext4fs \<Rightarrow> bool" where
  "mounted sb d0 n x \<longleftrightarrow> sb_ok sb \<and> same_shape d0 (x_dev x) \<and> ctx_inv sb (x_dev x) n x"

lemma same_shape_wf: "same_shape d0 d \<Longrightarrow> wf_disk d"
  by (simp add: same_shape_def)

lemma mounted_moves:
  assumes "mounted sb d0 n x" and "ctx_inv sb (x_dev x) n y"
  shows "mounted sb d0 n y"
proof -
  have "same_shape d0 (x_dev y)" using assms same_shape_trans by (auto simp: mounted_def ctx_inv_def unflushed_def)
  then show ?thesis using assms same_shape_refl[OF same_shape_wf] by (auto simp: mounted_def ctx_inv_def unflushed_def)
qed

lemma mounted_on_dev:
  assumes "mounted sb d0 n x" and "same_shape (x_dev x) d"
  shows "mounted sb d0 n (x\<lparr>x_dev := d\<rparr>)"
  using assms same_shape_trans[of d0 "x_dev x" d] same_shape_refl[OF same_shape_wf[OF assms(2)]]
  by (auto simp: mounted_def ctx_inv_def unflushed_def)

text \<open>On a volume without its journal lock held, a flush request writes nothing and flushes.\<close>

lemma flush_cb_run:
  assumes "\<not> x_journal_held x"
  shows "flush_cb h x = (if x_read_only x then (Ok (map_option (\<lambda>h. file_info_from_inode (h_inode h) (h_inode_num h)) h), x)
     else if flush_fails (x_dev x) then (Err StInternalError, x)
     else (Ok (map_option (\<lambda>h. file_info_from_inode (h_inode h) (h_inode_num h)) h), x\<lparr>x_dev := (x_dev x)\<lparr>stable := sectors (x_dev x)\<rparr>\<rparr>))"
  using assms
  by (simp add: flush_cb_def ctx_flush_pending_def ctx_dev_flush_def flush_pending_def with_journal_def sbind_def
      smap_err_def dev_flush_def sreturn_def)

lemma flush_cb_held: "x_journal_held x \<Longrightarrow> \<not> x_read_only x \<Longrightarrow> flush_cb h x = (Diverge, x)"
  by (simp add: flush_cb_def with_journal_def sbind_def)

lemma flush_mounted:
  assumes "mounted sb d0 n x" and "flush_cb h x = (r, x')" and "r \<noteq> Diverge"
  shows "mounted sb d0 n x'"
proof (cases "x_journal_held x \<and> \<not> x_read_only x")
  case False
  have "same_shape (x_dev x) ((x_dev x)\<lparr>stable := s\<rparr>)" for s
    using assms(1) by (simp add: mounted_def same_shape_def wf_disk_def)
  then show ?thesis using assms(1,2) mounted_on_dev[OF assms(1)] False
    by (cases "x_read_only x") (auto simp: flush_cb_run read_only_handlers split: if_split_asm)
qed (use assms in \<open>simp add: flush_cb_held\<close>)

lemma dispatch_mounted:
  assumes "mounted sb d0 n x" and "dispatch db now req x = (r, x')" and "r \<noteq> Diverge"
  shows "mounted sb d0 n x'"
proof (cases "is_flush req")
  case True
  then obtain h where h: "req = ReqFlush h" by (cases req) auto
  obtain a where "flush_cb h x = (a, x')" "a \<noteq> Diverge"
    using assms(2,3) by (cases "flush_cb h x"; cases "fst (flush_cb h x)") (auto simp: h smap_def sbind_def)
  from flush_mounted[OF assms(1) this] show ?thesis .
next
  case False
  have "sb_ok sb" "ctx_inv sb (x_dev x) n x" using assms(1) by (simp_all add: mounted_def)
  from dispatch_inv[OF this assms(2,3) False] show ?thesis by (rule mounted_moves[OF assms(1)])
qed

lemma served_mounted:
  "served x y \<Longrightarrow> mounted sb d0 n x \<Longrightarrow> mounted sb d0 n y \<and> same_locks x y"
proof (induction rule: rtranclp_induct)
  case (step y z)
  then show ?case
    using dispatch_mounted movesD[OF moves_dispatch] by (fastforce elim!: serve_stepE simp: same_locks_def)
qed (simp add: same_locks_def)

lemma quiet_inv:
  "served_unflushed x y \<Longrightarrow> sb_ok sb \<Longrightarrow> ctx_inv sb d0 n x \<Longrightarrow> ctx_inv sb d0 n y"
  by (induction rule: rtranclp_induct) (auto elim!: quiet_stepE intro: dispatch_inv)

text \<open>Opening establishes the invariant.\<close>

lemma apply_pending_shape [preserves_intros]:
  "preserves (same_shape d0) (apply_pending sb ps)"
  unfolding apply_pending_def
  by (intro preserves_intros preservesI same_shape_write_sectors)

lemma replay_loop_shape [preserves_intros]:
  "preserves (same_shape d0) (replay_loop fuel sb jn seq jb rv)"
proof (induction fuel arbitrary: seq jb rv)
  case (Suc fuel)
  show ?case unfolding replay_loop.simps Let_def by (intro preserves_intros Suc.IH)
qed (simp only: replay_loop.simps preserves_sread)

lemma check_and_recover_shape [preserves_intros]:
  "preserves (same_shape d0) (check_and_recover fuel sb gdt)"
  unfolding check_and_recover_def replay_def mark_journal_clean_def Let_def
  by (intro preserves_intros) (auto intro: preservesI same_shape_write_sectors same_shape_flush)

lemma open_inner_inv:
  assumes "open_inner fuel mode d = (Ok x, d')" and "wf_disk d"
  shows "mounted (x_sb x) d (length (x_gdt x)) x"
    and "x_read_only x \<longleftrightarrow> mode \<noteq> ReadWrite" and "\<not> x_gdt_held x" and "\<not> x_journal_held x"
    and "x_dev x = d'"
proof -
  obtain sb gdt jn where p: "parse d = Ok sb" and g: "gdt_load d sb = Ok gdt"
    and j: "open_journal fuel mode sb gdt d = (Ok jn, d')"
    and x: "x = \<lparr>x_dev = d', x_sb = sb, x_gdt = gdt, x_journal = journal_writer_new jn,
       x_read_only = (mode \<noteq> ReadWrite), x_gdt_held = False, x_journal_held = False\<rparr>"
    using assms(1) by (auto simp: open_inner_def sbind_Ok_iff simp del: sbind_sread)
  have shape: "preserves (same_shape d) (open_journal fuel mode sb gdt)"
    unfolding open_journal_def
    by (cases mode; simp only: open_mode.case; intro preserves_intros)
  have "same_shape d d'"
    using preservesD[OF shape same_shape_refl[OF assms(2)] j] .
  then show "mounted (x_sb x) d (length (x_gdt x)) x"
    "x_read_only x \<longleftrightarrow> mode \<noteq> ReadWrite" "\<not> x_gdt_held x" "\<not> x_journal_held x" "x_dev x = d'"
    using parse_sb_ok[OF p] gdt_load_ok[OF g] same_shape_refl[OF same_shape_wf]
    by (auto simp: x mounted_def ctx_inv_def unflushed_def)
qed

end
