(* ===== verification/Sample_Image.thy ===== *)
theory Sample_Image
  imports Dispatch
begin

text \<open>
  A small image on which the hypotheses of the mount-level properties hold: 1 KiB blocks,
  one group of 24 blocks, sixteen inodes of 128 bytes. Block 1 is the superblock, block 2 the
  descriptor table, 3 and 4 the bitmaps, 5 and 6 the inode table, 7 the root directory
  with one file in block 16, and blocks 8 to 15 the journal, which is clean.
\<close>

section \<open>The blocks\<close>

definition sample_superblock :: "byte list" where
  "sample_superblock =
     patch 0 (to_le 4 16) (patch 4 (to_le 4 24) (patch 20 (to_le 4 1) (patch 32 (to_le 4 24)
     (patch 40 (to_le 4 16) (patch 56 (to_le 2 0xEF53) (patch 58 (to_le 2 1) (patch 64 (to_le 4 1)
     (patch 88 (to_le 2 128) (patch 96 (to_le 4 0x42) (replicate 1024 0))))))))))"

definition sample_gdt_block :: "byte list" where
  "sample_gdt_block =
     patch 0 (to_le 4 3) (patch 4 (to_le 4 4) (patch 8 (to_le 4 5) (patch 12 (to_le 2 7)
     (patch 14 (to_le 2 4) (replicate 1024 0)))))"

text \<open>An inode of one extent: \<open>len\<close> blocks from \<open>phys\<close>.\<close>

definition sample_inode :: "nat \<Rightarrow> nat \<Rightarrow> nat \<Rightarrow> nat \<Rightarrow> nat \<Rightarrow> byte list" where
  "sample_inode mode sz links phys len =
     patch 0 (to_le 2 mode) (patch 4 (to_le 4 sz) (patch 26 (to_le 2 links) (patch 32 (to_le 4 0x80000)
     (patch 40 (to_le 2 0xF30A @ to_le 2 1 @ to_le 2 4 @ replicate 6 0 @
                to_le 4 0 @ to_le 2 len @ to_le 2 0 @ to_le 4 phys @ replicate 36 0)
     (replicate 128 0)))))"

definition sample_inodes_lo :: "byte list" where
  "sample_inodes_lo =
     patch 128 (sample_inode 0x41ED 1024 2 7 1)
    (patch 896 (sample_inode 0x8180 8192 1 8 8) (replicate 1024 0))"

definition sample_inodes_hi :: "byte list" where
  "sample_inodes_hi = patch 384 (sample_inode 0x81A4 5 1 16 1) (replicate 1024 0)"

definition sample_dirent :: "nat \<Rightarrow> nat \<Rightarrow> nat \<Rightarrow> byte list \<Rightarrow> byte list" where
  "sample_dirent ino rlen ft nm =
     to_le 4 ino @ to_le 2 rlen @ [of_nat (length nm), of_nat ft] @ nm"

definition sample_root :: "byte list" where
  "sample_root =
     patch 0 (sample_dirent 2 12 2 [0x2E]) (patch 12 (sample_dirent 2 12 2 [0x2E, 0x2E])
    (patch 24 (sample_dirent 12 1000 1 [0x61]) (replicate 1024 0)))"

definition sample_journal_block :: "byte list" where
  "sample_journal_block =
     patch 0 (to_be 4 JOURNAL_MAGIC) (patch 4 (to_be 4 4) (patch 12 (to_be 4 1024) (patch 16 (to_be 4 8)
     (patch 20 (to_be 4 1) (patch 24 (to_be 4 1) (replicate 1024 0))))))"

definition sample_block :: "nat \<Rightarrow> byte list" where
  "sample_block b =
     (if b = 1 then sample_superblock
      else if b = 2 then sample_gdt_block
      else if b = 3 then patch 0 [0xFF, 0xFF, 1] (replicate 1024 0)
      else if b = 4 then patch 0 [0xFF, 0x0F] (replicate 1024 0)
      else if b = 5 then sample_inodes_lo
      else if b = 6 then sample_inodes_hi
      else if b = 7 then sample_root
      else if b = 8 then sample_journal_block
      else if b = 16 then patch 0 [0x68, 0x65, 0x6C, 0x6C, 0x6F] (replicate 1024 0)
      else replicate 1024 0)"

definition sample_disk :: disk where
  "sample_disk = \<lparr>sectors = (\<lambda>i. bytes_at (512 * (i mod 2)) 512 (sample_block (i div 2))),
     sector_count = 48, read_fails = (\<lambda>_. False), write_fails = (\<lambda>_. False),
     flush_fails = False, stable = (\<lambda>i. bytes_at (512 * (i mod 2)) 512 (sample_block (i div 2)))\<rparr>"

section \<open>Reading it\<close>

lemma length_sample_inode [simp]: "length (sample_inode mode sz links phys len) = 128"
  by (simp add: sample_inode_def)

lemma length_sample_block [simp]: "length (sample_block b) = 1024"
  by (simp add: sample_block_def sample_superblock_def sample_gdt_block_def sample_inodes_lo_def
      sample_inodes_hi_def sample_root_def sample_journal_block_def sample_dirent_def)

lemma wf_sample: "wf_disk sample_disk"
  by (simp add: wf_disk_def sample_disk_def)

lemma readable_sample [simp]: "readable sample_disk s n \<longleftrightarrow> s + n \<le> 48"
  by (auto simp: readable_def sample_disk_def)

lemma sample_sectors [simp]:
  "sectors sample_disk i = bytes_at (512 * (i mod 2)) 512 (sample_block (i div 2))"
  by (simp add: sample_disk_def)

lemma sample_block_run: "sector_run sample_disk (2 * b) 2 = sample_block b"
proof -
  have "sector_run sample_disk (2 * b) 2 = take 512 (sample_block b) @ drop 512 (sample_block b)"
    by (simp add: sector_run_def upt_rec bytes_at_def)
  then show ?thesis by simp
qed

lemma read_sample_block: "s = 2 * b \<Longrightarrow> b < 24 \<Longrightarrow> read_sectors sample_disk s 2 = Ok (sample_block b)"
  using sample_block_run[of b] by (simp add: read_sectors_Ok_iff[OF wf_sample])

lemma read_sample_sector:
  "i < 48 \<Longrightarrow> read_sectors sample_disk i (Suc 0) = Ok (bytes_at (512 * (i mod 2)) 512 (sample_block (i div 2)))"
  by (simp add: read_sectors_Ok_iff[OF wf_sample] sector_run_Suc)

section \<open>Its parts\<close>

definition sample_sb :: superblock where
  "sample_sb = \<lparr>sb_block_size = 1024, sb_blocks_count = 24, sb_inodes_count = 16,
     sb_inodes_per_group = 16, sb_blocks_per_group = 24, sb_first_data_block = 1,
     sb_uuid = replicate 16 0, sb_volume_name = [], sb_desc_size = 32, sb_feature_incompat = 0x42,
     sb_feature_ro_compat = 0, sb_inode_size = 128, sb_state = 1\<rparr>"

definition sample_gd :: group_desc where
  "sample_gd = \<lparr>gd_block_bitmap = 3, gd_inode_bitmap = 4, gd_inode_table = 5,
     gd_free_blocks_count = 7, gd_free_inodes_count = 4, gd_itable_unused = 0\<rparr>"

definition sample_journal :: journal where
  "sample_journal = \<lparr>jn_blocks = [8..<16], jn_sb = \<lparr>jsb_block_size = 1024, jsb_total_blocks = 8,
     jsb_first_usable_block = 1, jsb_start_sequence = 1, jsb_start_block = 0, jsb_errno = 0,
     jsb_feature_incompat = 0, jsb_uuid = replicate 16 0\<rparr>\<rparr>"

lemma sample_parse: "parse sample_disk = Ok sample_sb"
proof -
  have "read_sectors sample_disk 2 2 = Ok sample_superblock"
    using read_sample_block[of 2 1] by (simp add: sample_block_def)
  moreover have "raw_superblock_read_from sample_superblock = Some
     \<lparr>s_inodes_count = 16, s_blocks_count_lo = 24, s_first_data_block = 1, s_log_block_size = 0,
      s_blocks_per_group = 24, s_inodes_per_group = 16, s_magic = 0xEF53, s_state = 1, s_rev_level = 1,
      s_inode_size = 128, s_feature_incompat = 0x42, s_feature_ro_compat = 0, s_uuid = replicate 16 0,
      s_volume_name = replicate 16 0, s_desc_size = 0, s_blocks_count_hi = 0\<rparr>"
    by (simp add: raw_superblock_read_from_def sample_superblock_def int_read_defs buffer_simps
)
  ultimately show ?thesis
    by (simp add: parse_def parse_raw_superblock_def UNSUPPORTED_MASK_def inode_size_of_def
        is_power_of_two16_def sample_sb_def hi_lo_def volume_name_of_def upt_rec)
qed

lemma sample_gdt_load: "gdt_load sample_disk sample_sb = Ok [sample_gd]"
proof -
  have "from_raw (patch 0 (bytes_at 0 32 sample_gdt_block) (replicate 64 0)) 32 = sample_gd"
    by (simp add: from_raw_def sample_gdt_block_def sample_gd_def int_read_defs buffer_simps hi_lo_def
)
  moreover have "read_sectors sample_disk 4 1 = Ok (bytes_at 0 512 sample_gdt_block)"
    using read_sample_sector[of 4] by (simp add: sample_block_def)
  moreover have "length sample_gdt_block = 1024" using length_sample_block[of 2] by (simp add: sample_block_def)
  ultimately show ?thesis
    by (simp add: gdt_load_def sample_sb_def groups_count_def div_ceil_def checked_mul_def
       load_group_def checked_add_def)
qed

text \<open>Inodes of one extent, as they are read.\<close>

definition sample_ino :: "nat \<Rightarrow> nat \<Rightarrow> nat \<Rightarrow> nat \<Rightarrow> nat \<Rightarrow> inode" where
  "sample_ino mode sz links phys len = parse_raw (sample_inode mode sz links phys len)"

lemma sample_decode: "decode_inode i (sample_inode mode sz links phys len) = Ok (sample_ino mode sz links phys len)"
  by (simp add: decode_inode_def sample_ino_def i_dtime_def sample_inode_def int_read_defs buffer_simps)

lemma sample_ino_fields:
  "mode < 2 ^ 16 \<Longrightarrow> ino_mode (sample_ino mode sz links phys len) = mode"
  "sz < 2 ^ 32 \<Longrightarrow> ino_size (sample_ino mode sz links phys len) = sz"
  "ino_flags (sample_ino mode sz links phys len) = 0x80000"
  "links < 2 ^ 16 \<Longrightarrow> ino_links_count (sample_ino mode sz links phys len) = links"
  by (simp_all add: sample_ino_def parse_raw_def raw_inode_defs sample_inode_def int_read_defs buffer_simps hi_lo_def)

lemma sample_ino_block:
  "ino_block_data (sample_ino mode sz links phys len) =
     to_le 2 0xF30A @ to_le 2 1 @ to_le 2 4 @ replicate 6 0 @
     to_le 4 0 @ to_le 2 len @ to_le 2 0 @ to_le 4 phys @ replicate 36 0"
  by (simp add: sample_ino_def parse_raw_def raw_inode_defs sample_inode_def buffer_simps)

lemma sample_ino_node:
  assumes "phys < 24" and "len < 2 ^ 15"
  shows "check_node (ino_block_data (sample_ino mode sz links phys len)) =
      Ok \<lparr>eh_magic = 0xF30A, eh_entries = 1, eh_max = 4, eh_depth = 0\<rparr>"
    and "leaves_of (ino_block_data (sample_ino mode sz links phys len)) =
      [\<lparr>ee_block = 0, ee_len = len, ee_start_hi = 0, ee_start_lo = phys\<rparr>]"
proof -
  let ?node = "ino_block_data (sample_ino mode sz links phys len)"
  have all: "bytes_at 0 n (to_le n v) = to_le n v" for n v
    by (simp add: bytes_at_def)
  note eval = sample_ino_block int_read_defs bytes_at_append_left bytes_at_append_right all buffer_simps
  have hdr: "header_of ?node = \<lparr>eh_magic = 0xF30A, eh_entries = 1, eh_max = 4, eh_depth = 0\<rparr>"
    by (simp add: header_of_def eval)
  have node_len: "length ?node = 60" by (simp add: sample_ino_block)
  have leaf: "leaf_at ?node 0 = \<lparr>ee_block = 0, ee_len = len, ee_start_hi = 0, ee_start_lo = phys\<rparr>"
    using assms by (simp add: leaf_at_def eval)
  show "check_node ?node = Ok \<lparr>eh_magic = 0xF30A, eh_entries = 1, eh_max = 4, eh_depth = 0\<rparr>"
    by (simp add: check_node_def hdr node_len EXTENT_MAGIC_def MAX_DEPTH_def sat_add_def sat_mul_def)
  show "leaves_of ?node = [\<lparr>ee_block = 0, ee_len = len, ee_start_hi = 0, ee_start_lo = phys\<rparr>]"
    by (simp add: leaves_of_def hdr leaf)
qed

lemma sample_ino_uses: "uses_extents (sample_ino mode sz links phys len)"
  by (simp add: uses_extents_def sample_ino_fields)

lemma sample_ino_leaves:
  assumes "0 < phys" and "phys < 24" and "len < 2 ^ 15"
  shows "collect_leaves_pub sample_disk sample_sb (sample_ino mode sz links phys len) =
    Ok [\<lparr>ee_block = 0, ee_len = len, ee_start_hi = 0, ee_start_lo = phys\<rparr>]"
proof -
  obtain k where fuel: "tree_fuel sample_disk = Suc k" by (simp add: tree_fuel_def)
  show ?thesis
    by (simp add: collect_leaves_pub_def fuel sample_ino_uses sample_ino_node[OF assms(2,3)] sat_add_def MAX_TOTAL_LEAVES_def)
qed

lemma sample_ino_lookup:
  assumes "phys < 24" and "len < 2 ^ 15" and "l < len"
  shows "lookup_block sample_disk sample_sb (sample_ino mode sz links phys len) l = Ok (Some (phys + l))"
proof -
  obtain k where fuel: "tree_fuel sample_disk = Suc k" by (simp add: tree_fuel_def)
  show ?thesis
    using assms
    by (simp add: lookup_block_def fuel sample_ino_uses sample_ino_node leaf_start_def hi_lo_def checked_add_def)
qed

lemma sample_read_inode:
  "read_inode sample_disk sample_sb [sample_gd] 2 = Ok (sample_ino 0x41ED 1024 2 7 1)"
  "read_inode sample_disk sample_sb [sample_gd] 8 = Ok (sample_ino 0x8180 8192 1 8 8)"
  "read_inode sample_disk sample_sb [sample_gd] 12 = Ok (sample_ino 0x81A4 5 1 16 1)"
proof -
  have len: "length sample_inodes_lo = 1024" "length sample_inodes_hi = 1024"
    by (simp_all add: sample_inodes_lo_def sample_inodes_hi_def)
  have slot: "bytes_at 128 128 sample_inodes_lo = sample_inode 0x41ED 1024 2 7 1"
    "bytes_at 896 128 sample_inodes_lo = sample_inode 0x8180 8192 1 8 8"
    "bytes_at 384 128 sample_inodes_hi = sample_inode 0x81A4 5 1 16 1"
    by (simp_all add: sample_inodes_lo_def sample_inodes_hi_def buffer_simps)
  note read = read_inode_def sample_sb_def sample_gd_def div_ceil_def read_sample_sector sample_block_def
    len slot raw_inode_read_from_def sample_decode
  show "read_inode sample_disk sample_sb [sample_gd] 2 = Ok (sample_ino 0x41ED 1024 2 7 1)"
    by (simp add: read)
  show "read_inode sample_disk sample_sb [sample_gd] 8 = Ok (sample_ino 0x8180 8192 1 8 8)"
    by (simp add: read)
  show "read_inode sample_disk sample_sb [sample_gd] 12 = Ok (sample_ino 0x81A4 5 1 16 1)"
    by (simp add: read)
qed

lemma be_nat_zeros: "be_nat (replicate n 0) = 0"
  by (simp add: be_nat_def)

lemma sample_journal_superblock:
  "read_journal_superblock sample_disk sample_sb [8..<16] = Ok (jn_sb sample_journal)"
proof -
  have "bytes_at 0 1024 sample_journal_block = sample_journal_block"
    using length_sample_block[of 8] by (simp add: sample_block_def bytes_at_def)
  moreover have "raw_jsb_read_from sample_journal_block = Some
     \<lparr>jr_magic = JOURNAL_MAGIC, jr_blocksize = 1024, jr_maxlen = 8, jr_first = 1, jr_sequence = 1,
      jr_start = 0, jr_errno = 0, jr_feature_incompat = 0, jr_uuid = replicate 16 0\<rparr>"
    by (simp add: raw_jsb_read_from_def sample_journal_block_def int_read_defs buffer_simps JOURNAL_MAGIC_def
        be_nat_zeros)
  moreover have "read_sectors sample_disk 16 2 = Ok sample_journal_block"
    using read_sample_block[of 16 8] by (simp add: sample_block_def)
  moreover have "length sample_journal_block = 1024"
    using length_sample_block[of 8] by (simp add: sample_block_def)
  ultimately show ?thesis
    by (simp add: read_journal_superblock_def journal_block_addr_def read_phys_block_def
        parse_journal_superblock_def sample_journal_def sample_sb_def)
qed

lemma sample_journal_load: "journal_load sample_disk sample_sb [sample_gd] = Ok sample_journal"
proof -
  have "map (\<lambda>l. case find_phys [\<lparr>ee_block = 0, ee_len = 8, ee_start_hi = 0, ee_start_lo = 8\<rparr>] l of
      None \<Rightarrow> 0 | Some p \<Rightarrow> p) [0..<8] = [8..<16]"
    by (simp add: upt_rec checked_add_def leaf_start_def hi_lo_def)
  moreover have "div_ceil 8192 1024 = 8" by (simp add: div_ceil_def)
  moreover have "sb_block_size sample_sb = 1024" by (simp add: sample_sb_def)
  ultimately show ?thesis
    using sample_journal_superblock
    by (simp add: journal_load_def EXT4_JOURNAL_INO_def sample_read_inode sample_ino_leaves sample_ino_fields
        sample_journal_def)
qed

lemma sample_journal_clean:
  "jsb_errno (jn_sb sample_journal) = 0" "is_clean (jn_sb sample_journal)" "\<not> needs_recovery (jn_sb sample_journal)"
  by (simp_all add: sample_journal_def is_clean_def needs_recovery_def)

text \<open>The mounted image, in each mode.\<close>

definition sample_fs :: "open_mode \<Rightarrow> ext4fs" where
  "sample_fs mode = \<lparr>x_dev = sample_disk, x_sb = sample_sb, x_gdt = [sample_gd],
     x_journal = journal_writer_new sample_journal, x_read_only = (mode \<noteq> ReadWrite),
     x_gdt_held = False, x_journal_held = False\<rparr>"

lemma sample_open: "open_inner fuel mode sample_disk = (Ok (sample_fs mode), sample_disk)"
  by (cases mode)
     (simp_all add: open_inner_def sample_parse sample_gdt_load open_journal_def sample_journal_load
       check_and_recover_def sample_journal_clean replay_def sample_fs_def sbind_def smap_err_def)

end
