(* ===== verification/Alloc_Sound.thy ===== *)
theory Alloc_Sound
  imports Sample_Image
begin

text \<open>
  What the allocator promises: a successful allocation takes a run that was free in the
  bitmap on the device, a failing one found no run anywhere, freeing clears one bit or
  reports that it was clear, and freeing undoes allocation.
\<close>

section \<open>Every group is tried\<close>

lemma set_group_order:
  assumes "h + n \<le> 2 ^ 64"
  shows "set (group_order h n) = {..<n}"
proof -
  have "group_order h n = map (\<lambda>i. (h + i) mod n) [0..<n]"
    using assms by (auto simp: group_order_def wadd_def)
  moreover have "g \<in> (\<lambda>i. (h + i) mod n) ` {0..<n}" if "g < n" for g
  proof (rule image_eqI)
    have "h mod n < n" using that by (intro mod_less_divisor) linarith
    then have "h + (g + (n - h mod n)) = n * (h div n + 1) + g"
      using mult_div_mod_eq[of n h] unfolding distrib_left mult_1_right by linarith
    then show "g = (h + (g + (n - h mod n)) mod n) mod n" using that
      by (simp only: mod_add_right_eq mod_mult_self4 mod_less)
  qed (use that in simp)
  ultimately show ?thesis by auto
qed

section \<open>No run is left when allocation fails\<close>

lemma bm_allocate_not_Err: "bm_allocate i bm \<noteq> (Err e, t)"
  by (auto simp: bm_allocate_def bm_is_allocated_def Let_def split: if_splits)

lemma mark_run_not_Err: "sfor is (\<lambda>b. sbind (bm_allocate b) (\<lambda>_. sreturn ())) bm \<noteq> (Err e, t)"
  by (induction "is" arbitrary: bm) (auto simp: Err_iffs bm_allocate_not_Err)

lemma update_gdt_free_blocks_not_full:
  "update_gdt_free_blocks sb grp delta s \<noteq> (Err AllocNoFreeBlocks, s')"
  by (auto simp: update_gdt_free_blocks_def Let_def Err_iffs read_fs_block_def store_free_blocks_def
      patch_r_not_Err pin_def simp del: sbind_sread split: if_split_asm)

lemma bm_load_not_full: "bm_load d sb gdt grp \<noteq> Err AllocNoFreeBlocks"
  by (auto simp: bm_load_def Err_iffs)

lemma flush_bitmap_not_full: "flush_bitmap sb b data s \<noteq> (Err AllocNoFreeBlocks, s')"
  by (auto simp: flush_bitmap_def Let_def Err_iffs pin_def)

lemma alloc_blocks_in_none:
  assumes "sb_ok sb" and "fs_inv sb d0 n s" and "0 < count"
  shows "alloc_blocks_in sb count gs s = (Err AllocNoFreeBlocks, s') \<Longrightarrow>
    s' = s \<and> (\<forall>grp \<in> set gs. group_full sb count s grp)"
proof (induction gs)
  case (Cons grp gs)
  have marks: "run_local (sfor is (\<lambda>b. sbind (bm_allocate b) (\<lambda>_. sreturn ()))) bm \<noteq> Err AllocNoFreeBlocks" for "is" bm
    by (auto simp: run_local_def rbind_Err_iff mark_run_not_Err split: prod.split_asm)
  show ?case
  proof (cases "gd_free_blocks_count (f_gdt s ! grp) < count")
    case True
    then have "alloc_blocks_in sb count gs s = (Err AllocNoFreeBlocks, s')"
      using Cons.prems by (auto simp: gdt_get_def split: if_split_asm)
    from Cons.IH[OF this] True show ?thesis by (simp add: group_full_def)
  next
    case False
    with Cons.prems obtain bm r where bm: "bm_load (f_dev s) sb (f_gdt s) grp = Ok bm"
      and r: "bm_first_free_run bm count (sb_blocks_per_group sb) = (r :: (alloc_error, nat option) res)"
        "r = Ok None \<longrightarrow> alloc_blocks_in sb count gs s = (Err AllocNoFreeBlocks, s')"
        "r = Err AllocNoFreeBlocks \<or> r = Ok None"
      using bm_load_not_full flush_bitmap_not_full update_gdt_free_blocks_not_full marks
      by (auto simp: Err_iffs simp del: sbind_sread split: option.split_asm if_split_asm)
    have "length bm = sb_block_size sb" using bm_load_length[OF assms(1) fs_inv_wf_disk[OF assms(2)] bm] .
    then have "8 * length bm < 2 ^ 32" using sb_ok_block_size(2)[OF assms(1)] by simp
    from bm_first_free_run_spec[OF assms(3) this, where ?'e = alloc_error and bits = "sb_blocks_per_group sb"] r(1,3)
    have "r = Ok None" "\<forall>t. \<not> free_run bm (min (sb_blocks_per_group sb) (8 * length bm)) count t"
      by (auto simp: run_answer_def)
    with Cons.IH r(2) bm show ?thesis by (auto simp: group_full_def)
  qed
qed simp


section \<open>Block allocation\<close>

lemma allocated_in_count:
  assumes "fs_inv sb d0 n s" and "allocated_in sb count s p s' grp start"
  shows "f_gdt s' = (f_gdt s)[grp := (f_gdt s ! grp)\<lparr>gd_free_blocks_count := gd_free_blocks_count (f_gdt s ! grp) - count\<rparr>]"
proof -
  have "grp < length (f_gdt s)" "count \<le> gd_free_blocks_count (f_gdt s ! grp)" using assms(2) by (simp_all add: allocated_in_def)
  moreover then have "gd_free_blocks_count (f_gdt s ! grp) < 2 ^ 32"
    using gdt_ok_nth[of "f_gdt s" grp] assms(1) by (simp add: fs_inv_def gd_ok_def)
  ultimately show ?thesis using adjust_count_down assms(2) by (simp add: allocated_in_def)
qed

text \<open>
  C13. A successful allocation: the groups are tried in turn from the one of the hint, and every
  group before the one that is used has fewer free blocks than are wanted or no free run of that
  length; in that group the blocks are the first run of free bits that is long enough. Afterwards
  the bitmap on the device has exactly these bits more, the group's counter is lower by their
  number, no other counter and no earlier revocation has changed, and the write path's
  invariant holds.
\<close>

theorem alloc_blocks_takes_free_run:
  assumes "sb_ok sb" and "fs_inv sb d0 n s" and "0 < count"
    and "alloc_blocks sb count hint s = (Ok p, s')"
  shows "fs_inv sb d0 n s' \<and> (\<exists>grp start bm bm' before after. grp < n \<and>
    group_order (hint div sb_blocks_per_group sb) n = before @ grp # after \<and> (\<forall>g \<in> set before. group_full sb count s g) \<and>
    p = wadd 64 (wmul 64 grp (sb_blocks_per_group sb)) start \<and> start + count \<le> sb_blocks_per_group sb \<and>
    bm_load (f_dev s) sb (f_gdt s) grp = Ok bm \<and> bm_load (f_dev s') sb (f_gdt s') grp = Ok bm' \<and>
    (\<forall>j \<in> {start..<start + count}. \<not> bm_bit bm j) \<and>
    (\<forall>t < start. \<exists>j \<in> {t..<t + count}. bm_bit bm j) \<and>
    (\<forall>j. bm_bit bm' j \<longleftrightarrow> j \<in> {start..<start + count} \<or> bm_bit bm j) \<and>
    f_gdt s' = (f_gdt s)[grp := (f_gdt s ! grp)\<lparr>gd_free_blocks_count :=
      gd_free_blocks_count (f_gdt s ! grp) - count\<rparr>] \<and> txn_revoked (f_txn s') = txn_revoked (f_txn s))"
proof -
  obtain grp start before after where o: "group_order (hint div sb_blocks_per_group sb) (length (f_gdt s)) = before @ grp # after"
    "\<forall>g \<in> set before. group_full sb count s g" and a: "allocated_in sb count s p s' grp start"
    using alloc_blocks_spec[OF assms] by blast
  have n: "grp < n" "length (f_gdt s) = n" using a assms(2) by (auto simp: allocated_in_def fs_inv_def)
  from a obtain bm bm' where bm: "bm_load (f_dev s) sb (f_gdt s) grp = Ok bm"
      "bm_load (f_dev s') sb (f_gdt s') grp = Ok bm'"
      "\<forall>j. bm_bit bm' j \<longleftrightarrow> (start \<le> j \<and> j < start + count) \<or> bm_bit bm j"
      "\<forall>j. start \<le> j \<and> j < start + count \<longrightarrow> \<not> bm_bit bm j"
      "\<forall>t < start. \<exists>j \<in> {t..<t + count}. bm_bit bm j"
    by (auto simp: allocated_in_def first_run_def)
  show ?thesis
    using preservesD[OF alloc_blocks_inv[OF assms(1)] assms(2,4)] a bm n o allocated_in_count[OF assms(2) a]
    by (intro conjI exI[of _ grp] exI[of _ start] exI[of _ bm] exI[of _ bm'] exI[of _ before] exI[of _ after])
       (simp_all add: allocated_in_def)
qed

lemma alloc_blocks_in_full:
  assumes "sb_ok sb" and "fs_inv sb d0 n s" and "0 < count"
  shows "\<forall>g \<in> set gs. g < n \<and> group_full sb count s g \<and> (\<exists>bm. bm_load (f_dev s) sb (f_gdt s) g = Ok bm) \<Longrightarrow>
    alloc_blocks_in sb count gs s = (Err AllocNoFreeBlocks, s)"
proof (induction gs)
  case (Cons g gs)
  have n: "length (f_gdt s) = n" using assms(2) by (simp add: fs_inv_def)
  have rest: "alloc_blocks_in sb count gs s = (Err AllocNoFreeBlocks, s)" using Cons by simp
  obtain bm where bm: "bm_load (f_dev s) sb (f_gdt s) g = Ok bm" using Cons.prems by auto
  have "8 * length bm < 2 ^ 32"
    using bm_load_length[OF assms(1) fs_inv_wf_disk[OF assms(2)] bm] sb_ok_block_size(2)[OF assms(1)] by simp
  note run = bm_first_free_run_spec[OF assms(3) this, of "sb_blocks_per_group sb", where ?'e = alloc_error]
  have "bm_first_free_run bm count (sb_blocks_per_group sb) = (Ok None :: (alloc_error, nat option) res)"
    if "\<not> gd_free_blocks_count (f_gdt s ! g) < count"
    using Cons.prems that bm run by (auto simp: group_full_def run_answer_def)
  then show ?case using Cons.prems bm n rest by (cases "gd_free_blocks_count (f_gdt s ! g) < count") (simp_all add: gdt_get_def sbind_def)
qed simp

text \<open>
  C29. The allocator gives up exactly when there is nothing to give: on a volume whose bitmaps
  can be read, the error for no free blocks is the answer if and only if every group counts
  fewer free blocks than are wanted or has no free run of that length in its bitmap; and then
  nothing has changed, neither on the device nor in the counters or the transaction.
\<close>

theorem alloc_blocks_full:
  assumes "sb_ok sb" and "fs_inv sb d0 n s" and "0 < count" and "hint + n \<le> 2 ^ 64" and "0 < sb_blocks_per_group sb"
    and "\<forall>grp < n. \<exists>bm. bm_load (f_dev s) sb (f_gdt s) grp = Ok bm"
  shows "alloc_blocks sb count hint s = (Err AllocNoFreeBlocks, s') \<longleftrightarrow>
    s' = s \<and> (\<forall>grp < n. gd_free_blocks_count (f_gdt s ! grp) < count \<or>
      (\<exists>bm. bm_load (f_dev s) sb (f_gdt s) grp = Ok bm \<and>
         (\<forall>t. t + count \<le> min (sb_blocks_per_group sb) (8 * length bm) \<longrightarrow> (\<exists>j < count. bm_bit bm (t + j)))))"
proof -
  let ?gs = "group_order (hint div sb_blocks_per_group sb) n"
  have n: "length (f_gdt s) = n" using assms(2) by (simp add: fs_inv_def)
  have "hint div sb_blocks_per_group sb + n \<le> 2 ^ 64" using assms(4) div_le_dividend[of hint] by (meson add_le_mono1 le_trans)
  note gs = set_group_order[OF this]
  have "alloc_blocks sb count hint s = alloc_blocks_in sb count ?gs s"
    using assms(5) by (simp add: alloc_blocks_def Let_def n sbind_def rassert_def)
  moreover have "alloc_blocks_in sb count ?gs s = (Err AllocNoFreeBlocks, s') \<longleftrightarrow> s' = s \<and> (\<forall>grp < n. group_full sb count s grp)"
    using alloc_blocks_in_none[OF assms(1-3), of ?gs s'] alloc_blocks_in_full[OF assms(1-3), of ?gs] assms(6)
    unfolding gs by auto
  ultimately show ?thesis by (simp add: group_full_def free_run_def del: min.bounded_iff)
qed

section \<open>Freeing\<close>

text \<open>
  C27. Freeing an allocated block clears its bit on the device and no other, raises the group's
  counter by one and revokes the block in the transaction; freeing a block whose bit is clear is
  reported as a double free and changes nothing.
\<close>

theorem free_block_clears_bit:
  assumes "sb_ok sb" and "fs_inv sb d0 n s" and "0 < sb_blocks_per_group sb"
    and "sb_blocks_per_group sb \<le> 8 * sb_block_size sb"
    and "bm_load (f_dev s) sb (f_gdt s) (block div sb_blocks_per_group sb) = Ok bm"
  shows "(\<forall>s'. free_block sb block s = (Ok (), s') \<longrightarrow>
       bm_bit bm (block mod sb_blocks_per_group sb) \<and>
       txn_revoked (f_txn s') = txn_revoked (f_txn s) @ [block] \<and>
       map gd_free_blocks_count (f_gdt s') = (map gd_free_blocks_count (f_gdt s))[block div sb_blocks_per_group sb :=
          adjust_count (gd_free_blocks_count (f_gdt s ! (block div sb_blocks_per_group sb))) 1] \<and>
       (\<exists>bm'. bm_load (f_dev s') sb (f_gdt s') (block div sb_blocks_per_group sb) = Ok bm' \<and>
          (\<forall>j. bm_bit bm' j \<longleftrightarrow> j \<noteq> block mod sb_blocks_per_group sb \<and> bm_bit bm j))) \<and>
    (\<not> bm_bit bm (block mod sb_blocks_per_group sb) \<longrightarrow>
       free_block sb block s = (Err (AllocDoubleFreed block), s))"
proof (intro conjI allI impI)
  fix s' assume "free_block sb block s = (Ok (), s')"
  note f = free_block_spec[OF assms(1,2) this assms(4), unfolded freed_in_def]
  show "bm_bit bm (block mod sb_blocks_per_group sb)" "txn_revoked (f_txn s') = txn_revoked (f_txn s) @ [block]"
    "\<exists>bm'. bm_load (f_dev s') sb (f_gdt s') (block div sb_blocks_per_group sb) = Ok bm' \<and>
          (\<forall>j. bm_bit bm' j \<longleftrightarrow> j \<noteq> block mod sb_blocks_per_group sb \<and> bm_bit bm j)"
    using f assms(5) by auto
  show "map gd_free_blocks_count (f_gdt s') = (map gd_free_blocks_count (f_gdt s))[block div sb_blocks_per_group sb :=
          adjust_count (gd_free_blocks_count (f_gdt s ! (block div sb_blocks_per_group sb))) 1]"
    using f by (simp add: map_update)
next
  assume clear: "\<not> bm_bit bm (block mod sb_blocks_per_group sb)"
  have "length bm = sb_block_size sb" using bm_load_length[OF assms(1) fs_inv_wf_disk[OF assms(2)] assms(5)] .
  moreover have "block mod sb_blocks_per_group sb < sb_blocks_per_group sb" using assms(3) by simp
  ultimately have "block mod sb_blocks_per_group sb div 8 < length bm" using assms(4) by linarith
  then show "free_block sb block s = (Err (AllocDoubleFreed block), s)"
    using free_block_double[OF assms(5) _ _ clear] assms(3) by simp
qed

text \<open>
  C28. Freeing undoes allocation: when one block is allocated and freed again, the bitmap on
  the device and the group counters are what they were.
\<close>

theorem free_undoes_alloc:
  assumes "sb_ok sb" and "fs_inv sb d0 n s" and "n < 2 ^ 32" and "sb_blocks_per_group sb < 2 ^ 32"
    and "sb_blocks_per_group sb \<le> 8 * sb_block_size sb"
    and "alloc_blocks sb 1 hint s = (Ok p, s1)" and "free_block sb p s1 = (Ok (), s2)"
    and "bm_load (f_dev s) sb (f_gdt s) (p div sb_blocks_per_group sb) = Ok bm"
  shows "(\<exists>bm2. bm_load (f_dev s2) sb (f_gdt s2) (p div sb_blocks_per_group sb) = Ok bm2 \<and>
      (\<forall>j. bm_bit bm2 j \<longleftrightarrow> bm_bit bm j)) \<and> f_gdt s2 = f_gdt s"
proof -
  obtain grp start where a: "allocated_in sb 1 s p s1 grp start"
    using alloc_blocks_spec[OF assms(1,2) zero_less_one assms(6)] by blast
  let ?bpg = "sb_blocks_per_group sb"
  have n: "grp < n" "length (f_gdt s) = n" using a assms(2) by (auto simp: allocated_in_def fs_inv_def)
  have start: "start < ?bpg" using a by (simp add: allocated_in_def)
  have "grp * ?bpg + start < 2 ^ 64"
  proof -
    have "grp * ?bpg + start < (grp + 1) * ?bpg" using start by simp
    also have "\<dots> \<le> 2 ^ 32 * 2 ^ 32" by (rule mult_le_mono) (use n(1) assms(3,4) in simp_all)
    finally show ?thesis by simp
  qed
  then have p: "p = grp * ?bpg + start" using a by (simp add: allocated_in_def wadd_def wmul_def)
  then have pg: "p div ?bpg = grp" "p mod ?bpg = start" using start by simp_all
  have inv1: "fs_inv sb d0 n s1" using preservesD[OF alloc_blocks_inv[OF assms(1)] assms(2,6)] .
  note f = free_block_spec[OF assms(1) inv1 assms(7,5), unfolded pg freed_in_def]
  note a' = a[unfolded allocated_in_def]
  have small: "gd_free_blocks_count (f_gdt s ! grp) < 2 ^ 32"
    using gdt_ok_nth[of "f_gdt s" grp] n assms(2) by (simp add: fs_inv_def gd_ok_def)
  have one: "1 \<le> gd_free_blocks_count (f_gdt s ! grp)" using a' by simp
  have restored: "adjust_count (adjust_count (gd_free_blocks_count (f_gdt s ! grp)) (- int 1)) 1 =
      gd_free_blocks_count (f_gdt s ! grp)"
    using adjust_count_up[of "gd_free_blocks_count (f_gdt s ! grp) - 1" 1] one small
    unfolding adjust_count_down[OF one small] by simp
  have "f_gdt s2 = f_gdt s"
    using f a' n restored by (simp add: list_update_overwrite)
  moreover have "\<exists>bm2. bm_load (f_dev s2) sb (f_gdt s2) grp = Ok bm2 \<and> (\<forall>j. bm_bit bm2 j \<longleftrightarrow> bm_bit bm j)"
  proof -
    have eq: "(start \<le> j \<and> j < start + 1) \<longleftrightarrow> j = start" for j by linarith
    from a' assms(8)[unfolded pg] obtain bm1 where
      1: "bm_load (f_dev s1) sb (f_gdt s1) grp = Ok bm1" "\<And>j. bm_bit bm1 j \<longleftrightarrow> j = start \<or> bm_bit bm j"
        "\<not> bm_bit bm start"
      unfolding eq by auto
    from f 1(1) obtain bm2 where "bm_load (f_dev s2) sb (f_gdt s2) grp = Ok bm2"
      "\<And>j. bm_bit bm2 j \<longleftrightarrow> j \<noteq> start \<and> bm_bit bm1 j" by auto
    with 1 show ?thesis by auto
  qed
  ultimately show ?thesis by (simp add: pg)
qed

section \<open>On the sample image\<close>

definition sample_state :: fs where
  "sample_state = \<lparr>f_dev = sample_disk, f_gdt = [sample_gd], f_txn = txn_new 1\<rparr>"

lemma sample_sb_ok: "sb_ok sample_sb"
  using parse_sb_ok[OF sample_parse] .

lemma sample_state_inv: "fs_inv sample_sb sample_disk 1 sample_state"
  using gdt_load_ok[OF sample_gdt_load] same_shape_refl[OF wf_sample] txn_ok_new
  by (simp add: fs_inv_def unflushed_def sample_state_def pins_sized_def txn_new_def)

lemma sample_sb_fields [simp]:
  "sb_blocks_per_group sample_sb = 24" "sb_block_size sample_sb = 1024" "sb_first_data_block sample_sb = 1"
  "sb_desc_size sample_sb = 32" "sb_inodes_per_group sample_sb = 16" "sb_inode_size sample_sb = 128"
  by (simp_all add: sample_sb_def)

text \<open>Devices of the sample's shape whose descriptor table is the sample's.\<close>

definition sample_like :: "disk \<Rightarrow> bool" where
  "sample_like d \<longleftrightarrow> same_shape sample_disk d \<and> read_sectors d 4 2 = Ok sample_gdt_block"

lemma sample_like_disk: "sample_like sample_disk"
  using same_shape_refl[OF wf_sample] read_sample_block[of 4 2] by (simp add: sample_like_def sample_block_def)

lemma flush_bitmap_sample:
  assumes "sample_like (f_dev s)" and "length data = 1024" and "2 < b" and "b < 24"
  shows "\<exists>d. flush_bitmap sample_sb b data s = (Ok (), s\<lparr>f_dev := d, f_txn := pin_block b data (f_txn s)\<rparr>) \<and>
    sample_like d \<and> read_sectors d (2 * b) 2 = Ok data"
proof -
  have shape: "wf_disk (f_dev s)" "sector_count (f_dev s) = 48" "write_fails (f_dev s) = (\<lambda>_. False)"
      "read_fails (f_dev s) = (\<lambda>_. False)"
    using assms(1) by (simp_all add: sample_like_def same_shape_def sample_disk_def)
  have len: "length data = 512 * 2" using assms(2) by simp
  obtain d where w: "write_sectors (2 * b) data (f_dev s) = (Ok (), d)"
    using write_sectors_Ok_iff[OF shape(1) len, of "2 * b"] assms(4) shape by (simp add: writable_def)
  have "same_shape sample_disk d"
    using same_shape_write_sectors[of sample_disk "f_dev s" "2 * b" data] assms(1) w by (simp add: sample_like_def)
  moreover have "read_sectors d 4 2 = read_sectors (f_dev s) 4 2"
    by (rule read_after_write_other[OF shape(1) len _ w]) (use assms(3) in simp_all)
  moreover have "read_sectors d (2 * b) 2 = Ok data"
    by (rule read_after_write_same[OF shape(1) len _ w]) (use assms(4) shape in \<open>simp_all add: readable_def\<close>)
  moreover have "wmul 64 b 2 = 2 * b" using assms(4) by (simp add: wmul_def)
  ultimately show ?thesis
    using assms(1,2) w
    by (intro exI[of _ d])
       (simp add: flush_bitmap_def Let_def sbind_def smap_err_def on_dev_def pin_def sample_like_def)
qed

lemma update_gdt_sample:
  assumes "sample_like (f_dev s)" and "length (f_gdt s) = 1"
  shows "\<exists>t. update_gdt_free_blocks sample_sb 0 delta s = (Ok (), t)"
proof -
  have "length sample_gdt_block = 1024" using length_sample_block[of 2] by (simp add: sample_block_def)
  moreover have "read_sectors (f_dev s) 4 2 = Ok sample_gdt_block" using assms(1) by (simp add: sample_like_def)
  moreover have "0 < length (f_gdt s)" using assms(2) by simp
  ultimately show ?thesis
    by (simp add: update_gdt_free_blocks_def sbind_def smap_err_def on_gdt_def adjust_free_blocks_def
        gdt_update_def read_fs_block_def gdt_get_def store_free_blocks_def patch_r_def pin_def Let_def)
qed

lemma sample_bit: "bm_bit (sample_block 3) i \<longleftrightarrow> i < 17"
proof -
  have b: "sample_block 3 = [0xFF, 0xFF, 1] @ replicate 1021 0"
    by (simp add: sample_block_def patch_def)
  show ?thesis
  proof (cases "i div 8 < 3")
    case True
    then have i: "i < 24" by linarith
    have "\<forall>i < 24. bit (([0xFF, 0xFF, 1] :: byte list) ! (i div 8)) (i mod 8) \<longleftrightarrow> i < 17" by code_simp
    with i True show ?thesis unfolding bm_bit_def b by (simp add: nth_append del: append_Cons)
  next
    case False
    then show ?thesis by (auto simp: bm_bit_def b nth_append)
  qed
qed


lemma sample_bm_load: "bm_load sample_disk sample_sb [sample_gd] 0 = Ok (sample_block 3)"
  using read_sample_block[of 6 3] by (simp add: bm_load_def sample_gd_def wmul_def)

lemma sample_first_run: "bm_first_free_run (sample_block 3) 1 24 = (Ok (Some 17) :: ('e, nat option) res)"
proof -
  have "run_answer (sample_block 3) 24 1 (bm_first_free_run (sample_block 3) 1 24 :: ('e, nat option) res)"
    using bm_first_free_run_spec[of 1 "sample_block 3" 24, where ?'e = 'e] by simp
  moreover have "free_run (sample_block 3) 24 1 17" by (simp add: free_run_def sample_bit)
  moreover have "free_run (sample_block 3) 24 1 t \<Longrightarrow> 17 \<le> t" for t by (auto simp: free_run_def sample_bit)
  ultimately show ?thesis unfolding run_answer_def by (metis le_antisym linorder_not_less)
qed

lemma sample_alloc:
  "\<exists>s1. alloc_blocks sample_sb 1 0 sample_state = (Ok 17, s1) \<and> sample_like (f_dev s1) \<and> length (f_gdt s1) = 1"
proof -
  obtain bm' where marks: "sfor [17..<18] (\<lambda>b. sbind (bm_allocate b) (\<lambda>_. sreturn ())) (sample_block 3)
      = (Ok () :: (alloc_error, unit) res, bm')" and len: "length bm' = 1024"
    using bm_allocate_all[of "[17..<18]" "sample_block 3", where ?'e = alloc_error] by auto
  obtain d where fl: "flush_bitmap sample_sb 3 bm' sample_state = (Ok (), sample_state\<lparr>f_dev := d, f_txn := pin_block 3 bm' (f_txn sample_state)\<rparr>)"
    and like: "sample_like d"
    using flush_bitmap_sample[of sample_state bm' 3] len sample_like_disk by (auto simp: sample_state_def)
  let ?s = "sample_state\<lparr>f_dev := d, f_txn := pin_block 3 bm' (f_txn sample_state)\<rparr>"
  obtain t where up: "update_gdt_free_blocks sample_sb 0 (- 1) ?s = (Ok (), t)"
    using update_gdt_sample[of ?s "- 1"] like by (auto simp: sample_state_def)
  note u = update_gdt_free_blocks_OkD[OF up]
  have fields: "f_dev sample_state = sample_disk" "f_gdt sample_state = [sample_gd]"
      "gd_free_blocks_count sample_gd = 7" "gd_block_bitmap sample_gd = 3"
    by (simp_all add: sample_state_def sample_gd_def)
  have ord: "group_order 0 (Suc 0) = [0]" by (simp add: group_order_def wadd_def)
  have "alloc_blocks_in sample_sb 1 [0] sample_state = (Ok 17, t)"
    using marks fl up sample_first_run[where ?'e = alloc_error]
    by (simp add: fields gdt_get_def sample_bm_load run_local_def sbind_Ok wadd_def wmul_def del: One_nat_def)
  then show ?thesis
    using u(1,3) like
    by (intro exI[of _ t]) (simp add: alloc_blocks_def ord fields rassert_def del: One_nat_def alloc_blocks_in.simps)
qed


lemma sample_free:
  assumes "sample_like (f_dev s)" and "f_gdt s = [gd]" and "gd_block_bitmap gd = 3" and "b < 24"
    and "bm_load (f_dev s) sample_sb (f_gdt s) 0 = Ok bm" and "bm_bit bm b"
  shows "\<exists>s2. free_block sample_sb b s = (Ok (), s2)"
proof -
  have "wf_disk (f_dev s)" using assms(1) by (simp add: sample_like_def same_shape_def)
  from bm_load_length[OF sample_sb_ok this assms(5)] have len: "length bm = 1024" by simp
  obtain r :: "(alloc_error, bool) res" and bm' where fr: "bm_free b bm = (r, bm')" by fastforce
  have b8: "b div 8 < length bm" using assms(4) len by simp
  from bm_free_spec[OF b8 fr] have f: "bm_free b bm = (Ok True :: (alloc_error, bool) res, bm')" "length bm' = 1024"
    using assms(6) fr len by simp_all
  obtain d where fl: "flush_bitmap sample_sb 3 bm' s = (Ok (), s\<lparr>f_dev := d, f_txn := pin_block 3 bm' (f_txn s)\<rparr>)"
    and like: "sample_like d"
    using flush_bitmap_sample[OF assms(1) f(2), of 3] by auto
  obtain t where "update_gdt_free_blocks sample_sb 0 1
      (s\<lparr>f_dev := d, f_txn := revoke_block b (pin_block 3 bm' (f_txn s))\<rparr>) = (Ok (), t)"
    using update_gdt_sample[of "s\<lparr>f_dev := d, f_txn := revoke_block b (pin_block 3 bm' (f_txn s))\<rparr>" 1] like assms(2)
    by auto
  then show ?thesis
    using f(1) fl assms(2-5)
    by (simp add: free_block_def Let_def run_local_def rassert_def gdt_get_def sbind_Ok revoke_def)
qed

theorem alloc_blocks_takes_free_run_witness:
  "\<exists>s1 bm. alloc_blocks sample_sb 1 0 sample_state = (Ok 17, s1) \<and>
     bm_load (f_dev s1) sample_sb (f_gdt s1) 0 = Ok bm \<and> bm_bit bm 17"
proof -
  obtain s1 where s1: "alloc_blocks sample_sb 1 0 sample_state = (Ok 17, s1)" using sample_alloc by blast
  from alloc_blocks_takes_free_run[OF sample_sb_ok sample_state_inv _ s1] s1 show ?thesis
    by (auto simp: wadd_def wmul_def)
qed

theorem alloc_blocks_full_witness:
  "alloc_blocks sample_sb 8 0 sample_state = (Err AllocNoFreeBlocks, sample_state)"
proof -
  have "\<forall>grp < 1. \<exists>bm. bm_load (f_dev sample_state) sample_sb (f_gdt sample_state) grp = Ok bm"
    using sample_bm_load by (simp add: sample_state_def)
  from alloc_blocks_full[OF sample_sb_ok sample_state_inv _ _ _ this, of 8 0 sample_state]
  show ?thesis by (simp add: sample_state_def sample_gd_def)
qed

theorem free_block_clears_bit_witness:
  "free_block sample_sb 20 sample_state = (Err (AllocDoubleFreed 20), sample_state) \<and>
   (\<exists>s'. free_block sample_sb 16 sample_state = (Ok (), s') \<and> txn_revoked (f_txn s') = [16])"
proof -
  have load: "bm_load (f_dev sample_state) sample_sb (f_gdt sample_state) (b div sb_blocks_per_group sample_sb) = Ok (sample_block 3)"
    if "b < 24" for b
    using sample_bm_load that by (simp add: sample_state_def)
  note freeing = free_block_clears_bit[OF sample_sb_ok sample_state_inv _ _ load]
  obtain s' where s': "free_block sample_sb 16 sample_state = (Ok (), s')"
    using sample_free[of sample_state sample_gd 16] sample_like_disk sample_bm_load sample_bit
    by (auto simp: sample_state_def sample_gd_def)
  have "txn_revoked (f_txn s') = [16]" using freeing[of 16] s' by (simp add: sample_state_def txn_new_def)
  then show ?thesis using freeing[of 20] s' by (simp add: sample_bit)
qed

theorem free_undoes_alloc_witness:
  "\<exists>s1 s2. alloc_blocks sample_sb 1 0 sample_state = (Ok 17, s1) \<and> free_block sample_sb 17 s1 = (Ok (), s2) \<and>
     f_gdt s2 = [sample_gd]"
proof -
  obtain s1 where s1: "alloc_blocks sample_sb 1 0 sample_state = (Ok 17, s1)" and like: "sample_like (f_dev s1)"
    using sample_alloc by blast
  obtain grp start where "allocated_in sample_sb 1 sample_state 17 s1 grp start"
    using alloc_blocks_spec[OF sample_sb_ok sample_state_inv _ s1] by auto
  then obtain bm where bm: "bm_load (f_dev s1) sample_sb (f_gdt s1) 0 = Ok bm" "bm_bit bm 17"
    and gdt: "f_gdt s1 = [sample_gd\<lparr>gd_free_blocks_count := adjust_count (gd_free_blocks_count sample_gd) (- 1)\<rparr>]"
    by (auto simp: allocated_in_def sample_state_def wadd_def wmul_def)
  obtain s2 where s2: "free_block sample_sb 17 s1 = (Ok (), s2)"
    using sample_free[OF like gdt _ _ bm] by (auto simp: sample_gd_def)
  have "f_gdt s2 = [sample_gd]"
    using free_undoes_alloc[OF sample_sb_ok sample_state_inv _ _ _ s1 s2, of "sample_block 3"] sample_bm_load
    by (simp add: sample_state_def)
  then show ?thesis using s1 s2 by blast
qed

end
