(* ===== verification/Journal_Recovery.thy ===== *)
theory Journal_Recovery
  imports Sample_Image Alloc_Sound
begin

text \<open>
  Logging and replay fit together: what \<open>commit\<close> of \<open>Journal_Writer\<close> appends to the log is
  what the scan of \<open>Journal_Replay\<close> applies. The log is seen as an array of blocks over a
  device without faults.
\<close>

section \<open>Blocks of a device without faults\<close>

definition good_disk :: "disk \<Rightarrow> bool" where
  "good_disk d \<longleftrightarrow> wf_disk d \<and> (\<forall>i. \<not> read_fails d i \<and> \<not> write_fails d i)"

definition in_disk :: "superblock \<Rightarrow> disk \<Rightarrow> nat \<Rightarrow> bool" where
  "in_disk sb d p \<longleftrightarrow> (p + 1) * spb sb \<le> sector_count d"

lemma good_disk_shape: "good_disk d \<Longrightarrow> same_shape d d' \<Longrightarrow> good_disk d'"
  by (simp add: good_disk_def same_shape_def)

lemma in_disk_shape: "same_shape d d' \<Longrightarrow> in_disk sb d' p = in_disk sb d p"
  by (simp add: in_disk_def same_shape_def)

lemma block_place:
  assumes "good_disk d" and "in_disk sb d p"
  shows "wmul 64 p (spb sb) = p * spb sb"
proof -
  have "p * spb sb \<le> sector_count d" using assms(2) by (simp add: in_disk_def)
  also have "sector_count d < 2 ^ 64" using assms(1) by (simp add: good_disk_def wf_disk_def)
  finally show ?thesis by (simp add: wmul_def)
qed

lemma block_store:
  assumes "sb_ok sb" and "good_disk d" and "in_disk sb d p" and "length data = sb_block_size sb"
  shows "\<exists>d'. write_sectors (wmul 64 p (spb sb)) data d = (Ok (), d') \<and> same_shape d d' \<and>
    (\<forall>q. in_disk sb d q \<longrightarrow>
       read_phys_block d' sb q = (if q = p then Ok data else read_phys_block d sb q))"
proof -
  have wf: "wf_disk d" using assms(2) by (simp add: good_disk_def)
  have n: "length data = 512 * spb sb" "0 < spb sb"
    using sb_ok_block_size(4,5)[OF assms(1)] assms(4) by linarith+
  have inside: "q * spb sb + spb sb \<le> sector_count d" if "in_disk sb d q" for q
    using that by (simp add: in_disk_def)
  have small: "sector_count d \<le> 2 ^ 64" using wf by (simp add: wf_disk_def)
  let ?d' = "store_run (p * spb sb) data d"
  have w: "write_sectors (p * spb sb) data d = (Ok (), ?d')"
    using write_sectors_Ok_iff[OF wf n] inside[OF assms(3)] assms(2) by (simp add: writable_def good_disk_def)
  have shape: "same_shape d ?d'" using store_run_same_shape[OF wf n(1)] inside[OF assms(3)] by simp
  have "read_phys_block ?d' sb q = (if q = p then Ok data else read_phys_block d sb q)" if q: "in_disk sb d q" for q
  proof (cases "q = p")
    case True
    have "read_sectors ?d' (p * spb sb) (spb sb) = Ok data"
      by (rule read_after_write_same[OF wf n w]) (use inside[OF assms(3)] assms(2) in \<open>simp add: readable_def good_disk_def\<close>)
    then show ?thesis using True block_place[OF assms(2) q] by (simp add: read_phys_block_def)
  next
    case False
    have "q * spb sb + spb sb \<le> p * spb sb \<or> p * spb sb + spb sb \<le> q * spb sb"
    proof (cases "q < p")
      case True
      then have "(q + 1) * spb sb \<le> p * spb sb" by (intro mult_le_mono1) simp
      then show ?thesis by simp
    next
      case nless: False
      with False have "(p + 1) * spb sb \<le> q * spb sb" by (intro mult_le_mono1) simp
      then show ?thesis by simp
    qed
    then have "read_sectors ?d' (q * spb sb) (spb sb) = read_sectors d (q * spb sb) (spb sb)"
      by (rule read_after_write_other[OF wf n w]) (use inside[OF q] small in linarith)
    then show ?thesis using False block_place[OF assms(2) q] by (simp add: read_phys_block_def)
  qed
  then show ?thesis using w shape block_place[OF assms(2,3)] by auto
qed

section \<open>The log as an array\<close>

text \<open>A writer and a journal of the same log, on a device that can hold it.\<close>

definition log_ready :: "superblock \<Rightarrow> journal \<Rightarrow> jstate \<Rightarrow> bool" where
  "log_ready sb jn s \<longleftrightarrow> sb_ok sb \<and> good_disk (js_dev s) \<and> distinct (jn_blocks jn) \<and>
     (\<forall>p \<in> set (jn_blocks jn). in_disk sb (js_dev s) p) \<and>
     jw_journal_blocks (js_w s) = jn_blocks jn \<and> jw_block_size (js_w s) = sb_block_size sb \<and>
     jw_first_usable_block (js_w s) = jsb_first_usable_block (jn_sb jn) \<and>
     jw_total_journal_blocks (js_w s) = jsb_total_blocks (jn_sb jn) \<and>
     jsb_first_usable_block (jn_sb jn) < jsb_total_blocks (jn_sb jn) \<and>
     jsb_total_blocks (jn_sb jn) \<le> length (jn_blocks jn) \<and> jsb_total_blocks (jn_sb jn) < 2 ^ 32 \<and>
     jsb_first_usable_block (jn_sb jn) \<le> jw_write_head (js_w s) \<and>
     jw_write_head (js_w s) < jsb_total_blocks (jn_sb jn) \<and> length (jw_journal_uuid (js_w s)) = 16"

abbreviation log_at :: "superblock \<Rightarrow> journal \<Rightarrow> disk \<Rightarrow> nat \<Rightarrow> (journal_error, byte list) res" where
  "log_at sb jn d j \<equiv> journal_read_block d sb jn j"

lemma advance_head:
  assumes "log_ready sb jn s"
  shows "jw_write_head (advance_write_head (js_w s)) = advance_jblock (jw_write_head (js_w s)) jn"
  using assms by (simp add: advance_write_head_def advance_jblock_def Let_def log_ready_def)

lemma advance_jblock_range:
  "jsb_first_usable_block (jn_sb jn) < jsb_total_blocks (jn_sb jn) \<Longrightarrow>
   jsb_first_usable_block (jn_sb jn) \<le> j \<Longrightarrow> j < jsb_total_blocks (jn_sb jn) \<Longrightarrow>
   jsb_total_blocks (jn_sb jn) < 2 ^ 32 \<Longrightarrow>
   jsb_first_usable_block (jn_sb jn) \<le> advance_jblock j jn \<and> advance_jblock j jn < jsb_total_blocks (jn_sb jn)"
  by (auto simp: advance_jblock_def Let_def)

text \<open>One write to the log changes one cell, moves the head on, and leaves every other block alone.\<close>

lemma write_to_journal_log:
  assumes "log_ready sb jn s"
  shows "\<exists>s'. write_to_journal data s = (Ok (), s') \<and> log_ready sb jn s' \<and>
    same_shape (js_dev s) (js_dev s') \<and> js_w s' = advance_write_head (js_w s) \<and>
    log_at sb jn (js_dev s') (jw_write_head (js_w s)) = Ok (resize0 (sb_block_size sb) data) \<and>
    (\<forall>j. j \<noteq> jw_write_head (js_w s) \<longrightarrow> log_at sb jn (js_dev s') j = log_at sb jn (js_dev s) j) \<and>
    (\<forall>q. in_disk sb (js_dev s) q \<and> q \<notin> set (jn_blocks jn) \<longrightarrow>
       read_phys_block (js_dev s') sb q = read_phys_block (js_dev s) sb q)"
proof -
  let ?h = "jw_write_head (js_w s)" and ?data = "resize0 (sb_block_size sb) data"
  note r = assms[unfolded log_ready_def]
  have h: "?h < length (jn_blocks jn)" using r by linarith
  let ?p = "jn_blocks jn ! ?h"
  have p: "in_disk sb (js_dev s) ?p" using r h by simp
  obtain d' where w: "write_sectors (wmul 64 ?p (spb sb)) ?data (js_dev s) = (Ok (), d')"
    and shape: "same_shape (js_dev s) d'"
    and blocks: "\<And>q. in_disk sb (js_dev s) q \<Longrightarrow>
       read_phys_block d' sb q = (if q = ?p then Ok ?data else read_phys_block (js_dev s) sb q)"
    using block_store[OF _ _ p, of ?data] r by auto
  let ?s' = "s\<lparr>js_dev := d', js_w := advance_write_head (js_w s)\<rparr>"
  have "write_to_journal data s = (Ok (), ?s')"
    using w h r by (simp add: write_to_journal_def journal_block_addr_def sbind_def smap_err_def js_on_dev_def)
  moreover have "log_ready sb jn ?s'"
  proof -
    have "jsb_first_usable_block (jn_sb jn) \<le> jw_write_head (advance_write_head (js_w s)) \<and>
        jw_write_head (advance_write_head (js_w s)) < jsb_total_blocks (jn_sb jn)"
      unfolding advance_head[OF assms] using r by (intro advance_jblock_range) simp_all
    then show ?thesis
      using r shape good_disk_shape in_disk_shape[OF shape, of sb]
      by (auto simp: log_ready_def advance_write_head_def Let_def)
  qed
  moreover have "log_at sb jn d' ?h = Ok ?data"
    using h blocks[OF p] by (simp add: journal_read_block_def journal_block_addr_def)
  moreover have "log_at sb jn d' j = log_at sb jn (js_dev s) j" if "j \<noteq> ?h" for j
  proof (cases "j < length (jn_blocks jn)")
    case True
    then have "jn_blocks jn ! j \<noteq> ?p" using r h that by (simp add: nth_eq_iff_index_eq)
    then show ?thesis using True blocks[of "jn_blocks jn ! j"] r by (simp add: journal_read_block_def journal_block_addr_def)
  qed (simp add: journal_read_block_def journal_block_addr_def)
  moreover have "read_phys_block d' sb q = read_phys_block (js_dev s) sb q"
    if "in_disk sb (js_dev s) q" "q \<notin> set (jn_blocks jn)" for q
    using blocks[OF that(1)] that(2) h by (auto simp: in_set_conv_nth)
  ultimately show ?thesis using shape by (intro exI[of _ ?s']) simp
qed

section \<open>Runs of log blocks\<close>

text \<open>The cell \<open>i\<close> steps after \<open>j\<close> round the log.\<close>

definition cell :: "journal \<Rightarrow> nat \<Rightarrow> nat \<Rightarrow> nat" where
  "cell jn j i = ((\<lambda>k. advance_jblock k jn) ^^ i) j"

definition log_size :: "journal \<Rightarrow> nat" where
  "log_size jn = jsb_total_blocks (jn_sb jn) - jsb_first_usable_block (jn_sb jn)"

lemma cell_0 [simp]: "cell jn j 0 = j"
  by (simp add: cell_def)

lemma cell_Suc: "cell jn j (Suc i) = cell jn (advance_jblock j jn) i"
  unfolding cell_def funpow.simps o_apply by (rule funpow_swap1)

lemma cell_step: "advance_jblock (cell jn j i) jn = cell jn j (Suc i)"
  by (simp add: cell_def)

lemma cell_eq:
  assumes "jsb_first_usable_block (jn_sb jn) \<le> j" and "j < jsb_total_blocks (jn_sb jn)"
    and "jsb_total_blocks (jn_sb jn) < 2 ^ 32"
  shows "cell jn j i = jsb_first_usable_block (jn_sb jn) +
    (j - jsb_first_usable_block (jn_sb jn) + i) mod log_size jn"
proof (induction i)
  case 0
  then show ?case using assms by (simp add: log_size_def)
next
  case (Suc i)
  define f t k where "f = jsb_first_usable_block (jn_sb jn)" and "t = jsb_total_blocks (jn_sb jn)"
    and "k = (j - f + i) mod (t - f)"
  have pos: "0 < t - f" using assms by (simp add: f_def t_def)
  have k: "k < t - f" using pos by (simp add: k_def)
  have ih: "cell jn j i = f + k" using Suc.IH by (simp add: f_def t_def k_def log_size_def)
  have "(j - f + Suc i) mod (t - f) = (if Suc k = t - f then 0 else Suc k)"
    by (simp add: k_def mod_Suc)
  moreover have "advance_jblock (f + k) jn = (if Suc k = t - f then f else f + Suc k)"
    using k assms(3) by (auto simp: advance_jblock_def Let_def f_def[symmetric] t_def[symmetric])
  ultimately show ?case
    using ih by (simp add: cell_step[symmetric] log_size_def f_def[symmetric] t_def[symmetric])
qed

lemma mod_shift_inj:
  assumes "i < n" and "k < n" and "(m + i) mod n = (m + k) mod (n :: nat)"
  shows "i = k"
proof -
  have m: "m mod n < n" using assms(1) by (intro mod_less_divisor) linarith
  have shift: "(m + i) mod n = (if m mod n + i < n then m mod n + i else m mod n + i - n)" if "i < n" for i
  proof -
    have "(m + i) mod n = (m mod n + i) mod n" by (simp add: mod_add_left_eq)
    moreover have "m mod n + i - n < n" using that m by linarith
    ultimately show ?thesis by (simp add: le_mod_geq)
  qed
  show ?thesis using assms(3) m assms(1,2) by (simp add: shift split: if_split_asm)
qed

lemma cell_inj:
  assumes "log_ready sb jn s" and "i < log_size jn" and "k < log_size jn"
    and "cell jn (jw_write_head (js_w s)) i = cell jn (jw_write_head (js_w s)) k"
  shows "i = k"
proof -
  note r = assms(1)[unfolded log_ready_def]
  define m where "m = jw_write_head (js_w s) - jsb_first_usable_block (jn_sb jn)"
  have e: "cell jn (jw_write_head (js_w s)) i = jsb_first_usable_block (jn_sb jn) + (m + i) mod log_size jn" for i
    unfolding m_def by (rule cell_eq) (use r in simp_all)
  have "(m + i) mod log_size jn = (m + k) mod log_size jn" using assms(4) by (simp add: e)
  then show ?thesis by (rule mod_shift_inj[OF assms(2,3)])
qed

lemma log_writes:
  assumes "log_ready sb jn s" and "length ds \<le> log_size jn"
  shows "\<exists>s'. sfor ds write_to_journal s = (Ok (), s') \<and> log_ready sb jn s' \<and>
    same_shape (js_dev s) (js_dev s') \<and>
    js_w s' = (js_w s)\<lparr>jw_write_head := cell jn (jw_write_head (js_w s)) (length ds)\<rparr> \<and>
    (\<forall>i < length ds. log_at sb jn (js_dev s') (cell jn (jw_write_head (js_w s)) i) =
       Ok (resize0 (sb_block_size sb) (ds ! i))) \<and>
    (\<forall>j. (\<forall>i < length ds. j \<noteq> cell jn (jw_write_head (js_w s)) i) \<longrightarrow>
       log_at sb jn (js_dev s') j = log_at sb jn (js_dev s) j) \<and>
    (\<forall>q. in_disk sb (js_dev s) q \<and> q \<notin> set (jn_blocks jn) \<longrightarrow>
       read_phys_block (js_dev s') sb q = read_phys_block (js_dev s) sb q)"
  using assms
proof (induction ds arbitrary: s)
  case Nil
  then show ?case by (auto simp: log_ready_def good_disk_def same_shape_refl)
next
  case (Cons d ds)
  let ?h = "jw_write_head (js_w s)"
  from write_to_journal_log[OF Cons.prems(1), of d] obtain s1 where
    1: "write_to_journal d s = (Ok (), s1)" "log_ready sb jn s1" "same_shape (js_dev s) (js_dev s1)"
      "js_w s1 = advance_write_head (js_w s)"
      "log_at sb jn (js_dev s1) ?h = Ok (resize0 (sb_block_size sb) d)"
    and other: "\<And>j. j \<noteq> ?h \<Longrightarrow> log_at sb jn (js_dev s1) j = log_at sb jn (js_dev s) j"
    and out: "\<And>q. in_disk sb (js_dev s) q \<Longrightarrow> q \<notin> set (jn_blocks jn) \<Longrightarrow>
       read_phys_block (js_dev s1) sb q = read_phys_block (js_dev s) sb q"
    by blast
  have h1: "jw_write_head (js_w s1) = advance_jblock ?h jn" using 1(4) advance_head[OF Cons.prems(1)] by simp
  have w1: "js_w s1 = (js_w s)\<lparr>jw_write_head := advance_jblock ?h jn\<rparr>"
    using h1 by (simp add: 1(4) advance_write_head_def Let_def)
  have "length ds \<le> log_size jn" using Cons.prems(2) by simp
  from Cons.IH[OF 1(2) this, unfolded h1 cell_Suc[symmetric]] obtain s2 where
    2: "sfor ds write_to_journal s1 = (Ok (), s2)" "log_ready sb jn s2" "same_shape (js_dev s1) (js_dev s2)"
      "js_w s2 = (js_w s1)\<lparr>jw_write_head := cell jn ?h (Suc (length ds))\<rparr>"
    and mine: "\<And>i. i < length ds \<Longrightarrow> log_at sb jn (js_dev s2) (cell jn ?h (Suc i)) =
        Ok (resize0 (sb_block_size sb) (ds ! i))"
    and other2: "\<And>j. (\<And>i. i < length ds \<Longrightarrow> j \<noteq> cell jn ?h (Suc i)) \<Longrightarrow>
        log_at sb jn (js_dev s2) j = log_at sb jn (js_dev s1) j"
    and out2: "\<And>q. in_disk sb (js_dev s1) q \<Longrightarrow> q \<notin> set (jn_blocks jn) \<Longrightarrow>
       read_phys_block (js_dev s2) sb q = read_phys_block (js_dev s1) sb q"
    by blast
  have first: "log_at sb jn (js_dev s2) ?h = Ok (resize0 (sb_block_size sb) d)"
  proof -
    have "?h \<noteq> cell jn ?h (Suc i)" if "i < length ds" for i
      using cell_inj[OF Cons.prems(1), of 0 "Suc i"] that Cons.prems(2) by auto
    from other2[OF this] 1(5) show ?thesis by simp
  qed
  show ?case
  proof (intro exI[of _ s2] conjI allI impI)
    show "sfor (d # ds) write_to_journal s = (Ok (), s2)" using 1(1) 2(1) by (simp add: sbind_Ok)
    show "log_ready sb jn s2" "same_shape (js_dev s) (js_dev s2)"
      using 2(2) same_shape_trans[OF 1(3) 2(3)] by simp_all
    show "js_w s2 = (js_w s)\<lparr>jw_write_head := cell jn ?h (length (d # ds))\<rparr>" by (simp add: 2(4) w1)
    show "log_at sb jn (js_dev s2) (cell jn ?h i) = Ok (resize0 (sb_block_size sb) ((d # ds) ! i))"
      if "i < length (d # ds)" for i
      using that first mine by (cases i) auto
    show "log_at sb jn (js_dev s2) j = log_at sb jn (js_dev s) j"
      if away: "\<forall>i < length (d # ds). j \<noteq> cell jn ?h i" for j
    proof -
      have "j \<noteq> ?h" using away by auto
      moreover have "j \<noteq> cell jn ?h (Suc i)" if "i < length ds" for i using away that by auto
      ultimately show ?thesis using other other2 by simp
    qed
    show "read_phys_block (js_dev s2) sb q = read_phys_block (js_dev s) sb q"
      if "in_disk sb (js_dev s) q \<and> q \<notin> set (jn_blocks jn)" for q
      using that out out2 in_disk_shape[OF 1(3)] by simp
  qed
qed

section \<open>The descriptor block\<close>

definition tag_word :: "nat \<Rightarrow> bool \<Rightarrow> nat" where
  "tag_word i lst = (if i > 0 then TF_SAME_UUID else 0) OR (if lst then TF_LAST_TAG else 0)"

text \<open>The tags of the blocks are in the buffer from \<open>off\<close>, the first one followed by the UUID.\<close>

primrec tags_at :: "(nat \<times> byte list) list \<Rightarrow> nat \<Rightarrow> nat \<Rightarrow> byte list \<Rightarrow> bool" where
  "tags_at [] i off buf \<longleftrightarrow> True"
| "tags_at (b # bs) i off buf \<longleftrightarrow> off + 12 \<le> length buf \<and>
     bytes_at off 12 buf = tag_bytes (fst b) (tag_word i (bs = [])) \<and>
     tags_at bs (Suc i) (off + 12 + (if i = 0 then 16 else 0)) buf"

lemma length_tag_bytes [simp]: "length (tag_bytes b flags) = 12"
  by (simp add: tag_bytes_def)

lemma descriptor_tags_spec:
  assumes "length (jw_journal_uuid w) = 16"
  shows "off + 12 * length bs + (if i = 0 then 16 else 0) \<le> length buf \<Longrightarrow>
    \<exists>buf'. descriptor_tags w bs i off buf = Ok buf' \<and> same_upto off buf buf' \<and> tags_at bs i off buf'"
proof (induction bs arbitrary: i off buf)
  case Nil
  then show ?case by (simp add: same_upto_def)
next
  case (Cons b bs)
  let ?tag = "tag_bytes (fst b) (tag_word i (bs = []))"
  define off2 where "off2 = off + 12 + (if i = 0 then 16 else 0)"
  define buf1 where "buf1 = patch off ?tag buf"
  define buf2 where "buf2 = (if i = 0 then patch (off + 12) (jw_journal_uuid w) buf1 else buf1)"
  have fits: "off + 12 \<le> length buf" "i = 0 \<Longrightarrow> off + 28 \<le> length buf"
    using Cons.prems by (simp_all split: if_splits)
  have len1: "length buf1 = length buf" using fits by (simp add: buf1_def)
  have len2: "length buf2 = length buf" using fits len1 assms by (cases "i = 0") (simp_all add: buf2_def)
  have flags: "(if i > 0 then TF_SAME_UUID else 0) OR (if bs = [] then TF_LAST_TAG else 0) = tag_word i (bs = [])"
    by (simp add: tag_word_def)
  have step: "descriptor_tags w (b # bs) i off buf = descriptor_tags w bs (Suc i) off2 buf2"
    unfolding descriptor_tags.simps Let_def flags buf1_def[symmetric]
    using fits len1 assms by (cases "i = 0") (simp_all add: buf2_def off2_def patch_r_def add.commute)
  have "off2 + 12 * length bs + (if Suc i = 0 then 16 else 0) \<le> length buf2"
    using Cons.prems by (simp add: off2_def len2 split: if_splits)
  from Cons.IH[OF this] obtain buf' where
    r: "descriptor_tags w bs (Suc i) off2 buf2 = Ok buf'" "same_upto off2 buf2 buf'" "tags_at bs (Suc i) off2 buf'"
    by auto
  have pre: "same_upto off buf buf2"
    using fits assms unfolding buf2_def buf1_def
    by (auto intro: same_upto_patch same_upto_trans[OF same_upto_patch same_upto_patch])
  have "same_upto off buf2 buf'" using r(2) by (rule same_upto_less) (simp add: off2_def)
  then have frame: "same_upto off buf buf'" using pre same_upto_trans by blast
  have "bytes_at off 12 buf' = bytes_at off 12 buf2" using r(2) by (rule same_uptoD) (simp add: off2_def)
  also have "\<dots> = ?tag"
    using fits assms unfolding buf2_def buf1_def by (cases "i = 0") (simp_all add: buffer_simps)
  finally have "tags_at (b # bs) i off buf'"
    using r(3) frame fits by (simp add: off2_def same_upto_def)
  then show ?case using step r(1) frame by auto
qed

text \<open>What the replay reads of a tag that was written.\<close>

lemma tag_word_bits:
  "tag_word i lst AND TF_SAME_UUID = 0 \<longleftrightarrow> i = 0" "tag_word i lst AND TF_DELETED = 0"
  "tag_word i lst AND TF_ESCAPE = 0" "tag_word i lst AND TF_LAST_TAG = 0 \<longleftrightarrow> \<not> lst" "tag_word i lst < 256 ^ 2"
  by (cases "i = 0"; cases lst; simp add: tag_word_def TF_SAME_UUID_def TF_DELETED_def TF_ESCAPE_def TF_LAST_TAG_def)+

definition tag_fits :: "journal \<Rightarrow> nat \<Rightarrow> bool" where
  "tag_fits jn b \<longleftrightarrow> b < (if has_64bit (jn_sb jn) then 2 ^ 48 else 2 ^ 32)"

lemma tag_read:
  assumes "bytes_at off 12 buf = tag_bytes b (tag_word i lst)" and "tag_fits jn b"
  shows "tag_flags buf off = tag_word i lst" "tag_block jn buf off = b"
proof -
  have at: "bytes_at (off + o') n buf = bytes_at o' n (tag_bytes b (tag_word i lst))" if "o' + n \<le> 12" for o' n
    using that assms(1)[symmetric] by simp
  have at0: "bytes_at off 4 buf = bytes_at 0 4 (tag_bytes b (tag_word i lst))" using at[of 0 4] by simp
  have lo: "be32 off buf = b mod 2 ^ 32"
    by (simp add: be32_def at0) (simp add: tag_bytes_def bytes_at_def be_nat_to_be)
  have hi: "be16 (off + 6) buf = b div 2 ^ 32 mod 2 ^ 16"
    by (simp add: be16_def at) (simp add: tag_bytes_def bytes_at_def be_nat_to_be)
  show "tag_flags buf off = tag_word i lst"
    using tag_word_bits(5)[of i lst]
    by (simp add: tag_flags_def be16_def at) (simp add: tag_bytes_def bytes_at_def be_nat_to_be)
  show "tag_block jn buf off = b"
    using assms(2) unfolding tag_block_def lo hi tag_fits_def
    by (auto simp: hi_lo_def split: if_split_asm)
qed

lemma parse_tags_spec:
  assumes "bs \<noteq> []" and "tags_at bs i off buf" and "\<forall>b \<in> set bs. tag_fits jn (fst b)"
    and "\<forall>k < length bs. log_at sb jn d (cell jn j k) = Ok (ds ! k)"
    and "\<forall>k < length bs. length (ds ! k) = sb_block_size sb" and "length ds = length bs"
  shows "parse_tags d sb jn [] buf off j = Ok (cell jn j (length bs), zip (map fst bs) ds)"
  using assms
proof (induction bs arbitrary: i off j ds)
  case (Cons b bs)
  obtain x ds' where ds: "ds = x # ds'" using Cons.prems(6) by (cases ds) auto
  have tag: "off + 12 \<le> length buf" "bytes_at off 12 buf = tag_bytes (fst b) (tag_word i (bs = []))"
    "tags_at bs (Suc i) (off + 12 + (if i = 0 then 16 else 0)) buf"
    using Cons.prems(2) by simp_all
  have fits: "tag_fits jn (fst b)" using Cons.prems(3) by simp
  note rd = tag_read[OF tag(2) fits]
  have data: "log_at sb jn d j = Ok x" "length x = sb_block_size sb"
    using Cons.prems(4,5) by (auto simp: ds dest!: spec[of _ 0])
  have un: "unescaped (tag_word i (bs = [])) x = x" by (simp add: unescaped_def tag_word_bits)
  show ?case
  proof (cases "bs = []")
    case True
    have "ds' = []" using Cons.prems(6) by (simp add: ds True)
    then show ?thesis
      using tag(1) data un True
      by (subst parse_tags.simps) (simp add: rd Let_def tag_word_bits ds cell_Suc del: neq0_conv)
  next
    case False
    have tail: "\<forall>k < length bs. log_at sb jn d (cell jn (advance_jblock j jn) k) = Ok (ds' ! k)"
      "\<forall>k < length bs. length (ds' ! k) = sb_block_size sb"
      using Cons.prems(4,5) by (auto simp: ds cell_Suc[symmetric] dest: spec[of _ "Suc _"])
    have "parse_tags d sb jn [] buf (off + 12 + (if i = 0 then 16 else 0)) (advance_jblock j jn) =
        Ok (cell jn (advance_jblock j jn) (length bs), zip (map fst bs) ds')"
      by (rule Cons.IH[OF False tag(3) _ tail]) (use Cons.prems(3,6) in \<open>simp_all add: ds\<close>)
    then show ?thesis
      using tag(1) data un False
      by (subst parse_tags.simps) (simp add: rd Let_def tag_word_bits ds cell_Suc del: neq0_conv)
  qed
qed simp

section \<open>Header and commit block\<close>

lemma header_written:
  assumes "12 \<le> length buf" and "bytes_at 0 12 buf = build_block_header JOURNAL_MAGIC bt seq"
    and "bt < 2 ^ 32" and "seq < 2 ^ 32"
  shows "jheader_of buf = \<lparr>jh_magic = JOURNAL_MAGIC, jh_blocktype = bt, jh_sequence = seq\<rparr>"
proof -
  have at: "bytes_at o' n buf = bytes_at o' n (build_block_header JOURNAL_MAGIC bt seq)" if "o' + n \<le> 12" for o' n
    using that assms(2)[symmetric] by simp
  show ?thesis using assms(3,4)
    by (simp add: jheader_of_def be32_def at) (simp add: build_block_header_def bytes_at_def be_nat_to_be JOURNAL_MAGIC_def)
qed

lemma length_header [simp]: "length (build_block_header m bt seq) = 12"
  by (simp add: build_block_header_def)

lemma descriptor_block_spec:
  assumes "length (jw_journal_uuid w) = 16" and "28 + 12 * length bs \<le> jw_block_size w" and "seq < 2 ^ 32"
  shows "\<exists>buf. descriptor_block w bs seq = Ok buf \<and> length buf = jw_block_size w \<and>
    jheader_of buf = \<lparr>jh_magic = JOURNAL_MAGIC, jh_blocktype = BT_DESCRIPTOR, jh_sequence = seq\<rparr> \<and>
    tags_at bs 0 12 buf"
proof -
  let ?hd = "build_block_header JOURNAL_MAGIC BT_DESCRIPTOR seq"
  let ?buf = "patch 0 ?hd (replicate (jw_block_size w) 0)"
  have len: "length ?buf = jw_block_size w" using assms(2) by simp
  have "12 + 12 * length bs + (if (0::nat) = 0 then 16 else 0) \<le> length ?buf" using assms(2) len by simp
  from descriptor_tags_spec[OF assms(1) this] obtain buf where
    r: "descriptor_tags w bs 0 12 ?buf = Ok buf" "same_upto 12 ?buf buf" "tags_at bs 0 12 buf" by blast
  have "bytes_at 0 12 buf = bytes_at 0 12 ?buf" using r(2) by (rule same_uptoD) simp
  then have "bytes_at 0 12 buf = ?hd" using assms(2) by (simp add: buffer_simps)
  moreover have "length buf = jw_block_size w" using r(2) len by (simp add: same_upto_def)
  ultimately show ?thesis
    using r(1,3) assms(2,3) header_written[of buf BT_DESCRIPTOR seq]
    by (simp add: descriptor_block_def patch_r_def BT_DESCRIPTOR_def)
qed

lemma commit_block_spec:
  assumes "16 \<le> jw_block_size w" and "seq < 2 ^ 32"
  shows "\<exists>buf. commit_block w seq = Ok buf \<and> length buf = jw_block_size w \<and> is_commit_block buf seq"
proof -
  let ?hd = "build_block_header JOURNAL_MAGIC BT_COMMIT seq"
  let ?buf = "patch 0 ?hd (replicate (jw_block_size w) 0)"
  let ?crc = "to_le 4 (crc32c_commit (jw_journal_uuid w) seq)"
  define buf where "buf = (if jw_has_csum_v3 w then patch 12 ?crc ?buf else ?buf)"
  have r: "commit_block w seq = Ok buf" "length buf = jw_block_size w"
    using assms(1) by (simp_all add: commit_block_def buf_def patch_r_def)
  have "bytes_at 0 12 buf = ?hd" using assms(1) by (simp add: buf_def buffer_simps)
  then have "jheader_of buf = \<lparr>jh_magic = JOURNAL_MAGIC, jh_blocktype = BT_COMMIT, jh_sequence = seq\<rparr>"
    using assms r(2) by (intro header_written) (simp_all add: BT_COMMIT_def)
  then show ?thesis using r assms(1) by (simp add: is_commit_block_def)
qed

section \<open>Applying what was logged\<close>

lemma apply_pending_spec:
  assumes "sb_ok sb"
  shows "good_disk d \<Longrightarrow> distinct (map fst ps) \<Longrightarrow>
    \<forall>e \<in> set ps. in_disk sb d (fst e) \<and> length (snd e) = sb_block_size sb \<Longrightarrow>
    \<exists>d'. apply_pending sb ps d = (Ok (), d') \<and> same_shape d d' \<and>
      (\<forall>q. in_disk sb d q \<longrightarrow> read_phys_block d' sb q =
         (case map_of ps q of Some x \<Rightarrow> Ok x | None \<Rightarrow> read_phys_block d sb q))"
proof (induction ps arbitrary: d)
  case Nil
  then show ?case by (simp add: apply_pending_def good_disk_def same_shape_refl)
next
  case (Cons e ps)
  from block_store[OF assms Cons.prems(1), of "fst e" "snd e"] Cons.prems(3) obtain d1 where
    1: "write_sectors (wmul 64 (fst e) (spb sb)) (snd e) d = (Ok (), d1)" "same_shape d d1"
      "\<And>q. in_disk sb d q \<Longrightarrow> read_phys_block d1 sb q = (if q = fst e then Ok (snd e) else read_phys_block d sb q)"
    by auto
  have "\<exists>d'. apply_pending sb ps d1 = (Ok (), d') \<and> same_shape d1 d' \<and>
      (\<forall>q. in_disk sb d1 q \<longrightarrow> read_phys_block d' sb q =
         (case map_of ps q of Some x \<Rightarrow> Ok x | None \<Rightarrow> read_phys_block d1 sb q))"
    by (rule Cons.IH) (use Cons.prems good_disk_shape[OF _ 1(2)] in_disk_shape[OF 1(2)] in auto)
  then obtain d2 where 2: "apply_pending sb ps d1 = (Ok (), d2)" "same_shape d1 d2"
      "\<And>q. in_disk sb d q \<Longrightarrow> read_phys_block d2 sb q =
         (case map_of ps q of Some x \<Rightarrow> Ok x | None \<Rightarrow> read_phys_block d1 sb q)"
    by (auto simp: in_disk_shape[OF 1(2)])
  have miss: "map_of ps (fst e) = None" using Cons.prems(2) by (simp add: map_of_eq_None_iff)
  have "read_phys_block d2 sb q = (case map_of (e # ps) q of Some x \<Rightarrow> Ok x | None \<Rightarrow> read_phys_block d sb q)"
    if "in_disk sb d q" for q
    using 2(3)[OF that] 1(3)[OF that] miss by (cases e) (auto split: option.split)
  then show ?case
    using 1(1) 2(1) same_shape_trans[OF 1(2) 2(2)]
    by (intro exI[of _ d2]) (simp add: apply_pending_def sbind_def smap_err_def)
qed

section \<open>A logged transaction is replayed\<close>

lemma commit_block_head: "commit_block (w\<lparr>jw_write_head := h\<rparr>) seq = commit_block w seq"
  by (cases "jw_has_csum_v3 w") (simp_all add: commit_block_def)

lemma map_of_map_snd: "map_of (map (\<lambda>e. (fst e, f (snd e))) xs) q = map_option f (map_of xs q)"
  by (induction xs) auto

lemma length_escaped [simp]: "length (escaped data) = length data"
  by (simp add: escaped_def)

text \<open>What a transaction needs to fit one descriptor block and the log.\<close>

definition loggable :: "superblock \<Rightarrow> journal \<Rightarrow> disk \<Rightarrow> transaction \<Rightarrow> bool" where
  "loggable sb jn d txn \<longleftrightarrow> txn_blocks txn \<noteq> [] \<and> txn_revoked txn = [] \<and> txn_ok txn \<and>
     txn_sequence txn < 2 ^ 32 \<and> 28 + 12 * length (txn_blocks txn) \<le> sb_block_size sb \<and>
     length (txn_blocks txn) + 2 \<le> log_size jn \<and>
     (\<forall>e \<in> set (txn_blocks txn). tag_fits jn (fst e) \<and> length (snd e) = sb_block_size sb \<and>
        in_disk sb d (fst e) \<and> fst e \<notin> set (jn_blocks jn))"

text \<open>The transaction is logged by one run of writes, whether they succeed or not.\<close>

lemma log_transaction_writes:
  assumes "txn_blocks txn \<noteq> []" and "txn_revoked txn = []"
    and "descriptor_block (js_w s) (txn_blocks txn) (txn_sequence txn) = Ok desc"
    and "commit_block (js_w s) (txn_sequence txn) = Ok com"
  shows "log_transaction txn s = sfor (desc # map (\<lambda>e. escaped (snd e)) (txn_blocks txn) @ [com]) write_to_journal s"
proof -
  let ?data = "map (\<lambda>e. escaped (snd e)) (txn_blocks txn)"
  have writer: "\<exists>h. js_w s' = (js_w s)\<lparr>jw_write_head := h\<rparr>" if "sfor ds write_to_journal s = (r, s')" for ds s s' r
    using that
  proof (induction ds arbitrary: s)
    case Nil
    then show ?case by (intro exI[of _ "jw_write_head (js_w s)"]) simp
  next
    case (Cons d ds)
    have one: "\<exists>h. js_w t = (js_w s)\<lparr>jw_write_head := h\<rparr>" if "write_to_journal d s = (q, t)" for q t
    proof (cases "journal_block_addr (jw_journal_blocks (js_w s)) (jw_write_head (js_w s))")
      case (Ok p)
      then show ?thesis using that
        by (auto simp: write_to_journal_def sbind_def smap_err_def js_on_dev_def advance_write_head_def Let_def
            split: res.split_asm prod.split_asm) (metis journal_writer.surjective journal_writer.update_convs)+
    qed (use that in \<open>auto simp: write_to_journal_def sbind_def intro!: exI[of _ "jw_write_head (js_w s)"]\<close>)
    obtain q t where t: "write_to_journal d s = (q, t)" by force
    obtain h where h: "js_w t = (js_w s)\<lparr>jw_write_head := h\<rparr>" using one[OF t] by blast
    show ?case
    proof (cases "q = Ok ()")
      case True
      then have "sfor ds write_to_journal t = (r, s')" using Cons.prems t by (simp add: sbind_def)
      from Cons.IH[OF this] h show ?thesis by auto
    next
      case False
      then have "s' = t" using Cons.prems t by (cases q) (simp_all add: sbind_def)
      then show ?thesis using h by blast
    qed
  qed
  have "log_transaction txn s = sbind (sfor (desc # ?data) write_to_journal) (\<lambda>_. write_commit_block (txn_sequence txn)) s"
    using assms(1-3)
    by (simp add: log_transaction_def write_descriptor_block_def sbind_assoc sfor_map write_data_block_def)
  also have "\<dots> = sbind (sfor (desc # ?data) write_to_journal) (\<lambda>_. write_to_journal com) s"
  proof -
    obtain q t where t: "sfor (desc # ?data) write_to_journal s = (q, t)" by force
    obtain h where "js_w t = (js_w s)\<lparr>jw_write_head := h\<rparr>" using writer[OF t] by blast
    then have "commit_block (js_w t) (txn_sequence txn) = Ok com" using assms(4) by (simp add: commit_block_head)
    then have "write_commit_block (txn_sequence txn) t = write_to_journal com t"
      by (simp add: write_commit_block_def sbind_def)
    then show ?thesis using t by (cases q) (simp_all add: sbind_def del: sfor.simps)
  qed
  also have "\<dots> = sfor ((desc # ?data) @ [com]) write_to_journal s"
    unfolding sfor_append by (simp add: sbind_def split: prod.split res.split)
  finally show ?thesis by simp
qed


lemma log_transaction_run:
  assumes "log_ready sb jn s" and "loggable sb jn (js_dev s) txn"
  obtains s' desc com where "log_transaction txn s = (Ok (), s')"
    and "sfor (desc # map (\<lambda>e. escaped (snd e)) (txn_blocks txn) @ [com]) write_to_journal s = (Ok (), s')"
    and "descriptor_block (js_w s) (txn_blocks txn) (txn_sequence txn) = Ok desc"
    and "commit_block (js_w s) (txn_sequence txn) = Ok com"
proof -
  note r = assms(1)[unfolded log_ready_def] and l = assms(2)[unfolded loggable_def]
  obtain desc where desc: "descriptor_block (js_w s) (txn_blocks txn) (txn_sequence txn) = Ok desc"
    using descriptor_block_spec[of "js_w s" "txn_blocks txn" "txn_sequence txn"] r l by auto
  obtain com where com: "commit_block (js_w s) (txn_sequence txn) = Ok com"
    using commit_block_spec[of "js_w s" "txn_sequence txn"] r l by auto
  have "length (desc # map (\<lambda>e. escaped (snd e)) (txn_blocks txn) @ [com]) \<le> log_size jn" using l by simp
  from log_writes[OF assms(1) this] obtain s'
    where "sfor (desc # map (\<lambda>e. escaped (snd e)) (txn_blocks txn) @ [com]) write_to_journal s = (Ok (), s')" by blast
  then show thesis using that[OF _ _ desc com] log_transaction_writes[of txn s desc com] l desc com by simp
qed

lemma log_transaction_head:
  assumes "log_ready sb jn s" and "loggable sb jn (js_dev s) txn" and "log_transaction txn s = (Ok (), s')"
  shows "jw_write_head (js_w s') = cell jn (jw_write_head (js_w s)) (length (txn_blocks txn) + 2)"
proof -
  obtain desc com where run: "sfor (desc # map (\<lambda>e. escaped (snd e)) (txn_blocks txn) @ [com]) write_to_journal s = (Ok (), s')"
    using log_transaction_run[OF assms(1,2)] assms(3) by (metis prod.inject)
  have "length (desc # map (\<lambda>e. escaped (snd e)) (txn_blocks txn) @ [com]) \<le> log_size jn"
    using assms(2) by (simp add: loggable_def)
  from log_writes[OF assms(1) this] run show ?thesis by auto
qed

section \<open>Replaying a log that is complete\<close>

definition usable :: "journal \<Rightarrow> nat \<Rightarrow> bool" where
  "usable jn j \<longleftrightarrow> jsb_first_usable_block (jn_sb jn) \<le> j \<and> j < jsb_total_blocks (jn_sb jn)"

text \<open>A journal whose log lies on the device.\<close>

definition log_there :: "superblock \<Rightarrow> journal \<Rightarrow> disk \<Rightarrow> bool" where
  "log_there sb jn d \<longleftrightarrow> sb_ok sb \<and> good_disk d \<and> distinct (jn_blocks jn) \<and>
     (\<forall>p \<in> set (jn_blocks jn). in_disk sb d p) \<and>
     jsb_first_usable_block (jn_sb jn) < jsb_total_blocks (jn_sb jn) \<and>
     jsb_total_blocks (jn_sb jn) \<le> length (jn_blocks jn) \<and> jsb_total_blocks (jn_sb jn) < 2 ^ 32"

text \<open>The blocks of the transaction are all in the log from \<open>h\<close> on, with a commit block behind them.\<close>

definition log_complete :: "superblock \<Rightarrow> journal \<Rightarrow> transaction \<Rightarrow> nat \<Rightarrow> disk \<Rightarrow> bool" where
  "log_complete sb jn txn h d \<longleftrightarrow> (let n = length (txn_blocks txn); seq = txn_sequence txn in
     (\<exists>desc. log_at sb jn d h = Ok desc \<and> 12 \<le> length desc \<and> tags_at (txn_blocks txn) 0 12 desc \<and>
        jheader_of desc = \<lparr>jh_magic = JOURNAL_MAGIC, jh_blocktype = BT_DESCRIPTOR, jh_sequence = seq\<rparr>) \<and>
     (\<forall>i < n. log_at sb jn d (cell jn h (Suc i)) = Ok (escaped (snd (txn_blocks txn ! i)))) \<and>
     (\<exists>com. log_at sb jn d (cell jn h (Suc n)) = Ok com \<and> is_commit_block com seq))"

lemma usable_cell:
  assumes "log_there sb jn d" and "usable jn h"
  shows "usable jn (cell jn h i)"
proof (induction i)
  case (Suc i)
  then show ?case
    using assms(1) advance_jblock_range[of jn "cell jn h i"] by (simp add: cell_step[symmetric] usable_def log_there_def)
qed (use assms(2) in simp)

lemma replay_complete_step:
  assumes "log_there sb jn d" and "loggable sb jn d txn" and "log_complete sb jn txn h d"
  shows "\<exists>d2. same_shape d d2 \<and>
    (\<forall>fuel. replay_loop (Suc fuel) sb jn (txn_sequence txn) h [] d =
       replay_loop fuel sb jn (wadd 32 (txn_sequence txn) 1) (cell jn h (length (txn_blocks txn) + 2)) [] d2) \<and>
    (\<forall>q. in_disk sb d q \<longrightarrow> read_phys_block d2 sb q = (case map_of (txn_blocks txn) q of
         Some data \<Rightarrow> Ok (escaped data) | None \<Rightarrow> read_phys_block d sb q))"
proof -
  note r = assms(1)[unfolded log_there_def] and l = assms(2)[unfolded loggable_def]
  let ?bs = "txn_blocks txn" and ?seq = "txn_sequence txn" and ?h1 = "advance_jblock h jn"
  define data where "data = map (\<lambda>e. escaped (snd e)) ?bs"
  obtain desc com where D: "log_at sb jn d h = Ok desc" "12 \<le> length desc" "tags_at ?bs 0 12 desc"
      "jheader_of desc = \<lparr>jh_magic = JOURNAL_MAGIC, jh_blocktype = BT_DESCRIPTOR, jh_sequence = ?seq\<rparr>"
    and cells: "\<forall>i < length ?bs. log_at sb jn d (cell jn ?h1 i) = Ok (data ! i)"
    and C: "log_at sb jn d (cell jn ?h1 (length ?bs)) = Ok com" "is_commit_block com ?seq"
    using assms(3) by (auto simp: log_complete_def Let_def cell_Suc data_def)
  let ?ps = "zip (map fst ?bs) data"
  have ps: "?ps = map (\<lambda>e. (fst e, escaped (snd e))) ?bs" by (simp add: data_def zip_map_map zip_same_conv_map)
  have "parse_tags d sb jn [] desc 12 ?h1 = Ok (cell jn ?h1 (length ?bs), ?ps)"
    by (rule parse_tags_spec[OF _ D(3) _ cells]) (use l in \<open>auto simp: data_def\<close>)
  then have parsed: "parse_descriptor_block d sb jn h [] = Ok (cell jn ?h1 (length ?bs), ?ps)"
    using D(1) by (simp add: parse_descriptor_block_def)
  obtain d2 where d2: "apply_pending sb ?ps d = (Ok (), d2)" "same_shape d d2"
      "\<And>q. in_disk sb d q \<Longrightarrow> read_phys_block d2 sb q =
         (case map_of ?ps q of Some x \<Rightarrow> Ok x | None \<Rightarrow> read_phys_block d sb q)"
    using apply_pending_spec[of sb d ?ps] r l by (auto simp: ps o_def txn_ok_def)
  have "map_of ?ps q = map_option escaped (map_of ?bs q)" for q
    unfolding ps by (rule map_of_map_snd)
  then have "read_phys_block d2 sb q = (case map_of ?bs q of Some data \<Rightarrow> Ok (escaped data) | None \<Rightarrow> read_phys_block d sb q)"
    if "in_disk sb d q" for q using d2(3)[OF that] by (simp split: option.split)
  moreover have "replay_loop (Suc fuel) sb jn ?seq h [] d =
       replay_loop fuel sb jn (wadd 32 ?seq 1) (cell jn h (length ?bs + 2)) [] d2" for fuel
    using D parsed C d2(1) by (simp add: sbind_Ok cell_Suc cell_step)
  ultimately show ?thesis using d2(2) by blast
qed

lemma log_ready_there: "log_ready sb jn s \<Longrightarrow> log_there sb jn (js_dev s)"
  by (simp add: log_ready_def log_there_def)

lemma logged_transaction_step:
  assumes "log_ready sb jn s" and "loggable sb jn (js_dev s) txn"
  shows "\<exists>s' d2. log_transaction txn s = (Ok (), s') \<and> same_shape (js_dev s) (js_dev s') \<and>
    same_shape (js_dev s') d2 \<and> log_ready sb jn s' \<and>
    (\<forall>fuel. replay_loop (Suc fuel) sb jn (txn_sequence txn) (jw_write_head (js_w s)) [] (js_dev s') =
       replay_loop fuel sb jn (wadd 32 (txn_sequence txn) 1) (jw_write_head (js_w s')) [] d2) \<and>
    (length (txn_blocks txn) + 2 < log_size jn \<longrightarrow>
       log_at sb jn d2 (jw_write_head (js_w s')) = log_at sb jn (js_dev s) (jw_write_head (js_w s'))) \<and>
    (\<forall>q. in_disk sb (js_dev s) q \<and> q \<notin> set (jn_blocks jn) \<longrightarrow>
       read_phys_block (js_dev s') sb q = read_phys_block (js_dev s) sb q \<and>
       read_phys_block d2 sb q = (case map_of (txn_blocks txn) q of
         Some data \<Rightarrow> Ok (escaped data) | None \<Rightarrow> read_phys_block (js_dev s) sb q))"
proof -
  note r = assms(1)[unfolded log_ready_def] and l = assms(2)[unfolded loggable_def]
  let ?h = "jw_write_head (js_w s)" and ?bs = "txn_blocks txn" and ?n = "length (txn_blocks txn)" and ?seq = "txn_sequence txn"
  obtain s' desc com where run: "log_transaction txn s = (Ok (), s')"
    "sfor (desc # map (\<lambda>e. escaped (snd e)) ?bs @ [com]) write_to_journal s = (Ok (), s')"
    and bufs: "descriptor_block (js_w s) ?bs ?seq = Ok desc" "commit_block (js_w s) ?seq = Ok com"
    using log_transaction_run[OF assms] by blast
  let ?ds = "desc # map (\<lambda>e. escaped (snd e)) ?bs @ [com]"
  have D: "length desc = sb_block_size sb" "tags_at ?bs 0 12 desc"
      "jheader_of desc = \<lparr>jh_magic = JOURNAL_MAGIC, jh_blocktype = BT_DESCRIPTOR, jh_sequence = ?seq\<rparr>"
    using descriptor_block_spec[of "js_w s" ?bs ?seq] bufs r l by auto
  have C: "length com = sb_block_size sb" "is_commit_block com ?seq"
    using commit_block_spec[of "js_w s" ?seq] bufs r l by auto
  have "length ?ds \<le> log_size jn" using l by simp
  from log_writes[OF assms(1) this] run(2) have
    ready: "log_ready sb jn s'" and shape: "same_shape (js_dev s) (js_dev s')" and
    w: "js_w s' = (js_w s)\<lparr>jw_write_head := cell jn ?h (length ?ds)\<rparr>" and
    cells: "\<And>i. i < length ?ds \<Longrightarrow> log_at sb jn (js_dev s') (cell jn ?h i) = Ok (resize0 (sb_block_size sb) (?ds ! i))" and
    away: "\<And>j. (\<And>i. i < length ?ds \<Longrightarrow> j \<noteq> cell jn ?h i) \<Longrightarrow>
       log_at sb jn (js_dev s') j = log_at sb jn (js_dev s) j" and
    out: "\<And>q. in_disk sb (js_dev s) q \<Longrightarrow> q \<notin> set (jn_blocks jn) \<Longrightarrow>
       read_phys_block (js_dev s') sb q = read_phys_block (js_dev s) sb q"
    by auto
  have "log_at sb jn (js_dev s') ?h = Ok desc" using cells[of 0] D(1) by simp
  moreover have "log_at sb jn (js_dev s') (cell jn ?h (Suc i)) = Ok (escaped (snd (?bs ! i)))" if "i < ?n" for i
    using cells[of "Suc i"] that l by (simp add: nth_append)
  moreover have "log_at sb jn (js_dev s') (cell jn ?h (Suc ?n)) = Ok com" using cells[of "Suc ?n"] C(1) by (simp add: nth_append)
  ultimately have "log_complete sb jn txn ?h (js_dev s')" using D C(2) l by (simp add: log_complete_def Let_def)
  moreover have "loggable sb jn (js_dev s') txn" using assms(2) in_disk_shape[OF shape, of sb] by (simp add: loggable_def)
  ultimately obtain d2 where d2: "same_shape (js_dev s') d2"
      "\<And>fuel. replay_loop (Suc fuel) sb jn ?seq ?h [] (js_dev s') = replay_loop fuel sb jn (wadd 32 ?seq 1) (cell jn ?h (?n + 2)) [] d2"
      "\<And>q. in_disk sb (js_dev s) q \<Longrightarrow> read_phys_block d2 sb q =
         (case map_of ?bs q of Some data \<Rightarrow> Ok (escaped data) | None \<Rightarrow> read_phys_block (js_dev s') sb q)"
    using replay_complete_step[OF log_ready_there[OF ready], unfolded in_disk_shape[OF shape]] by blast
  have head: "jw_write_head (js_w s') = cell jn ?h (?n + 2)" by (simp add: w)
  have "log_at sb jn d2 (cell jn ?h (?n + 2)) = log_at sb jn (js_dev s) (cell jn ?h (?n + 2))" if room: "?n + 2 < log_size jn"
  proof -
    let ?j = "cell jn ?h (?n + 2)"
    have "?j \<noteq> cell jn ?h i" if "i < length ?ds" for i
      using cell_inj[OF assms(1), of "?n + 2" i] that room by auto
    then have "log_at sb jn (js_dev s') ?j = log_at sb jn (js_dev s) ?j" by (rule away)
    moreover have j: "?j < length (jn_blocks jn)" using ready by (simp add: log_ready_def head)
    then have "read_phys_block d2 sb (jn_blocks jn ! ?j) = read_phys_block (js_dev s') sb (jn_blocks jn ! ?j)"
      using d2(3)[of "jn_blocks jn ! ?j"] r l by (auto split: option.split dest!: map_of_SomeD)
    ultimately show ?thesis using j by (simp add: journal_read_block_def journal_block_addr_def)
  qed
  then show ?thesis
    using run(1) shape d2 ready out unfolding head
    by (intro exI[of _ s'] exI[of _ d2]) (auto simp: head split: option.split)
qed

lemma block_readable:
  assumes "sb_ok sb" and "good_disk d" and "in_disk sb d p"
  shows "\<exists>data. read_phys_block d sb p = Ok data \<and> length data = sb_block_size sb"
proof -
  have wf: "wf_disk d" using assms(2) by (simp add: good_disk_def)
  have n: "0 < spb sb" using sb_ok_block_size(5)[OF assms(1)] by linarith
  have "readable d (p * spb sb) (spb sb)"
    using assms(2,3) by (simp add: readable_def good_disk_def in_disk_def)
  then have "read_sectors d (p * spb sb) (spb sb) = Ok (sector_run d (p * spb sb) (spb sb))"
    by (simp add: read_sectors_Ok_iff[OF wf n])
  then show ?thesis
    using read_block_length[OF assms(1) wf] block_place[OF assms(2,3)] by (simp add: read_phys_block_def)
qed

lemma mark_journal_clean_spec:
  assumes "sb_ok sb" and "good_disk d" and "\<not> flush_fails d" and "jn_blocks jn \<noteq> []" and "seq < 2 ^ 32"
    and "in_disk sb d (jn_blocks jn ! 0)" and "1024 \<le> sb_block_size sb"
  shows "\<exists>d' jblk. mark_journal_clean sb jn seq d = (Ok (), d') \<and>
    log_at sb jn d' 0 = Ok jblk \<and> be32 28 jblk = 0 \<and> be32 24 jblk = seq \<and>
    (\<forall>q. in_disk sb d q \<and> q \<noteq> jn_blocks jn ! 0 \<longrightarrow> read_phys_block d' sb q = read_phys_block d sb q)"
proof -
  let ?p = "jn_blocks jn ! 0"
  obtain data where rd: "read_phys_block d sb ?p = Ok data" and len: "length data = sb_block_size sb"
    using block_readable[OF assms(1,2,6)] by blast
  let ?new = "patch 24 (to_be 4 seq) (patch 28 (to_be 4 0) data)"
  have len': "length ?new = sb_block_size sb" using len assms(7) by simp
  obtain d1 where w: "write_sectors (wmul 64 ?p (spb sb)) ?new d = (Ok (), d1)" and shape: "same_shape d d1"
    and blocks: "\<And>q. in_disk sb d q \<Longrightarrow>
      read_phys_block d1 sb q = (if q = ?p then Ok ?new else read_phys_block d sb q)"
    using block_store[OF assms(1,2,6) len'] by blast
  let ?d' = "d1\<lparr>stable := sectors d1\<rparr>"
  have same: "read_phys_block ?d' sb q = read_phys_block d1 sb q" for q
  proof -
    have "read_loop ?d' t k = read_loop d1 t k" for t k
      by (induction k arbitrary: t) (simp_all add: read_sector_def)
    then show ?thesis by (simp add: read_phys_block_def read_sectors_def)
  qed
  have "mark_journal_clean sb jn seq d = (Ok (), ?d')"
    using assms(3,4,7) rd w shape len
    by (simp add: mark_journal_clean_def journal_block_addr_def read_phys_block_def sbind_def smap_err_def
        dev_flush_def same_shape_def Let_def split: res.splits)
  moreover have "log_at sb jn ?d' 0 = Ok ?new"
    using assms(4) blocks[OF assms(6)] by (simp add: journal_read_block_def journal_block_addr_def same)
  moreover have "be32 28 ?new = 0" "be32 24 ?new = seq"
    using len assms(5,7) by (simp_all add: be32_def buffer_simps)
  ultimately show ?thesis using blocks same by (intro exI[of _ ?d'] exI[of _ ?new]) auto
qed

lemma replay_marks_clean:
  assumes "log_there sb jn d" and "same_shape d0 d" and "\<not> flush_fails d" and "1024 \<le> sb_block_size sb" and "seq < 2 ^ 32"
    and "jsb_start_block (jn_sb jn) \<noteq> 0"
    and "\<And>fuel. replay_loop (Suc (k + fuel)) sb jn (jsb_start_sequence (jn_sb jn)) (jsb_start_block (jn_sb jn)) [] d0 = (Ok seq, d)"
  shows "\<exists>d'. (\<forall>fuel. replay (Suc (k + fuel)) sb jn d0 = (Ok (), d')) \<and>
    (\<forall>q. in_disk sb d0 q \<and> q \<notin> set (jn_blocks jn) \<longrightarrow> read_phys_block d' sb q = read_phys_block d sb q) \<and>
    (\<exists>jblk. log_at sb jn d' 0 = Ok jblk \<and> be32 28 jblk = 0)"
proof -
  note r = assms(1)[unfolded log_there_def]
  have ne: "jn_blocks jn \<noteq> []" using r by auto
  then have zero: "jn_blocks jn ! 0 \<in> set (jn_blocks jn)" by (auto intro: nth_mem)
  obtain d' jblk where d': "mark_journal_clean sb jn seq d = (Ok (), d')" "log_at sb jn d' 0 = Ok jblk" "be32 28 jblk = 0"
    "\<And>q. in_disk sb d q \<Longrightarrow> q \<noteq> jn_blocks jn ! 0 \<Longrightarrow> read_phys_block d' sb q = read_phys_block d sb q"
    using mark_journal_clean_spec[of sb d jn seq] r ne zero assms(3-5) by blast
  have "replay (Suc (k + fuel)) sb jn d0 = (Ok (), d')" for fuel
    using assms(6) assms(7)[of fuel] d'(1) by (simp add: replay_def is_clean_def sbind_Ok del: replay_loop.simps)
  moreover have "read_phys_block d' sb q = read_phys_block d sb q" if "in_disk sb d0 q" "q \<notin> set (jn_blocks jn)" for q
    using d'(4)[of q] that zero in_disk_shape[OF assms(2), of sb q] by metis
  ultimately show ?thesis using d'(2,3) by blast
qed

section \<open>Properties\<close>

definition header_matches :: "byte list \<Rightarrow> nat \<Rightarrow> bool" where
  "header_matches buf seq \<longleftrightarrow> 12 \<le> length buf \<and> jh_magic (jheader_of buf) = JOURNAL_MAGIC \<and>
     jh_sequence (jheader_of buf) = seq"

lemma logged_transaction_recovery:
  assumes "log_ready sb jn s" and "loggable sb jn (js_dev s) txn" and "\<not> flush_fails (js_dev s)"
    and "length (txn_blocks txn) + 2 < log_size jn" and "1024 \<le> sb_block_size sb"
    and "jsb_start_block (jn_sb jn) = jw_write_head (js_w s)" and "jsb_start_block (jn_sb jn) \<noteq> 0"
    and "jsb_start_sequence (jn_sb jn) = txn_sequence txn"
    and "log_at sb jn (js_dev s) (cell jn (jw_write_head (js_w s)) (length (txn_blocks txn) + 2)) = Ok stale"
    and "\<not> header_matches stale (wadd 32 (txn_sequence txn) 1)"
  shows "\<exists>s' d'. log_transaction txn s = (Ok (), s') \<and>
    (\<forall>e \<in> set (txn_blocks txn). read_phys_block (js_dev s') sb (fst e) = read_phys_block (js_dev s) sb (fst e)) \<and>
    (\<forall>fuel. replay (Suc (Suc fuel)) sb jn (js_dev s') = (Ok (), d')) \<and>
    (\<forall>e \<in> set (txn_blocks txn). read_phys_block d' sb (fst e) = Ok (escaped (snd e))) \<and>
    (\<forall>q. in_disk sb (js_dev s) q \<and> q \<notin> set (jn_blocks jn) \<and> q \<notin> fst ` set (txn_blocks txn) \<longrightarrow>
       read_phys_block d' sb q = read_phys_block (js_dev s) sb q) \<and>
    (\<exists>jblk. log_at sb jn d' 0 = Ok jblk \<and> be32 28 jblk = 0)"
proof -
  note r = assms(1)[unfolded log_ready_def] and l = assms(2)[unfolded loggable_def]
  obtain s' d2 where s': "log_transaction txn s = (Ok (), s')" and shape: "same_shape (js_dev s) (js_dev s')"
    and shape2: "same_shape (js_dev s') d2" and ready: "log_ready sb jn s'"
    and step: "\<And>fuel. replay_loop (Suc fuel) sb jn (txn_sequence txn) (jw_write_head (js_w s)) [] (js_dev s') =
       replay_loop fuel sb jn (wadd 32 (txn_sequence txn) 1) (jw_write_head (js_w s')) [] d2"
    and stop: "log_at sb jn d2 (jw_write_head (js_w s')) = log_at sb jn (js_dev s) (jw_write_head (js_w s'))"
    and blocks: "\<And>q. in_disk sb (js_dev s) q \<Longrightarrow> q \<notin> set (jn_blocks jn) \<Longrightarrow>
       read_phys_block (js_dev s') sb q = read_phys_block (js_dev s) sb q \<and>
       read_phys_block d2 sb q = (case map_of (txn_blocks txn) q of
         Some data \<Rightarrow> Ok (escaped data) | None \<Rightarrow> read_phys_block (js_dev s) sb q)"
    using logged_transaction_step[OF assms(1,2)] assms(4) by blast
  let ?seq = "wadd 32 (txn_sequence txn) 1"
  have head: "jw_write_head (js_w s') = cell jn (jw_write_head (js_w s)) (length (txn_blocks txn) + 2)"
    using log_transaction_head[OF assms(1,2) s'] .
  have stop2: "replay_loop (Suc fuel) sb jn ?seq (jw_write_head (js_w s')) [] d2 = (Ok ?seq, d2)" for fuel
    using assms(9,10) stop unfolding head[symmetric] by (auto simp: header_matches_def)
  have there: "log_there sb jn d2"
    using log_ready_there[OF ready] good_disk_shape[OF _ shape2] in_disk_shape[OF shape2, of sb] by (simp add: log_there_def)
  have "\<exists>d'. (\<forall>fuel. replay (Suc (1 + fuel)) sb jn (js_dev s') = (Ok (), d')) \<and>
    (\<forall>q. in_disk sb (js_dev s') q \<and> q \<notin> set (jn_blocks jn) \<longrightarrow> read_phys_block d' sb q = read_phys_block d2 sb q) \<and>
    (\<exists>jblk. log_at sb jn d' 0 = Ok jblk \<and> be32 28 jblk = 0)"
  proof (rule replay_marks_clean[OF there shape2])
    show "\<not> flush_fails d2" using assms(3) shape shape2 by (simp add: same_shape_def)
    show "?seq < 2 ^ 32" by (rule wadd_less)
    show "replay_loop (Suc (1 + fuel)) sb jn (jsb_start_sequence (jn_sb jn)) (jsb_start_block (jn_sb jn)) [] (js_dev s') = (Ok ?seq, d2)" for fuel
      using step[of "Suc fuel"] stop2[of fuel] assms(6,8) by (simp del: replay_loop.simps)
  qed (use assms(5,7) in simp_all)
  then obtain d' where d': "\<And>fuel. replay (Suc (Suc fuel)) sb jn (js_dev s') = (Ok (), d')"
    "\<exists>jblk. log_at sb jn d' 0 = Ok jblk \<and> be32 28 jblk = 0"
    "\<And>q. in_disk sb (js_dev s) q \<Longrightarrow> q \<notin> set (jn_blocks jn) \<Longrightarrow> read_phys_block d' sb q = read_phys_block d2 sb q"
    by (auto simp: in_disk_shape[OF shape])
  moreover have "read_phys_block d' sb (fst e) = Ok (escaped (snd e))"
    "read_phys_block (js_dev s') sb (fst e) = read_phys_block (js_dev s) sb (fst e)" if "e \<in> set (txn_blocks txn)" for e
  proof -
    have e: "in_disk sb (js_dev s) (fst e)" "fst e \<notin> set (jn_blocks jn)" "map_of (txn_blocks txn) (fst e) = Some (snd e)"
      using l that by (auto simp: txn_ok_def)
    then show "read_phys_block d' sb (fst e) = Ok (escaped (snd e))"
      "read_phys_block (js_dev s') sb (fst e) = read_phys_block (js_dev s) sb (fst e)"
      using blocks[OF e(1,2)] d'(3)[OF e(1,2)] by auto
  qed
  moreover have "read_phys_block d' sb q = read_phys_block (js_dev s) sb q"
    if "in_disk sb (js_dev s) q" "q \<notin> set (jn_blocks jn)" "q \<notin> fst ` set (txn_blocks txn)" for q
  proof -
    have "map_of (txn_blocks txn) q = None" using that(3) by (simp add: map_of_eq_None_iff)
    then show ?thesis using blocks[OF that(1,2)] d'(3)[OF that(1,2)] by auto
  qed
  ultimately show ?thesis using s' d'(1,2) by (intro exI[of _ s'] exI[of _ d']) blast
qed

text \<open>A journal of the sample image that has to be replayed from block 1, and a transaction of one block.\<close>

definition dirty_journal :: journal where
  "dirty_journal = sample_journal\<lparr>jn_sb := (jn_sb sample_journal)\<lparr>jsb_start_block := 1\<rparr>\<rparr>"

definition sample_log :: jstate where
  "sample_log = \<lparr>js_w = journal_writer_new dirty_journal, js_dev = sample_disk\<rparr>"

definition one_block :: "byte list \<Rightarrow> transaction" where
  "one_block data = (txn_new 1)\<lparr>txn_blocks := [(17, data)]\<rparr>"

lemma dirty_fields [simp]:
  "jn_blocks dirty_journal = [8..<16]" "jsb_first_usable_block (jn_sb dirty_journal) = 1"
  "jsb_total_blocks (jn_sb dirty_journal) = 8" "jsb_start_block (jn_sb dirty_journal) = 1"
  "jsb_start_sequence (jn_sb dirty_journal) = 1" "jsb_feature_incompat (jn_sb dirty_journal) = 0"
  "jsb_block_size (jn_sb dirty_journal) = 1024" "jsb_uuid (jn_sb dirty_journal) = replicate 16 0"
  "log_size dirty_journal = 7"
  by (simp_all add: dirty_journal_def sample_journal_def log_size_def)

lemma in_sample [simp]: "in_disk sample_sb sample_disk p \<longleftrightarrow> p < 24"
  by (auto simp: in_disk_def sample_disk_def)

lemma sample_log_fields [simp]:
  "js_dev sample_log = sample_disk" "jw_write_head (js_w sample_log) = 1"
  by (simp_all add: sample_log_def journal_writer_new_def is_clean_def)

lemma good_sample: "good_disk sample_disk" "\<not> flush_fails sample_disk"
  using wf_sample by (simp_all add: good_disk_def) (simp_all add: sample_disk_def)

lemma sample_log_ready: "log_ready sample_sb dirty_journal sample_log"
  using sample_sb_ok good_sample
  by (simp add: log_ready_def sample_log_def journal_writer_new_def is_clean_def)

lemma one_block_txn [simp]:
  "txn_blocks (one_block data) = [(17, data)]" "txn_sequence (one_block data) = 1"
  "txn_revoked (one_block data) = []"
  by (simp_all add: one_block_def txn_new_def)

lemma one_block_loggable: "length data = 1024 \<Longrightarrow> loggable sample_sb dirty_journal sample_disk (one_block data)"
  by (simp add: loggable_def txn_ok_def tag_fits_def has_64bit_def)

lemma sample_stale:
  "log_at sample_sb dirty_journal sample_disk (cell dirty_journal 1 3) = Ok (replicate 1024 0)"
  "\<not> header_matches (replicate 1024 0) 2"
proof -
  have "cell dirty_journal 1 3 = 4"
    by (simp add: cell_def eval_nat_numeral) (simp add: advance_jblock_def Let_def wadd_def)
  moreover have "read_sectors sample_disk 24 2 = Ok (replicate 1024 0)"
    using read_sample_block[of 24 12] by (simp add: sample_block_def)
  ultimately show "log_at sample_sb dirty_journal sample_disk (cell dirty_journal 1 3) = Ok (replicate 1024 0)"
    by (simp add: journal_read_block_def journal_block_addr_def read_phys_block_def wmul_def)
  show "\<not> header_matches (replicate 1024 0) 2"
    by (simp add: header_matches_def jheader_of_def be32_def be_nat_zeros JOURNAL_MAGIC_def)
qed

text \<open>
  C36. Data that starts with the journal's magic number is lost: the writer zeroes the first
  four bytes in the log and never sets the flag that tells the replay to put them back, so
  after recovery the block is there without them.
\<close>

theorem magic_data_not_restored:
  assumes "log_ready sb jn s" and "loggable sb jn (js_dev s) txn" and "\<not> flush_fails (js_dev s)"
    and "length (txn_blocks txn) + 2 < log_size jn" and "1024 \<le> sb_block_size sb"
    and "jsb_start_block (jn_sb jn) = jw_write_head (js_w s)" and "jsb_start_block (jn_sb jn) \<noteq> 0"
    and "jsb_start_sequence (jn_sb jn) = txn_sequence txn"
    and "log_at sb jn (js_dev s) (cell jn (jw_write_head (js_w s)) (length (txn_blocks txn) + 2)) = Ok stale"
    and "\<not> header_matches stale (wadd 32 (txn_sequence txn) 1)"
    and "(b, data) \<in> set (txn_blocks txn)" and "bytes_at 0 4 data = to_be 4 JOURNAL_MAGIC"
  shows "\<exists>s' d'. log_transaction txn s = (Ok (), s') \<and>
    (\<forall>fuel. replay (Suc (Suc fuel)) sb jn (js_dev s') = (Ok (), d')) \<and>
    read_phys_block d' sb b = Ok (patch 0 [0, 0, 0, 0] data) \<and> patch 0 [0, 0, 0, 0] data \<noteq> data"
proof -
  have "4 \<le> length data" using assms(12) by (metis length_bytes_at length_to_be min.cobounded2 minus_nat.diff_0)
  then have esc: "escaped data = patch 0 [0, 0, 0, 0] data" "bytes_at 0 4 (patch 0 [0, 0, 0, 0] data) = [0, 0, 0, 0]"
    using assms(12) by (simp_all add: escaped_def buffer_simps)
  have "be_nat (to_be 4 JOURNAL_MAGIC) \<noteq> be_nat [0, 0, 0, 0]"
    by (simp add: be_nat_to_be) (simp add: be_nat_def JOURNAL_MAGIC_def)
  then have "patch 0 [0, 0, 0, 0] data \<noteq> data" using esc(2) assms(12) by metis
  with logged_transaction_recovery[OF assms(1-10)] assms(11) esc(1) show ?thesis by fastforce
qed

theorem magic_data_not_restored_witness:
  "\<exists>s' d'. log_transaction (one_block (to_be 4 JOURNAL_MAGIC @ replicate 1020 7)) sample_log = (Ok (), s') \<and>
    replay 2 sample_sb dirty_journal (js_dev s') = (Ok (), d') \<and>
    read_phys_block d' sample_sb 17 = Ok (patch 0 [0, 0, 0, 0] (to_be 4 JOURNAL_MAGIC @ replicate 1020 7))"
proof -
  let ?data = "to_be 4 JOURNAL_MAGIC @ replicate 1020 7 :: byte list"
  have data: "bytes_at 0 4 ?data = to_be 4 JOURNAL_MAGIC" by (simp add: bytes_at_def)
  note fields = one_block_txn[of ?data]
  have "\<exists>s' d'. log_transaction (one_block ?data) sample_log = (Ok (), s') \<and>
    (\<forall>fuel. replay (Suc (Suc fuel)) sample_sb dirty_journal (js_dev s') = (Ok (), d')) \<and>
    read_phys_block d' sample_sb 17 = Ok (patch 0 [0, 0, 0, 0] ?data)"
    using magic_data_not_restored[OF sample_log_ready _ _ _ _ _ _ _ _ _ _ data, of "one_block ?data" "replicate 1024 0" 17]
      one_block_loggable[of ?data] sample_stale[unfolded numeral_3_eq_3 numeral_2_eq_2] good_sample
    by (simp add: fields) blast
  then show ?thesis by (auto simp: numeral_2_eq_2)
qed

section \<open>A replay without end\<close>

text \<open>
  C37. A log in which every usable block is a revoke block of the sequence number that is
  expected keeps the replay going round for ever, wherever it starts and however many turns it
  gets: a revoke block does not advance the sequence number, and nothing else ends the loop.
\<close>

theorem revoke_log_never_ends:
  assumes "jsb_first_usable_block (jn_sb jn) < jsb_total_blocks (jn_sb jn)" and "jsb_total_blocks (jn_sb jn) < 2 ^ 32"
    and "\<forall>j. jsb_first_usable_block (jn_sb jn) \<le> j \<and> j < jsb_total_blocks (jn_sb jn) \<longrightarrow>
      (\<exists>buf. log_at sb jn d j = Ok buf \<and> header_matches buf seq \<and> jh_blocktype (jheader_of buf) = BT_REVOKE)"
    and "jsb_first_usable_block (jn_sb jn) \<le> j" and "j < jsb_total_blocks (jn_sb jn)"
  shows "replay_loop fuel sb jn seq j revoked d = (Diverge, d)"
  using assms(4,5)
proof (induction fuel arbitrary: j revoked)
  case (Suc fuel)
  obtain buf where buf: "log_at sb jn d j = Ok buf" "header_matches buf seq" "jh_blocktype (jheader_of buf) = BT_REVOKE"
    using assms(3) Suc.prems by blast
  have "jsb_first_usable_block (jn_sb jn) \<le> advance_jblock j jn" "advance_jblock j jn < jsb_total_blocks (jn_sb jn)"
    using advance_jblock_range[OF assms(1) Suc.prems assms(2)] by simp_all
  from Suc.IH[OF this] buf show ?case
    by (simp add: header_matches_def Let_def BT_REVOKE_def BT_DESCRIPTOR_def BT_COMMIT_def)
qed simp

definition revoke_image :: "byte list" where
  "revoke_image = build_block_header JOURNAL_MAGIC BT_REVOKE 1 @ replicate 1012 0"

lemma revoke_image_fields:
  "length revoke_image = 1024" "header_matches revoke_image 1" "jh_blocktype (jheader_of revoke_image) = BT_REVOKE"
proof -
  show len: "length revoke_image = 1024" by (simp add: revoke_image_def)
  have "bytes_at 0 12 revoke_image = build_block_header JOURNAL_MAGIC BT_REVOKE 1"
    by (simp add: revoke_image_def bytes_at_def)
  from header_written[OF _ this] len have
    "jheader_of revoke_image = \<lparr>jh_magic = JOURNAL_MAGIC, jh_blocktype = BT_REVOKE, jh_sequence = 1\<rparr>"
    by (simp add: BT_REVOKE_def)
  then show "header_matches revoke_image 1" "jh_blocktype (jheader_of revoke_image) = BT_REVOKE"
    using len by (simp_all add: header_matches_def)
qed

theorem revoke_log_never_ends_witness:
  "replay_loop 1000 kib_sb (dirty_journal\<lparr>jn_blocks := replicate 8 2\<rparr>) 1 1 [] (node_disk revoke_image) =
    (Diverge, node_disk revoke_image)"
proof (rule revoke_log_never_ends)
  have spb: "spb kib_sb = 2" by (simp add: kib_sb_ok)
  have "read_sectors (node_disk revoke_image) 4 2 = Ok revoke_image"
    using node_disk_read[OF revoke_image_fields(1)] by (simp add: extent_read_block_def spb checked_mul_def)
  then have "log_at kib_sb (dirty_journal\<lparr>jn_blocks := replicate 8 2\<rparr>) (node_disk revoke_image) j = Ok revoke_image"
    if "j < 8" for j
    using that by (simp add: journal_read_block_def journal_block_addr_def read_phys_block_def spb wmul_def)
  then show "\<forall>j. jsb_first_usable_block (jn_sb (dirty_journal\<lparr>jn_blocks := replicate 8 2\<rparr>)) \<le> j \<and>
      j < jsb_total_blocks (jn_sb (dirty_journal\<lparr>jn_blocks := replicate 8 2\<rparr>)) \<longrightarrow>
      (\<exists>buf. log_at kib_sb (dirty_journal\<lparr>jn_blocks := replicate 8 2\<rparr>) (node_disk revoke_image) j = Ok buf \<and>
        header_matches buf 1 \<and> jh_blocktype (jheader_of buf) = BT_REVOKE)"
    using revoke_image_fields(2,3) by simp
qed simp_all

end
