(* ===== verification/Mount_Sound.thy ===== *)
theory Mount_Sound
  imports Journal_Recovery Mount
begin

text \<open>
  What mounting read-write and unmounting do to the volume: the state word of the superblock
  is the only thing that changes, apart from what the journal's recovery writes.
\<close>

section \<open>The state word\<close>

definition with_state :: "nat \<Rightarrow> superblock \<Rightarrow> superblock" where
  "with_state v sb = sb\<lparr>sb_state := v\<rparr>"

lemma fits16: "v < 2 ^ 16 \<longleftrightarrow> take_bit 16 v = (v :: nat)"
  by (simp only: take_bit_nat_eq_self_iff)

lemma state_words:
  assumes "v < 2 ^ 16"
  shows "v AND (2 ^ 16 - 1 - VALID_FS) < 2 ^ 16" "v OR VALID_FS < 2 ^ 16"
proof -
  have "take_bit 16 (2 ^ 16 - 1 - VALID_FS) = 2 ^ 16 - 1 - VALID_FS" "take_bit 16 VALID_FS = VALID_FS"
    by (simp_all add: take_bit_nat_eq_self_iff VALID_FS_def)
  then show "v AND (2 ^ 16 - 1 - VALID_FS) < 2 ^ 16" "v OR VALID_FS < 2 ^ 16"
    using assms unfolding fits16 by (simp_all only: take_bit_and take_bit_or)
qed

definition in_use :: "nat \<Rightarrow> nat" where
  "in_use = (\<lambda>v. v AND (2 ^ 16 - 1 - VALID_FS))"

lemma set_dirty_flag_in_use: "set_dirty_flag = update_state_word in_use"
  by (simp only: set_dirty_flag_def in_use_def)

lemma in_use_less: "v < 2 ^ 16 \<Longrightarrow> in_use v < 2 ^ 16"
  unfolding in_use_def by (rule state_words(1))

lemma dirty_word [simp]: "\<not> was_cleanly_unmounted (with_state (in_use v) sb)"
proof -
  have "even (v AND 65534)" by (simp add: even_and_iff)
  then show ?thesis
    by (simp add: was_cleanly_unmounted_def with_state_def in_use_def VALID_FS_def even_iff_mod_2_eq_zero)
qed

lemma clean_word [simp]: "was_cleanly_unmounted (with_state (v OR VALID_FS) sb)"
proof -
  have "odd (v OR 1)" by (simp only: even_or_iff) simp
  then have "(v OR 1) mod 2 = 1" by (simp only: odd_iff_mod_2_eq_one)
  then show ?thesis
    by (simp add: was_cleanly_unmounted_def with_state_def VALID_FS_def)
qed

lemma read_flushed:
  "s + n \<le> 2 ^ 64 \<Longrightarrow> read_sectors (d\<lparr>stable := b\<rparr>) s n = read_sectors d s n"
  unfolding read_sectors_def by (subst read_loop_cong[of _ d]) simp_all

lemma parse_with_state:
  assumes "read_sectors d 2 2 = Ok bs" and "length bs = 1024" and "v < 2 ^ 16"
    and "read_sectors d' 2 2 = Ok (patch 58 (to_le 2 v) bs)"
  shows "parse d = Ok sb \<Longrightarrow> parse d' = Ok (with_state v sb)"
  using assms
  by (auto simp: parse_def raw_superblock_read_from_def int_read_defs buffer_simps with_state_def
      parse_raw_superblock_def Let_def inode_size_of_def rbind_Ok_iff split: if_split_asm)


lemma parse_state_word: "parse d = Ok sb \<Longrightarrow> \<exists>bs. read_sectors d 2 2 = Ok bs \<and> length bs = 1024 \<and> sb_state sb = le16 58 bs"
  by (auto simp: parse_def raw_superblock_read_from_def parse_raw_superblock_def Let_def rbind_Ok_iff split: if_split_asm)

text \<open>Reads that do not touch the superblock's sectors answer alike.\<close>

definition same_but_sb :: "disk \<Rightarrow> disk \<Rightarrow> bool" where
  "same_but_sb d d' \<longleftrightarrow> (\<forall>t m. (t + m \<le> 2 \<or> 4 \<le> t) \<and> t + m \<le> 2 ^ 64 \<longrightarrow> read_sectors d' t m = read_sectors d t m)"

lemma same_but_sb_trans: "same_but_sb a b \<Longrightarrow> same_but_sb b c \<Longrightarrow> same_but_sb a c"
  by (simp add: same_but_sb_def)

lemma update_state_word_OkD:
  assumes "update_state_word f d = (Ok (), d')" and "wf_disk d" and "\<And>v. v < 2 ^ 16 \<Longrightarrow> f v < 2 ^ 16"
  shows "wf_disk d'" and "same_but_sb d d'" and "stable d' = stable d"
    and "\<exists>bs. read_sectors d 2 2 = Ok bs \<and> length bs = 1024 \<and> read_sectors d' 2 2 = Ok (patch 58 (to_le 2 (f (le16 58 bs))) bs)"
    and "parse d = Ok sb \<Longrightarrow> parse d' = Ok (with_state (f (sb_state sb)) sb)"
proof -
  obtain bs where bs: "read_sectors d 2 2 = Ok bs" "length bs = 1024"
    and w: "write_sectors 2 (patch 58 (to_le 2 (f (le16 58 bs))) bs) d = (Ok (), d')"
    using assms(1) by (auto simp: update_state_word_def sbind_Ok_iff smap_err_Ok_iff simp del: sbind_sread split: if_split_asm)
  define data where "data = patch 58 (to_le 2 (f (le16 58 bs))) bs"
  have len: "length data = 512 * 2" "(0::nat) < 2" using bs(2) by (simp_all add: data_def)
  note w = w[folded data_def]
  have run: "d' = store_run 2 data d" "writable d 2 2" using w write_sectors_Ok_iff[OF assms(2) len] by auto
  have shape: "same_shape d d'"
    using run store_run_same_shape[OF assms(2) len(1), of 2] by (simp add: writable_def)
  then show "wf_disk d'" by (simp add: same_shape_def)
  show "same_but_sb d d'"
    using read_after_write_other[OF assms(2) len w] by (auto simp: same_but_sb_def)
  show "stable d' = stable d" by (simp add: run(1) store_run_def)
  have "readable d 2 2" using bs(1) read_sectors_Ok_iff[OF assms(2)] by simp
  then have after: "read_sectors d' 2 2 = Ok data" by (rule read_after_write_same[OF assms(2) len w])
  then show "\<exists>bs. read_sectors d 2 2 = Ok bs \<and> length bs = 1024 \<and> read_sectors d' 2 2 = Ok (patch 58 (to_le 2 (f (le16 58 bs))) bs)"
    using bs by (simp add: data_def)
  show "parse d' = Ok (with_state (f (sb_state sb)) sb)" if p: "parse d = Ok sb"
  proof -
    have "sb_state sb = le16 58 bs" using parse_state_word[OF p] bs by auto
    moreover have "f (le16 58 bs) < 2 ^ 16" using assms(3) le16_less[of 58 bs] by simp
    ultimately show ?thesis using parse_with_state[OF bs _ after[unfolded data_def] p] by simp
  qed
qed

lemma flush_OkD:
  assumes "dev_flush d = (Ok (), d')"
  shows "same_but_sb d d'" and "parse d' = parse d" and "stable d' = sectors d'" and "wf_disk d \<Longrightarrow> wf_disk d'"
    and "read_sectors d' 2 2 = read_sectors d 2 2"
  using assms
  by (auto simp: dev_flush_def same_but_sb_def parse_def read_flushed wf_disk_def split: if_split_asm)

lemma smap_err_sreturn: "smap_err f (sreturn x) = sreturn x"
  by (simp add: smap_err_def sreturn_def fun_eq_iff)

text \<open>What a successful mount and unmount did.\<close>

lemma open_rw_OkD:
  assumes "open_rw fuel d = (Ok fs, d1)" and "wf_disk d"
  shows "\<not> state_has_error (rw_sb fs) \<and> parse d = Ok (rw_sb fs) \<and> wf_disk d1 \<and> stable d1 = sectors d1 \<and>
    (\<exists>jn d0 bs. check_and_recover fuel (rw_sb fs) (rw_gdt fs) d = (Ok jn, d0) \<and> same_but_sb d0 d1 \<and>
       read_sectors d0 2 2 = Ok bs \<and> length bs = 1024 \<and> read_sectors d1 2 2 = Ok (patch 58 (to_le 2 (in_use (le16 58 bs))) bs) \<and>
       (\<forall>sb0. parse d0 = Ok sb0 \<longrightarrow>
          parse d1 = Ok (with_state (in_use (sb_state sb0)) sb0)))"
proof -
  obtain sb g jn d0 d' where p: "parse d = Ok sb" and e: "\<not> state_has_error sb"
    and rec: "check_and_recover fuel sb g d = (Ok jn, d0)" and dirty: "set_dirty_flag d0 = (Ok (), d')"
    and fl: "dev_flush d' = (Ok (), d1)" and fs: "rw_sb fs = sb" "rw_gdt fs = g"
    using assms(1)
    by (auto simp: open_rw_def sbind_Ok_iff smap_err_Ok_iff simp del: sbind_sread split: if_split_asm)
  have wf0: "wf_disk d0"
    using preservesD[OF check_and_recover_shape same_shape_refl[OF assms(2)] rec] by (simp add: same_shape_def)
  note u = update_state_word_OkD[OF dirty[unfolded set_dirty_flag_in_use] wf0 in_use_less]
  note f = flush_OkD[OF fl]
  show ?thesis
    using p e rec u f same_but_sb_trans[OF u(2) f(1)] unfolding fs by auto
qed

lemma unmount_OkD:
  assumes "unmount fs d = (Ok (), d')" and "wf_disk d" and "parse d = Ok sb"
  shows "parse d' = Ok (with_state (sb_state sb OR VALID_FS) sb)" and "same_but_sb d d'"
proof -
  obtain e e' where "update_state_word (\<lambda>current. current OR VALID_FS) d = (Ok (), e)"
    and fl: "dev_flush e = (Ok (), e')" "dev_flush e' = (Ok (), d')"
    using assms(1)
    by (auto simp: unmount_def clear_dirty_flag_def flush_pending_def smap_err_sreturn sbind_Ok_iff smap_err_Ok_iff)
  note u = update_state_word_OkD[OF this(1) assms(2) state_words(2)]
  show "parse d' = Ok (with_state (sb_state sb OR VALID_FS) sb)"
    using u(5)[OF _ assms(3)] flush_OkD(2)[OF fl(1)] flush_OkD(2)[OF fl(2)] by simp
  show "same_but_sb d d'"
    using u(2) flush_OkD(1)[OF fl(1)] flush_OkD(1)[OF fl(2)] by (blast intro: same_but_sb_trans)
qed

text \<open>On a device that works, none of the steps fails.\<close>

lemma update_state_word_works:
  assumes "wf_disk d" and "readable d 2 2" and "writable d 2 2"
  shows "\<exists>d'. update_state_word f d = (Ok (), d') \<and> same_shape d d'"
proof -
  let ?bs = "sector_run d 2 2"
  let ?data = "patch 58 (to_le 2 (f (le16 58 ?bs))) ?bs"
  have n: "2 + 2 \<le> sector_count d" using assms(2) by (simp add: readable_def)
  have bs: "length ?bs = 1024" using length_sector_run[OF assms(1) n] by simp
  then have len: "length ?data = 512 * 2" "(0::nat) < 2" by simp_all
  have w: "write_sectors 2 ?data d = (Ok (), store_run 2 ?data d)"
    using write_sectors_Ok_iff[OF assms(1) len, of 2] assms(3) by simp
  moreover have "read_sectors d 2 2 = Ok ?bs" using read_sectors_Ok_iff[OF assms(1)] assms(2) by simp
  moreover have "same_shape d (store_run 2 ?data d)"
    using store_run_same_shape[OF assms(1) len(1), of 2] n by simp
  ultimately show ?thesis using bs by (auto simp: update_state_word_def sbind_def smap_err_def)
qed

lemma sample_open_rw:
  "\<exists>fs d1 d2. open_rw 1 sample_disk = (Ok fs, d1) \<and> unmount fs d1 = (Ok (), d2) \<and>
     rw_sb fs = sample_sb \<and> rw_gdt fs = [sample_gd]"
proof -
  have works: "\<exists>d'. update_state_word f d = (Ok (), d') \<and> same_shape sample_disk d'" if "same_shape sample_disk d" for f d
    using update_state_word_works[of d f] that same_shape_trans
    by (auto simp: same_shape_def readable_def writable_def sample_disk_def)
  have flush: "\<exists>d'. dev_flush d = (Ok (), d') \<and> same_shape sample_disk d'" if "same_shape sample_disk d" for d
    using same_shape_flush[OF that] that by (auto simp: dev_flush_def same_shape_def sample_disk_def)
  obtain a b c e g where "update_state_word in_use sample_disk = (Ok (), a)" "dev_flush a = (Ok (), b)"
      "update_state_word (\<lambda>v. v OR VALID_FS) b = (Ok (), c)" "dev_flush c = (Ok (), e)" "dev_flush e = (Ok (), g)"
    using works flush same_shape_refl[OF wf_sample] by meson
  moreover have "\<not> state_has_error sample_sb" by (simp add: state_has_error_def sample_sb_def ERROR_FS_def)
  ultimately have "open_rw 1 sample_disk = (Ok \<lparr>rw_sb = sample_sb, rw_gdt = [sample_gd],
      rw_journal = journal_writer_new sample_journal\<rparr>, b)"
    and "unmount fs b = (Ok (), g)" for fs
    by (simp_all add: open_rw_def unmount_def clear_dirty_flag_def set_dirty_flag_in_use flush_pending_def
        smap_err_sreturn sbind_def smap_err_def sample_parse sample_gdt_load check_and_recover_def
        sample_journal_load sample_journal_clean replay_def sreturn_def)
  then show ?thesis by force
qed

section \<open>Properties\<close>

text \<open>
  C30. Mounting read-write marks the volume in use, durably. When \<open>open_rw\<close> succeeds the
  superblock it parsed carried no error; compared with what the journal's recovery left, the
  VALID_FS bit of the state word on the device is clear, and no other byte and no other bit has
  changed, whether the superblock there still parses or not; and all the device holds at the
  end, the cleared bit with it, is guaranteed to be on the medium: a barrier follows the change.
\<close>

theorem mount_marks_dirty:
  assumes "open_rw fuel d = (Ok fs, d1)" and "wf_disk d"
  shows "\<not> state_has_error (rw_sb fs) \<and> parse d = Ok (rw_sb fs) \<and> stable d1 = sectors d1 \<and>
    (\<exists>jn d0 bs. check_and_recover fuel (rw_sb fs) (rw_gdt fs) d = (Ok jn, d0) \<and> same_but_sb d0 d1 \<and>
       read_sectors d0 2 2 = Ok bs \<and>
       read_sectors d1 2 2 = Ok (patch 58 (to_le 2 (le16 58 bs AND (2 ^ 16 - 1 - VALID_FS))) bs) \<and>
       (le16 58 bs AND (2 ^ 16 - 1 - VALID_FS)) AND VALID_FS = 0)"
proof -
  have "(v AND (2 ^ 16 - 1 - VALID_FS)) AND VALID_FS = 0" for v :: nat
    by (simp add: VALID_FS_def and_one_eq mod_2_eq_odd even_and_iff)
  then show ?thesis using open_rw_OkD[OF assms] unfolding in_use_def by blast
qed

theorem mount_marks_dirty_witness:
  "\<exists>fs d1 bs. open_rw 1 sample_disk = (Ok fs, d1) \<and> stable d1 = sectors d1 \<and>
     read_sectors d1 2 2 = Ok (patch 58 (to_le 2 (le16 58 bs AND (2 ^ 16 - 1 - VALID_FS))) bs)"
proof -
  obtain fs d1 where m: "open_rw 1 sample_disk = (Ok fs, d1)" using sample_open_rw by blast
  from mount_marks_dirty[OF m wf_sample] m show ?thesis by blast
qed

text \<open>
  C23. Mounting and unmounting a volume whose journal is clean: while it is mounted the
  superblock reads as before with VALID_FS cleared, after the unmount with VALID_FS set, and
  every sector outside the superblock's reads as at the start.
\<close>

theorem mount_cycle_state:
  assumes "open_rw fuel d = (Ok fs, d1)" and "wf_disk d"
    and "journal_load d (rw_sb fs) (rw_gdt fs) = Ok jn" and "is_clean (jn_sb jn)"
    and "unmount fs d1 = (Ok (), d2)"
  shows "parse d = Ok (rw_sb fs) \<and>
    parse d1 = Ok (with_state (in_use (sb_state (rw_sb fs))) (rw_sb fs)) \<and>
    parse d2 = Ok (with_state (in_use (sb_state (rw_sb fs)) OR VALID_FS) (rw_sb fs)) \<and>
    same_but_sb d d1 \<and> same_but_sb d d2"
proof -
  from open_rw_OkD[OF assms(1,2)] obtain jn' d0 where p: "parse d = Ok (rw_sb fs)" and wf: "wf_disk d1"
    and rec: "check_and_recover fuel (rw_sb fs) (rw_gdt fs) d = (Ok jn', d0)" and same: "same_but_sb d0 d1"
    and p1: "\<And>sb0. parse d0 = Ok sb0 \<Longrightarrow> parse d1 = Ok (with_state (in_use (sb_state sb0)) sb0)"
    by blast
  have "d0 = d" using rec assms(3,4)
    by (auto simp: check_and_recover_def replay_def sbind_Ok_iff split: if_split_asm)
  then have p1: "parse d1 = Ok (with_state (in_use (sb_state (rw_sb fs))) (rw_sb fs))"
    and same: "same_but_sb d d1" using p1[of "rw_sb fs"] p same by simp_all
  from unmount_OkD[OF assms(5) wf p1] show ?thesis
    using p p1 same same_but_sb_trans[OF same] by (simp add: with_state_def)
qed

theorem mount_cycle_state_witness:
  "\<exists>fs d1 d2. open_rw 1 sample_disk = (Ok fs, d1) \<and> unmount fs d1 = (Ok (), d2) \<and>
     (\<exists>sb2. parse d2 = Ok sb2 \<and> was_cleanly_unmounted sb2)"
proof -
  obtain fs d1 d2 where m: "open_rw 1 sample_disk = (Ok fs, d1)" "unmount fs d1 = (Ok (), d2)"
    and sb: "rw_sb fs = sample_sb" "rw_gdt fs = [sample_gd]"
    using sample_open_rw by blast
  from mount_cycle_state[OF m(1) wf_sample _ _ m(2)] show ?thesis
    using m sample_journal_load sample_journal_clean(2) by (auto simp: sb)
qed

text \<open>
  The driver's own way to open a volume read-write does not take these steps: on a clean
  journal it leaves the device exactly as it is, VALID_FS set or not, and opens the volume
  whatever the error flag says, where \<open>open_rw\<close> refuses it.
\<close>

theorem driver_skips_mount_checks:
  assumes "parse d = Ok sb" and "gdt_load d sb = Ok g" and "journal_load d sb g = Ok jn"
    and "jsb_errno (jn_sb jn) = 0" and "is_clean (jn_sb jn)"
  shows "(\<exists>x. open_inner fuel ReadWrite d = (Ok x, d) \<and> x_dev x = d \<and> x_sb x = sb \<and> \<not> x_read_only x) \<and>
    (state_has_error sb \<longrightarrow> open_rw fuel d = (Err MtFilesystemError, d))"
  using assms
  by (simp add: open_inner_def open_journal_def check_and_recover_def replay_def sbind_def smap_err_def open_rw_def)

theorem driver_skips_mount_checks_witness:
  "\<exists>x. open_inner 1 ReadWrite sample_disk = (Ok x, sample_disk) \<and> x_sb x = sample_sb"
  using driver_skips_mount_checks[OF sample_parse sample_gdt_load sample_journal_load sample_journal_clean(1,2), of 1]
  by blast

end
