(* ===== verification/Inode_Sound.thy ===== *)
theory Inode_Sound
  imports Alloc_Sound
begin

text \<open>
  Updates of inodes inside a transaction: what \<open>update_inode\<close> stores is what the readers see
  through the transaction, and the group's other inodes keep their contents. The readers
  look at a pinned block or at the sectors of the table that hold the inode; both are shown
  to decode the same 128 bytes.
\<close>

section \<open>Part of a run of sectors\<close>

lemma sector_run_add: "sector_run d s (a + b) = sector_run d s a @ sector_run d (s + a) b"
  unfolding sector_run_def add.assoc[symmetric]
  by (subst upt_add_eq_append) simp_all

lemma sector_run_part:
  assumes "wf_disk d" and "s + m \<le> sector_count d" and "k + n \<le> m"
  shows "sector_run d (s + k) n = bytes_at (512 * k) (512 * n) (sector_run d s m)"
proof -
  have "m = k + (n + (m - k - n))" using assms(3) by simp
  then have "sector_run d s m = sector_run d s k @ sector_run d (s + k) n @ sector_run d (s + k + n) (m - k - n)"
    by (metis sector_run_add)
  moreover have "length (sector_run d s k) = 512 * k" "length (sector_run d (s + k) n) = 512 * n"
    using assms by (simp_all add: length_sector_run)
  ultimately show ?thesis by (simp add: bytes_at_def)
qed

lemma div_ceil_le: "0 < b \<Longrightarrow> a \<le> m * b \<Longrightarrow> div_ceil a b \<le> m"
  using div_ceil_less[of b m a] by (meson linorder_not_less)

section \<open>Where an inode is\<close>

definition inode_group :: "superblock \<Rightarrow> nat \<Rightarrow> nat" where
  "inode_group sb i = (i - 1) div sb_inodes_per_group sb"

definition inode_block :: "superblock \<Rightarrow> gdt \<Rightarrow> nat \<Rightarrow> nat" where
  "inode_block sb gdt i = gd_inode_table (gdt ! inode_group sb i) +
     (i - 1) mod sb_inodes_per_group sb div (sb_block_size sb div sb_inode_size sb)"

definition inode_off :: "superblock \<Rightarrow> nat \<Rightarrow> nat" where
  "inode_off sb i =
     (i - 1) mod sb_inodes_per_group sb mod (sb_block_size sb div sb_inode_size sb) * sb_inode_size sb"

text \<open>Inode numbers in range, with their table low enough for 64-bit byte offsets.\<close>

definition inode_there :: "superblock \<Rightarrow> gdt \<Rightarrow> nat \<Rightarrow> bool" where
  "inode_there sb gdt i \<longleftrightarrow> 0 < i \<and> i \<le> sb_inodes_count sb \<and> inode_group sb i < length gdt \<and>
     gd_inode_table (gdt ! inode_group sb i) < 2 ^ 47"

lemma inode_off_fits:
  assumes "sb_ok sb"
  shows "inode_off sb i + sb_inode_size sb \<le> sb_block_size sb"
proof -
  let ?k = "sb_block_size sb div sb_inode_size sb"
  have "(i - 1) mod sb_inodes_per_group sb mod ?k < ?k" using sb_ok_inode_size(4)[OF assms] by simp
  then have "((i - 1) mod sb_inodes_per_group sb mod ?k + 1) * sb_inode_size sb \<le> ?k * sb_inode_size sb"
    by (intro mult_le_mono1) simp
  also have "?k * sb_inode_size sb \<le> sb_block_size sb" by simp
  finally show ?thesis by (simp add: inode_off_def)
qed

text \<open>The byte position of the inode, split into block and offset, in both forms the code uses.\<close>

lemma inode_position:
  assumes "sb_ok sb" and "inode_there sb gdt i"
  shows "wmul 64 ((i - 1) mod sb_inodes_per_group sb) (sb_inode_size sb) =
      (i - 1) mod sb_inodes_per_group sb * sb_inode_size sb"
    and "(i - 1) mod sb_inodes_per_group sb * sb_inode_size sb div sb_block_size sb =
      (i - 1) mod sb_inodes_per_group sb div (sb_block_size sb div sb_inode_size sb)"
    and "(i - 1) mod sb_inodes_per_group sb * sb_inode_size sb mod sb_block_size sb = inode_off sb i"
    and "inode_block sb gdt i * sb_block_size sb + inode_off sb i =
      gd_inode_table (gdt ! inode_group sb i) * sb_block_size sb +
      (i - 1) mod sb_inodes_per_group sb * sb_inode_size sb"
    and "inode_block sb gdt i * sb_block_size sb + sb_block_size sb < 2 ^ 64"
proof -
  define idx sz bs k t where "idx = (i - 1) mod sb_inodes_per_group sb" and "sz = sb_inode_size sb"
    and "bs = sb_block_size sb" and "k = sb_block_size sb div sb_inode_size sb"
    and "t = gd_inode_table (gdt ! inode_group sb i)"
  have bs: "bs = k * sz" using sb_ok_inode_size(3)[OF assms(1)] unfolding bs_def k_def sz_def
    by (metis add.right_neutral div_mult_mod_eq)
  have sz: "0 < sz" "sz \<le> 1024" "0 < k" and bs64: "bs \<le> 65536"
    using sb_ok_inode_size[OF assms(1)] sb_ok_block_size(2)[OF assms(1)] by (simp_all add: sz_def k_def bs_def)
  have idx: "idx < 2 ^ 32"
    using assms(1) mod_less_divisor[of "sb_inodes_per_group sb" "i - 1"] unfolding idx_def sb_ok_def by linarith
  have prod: "idx * sz \<le> 2 ^ 32 * 1024" by (rule mult_le_mono) (use idx sz in simp_all)
  then show "wmul 64 idx sz = idx * sz" by (simp add: wmul_def)
  show q: "idx * sz div bs = idx div k" using sz by (simp add: bs div_mult2_eq mult.commute[of k])
  have m: "idx * sz mod bs = idx mod k * sz" by (simp add: bs mult_mod_left)
  then show "idx * sz mod bs = inode_off sb i" by (simp add: inode_off_def idx_def k_def sz_def)
  have split: "idx div k * bs + idx mod k * sz = idx * sz"
    using q m mult_div_mod_eq[of bs "idx * sz"] by (metis mult.commute)
  then show "inode_block sb gdt i * bs + inode_off sb i = t * bs + idx * sz"
    by (simp add: inode_block_def inode_off_def idx_def k_def sz_def t_def algebra_simps)
  have "inode_block sb gdt i * bs \<le> t * bs + idx * sz"
    using split by (simp add: inode_block_def idx_def k_def t_def algebra_simps)
  moreover have "t * bs \<le> 2 ^ 47 * 65536"
    by (rule mult_le_mono) (use assms(2) bs64 in \<open>simp_all add: inode_there_def t_def\<close>)
  ultimately show "inode_block sb gdt i * bs + bs < 2 ^ 64" using prod bs64 by simp
qed

section \<open>The readers decode 128 bytes of one block\<close>

lemma read_inode_of_block:
  assumes "sb_ok sb" and "wf_disk d" and "inode_there sb gdt i"
    and "read_sectors d (wmul 64 (inode_block sb gdt i) (spb sb)) (spb sb) = Ok blk"
  shows "read_inode d sb gdt i = decode_inode i (bytes_at (inode_off sb i) 128 blk)"
proof -
  note pos = inode_position[OF assms(1,3)]
  define p off bs sz where "p = inode_block sb gdt i" and "off = inode_off sb i"
    and "bs = sb_block_size sb" and "sz = sb_inode_size sb"
  have bs: "bs = 512 * spb sb" "0 < spb sb" using sb_ok_block_size(4,5)[OF assms(1)] by (simp_all add: bs_def)
  have sz: "128 \<le> sz" using sb_ok_inode_size(1)[OF assms(1)] by (simp add: sz_def)
  have fit: "off + sz \<le> bs" using inode_off_fits[OF assms(1), of i] by (simp add: off_def sz_def bs_def)
  define k r n where "k = off div 512" and "r = off mod 512" and "n = div_ceil (off mod 512 + sz) 512"
  have off: "off = 512 * k + r" "r < 512" by (simp_all add: k_def r_def)
  have n: "k + n \<le> spb sb"
  proof -
    have "r + sz \<le> (m - k) * 512" if "off + sz \<le> b" "b = 512 * m" for m b
      using that off(1) by linarith
    from this[OF fit bs(1)] have "r + sz \<le> (spb sb - k) * 512" .
    from div_ceil_le[OF zero_less_numeral this] have "n \<le> spb sb - k" unfolding n_def r_def[symmetric] by blast
    moreover have "k \<le> m" if "off + sz \<le> b" "b = 512 * m" for m b using that off(1) by linarith
    from this[OF fit bs(1)] have "k \<le> spb sb" .
    ultimately show ?thesis by linarith
  qed
  have n': "r + sz \<le> n * 512" unfolding n_def r_def[symmetric] by (rule div_ceil_mult_ge) simp
  have "p * spb sb \<le> p * bs" unfolding bs_def by (rule mult_le_mono2[OF div_le_dividend])
  moreover note pos(5)[folded p_def bs_def]
  ultimately have small: "p * spb sb < 2 ^ 64" by (rule order_le_less_trans[OF _ add_lessD1])
  then have place: "wmul 64 p (spb sb) = p * spb sb" by (simp add: wmul_def)
  have run: "readable d (p * spb sb) (spb sb)" "blk = sector_run d (p * spb sb) (spb sb)"
    using assms(4) by (simp_all add: p_def[symmetric] place read_sectors_Ok_iff[OF assms(2) bs(2)])
  have byte: "p * bs + off = 512 * (p * spb sb + k) + r" using off(1) bs(1) by (simp add: algebra_simps)
  have addr: "wadd 64 (wmul 64 (gd_inode_table (gdt ! inode_group sb i)) bs) ((i - 1) mod sb_inodes_per_group sb * sz)
      = p * bs + off"
  proof -
    have "gd_inode_table (gdt ! inode_group sb i) * bs + (i - 1) mod sb_inodes_per_group sb * sz = p * bs + off"
      using pos(4) by (simp add: p_def off_def bs_def sz_def)
    moreover have "p * bs + off < 2 ^ 64" using pos(5) fit by (simp add: p_def bs_def)
    ultimately show ?thesis by (simp add: wadd_def wmul_def)
  qed
  have sect: "(p * bs + off) div 512 = p * spb sb + k" "(p * bs + off) mod 512 = r"
  proof -
    have "(512 * x + r) div 512 = x" "(512 * x + r) mod 512 = r" for x using off(2) by simp_all
    then show "(p * bs + off) div 512 = p * spb sb + k" "(p * bs + off) mod 512 = r" unfolding byte by blast+
  qed
  have "0 < n" using n' sz by (cases n) simp_all
  moreover have "readable d (p * spb sb + k) n" using run(1) n by (simp add: readable_def)
  ultimately have rd: "read_sectors d (p * spb sb + k) n = Ok (bytes_at (512 * k) (512 * n) blk)"
    using run n sector_run_part[OF assms(2), of "p * spb sb" "spb sb" k n]
    by (simp add: read_sectors_Ok_iff[OF assms(2)] readable_def)
  have len: "length blk = bs" using run assms(2) bs(1) by (simp add: length_sector_run readable_def)
  have len2: "length (bytes_at (512 * k) (512 * n) blk) = 512 * n" using n bs(1) len by simp
  have part: "bytes_at r 128 (bytes_at (512 * k) (512 * n) blk) = bytes_at off 128 blk"
    using n' sz off(1) by simp
  have n2: "div_ceil (r + sz) 512 = n" by (simp add: n_def r_def)
  have there: "\<not> (i = 0 \<or> sb_inodes_count sb < i)" "inode_group sb i < length gdt"
    and ipg: "sb_inodes_per_group sb \<noteq> 0"
    using assms(1,3) by (auto simp: inode_there_def sb_ok_def)
  have room: "\<not> length (bytes_at (512 * k) (512 * n) blk) < r + 128" using n' sz unfolding len2 by linarith
  have idx: "wmul 64 ((i - 1) mod sb_inodes_per_group sb) sz = (i - 1) mod sb_inodes_per_group sb * sz"
    using pos(1) by (simp add: sz_def)
  have 128: "length (bytes_at off 128 blk) = 128" using fit sz len by simp
  show ?thesis
    unfolding read_inode_def Let_def inode_group_def[symmetric] sz_def[symmetric] bs_def[symmetric] off_def[symmetric]
      idx
    using there ipg room
    by (simp add: gdt_get_def addr sect n2 rd part raw_inode_read_from_def 128 del: length_bytes_at One_nat_def)
qed

lemma read_inode_with_txn_of_block:
  assumes "sb_ok sb" and "fs_inv sb d0 n s" and "inode_there sb gdt i"
    and "block_with_txn conv sb (inode_block sb gdt i) s = Ok blk"
  shows "read_inode_with_txn (f_dev s) sb gdt (f_txn s) i = decode_inode i (bytes_at (inode_off sb i) 128 blk)"
proof -
  note pos = inode_position[OF assms(1,3)]
  have b1: "inode_block sb gdt i < 2 ^ 64"
  proof -
    have "inode_block sb gdt i * 1 \<le> inode_block sb gdt i * sb_block_size sb"
      by (rule mult_le_mono2) (use sb_ok_block_size(1)[OF assms(1)] in simp)
    then show ?thesis using pos(5) by linarith
  qed
  have blk: "wadd 64 (gd_inode_table (gdt ! ((i - 1) div sb_inodes_per_group sb)))
      ((i - 1) mod sb_inodes_per_group sb div (sb_block_size sb div sb_inode_size sb)) = inode_block sb gdt i"
    using b1 by (simp add: inode_block_def inode_group_def wadd_def)
  have off: "(i - 1) mod sb_inodes_per_group sb mod (sb_block_size sb div sb_inode_size sb) * sb_inode_size sb = inode_off sb i"
    by (simp add: inode_off_def)
  have guards: "0 < sb_inodes_per_group sb" "0 < sb_inode_size sb" "0 < sb_block_size sb div sb_inode_size sb"
    using assms(1) sb_ok_inode_size[OF assms(1)] by (simp_all add: sb_ok_def)
  have there: "0 < i" "i \<le> sb_inodes_count sb" "(i - 1) div sb_inodes_per_group sb < length gdt"
    using assms(3) by (simp_all add: inode_there_def inode_group_def)
  show ?thesis
  proof (cases "pinned (f_txn s) (inode_block sb gdt i)")
    case None
    then have "read_sectors (f_dev s) (wmul 64 (inode_block sb gdt i) (spb sb)) (spb sb) = Ok blk"
      using assms(4) by (simp add: block_with_txn_def)
    from read_inode_of_block[OF assms(1) fs_inv_wf_disk[OF assms(2)] assms(3) this] show ?thesis
      using there guards None
      by (simp add: read_inode_with_txn_def Let_def gdt_get_def blk del: One_nat_def)
  next
    case (Some data)
    then have "blk = data" using assms(4) by (simp add: block_with_txn_def)
    moreover have "length data = sb_block_size sb" using fs_inv_pinned[OF assms(2) Some] .
    ultimately show ?thesis
      using there guards Some inode_off_fits[OF assms(1), of i] sb_ok_inode_size(1)[OF assms(1)]
      by (simp add: read_inode_with_txn_def Let_def gdt_get_def blk off slice_r_def raw_inode_read_from_def
          del: One_nat_def)
  qed
qed

section \<open>What an update changes\<close>

definition updated :: "inode_update \<Rightarrow> inode \<Rightarrow> inode" where
  "updated upd ino = ino\<lparr>
     ino_size := case_option (ino_size ino) id (upd_size upd),
     ino_mode := case_option (ino_mode ino) id (upd_mode upd),
     ino_uid := case_option (ino_uid ino) id (upd_uid upd),
     ino_gid := case_option (ino_gid ino) id (upd_gid upd),
     ino_atime := case_option (ino_atime ino) id (upd_atime upd),
     ino_mtime := case_option (ino_mtime ino) id (upd_mtime upd),
     ino_ctime := case_option (ino_ctime ino) id (upd_ctime upd),
     ino_links_count := case_option (ino_links_count ino) id (upd_links_count upd),
     ino_flags := case_option (ino_flags ino) id (upd_flags upd)\<rparr>"

text \<open>The values of an update fit the integer types of the code.\<close>

definition update_fits :: "inode_update \<Rightarrow> bool" where
  "update_fits upd \<longleftrightarrow> case_option True (\<lambda>v. v < 2 ^ 64) (upd_size upd) \<and>
     case_option True (\<lambda>v. v < 2 ^ 16) (upd_mode upd) \<and> case_option True (\<lambda>v. v < 2 ^ 32) (upd_uid upd) \<and>
     case_option True (\<lambda>v. v < 2 ^ 32) (upd_gid upd) \<and> case_option True (\<lambda>v. v < 2 ^ 32) (upd_atime upd) \<and>
     case_option True (\<lambda>v. v < 2 ^ 32) (upd_mtime upd) \<and> case_option True (\<lambda>v. v < 2 ^ 32) (upd_ctime upd) \<and>
     case_option True (\<lambda>v. v < 2 ^ 16) (upd_links_count upd) \<and> case_option True (\<lambda>v. v < 2 ^ 32) (upd_flags upd)"

lemma bytes_at_patch_opt_other:
  "off + k \<le> length raw \<Longrightarrow> o' + n \<le> off \<or> off + k \<le> o' \<Longrightarrow>
   bytes_at o' n (patch_opt off k v raw) = bytes_at o' n raw"
  by (cases v) (simp_all add: patch_opt_def buffer_simps)

lemma bytes_at_patch_opt_same:
  "off + k \<le> length raw \<Longrightarrow>
   bytes_at off k (patch_opt off k v raw) = (case v of None \<Rightarrow> bytes_at off k raw | Some x \<Rightarrow> to_le k x)"
  by (cases v) (simp_all add: patch_opt_def buffer_simps)

lemma hi_lo_split: "v < 2 ^ (a + b) \<Longrightarrow> hi_lo a (v div 2 ^ a mod 2 ^ b) (v mod 2 ^ a) = v"
  by (simp add: hi_lo_def less_mult_imp_div_less power_add mult.commute)

lemma parse_apply_update:
  assumes "length raw = 128" and "update_fits upd"
  shows "parse_raw (apply_update upd raw) = updated upd (parse_raw raw)"
    and "i_dtime (apply_update upd raw) = i_dtime raw"
proof -
  note read = apply_update_def Let_def length_patch_opt bytes_at_patch_opt_other bytes_at_patch_opt_same
    int_read_defs raw_inode_defs assms(1)
  have f: "bytes_at 0 2 (apply_update upd raw) = case_option (bytes_at 0 2 raw) (to_le 2) (upd_mode upd)"
    "bytes_at 2 2 (apply_update upd raw) = case_option (bytes_at 2 2 raw) (to_le 2) (upd_uid upd)"
    "bytes_at 4 4 (apply_update upd raw) = case_option (bytes_at 4 4 raw) (to_le 4) (upd_size upd)"
    "bytes_at 8 4 (apply_update upd raw) = case_option (bytes_at 8 4 raw) (to_le 4) (upd_atime upd)"
    "bytes_at 12 4 (apply_update upd raw) = case_option (bytes_at 12 4 raw) (to_le 4) (upd_ctime upd)"
    "bytes_at 16 4 (apply_update upd raw) = case_option (bytes_at 16 4 raw) (to_le 4) (upd_mtime upd)"
    "bytes_at 24 2 (apply_update upd raw) = case_option (bytes_at 24 2 raw) (to_le 2) (upd_gid upd)"
    "bytes_at 26 2 (apply_update upd raw) = case_option (bytes_at 26 2 raw) (to_le 2) (upd_links_count upd)"
    "bytes_at 32 4 (apply_update upd raw) = case_option (bytes_at 32 4 raw) (to_le 4) (upd_flags upd)"
    "bytes_at 40 60 (apply_update upd raw) = bytes_at 40 60 raw"
    "bytes_at 20 4 (apply_update upd raw) = bytes_at 20 4 raw"
    "bytes_at 108 4 (apply_update upd raw) = case_option (bytes_at 108 4 raw) (\<lambda>v. to_le 4 (v div 2 ^ 32)) (upd_size upd)"
    "bytes_at 120 2 (apply_update upd raw) = case_option (bytes_at 120 2 raw) (\<lambda>v. to_le 2 (v div 2 ^ 16)) (upd_uid upd)"
    "bytes_at 122 2 (apply_update upd raw) = case_option (bytes_at 122 2 raw) (\<lambda>v. to_le 2 (v div 2 ^ 16)) (upd_gid upd)"
    by (simp_all add: read case_map_option o_def cong: option.case_cong)
  note fits = assms(2)[unfolded update_fits_def]
  show "i_dtime (apply_update upd raw) = i_dtime raw" by (simp add: raw_inode_defs int_read_defs f)
  note fields = raw_inode_defs int_read_defs f le_nat_to_le
  let ?new = "apply_update upd raw"
  have "hi_lo 32 (i_size_hi ?new) (i_size_lo ?new) = case_option (hi_lo 32 (i_size_hi raw) (i_size_lo raw)) id (upd_size upd)"
    using fits hi_lo_split[of "the (upd_size upd)" 32 32] by (cases "upd_size upd") (simp_all add: fields)
  moreover have "hi_lo 16 (i_uid_hi ?new) (i_uid ?new) = case_option (hi_lo 16 (i_uid_hi raw) (i_uid raw)) id (upd_uid upd)"
    using fits hi_lo_split[of "the (upd_uid upd)" 16 16] by (cases "upd_uid upd") (simp_all add: fields)
  moreover have "hi_lo 16 (i_gid_hi ?new) (i_gid ?new) = case_option (hi_lo 16 (i_gid_hi raw) (i_gid raw)) id (upd_gid upd)"
    using fits hi_lo_split[of "the (upd_gid upd)" 16 16] by (cases "upd_gid upd") (simp_all add: fields)
  moreover have "i_mode ?new = case_option (i_mode raw) id (upd_mode upd)"
    using fits by (cases "upd_mode upd") (simp_all add: fields)
  moreover have "i_atime ?new = case_option (i_atime raw) id (upd_atime upd)"
    using fits by (cases "upd_atime upd") (simp_all add: fields)
  moreover have "i_mtime ?new = case_option (i_mtime raw) id (upd_mtime upd)"
    using fits by (cases "upd_mtime upd") (simp_all add: fields)
  moreover have "i_ctime ?new = case_option (i_ctime raw) id (upd_ctime upd)"
    using fits by (cases "upd_ctime upd") (simp_all add: fields)
  moreover have "i_links_count ?new = case_option (i_links_count raw) id (upd_links_count upd)"
    using fits by (cases "upd_links_count upd") (simp_all add: fields)
  moreover have "i_flags ?new = case_option (i_flags raw) id (upd_flags upd)"
    using fits by (cases "upd_flags upd") (simp_all add: fields)
  moreover have "i_block ?new = i_block raw" by (simp add: i_block_def f)
  ultimately show "parse_raw ?new = updated upd (parse_raw raw)"
    by (simp add: parse_raw_def updated_def cong: option.case_cong)
qed

lemma inode_block_wadd:
  assumes "sb_ok sb" and "inode_there sb gdt i"
  shows "wadd 64 (gd_inode_table (gdt ! ((i - 1) div sb_inodes_per_group sb)))
      ((i - 1) mod sb_inodes_per_group sb div (sb_block_size sb div sb_inode_size sb)) = inode_block sb gdt i"
proof -
  have "inode_block sb gdt i * 1 \<le> inode_block sb gdt i * sb_block_size sb"
    by (rule mult_le_mono2) (use sb_ok_block_size(1)[OF assms(1)] in simp)
  then have "inode_block sb gdt i < 2 ^ 64" using inode_position(5)[OF assms] by linarith
  then show ?thesis by (simp add: inode_block_def inode_group_def wadd_def)
qed

lemma read_inode_with_txn_cong:
  assumes "sb_ok sb" and "inode_there sb gdt j"
    and "pinned txn' (inode_block sb gdt j) = pinned txn (inode_block sb gdt j)"
  shows "read_inode_with_txn d sb gdt txn' j = read_inode_with_txn d sb gdt txn j"
proof -
  have "(j - 1) div sb_inodes_per_group sb < length gdt"
    using assms(2) by (simp add: inode_there_def inode_group_def)
  then show ?thesis
    using assms(3)
    by (simp add: read_inode_with_txn_def Let_def gdt_get_def inode_block_wadd[OF assms(1,2)] del: One_nat_def)
qed

text \<open>Two inodes of one group in one block lie apart.\<close>

lemma inode_slots_apart:
  assumes "sb_ok sb" and "inode_there sb gdt i" and "inode_there sb gdt j"
    and "inode_group sb j = inode_group sb i" and "j \<noteq> i" and "inode_block sb gdt j = inode_block sb gdt i"
  shows "inode_off sb j + 128 \<le> inode_off sb i \<or> inode_off sb i + 128 \<le> inode_off sb j"
proof -
  define g k sz where "g = sb_inodes_per_group sb" and "k = sb_block_size sb div sb_inode_size sb" and "sz = sb_inode_size sb"
  define a b where "a = (i - 1) mod g mod k" and "b = (j - 1) mod g mod k"
  have "(i - 1) mod g div k = (j - 1) mod g div k"
    using assms(4,6) by (simp add: inode_block_def g_def k_def)
  moreover have "(i - 1) div g = (j - 1) div g" using assms(4) by (simp add: inode_group_def g_def)
  moreover have "i - 1 \<noteq> j - 1" using assms(2,3,5) unfolding inode_there_def by linarith
  ultimately have "a \<noteq> b" unfolding a_def b_def by (metis div_mult_mod_eq)
  have sz: "128 \<le> sz" using sb_ok_inode_size(1)[OF assms(1)] by (simp add: sz_def)
  have step: "x * sz + 128 \<le> y * sz" if "x < y" for x y
  proof -
    have "(x + 1) * sz \<le> y * sz" by (rule mult_le_mono1) (use that in simp)
    then show ?thesis using sz by simp
  qed
  have "inode_off sb i = a * sz" "inode_off sb j = b * sz" by (simp_all add: inode_off_def a_def b_def g_def k_def sz_def)
  then show ?thesis using step[of a b] step[of b a] \<open>a \<noteq> b\<close> by (metis nat_neq_iff)
qed

text \<open>The two forms of the position in \<open>update_inode\<close>.\<close>

lemma update_inode_OkD:
  assumes "sb_ok sb" and "inode_there sb gdt i" and "update_inode sb gdt i upd s = (Ok (), s')"
  obtains blk where "block_with_txn IwBlockDevice sb (inode_block sb gdt i) s = Ok blk"
    and "inode_off sb i + 128 \<le> length blk"
    and "s' = s\<lparr>f_txn := pin_block (inode_block sb gdt i)
      (patch (inode_off sb i) (apply_update upd (bytes_at (inode_off sb i) 128 blk)) blk) (f_txn s)\<rparr>"
proof -
  note pos = inode_position[OF assms(1,2)]
  have ipg: "sb_inodes_per_group sb \<noteq> 0" "sb_block_size sb \<noteq> 0"
    using assms(1) sb_ok_block_size(1)[OF assms(1)] by (auto simp: sb_ok_def)
  have loc: "inode_location sb gdt i = Ok (gd_inode_table (gdt ! inode_group sb i),
      (i - 1) mod sb_inodes_per_group sb * sb_inode_size sb)"
    using assms(2) ipg pos(1)
    by (simp add: inode_location_def inode_there_def inode_group_def gdt_get_def rassert_def Let_def del: One_nat_def)
  have blk: "wadd 64 (gd_inode_table (gdt ! inode_group sb i))
      ((i - 1) mod sb_inodes_per_group sb div (sb_block_size sb div sb_inode_size sb)) = inode_block sb gdt i"
    using inode_block_wadd[OF assms(1,2)] by (simp add: inode_group_def)
  show thesis
    using assms(3) that ipg
    by (auto simp: update_inode_def loc pos(2,3) blk Let_def sbind_Ok_iff pin_def rassert_def
        simp del: sbind_sread One_nat_def split: if_split_asm)
qed

text \<open>
  C12. An inode update is what the transaction reads back: after a successful \<open>update_inode\<close>
  the inode reads as before with exactly the given fields replaced, the device is untouched,
  and every other inode of the group that could be read reads the same.
\<close>

theorem update_inode_read_back:
  assumes "sb_ok sb" and "fs_inv sb d0 n s" and "inode_there sb gdt i" and "update_fits upd"
    and "read_inode_with_txn (f_dev s) sb gdt (f_txn s) i = Ok ino"
    and "update_inode sb gdt i upd s = (Ok (), s')"
  shows "f_dev s' = f_dev s \<and>
    read_inode_with_txn (f_dev s') sb gdt (f_txn s') i = Ok (updated upd ino) \<and>
    (\<forall>j. inode_there sb gdt j \<and> inode_group sb j = inode_group sb i \<and> j \<noteq> i \<longrightarrow>
       read_inode_with_txn (f_dev s') sb gdt (f_txn s') j = read_inode_with_txn (f_dev s) sb gdt (f_txn s) j)"
proof -
  obtain blk where blk: "block_with_txn IwBlockDevice sb (inode_block sb gdt i) s = Ok blk"
    and fit: "inode_off sb i + 128 \<le> length blk"
    and s': "s' = s\<lparr>f_txn := pin_block (inode_block sb gdt i)
      (patch (inode_off sb i) (apply_update upd (bytes_at (inode_off sb i) 128 blk)) blk) (f_txn s)\<rparr>"
    using update_inode_OkD[OF assms(1,3,6)] .
  let ?raw = "bytes_at (inode_off sb i) 128 blk"
  define blk' where "blk' = patch (inode_off sb i) (apply_update upd ?raw) blk"
  have raw: "length ?raw = 128" using fit by simp
  have inv': "fs_inv sb d0 n s'" using preservesD[OF update_inode_inv[OF assms(1)] assms(2,6)] .
  have ok: "txn_ok (f_txn s)" using assms(2) by (simp add: fs_inv_def)
  have now: "block_with_txn IwBlockDevice sb b s' =
      (if b = inode_block sb gdt i then Ok blk' else block_with_txn IwBlockDevice sb b s)" for b
    by (simp add: block_with_txn_def s' blk'_def txn_pins.lookup_pin[OF ok] cong: option.case_cong)
  note at = read_inode_with_txn_of_block[OF assms(1)]
  have old: "decode_inode i ?raw = Ok ino" using at[OF assms(2,3) blk] assms(5) by simp
  have "read_inode_with_txn (f_dev s') sb gdt (f_txn s') i = decode_inode i (bytes_at (inode_off sb i) 128 blk')"
    by (rule at[OF inv' assms(3), where conv = IwBlockDevice]) (simp add: now)
  also have "bytes_at (inode_off sb i) 128 blk' = apply_update upd ?raw"
    using fit raw by (simp add: blk'_def buffer_simps)
  also have "decode_inode i (apply_update upd ?raw) = Ok (updated upd ino)"
    using old parse_apply_update[OF raw assms(4)] by (auto simp: decode_inode_def split: if_split_asm)
  finally have mine: "read_inode_with_txn (f_dev s') sb gdt (f_txn s') i = Ok (updated upd ino)" .
  have "read_inode_with_txn (f_dev s') sb gdt (f_txn s') j = read_inode_with_txn (f_dev s) sb gdt (f_txn s) j"
    if j: "inode_there sb gdt j" "inode_group sb j = inode_group sb i" "j \<noteq> i" for j
  proof (cases "inode_block sb gdt j = inode_block sb gdt i")
    case True
    have apart: "inode_off sb j + 128 \<le> inode_off sb i \<or> inode_off sb i + 128 \<le> inode_off sb j"
      using inode_slots_apart[OF assms(1,3) j True] .
    have "read_inode_with_txn (f_dev s') sb gdt (f_txn s') j = decode_inode j (bytes_at (inode_off sb j) 128 blk')"
      by (rule at[OF inv' j(1), where conv = IwBlockDevice]) (simp add: now True)
    also have "bytes_at (inode_off sb j) 128 blk' = bytes_at (inode_off sb j) 128 blk"
      using fit raw apart by (simp add: blk'_def buffer_simps)
    also have "decode_inode j \<dots> = read_inode_with_txn (f_dev s) sb gdt (f_txn s) j"
      by (rule at[OF assms(2) j(1), where conv = IwBlockDevice, symmetric]) (simp add: True blk)
    finally show ?thesis .
  next
    case False
    have "pinned (f_txn s') (inode_block sb gdt j) = pinned (f_txn s) (inode_block sb gdt j)"
      using txn_pins.lookup_pin_other[OF ok False] by (simp add: s')
    from read_inode_with_txn_cong[OF assms(1) j(1) this] show ?thesis by (simp add: s')
  qed
  then show ?thesis using mine by (simp add: s')
qed

theorem update_inode_read_back_witness:
  "\<exists>s'. update_inode sample_sb [sample_gd] 12 (no_update\<lparr>upd_size := Some 7\<rparr>) sample_state = (Ok (), s') \<and>
     read_inode_with_txn (f_dev s') sample_sb [sample_gd] (f_txn s') 12 =
       Ok ((sample_ino 0x81A4 5 1 16 1)\<lparr>ino_size := 7\<rparr>)"
proof -
  let ?upd = "no_update\<lparr>upd_size := Some 7\<rparr>"
  have fields: "f_txn sample_state = txn_new 1" "f_dev sample_state = sample_disk" "pinned (txn_new q) b = None"
    "sb_inodes_count sample_sb = 16" "gd_inode_table sample_gd = 5" for b q
    by (simp_all add: sample_state_def pinned_def txn_new_def sample_sb_def sample_gd_def)
  have len: "length (sample_block 6) = 1024" by simp
  have there: "inode_there sample_sb [sample_gd] 12"
    by (simp add: inode_there_def inode_group_def fields)
  have read: "read_inode_with_txn (f_dev sample_state) sample_sb [sample_gd] (f_txn sample_state) 12 = Ok (sample_ino 0x81A4 5 1 16 1)"
    using sample_read_inode(3) by (simp add: read_inode_with_txn_def fields gdt_get_def wadd_def)
  have "block_with_txn IwBlockDevice sample_sb 6 sample_state = Ok (sample_block 6)"
    using read_sample_block[of 12 6] by (simp add: block_with_txn_def fields wmul_def)
  then obtain s' where s': "update_inode sample_sb [sample_gd] 12 ?upd sample_state = (Ok (), s')"
    using len by (simp add: update_inode_def inode_location_def fields gdt_get_def wmul_def wadd_def pin_def
        del: length_sample_block)
  have "update_fits ?upd" by (simp add: update_fits_def no_update_def)
  from update_inode_read_back[OF sample_sb_ok sample_state_inv there this read s'] s' show ?thesis
    by (auto simp: updated_def no_update_def)
qed

end
