(* ===== verification/Extent_Append.thy ===== *)
theory Extent_Append
  imports Inode_Sound
begin

text \<open>
  Appending blocks to a file whose extents are all in the inode: the map from logical to
  physical blocks after \<open>extent_append\<close> is the old one with the new blocks at its end,
  whether they are merged into the last extent or stored as a new one.
\<close>

section \<open>Entries of a node\<close>

definition entry_leaf :: "byte list \<Rightarrow> extent_leaf" where
  "entry_leaf e = \<lparr>ee_block = le32 0 e, ee_len = le16 4 e, ee_start_hi = le16 6 e, ee_start_lo = le32 8 e\<rparr>"

lemma leaf_at_entry: "leaf_at bs i = entry_leaf (bytes_at (12 + i * 12) 12 bs)"
  by (simp add: leaf_at_def entry_leaf_def Let_def int_read_defs add.commute add.left_commute)

lemma entry_leaf_made:
  assumes "block < 2 ^ 32" and "len < 2 ^ 16" and "phys < 2 ^ 48"
  shows "entry_leaf (make_leaf_entry block len phys) =
    \<lparr>ee_block = block, ee_len = len, ee_start_hi = phys div 2 ^ 32, ee_start_lo = phys mod 2 ^ 32\<rparr>"
proof -
  have all: "bytes_at 0 n (to_le n v) = to_le n v" for n v by (simp add: bytes_at_def)
  have hi: "phys div 2 ^ 32 < 2 ^ 16" using assms(3) by (simp add: less_mult_imp_div_less)
  show ?thesis
    using assms hi
    by (simp add: entry_leaf_def make_leaf_entry_def int_read_defs bytes_at_append_left bytes_at_append_right all le_nat_to_le)
qed

lemma length_make_leaf_entry [simp]: "length (make_leaf_entry b n p) = 12"
  by (simp add: make_leaf_entry_def)

lemma length_make_header [simp]: "length (make_header e m d) = 12"
  by (simp add: make_header_def)

lemma header_made: "e < 2 ^ 16 \<Longrightarrow> m < 2 ^ 16 \<Longrightarrow> d < 2 ^ 16 \<Longrightarrow>
  header_of (make_header e m d) = \<lparr>eh_magic = EXTENT_MAGIC, eh_entries = e, eh_max = m, eh_depth = d\<rparr>"
proof -
  have all: "bytes_at 0 n (to_le n v) = to_le n v" for n v by (simp add: bytes_at_def)
  show "e < 2 ^ 16 \<Longrightarrow> m < 2 ^ 16 \<Longrightarrow> d < 2 ^ 16 \<Longrightarrow> ?thesis"
    by (simp add: header_of_def make_header_def int_read_defs bytes_at_append_left bytes_at_append_right all
        le_nat_to_le EXTENT_MAGIC_def)
qed

lemma header_of_head: "header_of bs = header_of (bytes_at 0 12 bs)"
  by (simp add: header_of_def int_read_defs numeral_2_eq_2)

section \<open>Lookups in a list of leaves\<close>

lemma lookup_leaves_append:
  "lookup_leaves (ls @ ms) l = (case lookup_leaves ls l of Ok None \<Rightarrow> lookup_leaves ms l | r \<Rightarrow> r)"
  by (induction ls) (auto split: res.split option.split simp: ok_or_def)

lemma lookup_leaves_before:
  "\<forall>x \<in> set ls. ee_block x + leaf_blocks x \<le> l \<Longrightarrow> lookup_leaves ls l = Ok None"
  by (induction ls) (auto simp: leaf_blocks_def split: if_split_asm)

text \<open>The first logical block after the extents.\<close>

definition leaves_end :: "extent_leaf list \<Rightarrow> nat" where
  "leaves_end ls = (if ls = [] then 0 else ee_block (last ls) + leaf_blocks (last ls))"

lemma leaves_end_bound:
  assumes "leaves_in_order ls" and "x \<in> set ls"
  shows "ee_block x + leaf_blocks x \<le> leaves_end ls"
proof -
  obtain init y where ls: "ls = init @ [y]" using assms(2) by (cases ls rule: rev_cases) auto
  then show ?thesis
    using assms by (fastforce simp: leaves_in_order_def sorted_wrt_append leaves_end_def)
qed

text \<open>A new extent at the end, and the last extent made longer.\<close>

definition appended :: "nat \<Rightarrow> nat \<Rightarrow> nat \<Rightarrow> (nat \<Rightarrow> (extent_error, nat option) res) \<Rightarrow> nat \<Rightarrow> (extent_error, nat option) res" where
  "appended first n phys f l = (if first \<le> l \<and> l < first + n then Ok (Some (phys + (l - first))) else f l)"

lemma lookup_new_leaf:
  assumes "leaves_in_order ls" and "0 < n" and "n \<le> 32768" and "phys + n \<le> 2 ^ 48"
  shows "lookup_leaves (ls @ [\<lparr>ee_block = leaves_end ls, ee_len = n, ee_start_hi = phys div 2 ^ 32,
      ee_start_lo = phys mod 2 ^ 32\<rparr>]) l = appended (leaves_end ls) n phys (lookup_leaves ls) l"
proof -
  have start: "hi_lo 32 (phys div 2 ^ 32) (phys mod 2 ^ 32) = phys" by (simp add: hi_lo_def)
  show ?thesis
  proof (cases "leaves_end ls \<le> l")
    case True
    then obtain k where k: "l = leaves_end ls + k" using le_Suc_ex by blast
    have "lookup_leaves ls l = Ok None"
      using leaves_end_bound[OF assms(1)] True by (intro lookup_leaves_before) (meson order_trans)
    then show ?thesis
      using assms(3,4) start by (simp add: k lookup_leaves_append appended_def leaf_start_def checked_add_def)
  next
    case False
    then show ?thesis
      by (simp add: lookup_leaves_append appended_def split: res.split option.split)
  qed
qed

lemma lookup_longer_leaf:
  assumes "leaves_in_order (init @ [x])" and "0 < ee_len x" and "ee_len x + n \<le> 32768"
    and "leaf_start x + ee_len x = phys"
  shows "lookup_leaves (init @ [x\<lparr>ee_len := ee_len x + n\<rparr>]) l =
    appended (leaves_end (init @ [x])) n phys (lookup_leaves (init @ [x])) l"
proof -
  have start: "leaf_start x < 2 ^ 48" using assms(1) leaf_start_less[of x] by (simp add: leaves_in_order_def)
  have e: "leaves_end (init @ [x]) = ee_block x + ee_len x" using assms(3) by (simp add: leaves_end_def leaf_blocks_def)
  have new: "leaf_start (x\<lparr>ee_len := k\<rparr>) = leaf_start x" for k by (simp add: leaf_start_def)
  show ?thesis
  proof (cases "ee_block x \<le> l")
    case True
    then obtain k where k: "l = ee_block x + k" using le_Suc_ex by blast
    have "\<forall>y \<in> set init. ee_block y + leaf_blocks y \<le> l"
      using assms(1) True by (fastforce simp: leaves_in_order_def sorted_wrt_append)
    then have "lookup_leaves init l = Ok None" by (rule lookup_leaves_before)
    then show ?thesis
      using assms(2-4) start by (auto simp: k lookup_leaves_append appended_def e new checked_add_def)
  next
    case False
    then show ?thesis by (simp add: lookup_leaves_append appended_def e split: res.split option.split)
  qed
qed

section \<open>The root after an append\<close>

lemma leaves_of_split: "eh_entries (header_of root) = Suc e \<Longrightarrow>
  leaves_of root = map (leaf_at root) [0..<e] @ [leaf_at root e]"
  by (simp add: leaves_of_def)

lemma coalesced_root:
  assumes "try_coalesce_root_leaf root phys n = Ok (Some root')" and "length root = 60"
    and "leaves_in_order (leaves_of root)"
  obtains init x where "length root' = 60" and "header_of root' = header_of root"
    and "leaves_of root = init @ [x]" and "leaves_of root' = init @ [x\<lparr>ee_len := ee_len x + n\<rparr>]"
    and "0 < ee_len x" and "ee_len x + n \<le> 32768" and "leaf_start x + ee_len x = phys"
    and "12 + eh_entries (header_of root) * 12 \<le> 60"
proof -
  obtain e where e: "eh_entries (header_of root) = Suc e"
    using assms(1) by (cases "eh_entries (header_of root)") (auto simp: try_coalesce_root_leaf_def Let_def split: if_split_asm)
  define off x where "off = 12 + e * 12" and "x = leaf_at root e"
  have ls: "leaves_of root = map (leaf_at root) [0..<e] @ [x]" using leaves_of_split[OF e] by (simp add: x_def)
  have start: "leaf_start x < 2 ^ 48"
    using assms(3) leaf_start_less[of x] by (simp add: ls leaves_in_order_def)
  have fit: "off + 12 \<le> 60" and len: "0 < ee_len x" "ee_len x + n \<le> 32768" and ph: "wadd 64 (leaf_start x) (ee_len x) = phys"
    and root': "root' = patch (off + 4) (to_le 2 (ee_len x + n)) root"
    using assms(1,2)
    by (auto simp: try_coalesce_root_leaf_def coalesce_leaf_in_buf_def Let_def e off_def x_def MAX_EXTENT_LEN_def
        split: if_split_asm)
  have "leaf_start x + ee_len x = phys" using ph start len by (simp add: wadd_def)
  moreover have "length root' = 60" using fit assms(2) by (simp add: root')
  moreover have h: "header_of root' = header_of root"
    using fit assms(2) by (simp add: root' header_of_def int_read_defs buffer_simps off_def)
  moreover have "leaf_at root' i = leaf_at root i" if "i < e" for i
  proof -
    have "12 + i * 12 + 12 \<le> off + 4" using that by (simp add: off_def)
    then show ?thesis using fit assms(2) by (simp add: leaf_at_entry root' buffer_simps)
  qed
  moreover have "leaf_at root' e = x\<lparr>ee_len := ee_len x + n\<rparr>"
  proof -
    have "le16 (off + 4) root' = ee_len x + n" using fit len assms(2) by (simp add: root' int_read_defs buffer_simps)
    moreover have "le32 off root' = le32 off root" "le16 (off + 6) root' = le16 (off + 6) root"
      "le32 (off + 8) root' = le32 (off + 8) root"
      using fit assms(2) by (simp_all add: root' int_read_defs buffer_simps)
    ultimately show ?thesis by (simp add: leaf_at_def x_def Let_def off_def[symmetric])
  qed
  ultimately show thesis
    using that[of "map (leaf_at root) [0..<e]" x] ls len leaves_of_split[of root' e] e fit by (simp add: off_def)
qed

lemma extended_root:
  assumes "length root = 60" and "eh_depth (header_of root) = 0" and "12 + eh_entries (header_of root) * 12 + 12 \<le> 60"
    and "length leaf = 12"
  defines "root' \<equiv> patch 0 (make_header (eh_entries (header_of root) + 1) (eh_max (header_of root)) 0)
      (patch (12 + eh_entries (header_of root) * 12) leaf root)"
  shows "length root' = 60" and "header_of root' = \<lparr>eh_magic = EXTENT_MAGIC, eh_entries = eh_entries (header_of root) + 1,
      eh_max = eh_max (header_of root), eh_depth = 0\<rparr>"
    and "leaves_of root' = leaves_of root @ [entry_leaf leaf]"
proof -
  define e where "e = eh_entries (header_of root)"
  have mx: "eh_max (header_of root) < 2 ^ 16" using le16_less[of 4 root] by (simp add: header_of_def)
  have e: "12 + e * 12 + 12 \<le> 60" "e < 2 ^ 16 - 1" using assms(3) by (simp_all add: e_def)
  show len: "length root' = 60" using e assms(1,4) by (simp add: root'_def e_def[symmetric])
  have "bytes_at 0 12 root' = make_header (e + 1) (eh_max (header_of root)) 0"
    using e assms(1,4) by (simp add: root'_def e_def[symmetric] buffer_simps)
  then show h: "header_of root' = \<lparr>eh_magic = EXTENT_MAGIC, eh_entries = eh_entries (header_of root) + 1,
      eh_max = eh_max (header_of root), eh_depth = 0\<rparr>"
    using header_made[of "e + 1" "eh_max (header_of root)" 0] mx e by (subst header_of_head) (simp add: e_def)
  have "leaf_at root' i = leaf_at root i" if "i < e" for i
  proof -
    have "12 + i * 12 + 12 \<le> 12 + e * 12" using that by simp
    then show ?thesis using e assms(1,4) by (simp add: leaf_at_entry root'_def e_def[symmetric] buffer_simps)
  qed
  moreover have "leaf_at root' e = entry_leaf leaf"
    using e assms(1,4) by (simp add: leaf_at_entry root'_def e_def[symmetric] buffer_simps)
  ultimately show "leaves_of root' = leaves_of root @ [entry_leaf leaf]"
    using leaves_of_split[of root' e] h by (simp add: e_def leaves_of_def)
qed

lemma next_logical_end:
  assumes "next_logical_block root = Ok k" and "leaves_end (leaves_of root) < 2 ^ 32"
  shows "k = leaves_end (leaves_of root)"
proof (cases "eh_entries (header_of root)")
  case 0
  then show ?thesis using assms(1) by (simp add: next_logical_block_def leaves_of_def leaves_end_def)
next
  case (Suc e)
  then have "k = sat_add 32 (ee_block (leaf_at root e)) (real_len (leaf_at root e))"
    using assms(1) by (simp add: next_logical_block_def Let_def)
  then show ?thesis
    using assms(2) by (simp add: leaves_of_split[OF Suc] leaves_end_def real_len_def leaf_blocks_def sat_add_def)
qed

section \<open>The inode after an append\<close>

lemma ew_block_eq: "ew_block_with_txn sb b = sread (block_with_txn EwBlockDevice sb b)"
  by (simp add: ew_block_with_txn_def block_with_txn_def[abs_def])

lemma flush_raw_inode_OkD:
  assumes "flush_raw_inode sb b off raw s = (Ok (), s')"
  obtains data where "block_with_txn EwBlockDevice sb b s = Ok data" and "off + length raw \<le> length data"
    and "f_gdt s' = f_gdt s" and "f_txn s' = pin_block b (patch off raw data) (f_txn s)"
  using assms
  by (auto simp: flush_raw_inode_def ew_block_eq ew_write_block_def pin_def sbind_Ok_iff smap_err_Ok_iff on_dev_Ok_iff
      simp del: sbind_sread)

lemma ew_location:
  assumes "sb_ok sb" and "inode_there sb gdt i"
  shows "ew_inode_location sb gdt i = Ok (inode_block sb gdt i, inode_off sb i)"
proof -
  have "i < 2 ^ 32" "0 < i" using assms by (auto simp: inode_there_def sb_ok_def)
  then have "wsub 32 i 1 = i - 1" by (intro wsub_small) simp_all
  then show ?thesis
    using assms sb_ok_inode_size[OF assms(1)] inode_block_wadd[OF assms]
    by (simp add: ew_inode_location_def inode_there_def inode_group_def gdt_get_def inode_off_def sb_ok_def Let_def
        del: One_nat_def)
qed

lemma lookup_root:
  assumes "length root = 60" and "eh_magic (header_of root) = EXTENT_MAGIC" and "eh_depth (header_of root) = 0"
    and "12 + eh_entries (header_of root) * 12 \<le> 60"
  shows "lookup_in_node (tree_fuel d) d sb root l = lookup_leaves (leaves_of root) l"
proof -
  obtain k where fuel: "tree_fuel d = Suc k" by (simp add: tree_fuel_def)
  have "check_node root = Ok (header_of root)"
    using assms by (simp add: check_node_def sat_add_def sat_mul_def MAX_DEPTH_def)
  then show ?thesis using assms(3) by (simp add: fuel)
qed

text \<open>The two ways the root can change, as the code takes them.\<close>

definition new_root :: "byte list \<Rightarrow> nat \<Rightarrow> nat \<Rightarrow> byte list \<Rightarrow> bool" where
  "new_root root phys n root' \<longleftrightarrow>
     try_coalesce_root_leaf root phys n = (Ok (Some root') :: (extent_write_error, _) res) \<or>
     (\<exists>k. next_logical_block root = (Ok k :: (extent_write_error, _) res) \<and>
        12 + eh_entries (header_of root) * 12 + 12 \<le> 60 \<and>
        root' = patch 0 (make_header (eh_entries (header_of root) + 1) (eh_max (header_of root)) 0)
          (patch (12 + eh_entries (header_of root) * 12) (make_leaf_entry k n phys) root))"

lemma new_root_map:
  assumes "new_root root phys n root'" and "length root = 60" and "eh_magic (header_of root) = EXTENT_MAGIC"
    and "eh_depth (header_of root) = 0" and "leaves_in_order (leaves_of root)" and "leaves_end (leaves_of root) < 2 ^ 32"
    and "0 < n" and "n \<le> 32768" and "phys + n \<le> 2 ^ 48"
  shows "length root' = 60 \<and> lookup_in_node (tree_fuel d') d' sb root' l =
    appended (leaves_end (leaves_of root)) n phys (lookup_in_node (tree_fuel d) d sb root) l"
  using assms(1) unfolding new_root_def
proof (elim disjE exE conjE)
  assume "try_coalesce_root_leaf root phys n = (Ok (Some root') :: (extent_write_error, _) res)"
  from coalesced_root[OF this assms(2,5)] obtain init x where c: "length root' = 60" "header_of root' = header_of root"
    "leaves_of root = init @ [x]" "leaves_of root' = init @ [x\<lparr>ee_len := ee_len x + n\<rparr>]"
    "0 < ee_len x" "ee_len x + n \<le> 32768" "leaf_start x + ee_len x = phys"
    and fit: "12 + eh_entries (header_of root) * 12 \<le> 60" by metis
  show ?thesis
    using lookup_longer_leaf[OF assms(5)[unfolded c(3)] c(5,6,7), of l] c(1) fit
      lookup_root[OF assms(2,3,4) fit] lookup_root[of root'] assms(3,4)
    by (simp add: c(2,3,4) appended_def)
next
  fix k
  assume k: "next_logical_block root = (Ok k :: (extent_write_error, _) res)"
    and fit: "12 + eh_entries (header_of root) * 12 + 12 \<le> 60"
    and root': "root' = patch 0 (make_header (eh_entries (header_of root) + 1) (eh_max (header_of root)) 0)
          (patch (12 + eh_entries (header_of root) * 12) (make_leaf_entry k n phys) root)"
  have k: "k = leaves_end (leaves_of root)" using next_logical_end[OF k assms(6)] .
  note e = extended_root[OF assms(2,4) fit, of "make_leaf_entry k n phys", folded root', simplified]
  have "leaves_of root' = leaves_of root @ [\<lparr>ee_block = leaves_end (leaves_of root), ee_len = n,
      ee_start_hi = phys div 2 ^ 32, ee_start_lo = phys mod 2 ^ 32\<rparr>]"
    using e(3) entry_leaf_made[of k n phys] assms(6-9) by (simp add: k)
  then show ?thesis
    using lookup_new_leaf[OF assms(5,7,8,9), of l] e fit lookup_root[of root' d' sb l] lookup_root[OF assms(2,3,4), of d sb l]
    by (simp add: appended_def)
qed

lemma new_root_leaves:
  assumes "new_root root phys n root'" and "length root = 60" and "eh_magic (header_of root) = EXTENT_MAGIC"
    and "eh_depth (header_of root) = 0" and "leaves_in_order (leaves_of root)" and "leaves_end (leaves_of root) < 2 ^ 32"
    and "0 < n" and "n \<le> 32768" and "phys + n \<le> 2 ^ 48"
  shows "check_node root' = Ok (header_of root') \<and> eh_depth (header_of root') = 0 \<and> leaves_in_order (leaves_of root')"
  using assms(1) unfolding new_root_def
proof (elim disjE exE conjE)
  assume "try_coalesce_root_leaf root phys n = (Ok (Some root') :: (extent_write_error, _) res)"
  from coalesced_root[OF this assms(2,5)] obtain init x where c: "length root' = 60" "header_of root' = header_of root"
    "leaves_of root = init @ [x]" "leaves_of root' = init @ [x\<lparr>ee_len := ee_len x + n\<rparr>]" "ee_len x + n \<le> 32768"
    and fit: "12 + eh_entries (header_of root) * 12 \<le> 60" by metis
  have "leaves_in_order (leaves_of root')"
    using assms(5) c(5) unfolding c(3,4) by (auto simp: leaves_in_order_def sorted_wrt_append)
  then show ?thesis
    using c(1) fit assms(3,4) by (simp add: check_node_def c(2) sat_add_def sat_mul_def MAX_DEPTH_def)
next
  fix k
  assume k: "next_logical_block root = (Ok k :: (extent_write_error, _) res)"
    and fit: "12 + eh_entries (header_of root) * 12 + 12 \<le> 60"
    and root': "root' = patch 0 (make_header (eh_entries (header_of root) + 1) (eh_max (header_of root)) 0)
          (patch (12 + eh_entries (header_of root) * 12) (make_leaf_entry k n phys) root)"
  have k: "k = leaves_end (leaves_of root)" using next_logical_end[OF k assms(6)] .
  note e = extended_root[OF assms(2,4) fit, of "make_leaf_entry k n phys", folded root', simplified]
  have "leaves_of root' = leaves_of root @ [\<lparr>ee_block = leaves_end (leaves_of root), ee_len = n,
      ee_start_hi = phys div 2 ^ 32, ee_start_lo = phys mod 2 ^ 32\<rparr>]"
    using e(3) entry_leaf_made[of k n phys] assms(6-9) by (simp add: k)
  moreover have "phys div 2 ^ 32 < 2 ^ 16" using assms(7,9) by (simp add: less_mult_imp_div_less)
  moreover have "ee_block x + leaf_blocks x \<le> leaves_end (leaves_of root)" if "x \<in> set (leaves_of root)" for x
    using leaves_end_bound[OF assms(5) that] .
  ultimately have "leaves_in_order (leaves_of root')"
    using assms(5,6,8) by (fastforce simp: leaves_in_order_def sorted_wrt_append)
  then show ?thesis
    using e(1,2) fit by (simp add: check_node_def sat_add_def sat_mul_def MAX_DEPTH_def)
qed

text \<open>The stores into the raw inode, seen by the readers.\<close>

lemma parse_new_root:
  assumes "length raw = 128" and "length root' = 60"
  shows "parse_raw (update_iblocks sb n (set_i_block root' raw)) = (parse_raw raw)\<lparr>ino_block_data := root'\<rparr>"
    and "i_dtime (update_iblocks sb n (set_i_block root' raw)) = i_dtime raw"
    and "length (update_iblocks sb n (set_i_block root' raw)) = 128"
  using assms by (simp_all add: update_iblocks_def set_i_block_def parse_raw_def raw_inode_defs int_read_defs buffer_simps)

text \<open>On a root that lies in the inode the reads stay inside the node.\<close>

lemma check_node_flat:
  assumes "length root = 60" and "check_node root = Ok h" and "eh_depth h = 0"
  shows "h = header_of root" and "eh_magic (header_of root) = EXTENT_MAGIC" and "eh_depth (header_of root) = 0"
    and "12 + eh_entries (header_of root) * 12 \<le> 60"
  using assms le16_less[of 2 root]
  by (auto simp: check_node_def Let_def sat_add_def sat_mul_def header_of_def split: if_split_asm)

lemma try_coalesce_runs:
  assumes "length root = 60" and "12 + eh_entries (header_of root) * 12 \<le> 60"
  shows "\<exists>r. try_coalesce_root_leaf root phys n = Ok r"
proof (cases "eh_entries (header_of root)")
  case (Suc e)
  then have "12 + e * 12 + 12 \<le> 60" using assms(2) by simp
  then show ?thesis using assms(1) Suc
    by (simp add: try_coalesce_root_leaf_def coalesce_leaf_in_buf_def Let_def slice_r_def patch_r_def)
qed (use assms(1) in \<open>simp add: try_coalesce_root_leaf_def slice_r_def Let_def\<close>)

lemma next_logical_runs:
  assumes "length root = 60" and "12 + eh_entries (header_of root) * 12 \<le> 60"
  shows "\<exists>k. next_logical_block root = Ok k"
proof (cases "eh_entries (header_of root)")
  case (Suc e)
  then have "12 + e * 12 + 12 \<le> 60" using assms(2) by simp
  then show ?thesis using assms(1) Suc by (simp add: next_logical_block_def Let_def slice_r_def)
qed (use assms(1) in \<open>simp add: next_logical_block_def slice_r_def\<close>)

lemma extent_append_OkD:
  assumes "sb_ok sb" and "inode_there sb (f_gdt s) i" and "extent_append sb i phys n s = (Ok (), s')"
    and "block_with_txn EwBlockDevice sb (inode_block sb (f_gdt s) i) s = Ok blk"
    and "root = i_block (bytes_at (inode_off sb i) 128 blk)" and "eh_depth (header_of root) = 0"
    and "eh_entries (header_of root) < eh_max (header_of root)"
  obtains root' where "new_root root phys n root'" and "eh_magic (header_of root) = EXTENT_MAGIC"
    and "inode_off sb i + 128 \<le> length blk"
    and "flush_raw_inode sb (inode_block sb (f_gdt s) i) (inode_off sb i)
      (update_iblocks sb n (set_i_block root' (bytes_at (inode_off sb i) 128 blk))) s = (Ok (), s')"
proof -
  let ?raw = "bytes_at (inode_off sb i) 128 blk"
  let ?flush = "\<lambda>root'. flush_raw_inode sb (inode_block sb (f_gdt s) i) (inode_off sb i)
      (update_iblocks sb n (set_i_block root' ?raw)) s = (Ok (), s')"
  let ?grown = "\<lambda>k. patch 0 (make_header (eh_entries (header_of root) + 1) (eh_max (header_of root)) 0)
          (patch (12 + eh_entries (header_of root) * 12) (make_leaf_entry k n phys) root)"
  define rest where "rest = (\<lambda>r. (case r of
      Some root' \<Rightarrow> flush_raw_inode sb (inode_block sb (f_gdt s) i) (inode_off sb i)
        (update_iblocks sb n (set_i_block root' ?raw))
    | None \<Rightarrow> sbind (append_at_root sb i (inode_block sb (f_gdt s) i) (inode_off sb i) (header_of root) phys n ?raw)
        (\<lambda>raw'. flush_raw_inode sb (inode_block sb (f_gdt s) i) (inode_off sb i) (update_iblocks sb n raw'))) s =
      (Ok (), s'))"
  obtain r where r: "try_coalesce_root_leaf root phys n = (Ok r :: (extent_write_error, _) res)" and "rest r"
    and m: "eh_magic (header_of root) = EXTENT_MAGIC" "inode_off sb i + 128 \<le> length blk"
    using assms(3,4,6,7) unfolding assms(5) rest_def
    by (auto simp: extent_append_def ew_location[OF assms(1,2)] read_raw_inode_at_with_txn_def ew_block_eq
        sbind_Ok_iff parse_header_def Let_def raw_inode_read_from_def
        simp del: sbind_sread split: if_split_asm)
  have len: "length root = 60" using m(2) by (simp add: assms(5) i_block_def)
  show thesis
  proof (cases r)
    case (Some root')
    then show thesis using that[of root'] r \<open>rest r\<close> m by (simp add: rest_def new_root_def)
  next
    case None
    then obtain k where k: "next_logical_block root = (Ok k :: (extent_write_error, _) res)"
        "12 + eh_entries (header_of root) * 12 + 12 \<le> length root" "?flush (?grown k)"
      using \<open>rest r\<close> assms(7) by (auto simp: rest_def append_at_root_def assms(5)[symmetric] sbind_Ok_iff Let_def
          simp del: sbind_sread)
    have "new_root root phys n (?grown k)" unfolding new_root_def using k(1,2) len by auto
    from that[OF this m k(3)] show thesis .
  qed
qed

section \<open>Property\<close>

text \<open>
  C8. Appending blocks to a file whose extents are all in the inode extends the file's block
  map and nothing else: afterwards the inode reads as before apart from its extent root, the
  new logical blocks, from the end of the extents on, map to the new physical blocks in
  order, and every other logical block maps as before. That holds when the blocks are merged
  into the last extent and when they become an extent of their own.
\<close>

theorem append_extends_map:
  assumes "sb_ok sb" and "fs_inv sb d0 m s" and "inode_there sb (f_gdt s) i"
    and "read_inode_with_txn (f_dev s) sb (f_gdt s) (f_txn s) i = Ok ino" and "uses_extents ino"
    and "root = ino_block_data ino" and "eh_depth (header_of root) = 0"
    and "eh_entries (header_of root) < eh_max (header_of root)"
    and "leaves_in_order (leaves_of root)" and "leaves_end (leaves_of root) < 2 ^ 32"
    and "0 < n" and "n \<le> 32768" and "phys + n \<le> 2 ^ 48"
    and "extent_append sb i phys n s = (Ok (), s')"
  shows "\<exists>ino'. read_inode_with_txn (f_dev s') sb (f_gdt s') (f_txn s') i = Ok ino' \<and>
    ino' = ino\<lparr>ino_block_data := ino_block_data ino'\<rparr> \<and>
    (\<forall>l. lookup_block (f_dev s') sb ino' l =
       (if leaves_end (leaves_of root) \<le> l \<and> l < leaves_end (leaves_of root) + n
        then Ok (Some (phys + (l - leaves_end (leaves_of root)))) else lookup_block (f_dev s) sb ino l))"
proof -
  let ?b = "inode_block sb (f_gdt s) i" and ?off = "inode_off sb i"
  obtain blk where blk: "block_with_txn EwBlockDevice sb ?b s = Ok blk"
    using assms(14) unfolding extent_append_def
    by (auto simp: ew_location[OF assms(1,3)] read_raw_inode_at_with_txn_def ew_block_eq sbind_Ok_iff
        simp del: sbind_sread split: if_split_asm)
  define raw where "raw = bytes_at ?off 128 blk"
  have inv': "fs_inv sb d0 m s'" using preservesD[OF extent_append_inv[OF assms(1)] assms(2,14)] .
  note at = read_inode_with_txn_of_block[OF assms(1)]
  have old: "decode_inode i raw = Ok ino" using at[OF assms(2,3) blk] assms(4) by (simp add: raw_def)
  then have ino: "ino = parse_raw raw" "i_dtime raw = 0" by (auto simp: decode_inode_def split: if_split_asm)
  have root: "root = i_block raw" by (simp add: assms(6) ino(1) parse_raw_def)
  obtain root' where new: "new_root root phys n root'" and magic: "eh_magic (header_of root) = EXTENT_MAGIC"
    and fit: "?off + 128 \<le> length blk"
    and fl: "flush_raw_inode sb ?b ?off (update_iblocks sb n (set_i_block root' raw)) s = (Ok (), s')"
    using extent_append_OkD[OF assms(1,3,14) blk root[unfolded raw_def] assms(7,8)] unfolding raw_def by metis
  have len: "length raw = 128" "length root = 60" using fit by (simp_all add: raw_def root i_block_def)
  note map = new_root_map[OF new len(2) magic assms(7,9-13)]
  note parsed = parse_new_root[OF len(1) conjunct1[OF map]]
  obtain data where data: "block_with_txn EwBlockDevice sb ?b s = Ok data" "f_gdt s' = f_gdt s"
    "f_txn s' = pin_block ?b (patch ?off (update_iblocks sb n (set_i_block root' raw)) data) (f_txn s)"
    using flush_raw_inode_OkD[OF fl] by metis
  have "data = blk" using data(1) blk by simp
  have ok: "txn_ok (f_txn s)" using assms(2) by (simp add: fs_inv_def)
  have "block_with_txn EwBlockDevice sb ?b s' = Ok (patch ?off (update_iblocks sb n (set_i_block root' raw)) blk)"
    by (simp add: block_with_txn_def data(3) \<open>data = blk\<close> txn_pins.lookup_pin[OF ok])
  from at[OF inv' assms(3)[folded data(2)] this[folded data(2)]]
  have "read_inode_with_txn (f_dev s') sb (f_gdt s') (f_txn s') i = Ok (ino\<lparr>ino_block_data := root'\<rparr>)"
    using fit parsed ino by (simp add: buffer_simps decode_inode_def)
  moreover have "lookup_block (f_dev s') sb (ino\<lparr>ino_block_data := root'\<rparr>) l =
      (if leaves_end (leaves_of root) \<le> l \<and> l < leaves_end (leaves_of root) + n
        then Ok (Some (phys + (l - leaves_end (leaves_of root)))) else lookup_block (f_dev s) sb ino l)" for l
    using assms(5) conjunct2[OF map, of "f_dev s'" sb l "f_dev s"]
    by (simp add: lookup_block_def uses_extents_def appended_def assms(6))
  ultimately show ?thesis by (intro exI[of _ "ino\<lparr>ino_block_data := root'\<rparr>"]) simp
qed

text \<open>One more block for the file of the sample image, next to its only one.\<close>

lemma sample_root:
  fixes l :: nat
  defines "root \<equiv> ino_block_data (sample_ino 0x81A4 5 1 16 1)"
  shows "length root = 60" "header_of root = \<lparr>eh_magic = EXTENT_MAGIC, eh_entries = 1, eh_max = 4, eh_depth = 0\<rparr>"
    "leaves_of root = [\<lparr>ee_block = 0, ee_len = 1, ee_start_hi = 0, ee_start_lo = 16\<rparr>]"
proof -
  have all: "bytes_at 0 n (to_le n v) = to_le n v" for n v by (simp add: bytes_at_def)
  note eval = root_def sample_ino_block int_read_defs bytes_at_append_left bytes_at_append_right all buffer_simps
  show "length root = 60" by (simp add: root_def sample_ino_block)
  show h: "header_of root = \<lparr>eh_magic = EXTENT_MAGIC, eh_entries = 1, eh_max = 4, eh_depth = 0\<rparr>"
    by (simp add: header_of_def EXTENT_MAGIC_def eval)
  show "leaves_of root = [\<lparr>ee_block = 0, ee_len = 1, ee_start_hi = 0, ee_start_lo = 16\<rparr>]"
    by (simp add: leaves_of_def h) (simp add: leaf_at_def eval)
qed

lemma sample_append:
  "\<exists>s'. extent_append sample_sb 12 17 1 sample_state = (Ok (), s')"
proof -
  let ?raw = "sample_inode 0x81A4 5 1 16 1"
  define rt where "rt = ino_block_data (sample_ino 0x81A4 5 1 16 1)"
  note rt = sample_root[folded rt_def]
  have first: "leaf_at rt 0 = \<lparr>ee_block = 0, ee_len = 1, ee_start_hi = 0, ee_start_lo = 16\<rparr>"
    using rt(3) by (simp add: leaves_of_def rt(2))
  have fields: "f_txn sample_state = txn_new 1" "f_dev sample_state = sample_disk" "f_gdt sample_state = [sample_gd]"
    "pinned (txn_new q) b = None" "sb_inodes_count sample_sb = 16" "gd_inode_table sample_gd = 5" for b q
    by (simp_all add: sample_state_def pinned_def txn_new_def sample_sb_def sample_gd_def)
  have there: "inode_there sample_sb [sample_gd] 12" by (simp add: inode_there_def inode_group_def fields)
  have place: "inode_block sample_sb [sample_gd] 12 = 6" "inode_off sample_sb 12 = 384"
    by (simp_all add: inode_block_def inode_group_def inode_off_def fields)
  have raw: "bytes_at 384 128 (sample_block 6) = ?raw"
    by (simp add: sample_block_def sample_inodes_hi_def buffer_simps)
  have root: "i_block ?raw = rt" by (simp add: rt_def sample_ino_def parse_raw_def)
  have blk: "block_with_txn EwBlockDevice sample_sb 6 sample_state = Ok (sample_block 6)"
    using read_sample_block[of 12 6] by (simp add: block_with_txn_def fields wmul_def)
  define new where "new = patch 16 (to_le 2 2) rt"
  have new: "try_coalesce_root_leaf rt 17 1 = (Ok (Some new) :: (extent_write_error, _) res)"
    by (simp add: try_coalesce_root_leaf_def coalesce_leaf_in_buf_def rt(1,2) new_def first
        MAX_EXTENT_LEN_def leaf_start_def hi_lo_def wadd_def slice_r_def patch_r_def numeral_2_eq_2[symmetric])
  define upd where "upd = update_iblocks sample_sb 1 (set_i_block new ?raw)"
  define data where "data = patch 384 upd (sample_block 6)"
  have len: "length upd = 128"
    by (simp add: upd_def update_iblocks_def set_i_block_def new_def rt(1))
  then have "length data = 512 * 2" by (simp add: data_def)
  from write_sectors_Ok_iff[OF wf_sample this, of 12] have "write_sectors 12 data sample_disk = (Ok (), store_run 12 data sample_disk)"
    by (simp add: writable_def sample_disk_def)
  then have "flush_raw_inode sample_sb 6 384 upd sample_state =
      (Ok (), sample_state\<lparr>f_dev := store_run 12 data sample_disk, f_txn := pin_block 6 data (txn_new 1)\<rparr>)"
    using len
    by (simp add: flush_raw_inode_def ew_block_eq blk ew_write_block_def pin_def data_def[symmetric] patch_r_def
        sbind_def smap_err_def on_dev_def fields wmul_def del: One_nat_def)
  moreover have "read_raw_inode_at_with_txn sample_sb 6 384 sample_state = (Ok ?raw, sample_state)"
    by (simp add: read_raw_inode_at_with_txn_def ew_block_eq blk raw slice_r_def raw_inode_read_from_def del: One_nat_def)
  moreover have "parse_header rt 0 = Ok (header_of rt)" by (simp add: parse_header_def rt(1,2))
  ultimately show ?thesis
    using sample_read_inode(3) ew_location[OF sample_sb_ok there]
    by (simp add: extent_append_def fields place uses_extents_def sample_ino_fields sbind_Ok root rt(2) new
        upd_def[symmetric] del: One_nat_def)
qed

theorem append_extends_map_witness:
  "\<exists>s' ino'. extent_append sample_sb 12 17 1 sample_state = (Ok (), s') \<and>
     read_inode_with_txn (f_dev s') sample_sb (f_gdt s') (f_txn s') 12 = Ok ino' \<and>
     lookup_block (f_dev s') sample_sb ino' 1 = Ok (Some 17)"
proof -
  obtain s' where s': "extent_append sample_sb 12 17 1 sample_state = (Ok (), s')" using sample_append by blast
  have fields: "f_txn sample_state = txn_new 1" "f_dev sample_state = sample_disk" "f_gdt sample_state = [sample_gd]"
    "pinned (txn_new q) b = None" "sb_inodes_count sample_sb = 16" "gd_inode_table sample_gd = 5" for b q
    by (simp_all add: sample_state_def pinned_def txn_new_def sample_sb_def sample_gd_def)
  have there: "inode_there sample_sb (f_gdt sample_state) 12"
    by (simp add: inode_there_def inode_group_def fields)
  have read: "read_inode_with_txn (f_dev sample_state) sample_sb (f_gdt sample_state) (f_txn sample_state) 12 =
      Ok (sample_ino 0x81A4 5 1 16 1)"
    using sample_read_inode(3) by (simp add: read_inode_with_txn_def fields gdt_get_def wadd_def)
  have uses: "uses_extents (sample_ino 0x81A4 5 1 16 1)" by (simp add: uses_extents_def sample_ino_fields)
  define rt where "rt = ino_block_data (sample_ino 0x81A4 5 1 16 1)"
  note rt = sample_root[folded rt_def]
  have ord: "leaves_in_order (leaves_of rt)" by (simp add: rt(3) leaves_in_order_def)
  have e: "leaves_end (leaves_of rt) = 1" by (simp add: rt(3) leaves_end_def leaf_blocks_def)
  have shape: "eh_depth (header_of rt) = 0" "eh_entries (header_of rt) < eh_max (header_of rt)"
    "leaves_end (leaves_of rt) < 2 ^ 32" "(0::nat) < 1" "(1::nat) \<le> 32768" "17 + 1 \<le> (2::nat) ^ 48"
    by (simp_all add: rt(2) e)
  from append_extends_map[OF sample_sb_ok sample_state_inv there read uses rt_def shape(1,2) ord shape(3-6) s'] s'
  show ?thesis unfolding e by fastforce
qed

end
