(* ===== verification/Inode_Alloc.thy ===== *)
theory Inode_Alloc
  imports Extent_Append
begin

text \<open>
  New inodes (\<open>alloc/inode_alloc.rs\<close>): what \<open>init_inode\<close> stores is, to the readers, an empty
  file of the given mode and owner, and its neighbours in the table keep their contents.
\<close>

section \<open>The bytes of a new inode\<close>

lemma length_new_raw_inode [simp]: "length (new_raw_inode now mode uid gid) = 128"
  by (simp add: new_raw_inode_def EXTENT_HEADER_BYTES_def)

text \<open>The stores of \<open>init_inode\<close>, one layer after the other.\<close>

lemma new_raw_inode_bytes:
  fixes now mode uid gid :: nat
  defines "raw \<equiv> new_raw_inode now mode uid gid"
  shows
    "bytes_at 0 2 raw = to_le 2 mode" "bytes_at 2 2 raw = to_le 2 uid" "bytes_at 24 2 raw = to_le 2 gid"
    "bytes_at 26 2 raw = to_le 2 1" "bytes_at 8 4 raw = to_le 4 now" "bytes_at 12 4 raw = to_le 4 now"
    "bytes_at 16 4 raw = to_le 4 now" "bytes_at 32 4 raw = to_le 4 EXTENTS_FL" "bytes_at 120 2 raw = to_le 2 (uid div 2 ^ 16)"
    "bytes_at 122 2 raw = to_le 2 (gid div 2 ^ 16)" "bytes_at 40 12 raw = EXTENT_HEADER_BYTES" "bytes_at 20 4 raw = replicate 4 0"
    "bytes_at 4 4 raw = replicate 4 0" "bytes_at 108 4 raw = replicate 4 0"
proof -
  have ext: "length EXTENT_HEADER_BYTES = 12" by (simp add: EXTENT_HEADER_BYTES_def)
  define r1 where "r1 = patch 0 (to_le 2 mode) (replicate 128 0 :: byte list)"
  define r2 where "r2 = patch 2 (to_le 2 uid) r1"
  define r3 where "r3 = patch 24 (to_le 2 gid) r2"
  define r4 where "r4 = patch 26 (to_le 2 1) r3"
  define r5 where "r5 = patch 8 (to_le 4 now) r4"
  define r6 where "r6 = patch 12 (to_le 4 now) r5"
  define r7 where "r7 = patch 16 (to_le 4 now) r6"
  define r8 where "r8 = patch 32 (to_le 4 EXTENTS_FL) r7"
  define r9 where "r9 = patch 120 (to_le 2 (uid div 2 ^ 16)) r8"
  define r10 where "r10 = patch 122 (to_le 2 (gid div 2 ^ 16)) r9"
  define r11 where "r11 = patch 40 EXTENT_HEADER_BYTES r10"
  have l1: "length r1 = 128" by (simp add: r1_def)
  have l2: "length r2 = 128" by (simp add: r2_def l1)
  have l3: "length r3 = 128" by (simp add: r3_def l2)
  have l4: "length r4 = 128" by (simp add: r4_def l3)
  have l5: "length r5 = 128" by (simp add: r5_def l4)
  have l6: "length r6 = 128" by (simp add: r6_def l5)
  have l7: "length r7 = 128" by (simp add: r7_def l6)
  have l8: "length r8 = 128" by (simp add: r8_def l7)
  have l9: "length r9 = 128" by (simp add: r9_def l8)
  have l10: "length r10 = 128" by (simp add: r10_def l9)
  have l11: "length r11 = 128" by (simp add: r11_def l10 ext)
  have s1: "bytes_at 0 2 r1 = to_le 2 mode" by (simp add: r1_def buffer_simps)
  have s2: "bytes_at 2 2 r2 = to_le 2 uid" by (simp add: r2_def l1 buffer_simps)
  have s3: "bytes_at 24 2 r3 = to_le 2 gid" by (simp add: r3_def l2 buffer_simps)
  have s4: "bytes_at 26 2 r4 = to_le 2 1" by (simp add: r4_def l3 buffer_simps)
  have s5: "bytes_at 8 4 r5 = to_le 4 now" by (simp add: r5_def l4 buffer_simps)
  have s6: "bytes_at 12 4 r6 = to_le 4 now" by (simp add: r6_def l5 buffer_simps)
  have s7: "bytes_at 16 4 r7 = to_le 4 now" by (simp add: r7_def l6 buffer_simps)
  have s8: "bytes_at 32 4 r8 = to_le 4 EXTENTS_FL" by (simp add: r8_def l7 buffer_simps)
  have s9: "bytes_at 120 2 r9 = to_le 2 (uid div 2 ^ 16)" by (simp add: r9_def l8 buffer_simps)
  have s10: "bytes_at 122 2 r10 = to_le 2 (gid div 2 ^ 16)" by (simp add: r10_def l9 buffer_simps)
  have s11: "bytes_at 40 12 r11 = EXTENT_HEADER_BYTES" by (simp add: r11_def l10 ext buffer_simps)
  have o1: "bytes_at p n r1 = bytes_at p n (replicate 128 0)" if "2 \<le> p" for p n
    using that by (simp add: r1_def bytes_at_patch_other)
  have o2: "bytes_at p n r2 = bytes_at p n r1" if "p + n \<le> 2 \<or> 4 \<le> p" for p n
    using that by (simp add: r2_def l1 bytes_at_patch_other)
  have o3: "bytes_at p n r3 = bytes_at p n r2" if "p + n \<le> 24 \<or> 26 \<le> p" for p n
    using that by (simp add: r3_def l2 bytes_at_patch_other)
  have o4: "bytes_at p n r4 = bytes_at p n r3" if "p + n \<le> 26 \<or> 28 \<le> p" for p n
    using that by (simp add: r4_def l3 bytes_at_patch_other)
  have o5: "bytes_at p n r5 = bytes_at p n r4" if "p + n \<le> 8 \<or> 12 \<le> p" for p n
    using that by (simp add: r5_def l4 bytes_at_patch_other)
  have o6: "bytes_at p n r6 = bytes_at p n r5" if "p + n \<le> 12 \<or> 16 \<le> p" for p n
    using that by (simp add: r6_def l5 bytes_at_patch_other)
  have o7: "bytes_at p n r7 = bytes_at p n r6" if "p + n \<le> 16 \<or> 20 \<le> p" for p n
    using that by (simp add: r7_def l6 bytes_at_patch_other)
  have o8: "bytes_at p n r8 = bytes_at p n r7" if "p + n \<le> 32 \<or> 36 \<le> p" for p n
    using that by (simp add: r8_def l7 bytes_at_patch_other)
  have o9: "bytes_at p n r9 = bytes_at p n r8" if "p + n \<le> 120 \<or> 122 \<le> p" for p n
    using that by (simp add: r9_def l8 bytes_at_patch_other)
  have o10: "bytes_at p n r10 = bytes_at p n r9" if "p + n \<le> 122 \<or> 124 \<le> p" for p n
    using that by (simp add: r10_def l9 bytes_at_patch_other)
  have o11: "bytes_at p n r11 = bytes_at p n r10" if "p + n \<le> 40 \<or> 52 \<le> p" for p n
    using that by (simp add: r11_def l10 ext bytes_at_patch_other)
  have raw: "raw = r11"
    unfolding raw_def new_raw_inode_def r1_def r2_def r3_def r4_def r5_def r6_def r7_def r8_def r9_def r10_def r11_def ..
  note rules = raw s1 s2 s3 s4 s5 s6 s7 s8 s9 s10 s11 o1 o2 o3 o4 o5 o6 o7 o8 o9 o10 o11
  show "bytes_at 0 2 raw = to_le 2 mode" "bytes_at 2 2 raw = to_le 2 uid" "bytes_at 24 2 raw = to_le 2 gid"
    "bytes_at 26 2 raw = to_le 2 1" "bytes_at 8 4 raw = to_le 4 now" "bytes_at 12 4 raw = to_le 4 now"
    "bytes_at 16 4 raw = to_le 4 now" "bytes_at 32 4 raw = to_le 4 EXTENTS_FL" "bytes_at 120 2 raw = to_le 2 (uid div 2 ^ 16)"
    "bytes_at 122 2 raw = to_le 2 (gid div 2 ^ 16)" "bytes_at 40 12 raw = EXTENT_HEADER_BYTES" "bytes_at 20 4 raw = replicate 4 0"
    "bytes_at 4 4 raw = replicate 4 0" "bytes_at 108 4 raw = replicate 4 0"
    by (simp_all add: rules)
qed

lemma new_raw_inode_fields:
  assumes "mode < 2 ^ 16" and "uid < 2 ^ 32" and "gid < 2 ^ 32" and "now < 2 ^ 32"
  defines "raw \<equiv> new_raw_inode now mode uid gid"
  shows "i_dtime raw = 0" "ino_mode (parse_raw raw) = mode" "ino_uid (parse_raw raw) = uid" "ino_gid (parse_raw raw) = gid"
    "ino_size (parse_raw raw) = 0" "ino_links_count (parse_raw raw) = 1" "ino_mtime (parse_raw raw) = now"
    "uses_extents (parse_raw raw)" "length (ino_block_data (parse_raw raw)) = 60"
    "header_of (ino_block_data (parse_raw raw)) = \<lparr>eh_magic = EXTENT_MAGIC, eh_entries = 0, eh_max = 4, eh_depth = 0\<rparr>"
proof -
  note f = new_raw_inode_bytes[of now mode uid gid, folded raw_def]
  note eval = parse_raw_def raw_inode_defs int_read_defs f
  show "i_dtime raw = 0" "ino_size (parse_raw raw) = 0" by (simp_all add: eval hi_lo_def)
  show "ino_mode (parse_raw raw) = mode" "ino_links_count (parse_raw raw) = 1" "ino_mtime (parse_raw raw) = now"
    using assms(1,4) by (simp_all add: eval le_nat_to_le)
  show "ino_uid (parse_raw raw) = uid" "ino_gid (parse_raw raw) = gid"
    using assms(2,3) hi_lo_split[of uid 16 16] hi_lo_split[of gid 16 16] by (simp_all add: eval le_nat_to_le)
  show "uses_extents (parse_raw raw)" by (simp add: uses_extents_def EXTENTS_FL_def eval le_nat_to_le)
  show "length (ino_block_data (parse_raw raw)) = 60" by (simp add: raw_def parse_raw_def i_block_def)
  have "bytes_at 0 12 (ino_block_data (parse_raw raw)) = EXTENT_HEADER_BYTES" by (simp add: parse_raw_def i_block_def f)
  then have "header_of (ino_block_data (parse_raw raw)) = header_of EXTENT_HEADER_BYTES"
    by (subst header_of_head) simp
  also have "\<dots> = \<lparr>eh_magic = EXTENT_MAGIC, eh_entries = 0, eh_max = 4, eh_depth = 0\<rparr>"
    by (simp add: header_of_def int_read_defs EXTENT_HEADER_BYTES_def bytes_at_def le_nat_def EXTENT_MAGIC_def)
  finally show "header_of (ino_block_data (parse_raw raw)) = \<lparr>eh_magic = EXTENT_MAGIC, eh_entries = 0, eh_max = 4, eh_depth = 0\<rparr>" .
qed

lemma alloc_location:
  assumes "sb_ok sb" and "inode_there sb gdt i"
  shows "alloc_inode_location sb gdt i = Ok (inode_block sb gdt i, inode_off sb i)"
proof -
  have "i < 2 ^ 32" "0 < i" using assms by (auto simp: inode_there_def sb_ok_def)
  then have "wsub 32 i 1 = i - 1" by (intro wsub_small) simp_all
  then show ?thesis
    using assms sb_ok_inode_size[OF assms(1)] inode_block_wadd[OF assms]
    by (simp add: alloc_inode_location_def inode_there_def inode_group_def gdt_get_def inode_off_def sb_ok_def Let_def
        del: One_nat_def)
qed

lemma init_inode_OkD:
  assumes "sb_ok sb" and "fs_inv sb d0 n s" and "inode_there sb (f_gdt s) i"
    and "init_inode now sb i mode uid gid s = (Ok (), s')"
  obtains blk where "block_with_txn AllocBlockDevice sb (inode_block sb (f_gdt s) i) s = Ok blk"
    and "inode_off sb i + 128 \<le> length blk" and "f_gdt s' = f_gdt s"
    and "f_txn s' = pin_block (inode_block sb (f_gdt s) i) (patch (inode_off sb i) (new_raw_inode now mode uid gid) blk) (f_txn s)"
proof -
  let ?b = "inode_block sb (f_gdt s) i"
  obtain dd blk where dd: "map_err AllocBlockDevice (read_sectors (f_dev s) (wmul 64 ?b (spb sb)) (spb sb)) = Ok dd"
    and blk: "blk = (case pinned (f_txn s) ?b of Some data \<Rightarrow> data | None \<Rightarrow> dd)"
    and fit: "inode_off sb i + 128 \<le> length blk"
    and fl: "flush_inode_table sb ?b (patch (inode_off sb i) (new_raw_inode now mode uid gid) blk) s = (Ok (), s')"
    using assms(4)
    by (auto simp: init_inode_def load_inode_table_block_with_txn_def load_inode_table_block_def read_fs_block_def
        alloc_location[OF assms(1,3)] sbind_Ok_iff simp del: sbind_sread)
  have b: "block_with_txn AllocBlockDevice sb ?b s = Ok blk"
    using dd by (simp add: block_with_txn_def blk split: option.split)
  have "length blk = sb_block_size sb"
    using block_with_txn_len[OF b assms(2,1)] .
  then show thesis
    using that[OF b fit] fl fit
    by (auto simp: flush_inode_table_def Let_def sbind_Ok_iff smap_err_Ok_iff on_dev_Ok_iff pin_def)
qed

section \<open>Property\<close>

text \<open>
  C21. After \<open>init_inode\<close> the inode is read as an empty file: the given mode and owner, one
  link, size zero, the given time, and no logical block mapped; the other inodes in its table
  block read as before.
\<close>

theorem new_inode_is_empty_file:
  assumes "sb_ok sb" and "fs_inv sb d0 n s" and "inode_there sb (f_gdt s) i"
    and "mode < 2 ^ 16" and "uid < 2 ^ 32" and "gid < 2 ^ 32" and "now < 2 ^ 32"
    and "init_inode now sb i mode uid gid s = (Ok (), s')"
  shows "(\<exists>ino. read_inode_with_txn (f_dev s') sb (f_gdt s') (f_txn s') i = Ok ino \<and>
      ino_mode ino = mode \<and> ino_uid ino = uid \<and> ino_gid ino = gid \<and> ino_size ino = 0 \<and>
      ino_links_count ino = 1 \<and> ino_mtime ino = now \<and> (\<forall>l. lookup_block (f_dev s') sb ino l = Ok None)) \<and>
    (\<forall>j. inode_there sb (f_gdt s) j \<and> inode_group sb j = inode_group sb i \<and> j \<noteq> i \<and>
       inode_block sb (f_gdt s) j = inode_block sb (f_gdt s) i \<longrightarrow>
       read_inode_with_txn (f_dev s') sb (f_gdt s') (f_txn s') j = read_inode_with_txn (f_dev s) sb (f_gdt s) (f_txn s) j)"
proof -
  let ?raw = "new_raw_inode now mode uid gid" and ?b = "inode_block sb (f_gdt s) i"
  obtain blk where blk: "block_with_txn AllocBlockDevice sb ?b s = Ok blk" and fit: "inode_off sb i + 128 \<le> length blk"
    and g: "f_gdt s' = f_gdt s" and t: "f_txn s' = pin_block ?b (patch (inode_off sb i) ?raw blk) (f_txn s)"
    using init_inode_OkD[OF assms(1-3,8)] .
  have inv': "fs_inv sb d0 n s'" using preservesD[OF init_inode_inv assms(2,8)] .
  have ok: "txn_ok (f_txn s)" using assms(2) by (simp add: fs_inv_def)
  define blk' where "blk' = patch (inode_off sb i) ?raw blk"
  have now: "block_with_txn AllocBlockDevice sb ?b s' = Ok blk'"
    by (simp add: block_with_txn_def t blk'_def txn_pins.lookup_pin[OF ok])
  note at = read_inode_with_txn_of_block[OF assms(1)] and f = new_raw_inode_fields[OF assms(4-7)]
  have "read_inode_with_txn (f_dev s') sb (f_gdt s') (f_txn s') i = decode_inode i (bytes_at (inode_off sb i) 128 blk')"
    by (rule at[OF inv', where conv = AllocBlockDevice]) (simp_all add: g assms(3) now)
  also have "\<dots> = Ok (parse_raw ?raw)"
    using fit by (simp add: blk'_def buffer_simps decode_inode_def f(1))
  finally have mine: "read_inode_with_txn (f_dev s') sb (f_gdt s') (f_txn s') i = Ok (parse_raw ?raw)" .
  have empty: "lookup_block (f_dev s') sb (parse_raw ?raw) l = Ok None" for l
    using lookup_root[OF f(9), of "f_dev s'" sb l] f(8) by (simp add: f(10) lookup_block_def leaves_of_def)
  have "read_inode_with_txn (f_dev s') sb (f_gdt s') (f_txn s') j = read_inode_with_txn (f_dev s) sb (f_gdt s) (f_txn s) j"
    if j: "inode_there sb (f_gdt s) j" "inode_group sb j = inode_group sb i" "j \<noteq> i" "inode_block sb (f_gdt s) j = ?b" for j
  proof -
    have apart: "inode_off sb j + 128 \<le> inode_off sb i \<or> inode_off sb i + 128 \<le> inode_off sb j"
      using inode_slots_apart[OF assms(1,3) j] .
    have "read_inode_with_txn (f_dev s') sb (f_gdt s') (f_txn s') j = decode_inode j (bytes_at (inode_off sb j) 128 blk')"
      by (rule at[OF inv', where conv = AllocBlockDevice]) (simp_all add: g j(1,4) now)
    also have "bytes_at (inode_off sb j) 128 blk' = bytes_at (inode_off sb j) 128 blk"
      using fit apart by (simp add: blk'_def buffer_simps)
    also have "decode_inode j \<dots> = read_inode_with_txn (f_dev s) sb (f_gdt s) (f_txn s) j"
      by (rule at[OF assms(2) j(1), where conv = AllocBlockDevice, symmetric]) (simp add: j(4) blk)
    finally show ?thesis .
  qed
  then show ?thesis using mine empty f by auto
qed

theorem new_inode_is_empty_file_witness:
  "\<exists>s' ino. init_inode 7 sample_sb 13 0x81A4 0 0 sample_state = (Ok (), s') \<and>
     read_inode_with_txn (f_dev s') sample_sb (f_gdt s') (f_txn s') 13 = Ok ino \<and> ino_mode ino = 0x81A4 \<and>
     lookup_block (f_dev s') sample_sb ino 0 = Ok None"
proof -
  have fields: "f_txn sample_state = txn_new 1" "f_dev sample_state = sample_disk" "f_gdt sample_state = [sample_gd]"
    "pinned (txn_new q) b = None" "sb_inodes_count sample_sb = 16" "gd_inode_table sample_gd = 5" for b q
    by (simp_all add: sample_state_def pinned_def txn_new_def sample_sb_def sample_gd_def)
  have there: "inode_there sample_sb (f_gdt sample_state) 13" by (simp add: inode_there_def inode_group_def fields)
  have place: "inode_block sample_sb [sample_gd] 13 = 6" "inode_off sample_sb 13 = 512"
    by (simp_all add: inode_block_def inode_group_def inode_off_def fields)
  have rd: "read_sectors sample_disk (wmul 64 6 2) 2 = Ok (sample_block 6)"
    using read_sample_block[of 12 6] by (simp add: wmul_def)
  define data where "data = patch 512 (new_raw_inode 7 0x81A4 0 0) (sample_block 6)"
  have "length data = 1024" by (simp add: data_def)
  then obtain t where "flush_bitmap sample_sb 6 data sample_state = (Ok (), t)"
    using flush_bitmap_sample[of sample_state data 6] sample_like_disk by (auto simp: fields)
  moreover have "flush_inode_table = flush_bitmap" by (simp add: fun_eq_iff flush_inode_table_def flush_bitmap_def)
  ultimately have "init_inode 7 sample_sb 13 0x81A4 0 0 sample_state = (Ok (), t)"
    using alloc_location[OF sample_sb_ok there] fields place rd
    by (simp add: init_inode_def load_inode_table_block_with_txn_def load_inode_table_block_def read_fs_block_def
        sbind_Ok patch_r_def data_def)
  from new_inode_is_empty_file[OF sample_sb_ok sample_state_inv there _ _ _ _ this] this show ?thesis by auto
qed

end
