(* ===== verification/Group_Counters.thy ===== *)
theory Group_Counters
  imports Alloc_Sound
begin

text \<open>
  The group counters of \<open>alloc/block_alloc.rs\<close> across several updates in one transaction: each
  update starts from the descriptor block on the device, so the pinned block has only the
  last one, while the table in memory has them all.
\<close>

lemma update_gdt_free_blocks_block:
  assumes "update_gdt_free_blocks sb g delta s = (Ok (), s')" and "read_sectors (f_dev s) (wmul 64 (sb_first_data_block sb + 1) (spb sb)) (spb sb) = Ok blk"
    and "wadd 64 (wmul 64 g (sb_desc_size sb)) 16 \<le> length blk"
  shows "\<exists>gdt' desc blk'. s' = s\<lparr>f_gdt := gdt', f_txn := pin_block (sb_first_data_block sb + 1) blk' (f_txn s)\<rparr> \<and>
    gdt_get gdt' g = Ok desc \<and>
    store_free_blocks (sb_desc_size sb) (wmul 64 g (sb_desc_size sb)) desc blk = Ok blk'"
proof -
  let ?off = "wmul 64 g (sb_desc_size sb)"
  obtain gdt' desc blk' where "gdt_get gdt' g = Ok desc" "store_free_blocks (sb_desc_size sb) ?off desc blk = Ok blk'"
    "s' = s\<lparr>f_gdt := gdt', f_txn := pin_block (sb_first_data_block sb + 1) blk' (f_txn s)\<rparr>"
    using assms
    by (auto simp: update_gdt_free_blocks_def Let_def read_fs_block_def sbind_Ok_iff smap_err_Ok_iff on_gdt_Ok_iff pin_def
        simp del: sbind_sread)
  then show ?thesis by blast
qed

lemma group_slots:
  assumes "g \<noteq> h" and "k \<le> ds"
  shows "g * ds + k \<le> h * ds \<or> h * ds + k \<le> g * (ds :: nat)"
proof (cases "g < h")
  case True
  then have "(g + 1) * ds \<le> h * ds" by (intro mult_le_mono1) simp
  then show ?thesis using assms(2) by simp
next
  case False
  then have "(h + 1) * ds \<le> g * ds" using assms(1) by (intro mult_le_mono1) simp
  then show ?thesis using assms(2) by simp
qed

lemma store_free_blocks_other:
  assumes "store_free_blocks ds (h * ds) desc blk = Ok blk'" and "g \<noteq> h" and "32 \<le> ds"
    and "h * ds + 64 < 2 ^ 64"
  shows "bytes_at (g * ds + 12) 2 blk' = bytes_at (g * ds + 12) 2 blk"
proof -
  have w: "wadd 64 (h * ds) 12 = h * ds + 12" "wadd 64 (h * ds) 44 = h * ds + 44"
    using assms(4) by (simp_all add: wadd_def)
  have slots: "g * ds + 32 \<le> h * ds \<or> h * ds + 32 \<le> g * ds" using group_slots[OF assms(2,3)] .
  have slots64: "64 \<le> ds \<Longrightarrow> g * ds + 64 \<le> h * ds \<or> h * ds + 64 \<le> g * ds" using group_slots[OF assms(2)] .
  define a b where "a = g * ds" and "b = h * ds"
  note s = slots[folded a_def b_def] and s64 = slots64[folded a_def b_def]
  have p1: "a + 12 + 2 \<le> b + 12 \<or> b + 12 + 2 \<le> a + 12" using s by linarith
  have p2: "64 \<le> ds \<Longrightarrow> a + 12 + 2 \<le> b + 44 \<or> b + 44 + 2 \<le> a + 12" using s64 by linarith
  show ?thesis
    using assms(1) p1 p2 unfolding a_def[symmetric] b_def[symmetric] store_free_blocks_def w[folded b_def]
    by (auto simp: buffer_simps rbind_Ok_iff split: if_split_asm)
qed

text \<open>
  C35. Two counter updates in one transaction: after the second one, for another group, the
  pinned descriptor block has the device's old counter for the first group, not the one the
  first update stored. The commit writes that block, so the first update is lost on disk
  although the table in memory has it.
\<close>

theorem first_counter_update_lost:
  assumes "sb_ok sb" and "fs_inv sb d0 n s"
    and "update_gdt_free_blocks sb g delta s = (Ok (), s1)" and "update_gdt_free_blocks sb h delta' s1 = (Ok (), s2)"
    and "g \<noteq> h" and "read_sectors (f_dev s) (wmul 64 (sb_first_data_block sb + 1) (spb sb)) (spb sb) = Ok blk"
    and "h * sb_desc_size sb + 64 < 2 ^ 64" and "h * sb_desc_size sb + 16 \<le> length blk"
    and "g * sb_desc_size sb + 16 \<le> length blk"
  shows "\<exists>pin1 pin2 desc1. pinned (f_txn s1) (sb_first_data_block sb + 1) = Some pin1 \<and>
    pinned (f_txn s2) (sb_first_data_block sb + 1) = Some pin2 \<and> gdt_get (f_gdt s1) g = Ok desc1 \<and>
    le16 (g * sb_desc_size sb + 12) pin1 = gd_free_blocks_count desc1 mod 2 ^ 16 \<and>
    le16 (g * sb_desc_size sb + 12) pin2 = le16 (g * sb_desc_size sb + 12) blk"
proof -
  let ?b = "sb_first_data_block sb + 1" and ?ds = "sb_desc_size sb"
  have ds: "32 \<le> ?ds" using assms(1) by (simp add: sb_ok_def)
  have ok: "txn_ok (f_txn s)" using assms(2) by (simp add: fs_inv_def)
  have len: "length blk < 2 ^ 63"
    using read_block_length[OF assms(1) fs_inv_wf_disk[OF assms(2)] assms(6)] sb_ok_block_size(2)[OF assms(1)] by simp
  have off: "wmul 64 k ?ds = k * ?ds" "wadd 64 (k * ?ds) 16 = k * ?ds + 16" if "k * ?ds + 16 \<le> length blk" for k
    using that len by (simp_all add: wmul_def wadd_def)
  obtain g1 desc1 pin1 where 1: "s1 = s\<lparr>f_gdt := g1, f_txn := pin_block ?b pin1 (f_txn s)\<rparr>" "gdt_get g1 g = Ok desc1"
    "store_free_blocks ?ds (g * ?ds) desc1 blk = Ok pin1"
    using update_gdt_free_blocks_block[OF assms(3,6)] off[OF assms(9)] assms(9) by auto
  obtain g2 desc2 pin2 where 2: "s2 = s1\<lparr>f_gdt := g2, f_txn := pin_block ?b pin2 (f_txn s1)\<rparr>"
    "store_free_blocks ?ds (h * ?ds) desc2 blk = Ok pin2"
    using update_gdt_free_blocks_block[OF assms(4), of blk] off[OF assms(8)] assms(6,8) by (auto simp: 1(1))
  have ok1: "txn_ok (f_txn s1)" using ok txn_ok_pin by (simp add: 1(1))
  have "bytes_at (g * ?ds + 12) 2 pin2 = bytes_at (g * ?ds + 12) 2 blk"
    using store_free_blocks_other[OF 2(2) assms(5) ds assms(7)] .
  moreover have "le16 (g * ?ds + 12) pin1 = gd_free_blocks_count desc1 mod 2 ^ 16"
    using 1(3) assms(9) len
    by (auto simp: store_free_blocks_def wadd_def int_read_defs buffer_simps le_nat_to_le split: if_split_asm)
  moreover have "pinned (f_txn s1) ?b = Some pin1"
    using ok by (simp add: 1(1) txn_pins.lookup_pin)
  moreover have "pinned (f_txn s2) ?b = Some pin2"
    using ok1 by (simp add: 2(1) txn_pins.lookup_pin)
  moreover have "gdt_get (f_gdt s1) g = Ok desc1" using 1(2) by (simp add: 1(1))
  ultimately show ?thesis by (simp add: le16_def)
qed

text \<open>The sample image's table with a second group in memory.\<close>

definition two_groups :: fs where
  "two_groups = sample_state\<lparr>f_gdt := [sample_gd, sample_gd]\<rparr>"

lemma two_groups_updates:
  obtains s1 s2 where "update_gdt_free_blocks sample_sb 0 (- 1) two_groups = (Ok (), s1)"
    and "update_gdt_free_blocks sample_sb 1 (- 1) s1 = (Ok (), s2)"
    and "gdt_get (f_gdt s1) 0 = Ok (sample_gd\<lparr>gd_free_blocks_count := 6\<rparr>)"
proof -
  have len: "length sample_gdt_block = 1024" using length_sample_block[of 2] by (simp add: sample_block_def)
  have rd: "read_sectors sample_disk 4 2 = Ok sample_gdt_block"
    using sample_like_disk by (simp add: sample_like_def)
  have dev: "f_dev two_groups = sample_disk" "f_gdt two_groups = [sample_gd, sample_gd]"
    by (simp_all add: two_groups_def sample_state_def)
  have count: "adjust_count 7 (- 1) = 6" by (simp add: adjust_count_def)
  note eval = update_gdt_free_blocks_def sbind_def smap_err_def on_gdt_def adjust_free_blocks_def
        gdt_update_def read_fs_block_def gdt_get_def store_free_blocks_def patch_r_def pin_def Let_def
        dev rd len wmul_def wadd_def
  obtain t1 where t1: "update_gdt_free_blocks sample_sb 0 (- 1) two_groups = (Ok (), t1)" "f_dev t1 = sample_disk"
    "f_gdt t1 = [sample_gd\<lparr>gd_free_blocks_count := 6\<rparr>, sample_gd]"
    using count by (simp add: eval sample_gd_def)
  obtain t2 where t2: "update_gdt_free_blocks sample_sb 1 (- 1) t1 = (Ok (), t2)"
    by (simp add: eval t1(2,3))
  show thesis by (rule that[OF t1(1) t2]) (simp add: gdt_get_def t1(3))
qed

lemma two_groups_inv: "fs_inv sample_sb sample_disk 2 two_groups"
  using sample_state_inv by (simp add: two_groups_def fs_inv_def sample_state_def gdt_ok_def)

theorem first_counter_update_lost_witness:
  "\<exists>s1 s2 p1 p2. update_gdt_free_blocks sample_sb 0 (- 1) two_groups = (Ok (), s1) \<and>
     update_gdt_free_blocks sample_sb 1 (- 1) s1 = (Ok (), s2) \<and>
     pinned (f_txn s1) 2 = Some p1 \<and> pinned (f_txn s2) 2 = Some p2 \<and> le16 12 p1 = 6 \<and> le16 12 p2 = 7"
proof -
  obtain s1 s2 where u: "update_gdt_free_blocks sample_sb 0 (- 1) two_groups = (Ok (), s1)"
    "update_gdt_free_blocks sample_sb 1 (- 1) s1 = (Ok (), s2)"
    "gdt_get (f_gdt s1) 0 = Ok (sample_gd\<lparr>gd_free_blocks_count := 6\<rparr>)"
    using two_groups_updates .
  have len: "length sample_gdt_block = 1024" using length_sample_block[of 2] by (simp add: sample_block_def)
  have rd: "read_sectors (f_dev two_groups) (wmul 64 (sb_first_data_block sample_sb + 1) (spb sample_sb)) (spb sample_sb) =
      Ok sample_gdt_block"
    using sample_like_disk by (simp add: sample_like_def two_groups_def sample_state_def wmul_def)
  have "le16 12 sample_gdt_block = 7"
    by (simp add: sample_gdt_block_def int_read_defs buffer_simps)
  then show ?thesis
    using first_counter_update_lost[OF sample_sb_ok two_groups_inv u(1,2) _ rd] u len by (simp add: numeral_2_eq_2[symmetric])
qed

end
