(* ===== verification/Free_Counts.thy ===== *)
theory Free_Counts
  imports Alloc_Sound
begin

text \<open>
  Counters and bitmaps together: the counter of free blocks in every group descriptor is the
  number of free bits of the group's bitmap on the device, through any sequence of allocations
  and releases, those that are refused included.
\<close>

section \<open>Free bits\<close>

definition free_set :: "superblock \<Rightarrow> bitmap \<Rightarrow> nat set" where
  "free_set sb bm = {j. j < sb_blocks_per_group sb \<and> \<not> bm_bit bm j}"

lemma free_set_finite [simp]: "finite (free_set sb bm)"
  by (simp add: free_set_def)

lemma free_set_taken:
  assumes "\<forall>j. bm_bit bm' j \<longleftrightarrow> (start \<le> j \<and> j < start + count) \<or> bm_bit bm j"
    and "\<forall>j. start \<le> j \<and> j < start + count \<longrightarrow> \<not> bm_bit bm j" and "start + count \<le> sb_blocks_per_group sb"
  shows "card (free_set sb bm') = card (free_set sb bm) - count"
proof -
  have "j \<in> free_set sb bm' \<longleftrightarrow> j \<in> free_set sb bm - {start..<start + count}" for j
    using assms(1)[rule_format, of j] by (auto simp: free_set_def)
  then have "free_set sb bm' = free_set sb bm - {start..<start + count}" by blast
  moreover have "j \<in> free_set sb bm" if "j \<in> {start..<start + count}" for j
    using assms(2)[rule_format, of j] assms(3) that by (simp add: free_set_def)
  then have "{start..<start + count} \<subseteq> free_set sb bm" by blast
  ultimately show ?thesis by (simp add: card_Diff_subset)
qed

lemma free_set_released:
  assumes "\<forall>j. bm_bit bm' j \<longleftrightarrow> j \<noteq> b \<and> bm_bit bm j" and "bm_bit bm b" and "b < sb_blocks_per_group sb"
  shows "card (free_set sb bm') = Suc (card (free_set sb bm))" and "card (free_set sb bm') \<le> sb_blocks_per_group sb"
proof -
  have "j \<in> free_set sb bm' \<longleftrightarrow> j \<in> insert b (free_set sb bm)" for j
    using assms(1)[rule_format, of j] assms(2,3) by (auto simp: free_set_def)
  then have "free_set sb bm' = insert b (free_set sb bm)" by blast
  moreover have "b \<notin> free_set sb bm" using assms(2) by (simp add: free_set_def)
  ultimately show "card (free_set sb bm') = Suc (card (free_set sb bm))" by simp
  show "card (free_set sb bm') \<le> sb_blocks_per_group sb"
    using card_mono[of "{..<sb_blocks_per_group sb}" "free_set sb bm'"] by (auto simp: free_set_def)
qed

section \<open>Counters that match\<close>

definition counts_match :: "superblock \<Rightarrow> fs \<Rightarrow> bool" where
  "counts_match sb s \<longleftrightarrow> (\<forall>grp < length (f_gdt s). \<exists>bm. bm_load (f_dev s) sb (f_gdt s) grp = Ok bm \<and>
     gd_free_blocks_count (f_gdt s ! grp) = card (free_set sb bm))"

text \<open>Every group has a bitmap of its own.\<close>

definition bitmaps_apart :: "superblock \<Rightarrow> gdt \<Rightarrow> bool" where
  "bitmaps_apart sb gdt \<longleftrightarrow> distinct (map gd_block_bitmap gdt) \<and>
     (\<forall>d \<in> set gdt. (gd_block_bitmap d + 1) * spb sb \<le> 2 ^ 64)"

lemma bitmaps_apart_update:
  assumes "bitmaps_apart sb gdt" and "gd_block_bitmap d = gd_block_bitmap (gdt ! g)" and "g < length gdt"
  shows "bitmaps_apart sb (gdt[g := d])"
proof -
  have "map gd_block_bitmap (gdt[g := d]) = map gd_block_bitmap gdt"
    using assms(2,3) by (simp add: map_update list_update_same_conv)
  moreover have "(gd_block_bitmap e + 1) * spb sb \<le> 2 ^ 64" if "e \<in> set (gdt[g := d])" for e
    using that assms set_update_subset_insert[of gdt g d] nth_mem[of g gdt] unfolding bitmaps_apart_def by fastforce
  ultimately show ?thesis using assms(1) by (simp add: bitmaps_apart_def)
qed

text \<open>Writing the bitmap of one group leaves the others.\<close>

lemma bm_load_elsewhere:
  assumes "sb_ok sb" and "wf_disk d" and "bitmaps_apart sb gdt" and "g < length gdt" and "h < length gdt" and "h \<noteq> g"
    and "block_written sb (gd_block_bitmap (gdt ! g)) d d'"
    and "length gdt' = length gdt" and "gd_block_bitmap (gdt' ! h) = gd_block_bitmap (gdt ! h)"
  shows "bm_load d' sb gdt' h = bm_load d sb gdt h"
proof -
  let ?b = "gd_block_bitmap (gdt ! g)" and ?c = "gd_block_bitmap (gdt ! h)"
  obtain data where data: "length data = sb_block_size sb" "write_sectors (wmul 64 ?b (spb sb)) data d = (Ok (), d')"
    using assms(7) by (auto simp: block_written_def)
  have spb: "0 < spb sb" "length data = 512 * spb sb" using sb_ok_block_size(4,5)[OF assms(1)] data(1) by linarith+
  have ne: "?b \<noteq> ?c" using assms(3-6) by (simp add: bitmaps_apart_def distinct_conv_nth)
  have fit: "(?b + 1) * spb sb \<le> 2 ^ 64" "(?c + 1) * spb sb \<le> 2 ^ 64" using assms(3-5) by (simp_all add: bitmaps_apart_def)
  have small: "?b * spb sb < 2 ^ 64" "?c * spb sb < 2 ^ 64" using fit spb(1) by (simp_all add: add_mult_distrib)
  have "Suc ?b * spb sb \<le> ?c * spb sb \<or> Suc ?c * spb sb \<le> ?b * spb sb"
    using ne by (metis Suc_leI linorder_neqE_nat mult_le_mono1)
  then have apart: "?c * spb sb + spb sb \<le> ?b * spb sb \<or> ?b * spb sb + spb sb \<le> ?c * spb sb" by auto
  have places: "wmul 64 ?b (spb sb) = ?b * spb sb" "wmul 64 ?c (spb sb) = ?c * spb sb"
    using small by (simp_all add: wmul_def)
  have "?c * spb sb + spb sb \<le> 2 ^ 64" using fit(2) by (simp add: add_mult_distrib)
  then have "read_sectors d' (?c * spb sb) (spb sb) = read_sectors d (?c * spb sb) (spb sb)"
    using read_after_write_other[OF assms(2) spb(2,1) data(2)] apart by (simp add: places)
  then show ?thesis using assms(5,8,9) by (simp add: bm_load_def gdt_get_def places)
qed

text \<open>A step in one group: its counter follows its bitmap, the others stay.\<close>

lemma counts_step:
  assumes "sb_ok sb" and "fs_inv sb d0 n s" and "bitmaps_apart sb (f_gdt s)" and "counts_match sb s"
    and "g < length (f_gdt s)" and "block_written sb (gd_block_bitmap (f_gdt s ! g)) (f_dev s) (f_dev s')"
    and "f_gdt s' = (f_gdt s)[g := (f_gdt s ! g)\<lparr>gd_free_blocks_count := c\<rparr>]"
    and "bm_load (f_dev s') sb (f_gdt s') g = Ok bm'" and "c = card (free_set sb bm')"
  shows "counts_match sb s' \<and> bitmaps_apart sb (f_gdt s')"
proof -
  have "\<exists>bm. bm_load (f_dev s') sb (f_gdt s') h = Ok bm \<and> gd_free_blocks_count (f_gdt s' ! h) = card (free_set sb bm)"
    if h: "h < length (f_gdt s)" for h
  proof (cases "h = g")
    case True
    then show ?thesis using assms(5,7-9) by simp
  next
    case False
    have "bm_load (f_dev s') sb (f_gdt s') h = bm_load (f_dev s) sb (f_gdt s) h"
      by (rule bm_load_elsewhere[OF assms(1) fs_inv_wf_disk[OF assms(2)] assms(3,5) h False assms(6)]) (use False in \<open>simp_all add: assms(7)\<close>)
    then show ?thesis using assms(4) h False by (simp add: counts_match_def assms(7))
  qed
  moreover have "bitmaps_apart sb (f_gdt s')" unfolding assms(7) by (rule bitmaps_apart_update[OF assms(3) _ assms(5)]) simp
  ultimately show ?thesis by (simp add: counts_match_def assms(7))
qed

section \<open>The steps of the allocator\<close>

text \<open>Allocations and releases that succeed, and those that the allocator refuses.\<close>

inductive alloc_step :: "superblock \<Rightarrow> fs \<Rightarrow> fs \<Rightarrow> bool" for sb where
  taken: "0 < count \<Longrightarrow> alloc_blocks sb count hint s = (Ok p, s') \<Longrightarrow> alloc_step sb s s'"
| none_left: "0 < count \<Longrightarrow> alloc_blocks sb count hint s = (Err AllocNoFreeBlocks, s') \<Longrightarrow> alloc_step sb s s'"
| released: "free_block sb block s = (Ok (), s') \<Longrightarrow> alloc_step sb s s'"
| refused: "free_block sb block s = (Err (AllocDoubleFreed b), s') \<Longrightarrow> alloc_step sb s s'"

lemma bm_free_not_Err: "bm_free i bm \<noteq> (Err e, t)"
  by (auto simp: bm_free_def bm_is_allocated_def Let_def split: if_splits)

lemma double_free_unchanged:
  "free_block sb block s = (Err (AllocDoubleFreed b), s') \<Longrightarrow> s' = s"
  by (auto simp: free_block_def Let_def Err_iffs bm_load_def flush_bitmap_def update_gdt_free_blocks_def read_fs_block_def
      store_free_blocks_def patch_r_not_Err pin_def run_local_def rbind_Err_iff bm_free_not_Err revoke_def
      simp del: sbind_sread split: prod.split_asm if_split_asm)
     (metis surj_pair)

definition group_size_ok :: "superblock \<Rightarrow> bool" where
  "group_size_ok sb \<longleftrightarrow> 0 < sb_blocks_per_group sb \<and> sb_blocks_per_group sb \<le> 8 * sb_block_size sb \<and> sb_blocks_per_group sb < 2 ^ 32"

lemma alloc_step_counts:
  assumes "alloc_step sb s s'" and "sb_ok sb" and "group_size_ok sb"
    and "fs_inv sb d0 n s" and "bitmaps_apart sb (f_gdt s)" and "counts_match sb s"
  shows "fs_inv sb d0 n s' \<and> bitmaps_apart sb (f_gdt s') \<and> counts_match sb s'"
  using assms(1)
proof cases
  case (taken count hint p)
  obtain g start where a: "allocated_in sb count s p s' g start"
    using alloc_blocks_spec[OF assms(2,4) taken] by blast
  then obtain bm bm' where bm: "bm_load (f_dev s) sb (f_gdt s) g = Ok bm" "bm_load (f_dev s') sb (f_gdt s') g = Ok bm'"
    "\<forall>j. bm_bit bm' j \<longleftrightarrow> (start \<le> j \<and> j < start + count) \<or> bm_bit bm j"
    "\<forall>j. start \<le> j \<and> j < start + count \<longrightarrow> \<not> bm_bit bm j"
    by (auto simp: allocated_in_def)
  have g: "g < length (f_gdt s)" "start + count \<le> sb_blocks_per_group sb"
    "block_written sb (gd_block_bitmap (f_gdt s ! g)) (f_dev s) (f_dev s')" using a by (simp_all add: allocated_in_def)
  have "gd_free_blocks_count (f_gdt s ! g) = card (free_set sb bm)"
    using assms(6) g(1) bm(1) by (fastforce simp: counts_match_def)
  then have "gd_free_blocks_count (f_gdt s ! g) - count = card (free_set sb bm')"
    using free_set_taken[OF bm(3,4) g(2)] by simp
  from counts_step[OF assms(2,4,5,6) g(1,3) allocated_in_count[OF assms(4) a] bm(2) this]
  show ?thesis using preservesD[OF alloc_blocks_inv[OF assms(2)] assms(4) taken(2)] by simp
next
  case (none_left count hint)
  have "alloc_blocks_in sb count (group_order (hint div sb_blocks_per_group sb) (length (f_gdt s))) s = (Err AllocNoFreeBlocks, s')"
    using none_left(2) by (auto simp: alloc_blocks_def Let_def Err_iffs simp del: sbind_sread)
  from alloc_blocks_in_none[OF assms(2,4) none_left(1) this] show ?thesis using assms(4-6) by simp
next
  case (released block)
  have size: "sb_blocks_per_group sb \<le> 8 * sb_block_size sb" "0 < sb_blocks_per_group sb" "sb_blocks_per_group sb < 2 ^ 32"
    using assms(3) by (simp_all add: group_size_ok_def)
  define g b where "g = block div sb_blocks_per_group sb" and "b = block mod sb_blocks_per_group sb"
  note f = free_block_spec[OF assms(2,4) released size(1), folded g_def b_def, unfolded freed_in_def]
  obtain bm bm' where bm: "bm_load (f_dev s) sb (f_gdt s) g = Ok bm" "bm_load (f_dev s') sb (f_gdt s') g = Ok bm'"
    "bm_bit bm b" "\<forall>j. bm_bit bm' j \<longleftrightarrow> j \<noteq> b \<and> bm_bit bm j" using f by blast
  have g: "g < length (f_gdt s)" "block_written sb (gd_block_bitmap (f_gdt s ! g)) (f_dev s) (f_dev s')" using f by blast+
  have b: "b < sb_blocks_per_group sb" using size(2) by (simp add: b_def)
  have "gd_free_blocks_count (f_gdt s ! g) = card (free_set sb bm)"
    using assms(6) g(1) bm(1) by (fastforce simp: counts_match_def)
  then have "adjust_count (gd_free_blocks_count (f_gdt s ! g)) 1 = card (free_set sb bm')"
    using free_set_released[OF bm(4,3) b] size(3) adjust_count_up[of "gd_free_blocks_count (f_gdt s ! g)" 1] by simp
  then have "counts_match sb s' \<and> bitmaps_apart sb (f_gdt s')"
    using f by (intro counts_step[OF assms(2,4,5,6) g _ bm(2)]) simp_all
  then show ?thesis using preservesD[OF free_block_inv[OF assms(2)] assms(4) released] by simp
next
  case (refused block b)
  then show ?thesis using double_free_unchanged assms(4-6) by blast
qed

section \<open>Property\<close>

text \<open>
  C5. The counters of free blocks are exact. When every group descriptor counts the free bits of
  its bitmap on the device, it still does after any sequence of allocations of any sizes and
  releases of any blocks, whatever hints they have and whether they succeed or are refused (for
  want of free blocks, or as a double free): allocated runs and released blocks move counter and
  bitmap together, never past the size of the group and never below zero.
\<close>

theorem free_counts_match:
  assumes "sb_ok sb" and "group_size_ok sb" and "fs_inv sb d0 n s" and "bitmaps_apart sb (f_gdt s)" and "counts_match sb s"
    and "(alloc_step sb)\<^sup>*\<^sup>* s s'"
  shows "length (f_gdt s') = n \<and> (\<forall>grp < n. \<exists>bm. bm_load (f_dev s') sb (f_gdt s') grp = Ok bm \<and>
    gd_free_blocks_count (f_gdt s' ! grp) = card {j. j < sb_blocks_per_group sb \<and> \<not> bm_bit bm j})"
proof -
  have "fs_inv sb d0 n s' \<and> bitmaps_apart sb (f_gdt s') \<and> counts_match sb s'"
    using assms(6) by (induction rule: rtranclp_induct) (use assms(3-5) alloc_step_counts[OF _ assms(1,2)] in blast)+
  then show ?thesis by (simp add: counts_match_def fs_inv_def free_set_def)
qed

theorem free_counts_match_witness:
  "\<exists>s1 bm. alloc_blocks sample_sb 1 0 sample_state = (Ok 17, s1) \<and> bm_load (f_dev s1) sample_sb (f_gdt s1) 0 = Ok bm \<and>
     gd_free_blocks_count (f_gdt s1 ! 0) = card {j. j < 24 \<and> \<not> bm_bit bm j}"
proof -
  obtain s1 where s1: "alloc_blocks sample_sb 1 0 sample_state = (Ok 17, s1)" using sample_alloc by blast
  have "free_set sample_sb (sample_block 3) = {17..<24}" by (auto simp: free_set_def sample_bit)
  then have "counts_match sample_sb sample_state"
    using sample_bm_load by (simp add: counts_match_def sample_state_def sample_gd_def)
  moreover have "bitmaps_apart sample_sb (f_gdt sample_state)" by (simp add: bitmaps_apart_def sample_state_def sample_gd_def)
  moreover have "group_size_ok sample_sb" by (simp add: group_size_ok_def)
  ultimately show ?thesis
    using free_counts_match[OF sample_sb_ok _ sample_state_inv _ _ r_into_rtranclp[where r = "alloc_step sample_sb", OF alloc_step.taken[OF zero_less_one s1]]] s1
    by auto
qed

end
