(* ===== verification/Truncate_Sound.thy ===== *)
theory Truncate_Sound
  imports Extent_Append
begin

text \<open>
  Truncating a file whose extents are all in the inode: the extents are cut at the new end,
  what lies behind it is given back to the allocator block by block and in order, and
  nothing else of the inode changes.
\<close>

section \<open>Cutting a list of extents\<close>

text \<open>An extent before the cut stays, one across it gets shorter, one behind it goes.\<close>

definition cut_leaf :: "nat \<Rightarrow> extent_leaf \<Rightarrow> extent_leaf list" where
  "cut_leaf keep l =
     (if keep \<le> ee_block l then []
      else if keep < ee_block l + leaf_blocks l
        then [l\<lparr>ee_len := (if ee_len l > 32768 then 32768 else 0) + (keep - ee_block l)\<rparr>]
      else [l])"

definition cut_leaves :: "nat \<Rightarrow> extent_leaf list \<Rightarrow> extent_leaf list" where
  "cut_leaves keep ls = concat (map (cut_leaf keep) ls)"

text \<open>The physical blocks behind the cut.\<close>

definition lost_blocks :: "nat \<Rightarrow> extent_leaf \<Rightarrow> nat list" where
  "lost_blocks keep l = map (\<lambda>b. leaf_start l + b) [keep - ee_block l..<leaf_blocks l]"

definition free_all :: "superblock \<Rightarrow> nat list \<Rightarrow> (fs, extent_write_error, unit) st" where
  "free_all sb bs = sfor bs (\<lambda>b. sbind (smap_err EwAlloc (free_block sb b)) (\<lambda>_. revoke b))"

lemma cut_leaves_simps [simp]:
  "cut_leaves keep [] = []" "cut_leaves keep (l # ls) = cut_leaf keep l @ cut_leaves keep ls"
  by (simp_all add: cut_leaves_def)

lemma free_all_append: "free_all sb (xs @ ys) = sbind (free_all sb xs) (\<lambda>_. free_all sb ys)"
  by (simp add: free_all_def sfor_append)

lemma free_all_Nil [simp]: "free_all sb [] = sreturn ()"
  by (simp add: free_all_def)

lemma free_range_all:
  assumes "p + n \<le> 2 ^ 64"
  shows "free_range sb p n = free_all sb (map (\<lambda>b. p + b) [0..<n])"
proof -
  have "wadd 64 p b = p + b" if "b < n" for b using assms that by (simp add: wadd_def)
  then show ?thesis unfolding free_range_def free_all_def sfor_map by (intro sfor_cong) simp
qed

text \<open>Fields as they are read from a node, ending below the last logical block.\<close>

definition leaf_fits :: "extent_leaf \<Rightarrow> bool" where
  "leaf_fits l \<longleftrightarrow> ee_len l < 2 ^ 16 \<and> leaf_start l < 2 ^ 48 \<and> ee_block l + leaf_blocks l < 2 ^ 32"

lemma leaf_blocks_less: "ee_len l < 2 ^ 16 \<Longrightarrow> leaf_blocks l \<le> 32768"
  by (simp add: leaf_blocks_def, linarith)

lemma free_lost_all:
  assumes "leaf_fits l" and "keep \<le> ee_block l"
  shows "free_range sb (leaf_start l) (leaf_blocks l) = free_all sb (lost_blocks keep l)"
  using assms free_range_all[of "leaf_start l" "leaf_blocks l" sb] leaf_blocks_less[of l]
  by (simp add: leaf_fits_def lost_blocks_def)

lemma free_lost_part:
  assumes "leaf_fits l" and "ee_block l < keep" and "keep < ee_block l + leaf_blocks l"
  shows "free_range sb (wadd 64 (leaf_start l) (keep - ee_block l)) (ee_block l + leaf_blocks l - keep) =
    free_all sb (lost_blocks keep l)"
proof -
  have len: "leaf_blocks l \<le> 32768" and start: "leaf_start l < 2 ^ 48"
    using assms(1) leaf_blocks_less by (auto simp: leaf_fits_def)
  have p: "wadd 64 (leaf_start l) (keep - ee_block l) = leaf_start l + (keep - ee_block l)"
    using assms(3) len start by (simp add: wadd_def)
  have "map (\<lambda>b. leaf_start l + (keep - ee_block l) + b) [0..<ee_block l + leaf_blocks l - keep] = lost_blocks keep l"
    using assms(2,3) by (intro nth_equalityI) (auto simp: lost_blocks_def)
  then show ?thesis
    using free_range_all[of "leaf_start l + (keep - ee_block l)" "ee_block l + leaf_blocks l - keep" sb] len start assms(2,3)
    by (simp add: p)
qed

lemma no_lost: "ee_block l + leaf_blocks l \<le> keep \<Longrightarrow> lost_blocks keep l = []"
  by (simp add: lost_blocks_def)

section \<open>The loop over the entries\<close>

lemma remove_entry_spec:
  assumes "12 + (i + Suc k) * 12 \<le> length node"
  shows "\<exists>node'. remove_entry (12 + i * 12) k node = (Ok node' :: ('e, _) res) \<and> length node' = length node \<and>
    (\<forall>j < i. leaf_at node' j = leaf_at node j) \<and> (\<forall>j < k. leaf_at node' (i + j) = leaf_at node (Suc (i + j)))"
proof (cases "k = 0")
  case False
  define rest where "rest = bytes_at (12 + i * 12 + 12) (k * 12) node"
  have len: "length rest = k * 12" using assms by (simp add: rest_def)
  have fit: "12 + i * 12 + length rest \<le> length node" using assms len by simp
  have "leaf_at (patch (12 + i * 12) rest node) j = leaf_at node j" if "j < i" for j
  proof -
    have "12 + j * 12 + 12 \<le> 12 + i * 12" using that by simp
    then show ?thesis using fit by (simp add: leaf_at_entry buffer_simps)
  qed
  moreover have "leaf_at (patch (12 + i * 12) rest node) (i + j) = leaf_at node (Suc (i + j))" if "j < k" for j
  proof -
    have "12 + (i + j) * 12 + 12 \<le> 12 + i * 12 + length rest" using that len by simp
    then have "bytes_at (12 + (i + j) * 12) 12 (patch (12 + i * 12) rest node) = bytes_at (j * 12) 12 rest"
      using bytes_at_patch_inside[OF fit, of "12 + (i + j) * 12" 12] by simp
    also have "\<dots> = bytes_at (12 + Suc (i + j) * 12) 12 node"
      using that by (simp add: rest_def algebra_simps)
    finally show ?thesis by (simp add: leaf_at_entry)
  qed
  ultimately show ?thesis
    using False fit assms len
    by (intro exI[of _ "patch (12 + i * 12) rest node"]) (simp add: remove_entry_def slice_r_def patch_r_def rest_def)
qed (simp add: remove_entry_def)

lemma shorten_entry:
  assumes "12 + Suc i * 12 \<le> length node" and "v < 2 ^ 16"
  shows "leaf_at (patch (12 + i * 12 + 4) (to_le 2 v) node) i = (leaf_at node i)\<lparr>ee_len := v\<rparr>"
    and "j \<noteq> i \<Longrightarrow> leaf_at (patch (12 + i * 12 + 4) (to_le 2 v) node) j = leaf_at node j"
proof -
  show "leaf_at (patch (12 + i * 12 + 4) (to_le 2 v) node) i = (leaf_at node i)\<lparr>ee_len := v\<rparr>"
  proof -
    define off where "off = 12 + i * 12"
    have "off + 12 \<le> length node" using assms(1) by (simp add: off_def)
    then show ?thesis using assms(2)
      by (simp add: leaf_at_def Let_def int_read_defs buffer_simps off_def[symmetric])
  qed
  show "leaf_at (patch (12 + i * 12 + 4) (to_le 2 v) node) j = leaf_at node j" if "j \<noteq> i"
  proof -
    have "12 + j * 12 + 12 \<le> 12 + i * 12 + 4 \<or> 12 + i * 12 + 4 + 2 \<le> 12 + j * 12"
      using that by (cases j i rule: linorder_cases) auto
    then show ?thesis using assms(1) by (simp add: leaf_at_entry buffer_simps)
  qed
qed

lemma map_shift: "map f [i..<i + Suc k] = f i # map (\<lambda>j. f (Suc j)) [i..<i + k]"
  by (simp add: upt_conv_Cons map_Suc_upt[symmetric] del: upt_Suc)

text \<open>What a run of the loop does over the entries \<open>rest\<close>, with the entries \<open>pre\<close> already passed.\<close>

definition cuts_entries ::
  "superblock \<Rightarrow> nat \<Rightarrow> nat \<Rightarrow> (fs, extent_write_error, nat \<times> byte list) st \<Rightarrow> extent_leaf list
     \<Rightarrow> extent_leaf list \<Rightarrow> bool" where
  "cuts_entries sb keep n m pre rest \<longleftrightarrow> (\<exists>node'. length node' = n \<and>
     m = sbind (free_all sb (concat (map (lost_blocks keep) rest)))
           (\<lambda>_. sreturn (length (pre @ cut_leaves keep rest), node')) \<and>
     map (leaf_at node') [0..<length (pre @ cut_leaves keep rest)] = pre @ cut_leaves keep rest)"

lemma cuts_entries_Cons:
  assumes "cuts_entries sb keep n m (pre @ cut_leaf keep l) rest"
  shows "cuts_entries sb keep n (sbind (free_all sb (lost_blocks keep l)) (\<lambda>_. m)) pre (l # rest)"
proof -
  obtain node' where node': "length node' = n"
    "m = sbind (free_all sb (concat (map (lost_blocks keep) rest)))
        (\<lambda>_. sreturn (length ((pre @ cut_leaf keep l) @ cut_leaves keep rest), node'))"
    "map (leaf_at node') [0..<length ((pre @ cut_leaf keep l) @ cut_leaves keep rest)] =
        (pre @ cut_leaf keep l) @ cut_leaves keep rest"
    using assms by (auto simp only: cuts_entries_def)
  show ?thesis
    unfolding cuts_entries_def
    by (rule exI[of _ node'])
       (use node' in \<open>simp add: free_all_append sbind_assoc add.assoc del: sreturn_apply\<close>)
qed

text \<open>The loop frees the blocks behind the cut and leaves the node with the cut entries.\<close>

lemma trunc_leaf_loop_spec:
  assumes "12 + (i + k) * 12 \<le> length node"
    and "\<forall>l \<in> set (map (leaf_at node) [i..<i + k]). leaf_fits l"
  shows "cuts_entries sb keep (length node) (trunc_leaf_loop sb keep k i node)
    (map (leaf_at node) [0..<i]) (map (leaf_at node) [i..<i + k])"
  using assms
proof (induction k arbitrary: i node)
  case 0
  then show ?case unfolding cuts_entries_def by (intro exI[of _ node]) (simp del: sreturn_apply)
next
  case (Suc k)
  define l where "l = leaf_at node i"
  have rest: "map (leaf_at node) [i..<i + Suc k] = l # map (\<lambda>j. leaf_at node (Suc j)) [i..<i + k]"
    unfolding map_shift l_def ..
  have fit: "12 + (i + Suc k) * 12 \<le> length node" by (rule Suc.prems(1))
  have l: "leaf_fits l" and rest_fits: "\<forall>j. i \<le> j \<and> j < i + k \<longrightarrow> leaf_fits (leaf_at node (Suc j))"
    using Suc.prems(2) unfolding rest by auto
  have real: "real_len l = leaf_blocks l" by (simp add: real_len_def leaf_blocks_def)
  have last: "sat_add 32 (ee_block l) (leaf_blocks l) = ee_block l + leaf_blocks l"
    using l by (simp add: leaf_fits_def sat_add_def)
  have slice: "slice_r (12 + i * 12) 12 node = (Ok (bytes_at (12 + i * 12) 12 node) :: (extent_write_error, _) res)"
    using fit by (simp add: slice_r_def)
  note unfold_loop = trunc_leaf_loop.simps(2)[of sb keep k i node] Let_def slice l_def[symmetric] real last
  consider (drop) "keep \<le> ee_block l" | (cut) "ee_block l < keep" "keep < ee_block l + leaf_blocks l"
    | (keep) "ee_block l < keep" "ee_block l + leaf_blocks l \<le> keep" by linarith
  then show ?case
  proof cases
    case drop
    obtain node1 where n1: "remove_entry (12 + i * 12) k node = (Ok node1 :: (extent_write_error, _) res)"
        "length node1 = length node" "\<forall>j < i. leaf_at node1 j = leaf_at node j"
        "\<forall>j < k. leaf_at node1 (i + j) = leaf_at node (Suc (i + j))"
      using remove_entry_spec[OF fit] by metis
    have tail: "map (leaf_at node1) [i..<i + k] = map (\<lambda>j. leaf_at node (Suc j)) [i..<i + k]"
      using n1(4) by (intro nth_equalityI) auto
    have head: "map (leaf_at node1) [0..<i] = map (leaf_at node) [0..<i] @ cut_leaf keep l"
      using n1(3) drop by (simp add: cut_leaf_def)
    have loop: "trunc_leaf_loop sb keep (Suc k) i node =
        sbind (free_all sb (lost_blocks keep l)) (\<lambda>_. trunc_leaf_loop sb keep k i node1)"
      using drop by (simp add: unfold_loop fun_eq_iff n1(1) free_lost_all[OF l drop] sbind_def split: prod.split res.split)
    have "cuts_entries sb keep (length node1) (trunc_leaf_loop sb keep k i node1)
        (map (leaf_at node1) [0..<i]) (map (leaf_at node1) [i..<i + k])"
      by (rule Suc.IH) (use fit n1(2) rest_fits tail in auto)
    then show ?thesis unfolding tail head n1(2) loop rest by (rule cuts_entries_Cons)
  next
    case cut
    define v where "v = (if ee_len l > 32768 then 32768 else 0) + (keep - ee_block l)"
    define node1 where "node1 = patch (12 + i * 12 + 4) (to_le 2 v) node"
    have len: "keep - ee_block l < leaf_blocks l" "ee_len l < 2 ^ 16" using cut l by (auto simp: leaf_fits_def)
    then have v: "v < 2 ^ 16" "(keep - ee_block l) mod 2 ^ 16 = keep - ee_block l"
      "(if ee_len l > 32768 then wadd 16 (keep - ee_block l) 32768 else keep - ee_block l) = v"
      by (auto simp: v_def leaf_blocks_def wadd_def split: if_splits)
    have e: "12 + Suc i * 12 \<le> length node" using fit by simp
    note at = shorten_entry[OF e v(1), folded node1_def]
    have tail: "map (leaf_at node1) [Suc i..<Suc i + k] = map (\<lambda>j. leaf_at node (Suc j)) [i..<i + k]"
      by (intro nth_equalityI) (auto simp: at(2) simp del: upt_Suc)
    have head: "map (leaf_at node1) [0..<Suc i] = map (leaf_at node) [0..<i] @ cut_leaf keep l"
      using cut by (simp add: at cut_leaf_def v_def[symmetric] l_def[symmetric])
    have shorter: "patch_r (12 + i * 12 + 4) (to_le 2 (if 32768 < ee_len l
        then wadd 16 ((keep - ee_block l) mod 2 ^ 16) 32768 else (keep - ee_block l) mod 2 ^ 16)) node =
        (Ok node1 :: (extent_write_error, _) res)"
      unfolding v(2,3) using e by (simp add: patch_r_def node1_def)
    have loop: "trunc_leaf_loop sb keep (Suc k) i node =
        sbind (free_all sb (lost_blocks keep l)) (\<lambda>_. trunc_leaf_loop sb keep k (Suc i) node1)"
    proof -
      have neg: "\<not> keep \<le> ee_block l" using cut(1) by simp
      show ?thesis
        unfolding unfold_loop if_not_P[OF neg] if_P[OF cut(2)] sbind_lift_Ok v(2) free_lost_part[OF l cut]
          shorter[unfolded v(2)] ..
    qed
    have len1: "length node1 = length node" using e by (simp add: node1_def)
    have "cuts_entries sb keep (length node1) (trunc_leaf_loop sb keep k (Suc i) node1)
        (map (leaf_at node1) [0..<Suc i]) (map (leaf_at node1) [Suc i..<Suc i + k])"
      by (rule Suc.IH) (use fit len1 rest_fits tail in auto)
    then show ?thesis unfolding tail head len1 loop rest by (rule cuts_entries_Cons)
  next
    case keep
    have head: "map (leaf_at node) [0..<Suc i] = map (leaf_at node) [0..<i] @ cut_leaf keep l"
      using keep by (simp add: cut_leaf_def l_def)
    have tail: "map (leaf_at node) [Suc i..<Suc i + k] = map (\<lambda>j. leaf_at node (Suc j)) [i..<i + k]"
      by (intro nth_equalityI) (auto simp del: upt_Suc)
    have loop: "trunc_leaf_loop sb keep (Suc k) i node =
        sbind (free_all sb (lost_blocks keep l)) (\<lambda>_. trunc_leaf_loop sb keep k (Suc i) node)"
      using keep by (simp add: unfold_loop fun_eq_iff no_lost del: sreturn_apply)
    have "cuts_entries sb keep (length node) (trunc_leaf_loop sb keep k (Suc i) node)
        (map (leaf_at node) [0..<Suc i]) (map (leaf_at node) [Suc i..<Suc i + k])"
      by (rule Suc.IH) (use fit rest_fits tail in auto)
    then show ?thesis unfolding tail head loop rest by (rule cuts_entries_Cons)
  qed
qed

section \<open>The map after the cut\<close>

lemma lookup_cut_leaf:
  "lookup_leaves (cut_leaf keep x @ ms) l =
     (if l < keep then (case lookup_leaves [x] l of Ok None \<Rightarrow> lookup_leaves ms l | r \<Rightarrow> r) else lookup_leaves ms l)"
proof (cases "ee_len x > 32768")
  case True
  then show ?thesis by (auto simp: cut_leaf_def)
next
  case False
  have "leaf_start (x\<lparr>ee_len := v\<rparr>) = leaf_start x" for v by (simp add: leaf_start_def)
  with False show ?thesis
    by (cases "checked_add 64 (leaf_start x) (l - ee_block x)") (auto simp: cut_leaf_def leaf_blocks_def)
qed

lemma lookup_cut_leaves: "lookup_leaves (cut_leaves keep ls) l = (if l < keep then lookup_leaves ls l else Ok None)"
proof (induction ls)
  case (Cons x ls)
  have "lookup_leaves (x # ls) l = (case lookup_leaves [x] l of Ok None \<Rightarrow> lookup_leaves ls l | r \<Rightarrow> r)"
    using lookup_leaves_append[of "[x]" ls l] by simp
  then show ?case by (cases "l < keep") (simp_all only: lookup_cut_leaf cut_leaves_simps Cons if_True if_False)
qed simp

lemma length_cut_leaves: "length (cut_leaves keep ls) \<le> length ls"
  by (induction ls) (auto simp: cut_leaf_def)

section \<open>The root after the cut\<close>

lemma truncate_root_OkD:
  assumes "truncate_node sb keep 0 is_root root s = (Ok (e, root'), s')" and "length root = 60"
    and "eh_entries (header_of root) \<le> 4" and "\<forall>l \<in> set (leaves_of root). leaf_fits l"
  shows "free_all sb (concat (map (lost_blocks keep) (leaves_of root))) s = (Ok (), s')"
    and "length root' = 60" and "eh_magic (header_of root') = EXTENT_MAGIC" and "eh_depth (header_of root') = 0"
    and "eh_entries (header_of root') \<le> 4" and "leaves_of root' = cut_leaves keep (leaves_of root)"
proof -
  let ?ls = "leaves_of root" and ?n = "eh_entries (header_of root)"
  define c where "c = length (cut_leaves keep ?ls)"
  have c: "c \<le> 4" using length_cut_leaves[of keep ?ls] assms(3) by (simp add: c_def leaves_of_def)
  have "cuts_entries sb keep (length root) (trunc_leaf_loop sb keep ?n 0 root) [] ?ls"
    using trunc_leaf_loop_spec[of 0 ?n root sb keep] assms(2-4) by (simp add: leaves_of_def)
  then obtain nd where nd: "length nd = 60"
    "trunc_leaf_loop sb keep ?n 0 root = sbind (free_all sb (concat (map (lost_blocks keep) ?ls))) (\<lambda>_. sreturn (c, nd))"
    "map (leaf_at nd) [0..<c] = cut_leaves keep ?ls"
    unfolding cuts_entries_def append_Nil c_def[symmetric] assms(2) by metis
  obtain k nd' where loop: "trunc_leaf_loop sb keep ?n 0 root s = (Ok (k, nd'), s')"
    and r: "root' = patch 0 (make_header k (eh_max (header_of root)) 0) nd'"
    using assms(1)
    by (auto simp: sbind_Ok_iff parse_header_def Let_def simp del: sbind_sread split: if_split_asm)
  have t: "free_all sb (concat (map (lost_blocks keep) ?ls)) s = (Ok (), s')"
    and root': "root' = patch 0 (make_header c (eh_max (header_of root)) 0) nd"
    using loop unfolding nd(2) r by (auto simp: sbind_Ok_iff)
  show "free_all sb (concat (map (lost_blocks keep) ?ls)) s = (Ok (), s')" by (rule t)
  show len: "length root' = 60" using nd(1) by (simp add: root')
  have mx: "eh_max (header_of root) < 2 ^ 16" using le16_less[of 4 root] by (simp add: header_of_def)
  have "bytes_at 0 12 root' = make_header c (eh_max (header_of root)) 0"
    using nd(1) by (simp add: root' buffer_simps)
  then have h: "header_of root' = \<lparr>eh_magic = EXTENT_MAGIC, eh_entries = c, eh_max = eh_max (header_of root), eh_depth = 0\<rparr>"
    using header_made[of c "eh_max (header_of root)" 0] mx c by (subst header_of_head) simp
  then show "eh_magic (header_of root') = EXTENT_MAGIC" "eh_depth (header_of root') = 0" "eh_entries (header_of root') \<le> 4"
    using c by simp_all
  have "leaf_at root' i = leaf_at nd i" if "i < c" for i
    using nd(1) by (simp add: leaf_at_entry root' buffer_simps)
  then show "leaves_of root' = cut_leaves keep ?ls"
    using nd(3) map_cong[of "[0..<c]" "[0..<c]" "leaf_at root'" "leaf_at nd"] by (simp add: leaves_of_def[of root'] h)
qed

text \<open>Freeing blocks leaves the inode tables where they are.\<close>

abbreviation same_tables :: "gdt \<Rightarrow> fs \<Rightarrow> bool" where
  "same_tables gdt s \<equiv> map gd_inode_table (f_gdt s) = map gd_inode_table gdt"

lemma adjust_tables [preserves_intros]: "preserves (same_tables gdt) (on_gdt (adjust_free_blocks grp delta))"
proof -
  have "map gd_inode_table (ds[grp := (ds ! grp)\<lparr>gd_free_blocks_count := c\<rparr>]) = map gd_inode_table ds" for ds :: gdt and c
  proof (rule nth_equalityI)
    show "map gd_inode_table (ds[grp := (ds ! grp)\<lparr>gd_free_blocks_count := c\<rparr>]) ! j = map gd_inode_table ds ! j"
      if "j < length (map gd_inode_table (ds[grp := (ds ! grp)\<lparr>gd_free_blocks_count := c\<rparr>]))" for j
      using that by (cases "j = grp") simp_all
  qed simp
  then show ?thesis by (simp add: preserves_def on_gdt_def adjust_free_blocks_def gdt_update_def)
qed

lemma stores_tables [preserves_intros]:
  "preserves (same_tables gdt) (on_dev m)" "preserves (same_tables gdt) (pin b data)" "preserves (same_tables gdt) (revoke b)"
  by (auto simp: preserves_def on_dev_def pin_def revoke_def split: prod.split)

lemma free_block_tables: "preserves (same_tables gdt) (free_block sb b)"
  unfolding free_block_def Let_def flush_bitmap_def update_gdt_free_blocks_def
  by (intro preserves_intros)

lemma free_all_tables: "preserves (same_tables gdt) (free_all sb bs)"
  unfolding free_all_def
  by (intro preserves_intros free_block_tables)

lemma same_tables_there:
  assumes "map gd_inode_table gdt' = map gd_inode_table gdt" and "inode_there sb gdt i"
  shows "inode_there sb gdt' i" and "inode_block sb gdt' i = inode_block sb gdt i"
proof -
  have "length gdt' = length gdt" using assms(1) by (metis length_map)
  moreover have "gd_inode_table (gdt' ! g) = gd_inode_table (gdt ! g)" if "g < length gdt" for g
    using assms(1) that calculation by (metis nth_map)
  ultimately show "inode_there sb gdt' i" "inode_block sb gdt' i = inode_block sb gdt i"
    using assms(2) by (simp_all add: inode_there_def inode_block_def)
qed

lemma free_all_inv: "sb_ok sb \<Longrightarrow> preserves (fs_inv sb d0 n) (free_all sb bs)"
  unfolding free_all_def by (intro preserves_intros)

lemma parse_cut_root:
  assumes "length raw = 128" and "length root' = 60"
  shows "parse_raw (patch 28 (to_le 4 v) (set_i_block root' raw)) = (parse_raw raw)\<lparr>ino_block_data := root'\<rparr>"
    and "i_dtime (patch 28 (to_le 4 v) (set_i_block root' raw)) = i_dtime raw"
    and "length (patch 28 (to_le 4 v) (set_i_block root' raw)) = 128"
  using assms by (simp_all add: set_i_block_def parse_raw_def raw_inode_defs int_read_defs buffer_simps)

lemma extent_truncate_OkD:
  assumes "sb_ok sb" and "inode_there sb (f_gdt s) i" and "extent_truncate sb i keep s = (Ok (), s')"
    and "block_with_txn EwBlockDevice sb (inode_block sb (f_gdt s) i) s = Ok blk"
    and "root = i_block (bytes_at (inode_off sb i) 128 blk)" and "eh_depth (header_of root) = 0"
  obtains e root' s1 v where "truncate_node sb keep 0 True root s = (Ok (e, root'), s1)"
    and "eh_magic (header_of root) = EXTENT_MAGIC" and "inode_off sb i + 128 \<le> length blk"
    and "flush_raw_inode sb (inode_block sb (f_gdt s) i) (inode_off sb i)
      (patch 28 (to_le 4 v) (set_i_block root' (bytes_at (inode_off sb i) 128 blk))) s1 = (Ok (), s')"
  using assms(3,4,6) unfolding assms(5)
  by (auto simp: extent_truncate_def ew_location[OF assms(1,2)] read_raw_inode_at_with_txn_def ew_block_eq
        sbind_Ok_iff parse_header_def Let_def raw_inode_read_from_def
        simp del: sbind_sread truncate_node.simps split: if_split_asm)

section \<open>Property\<close>

text \<open>
  C9. Truncating a file whose extents are all in the inode: exactly the physical blocks behind
  the cut are freed and revoked, extent by extent and in order, with nothing else done to the
  allocator; the inode then reads as before apart from its extent root, which holds the
  extents cut at the new end, so every logical block before the cut maps as it did and every
  block from there on is a hole.
\<close>

theorem truncate_cuts_map:
  assumes "sb_ok sb" and "fs_inv sb d0 m s" and "inode_there sb (f_gdt s) i"
    and "read_inode_with_txn (f_dev s) sb (f_gdt s) (f_txn s) i = Ok ino" and "uses_extents ino"
    and "root = ino_block_data ino" and "eh_depth (header_of root) = 0" and "eh_entries (header_of root) \<le> 4"
    and "\<forall>l \<in> set (leaves_of root). leaf_fits l"
    and "extent_truncate sb i keep s = (Ok (), s')"
  shows "\<exists>s1 ino'. free_all sb (concat (map (lost_blocks keep) (leaves_of root))) s = (Ok (), s1) \<and>
    f_gdt s' = f_gdt s1 \<and> txn_revoked (f_txn s') = txn_revoked (f_txn s1) \<and>
    (\<forall>b. b \<noteq> inode_block sb (f_gdt s) i \<longrightarrow> pinned (f_txn s') b = pinned (f_txn s1) b) \<and>
    read_inode_with_txn (f_dev s') sb (f_gdt s') (f_txn s') i = Ok ino' \<and>
    ino' = ino\<lparr>ino_block_data := ino_block_data ino'\<rparr> \<and>
    leaves_of (ino_block_data ino') = cut_leaves keep (leaves_of root) \<and>
    (\<forall>l. lookup_block (f_dev s') sb ino' l = (if l < keep then lookup_block (f_dev s) sb ino l else Ok None))"
proof -
  let ?b = "inode_block sb (f_gdt s) i" and ?off = "inode_off sb i"
  obtain blk where blk: "block_with_txn EwBlockDevice sb ?b s = Ok blk"
    using assms(10) unfolding extent_truncate_def
    by (auto simp: ew_location[OF assms(1,3)] read_raw_inode_at_with_txn_def ew_block_eq sbind_Ok_iff
        simp del: sbind_sread split: if_split_asm)
  define raw where "raw = bytes_at ?off 128 blk"
  note at = read_inode_with_txn_of_block[OF assms(1)]
  have old: "decode_inode i raw = Ok ino" using at[OF assms(2,3) blk] assms(4) by (simp add: raw_def)
  then have ino: "ino = parse_raw raw" "i_dtime raw = 0" by (auto simp: decode_inode_def split: if_split_asm)
  have root: "root = i_block raw" by (simp add: assms(6) ino(1) parse_raw_def)
  obtain e root' s1 v where tr: "truncate_node sb keep 0 True root s = (Ok (e, root'), s1)"
    and magic: "eh_magic (header_of root) = EXTENT_MAGIC" and fit: "?off + 128 \<le> length blk"
    and fl: "flush_raw_inode sb ?b ?off (patch 28 (to_le 4 v) (set_i_block root' raw)) s1 = (Ok (), s')"
    using extent_truncate_OkD[OF assms(1,3,10) blk root[unfolded raw_def] assms(7)] unfolding raw_def by metis
  have len: "length raw = 128" "length root = 60" using fit by (simp_all add: raw_def root i_block_def)
  note cut = truncate_root_OkD[OF tr len(2) assms(8,9)]
  note parsed = parse_cut_root[OF len(1) cut(2), of v]
  have inv1: "fs_inv sb d0 m s1" using preservesD[OF free_all_inv[OF assms(1)] assms(2) cut(1)] .
  have inv': "fs_inv sb d0 m s'" using preservesD[OF extent_truncate_inv[OF assms(1)] assms(2,10)] .
  obtain data where data: "block_with_txn EwBlockDevice sb ?b s1 = Ok data" "?off + length (patch 28 (to_le 4 v) (set_i_block root' raw)) \<le> length data"
    "f_gdt s' = f_gdt s1" "f_txn s' = pin_block ?b (patch ?off (patch 28 (to_le 4 v) (set_i_block root' raw)) data) (f_txn s1)"
    using flush_raw_inode_OkD[OF fl] by metis
  have "map gd_inode_table (f_gdt s') = map gd_inode_table (f_gdt s)"
    using preservesD[OF free_all_tables _ cut(1), of "f_gdt s"] data(3) by simp
  note there = same_tables_there[OF this assms(3)]
  have ok: "txn_ok (f_txn s1)" using inv1 by (simp add: fs_inv_def)
  have "block_with_txn EwBlockDevice sb (inode_block sb (f_gdt s') i) s' =
      Ok (patch ?off (patch 28 (to_le 4 v) (set_i_block root' raw)) data)"
    by (simp add: block_with_txn_def there(2) data(4) txn_pins.lookup_pin[OF ok])
  from at[OF inv' there(1) this]
  have "read_inode_with_txn (f_dev s') sb (f_gdt s') (f_txn s') i = Ok (ino\<lparr>ino_block_data := root'\<rparr>)"
    using data(2) parsed ino by (simp add: buffer_simps decode_inode_def)
  moreover have "lookup_block (f_dev s') sb (ino\<lparr>ino_block_data := root'\<rparr>) l =
      (if l < keep then lookup_block (f_dev s) sb ino l else Ok None)" for l
    using assms(5,8) cut(5) lookup_root[OF cut(2,3,4), of "f_dev s'" sb l] lookup_root[OF len(2) magic assms(7), of "f_dev s" sb l]
    by (simp add: lookup_block_def uses_extents_def assms(6)[symmetric] cut(6) lookup_cut_leaves)
  ultimately show ?thesis
    using cut(1,6) data(3,4) txn_pins.lookup_pin[OF ok]
    by (intro exI[of _ s1] exI[of _ "ino\<lparr>ino_block_data := root'\<rparr>"]) (simp add: pin_block_def)
qed

text \<open>Emptying the file of the sample image gives its only block back.\<close>

lemma sample_truncate:
  "\<exists>s'. extent_truncate sample_sb 12 0 sample_state = (Ok (), s')"
proof -
  let ?raw = "sample_inode 0x81A4 5 1 16 1"
  define rt where "rt = ino_block_data (sample_ino 0x81A4 5 1 16 1)"
  note rt = sample_root[folded rt_def]
  have fields: "f_txn sample_state = txn_new 1" "f_dev sample_state = sample_disk" "f_gdt sample_state = [sample_gd]"
    "pinned (txn_new q) b = None" "sb_inodes_count sample_sb = 16" "gd_inode_table sample_gd = 5" for b q
    by (simp_all add: sample_state_def pinned_def txn_new_def sample_sb_def sample_gd_def)
  have there: "inode_there sample_sb [sample_gd] 12" by (simp add: inode_there_def inode_group_def fields)
  have place: "inode_block sample_sb [sample_gd] 12 = 6" "inode_off sample_sb 12 = 384"
    by (simp_all add: inode_block_def inode_group_def inode_off_def fields)
  have raw: "bytes_at 384 128 (sample_block 6) = ?raw"
    by (simp add: sample_block_def sample_inodes_hi_def buffer_simps)
  have root: "i_block ?raw = rt" by (simp add: rt_def sample_ino_def parse_raw_def)
  have blk: "block_with_txn EwBlockDevice sample_sb 6 sample_state = Ok (sample_block 6)"
    using read_sample_block[of 12 6] by (simp add: block_with_txn_def fields wmul_def)
  obtain s2 where s2: "free_block sample_sb 16 sample_state = (Ok (), s2)"
    using sample_free[of sample_state sample_gd 16] sample_like_disk sample_bm_load sample_bit
    by (auto simp: sample_state_def sample_gd_def)
  define s1 where "s1 = s2\<lparr>f_txn := revoke_block 16 (f_txn s2)\<rparr>"
  have leaf: "leaf_fits l" "lost_blocks 0 l = [16]"
    if "l = \<lparr>ee_block = 0, ee_len = 1, ee_start_hi = 0, ee_start_lo = 16\<rparr>" for l
    using that by (simp_all add: leaf_fits_def lost_blocks_def leaf_blocks_def leaf_start_def hi_lo_def)
  have freed: "free_all sample_sb [16] sample_state = (Ok (), s1)"
    by (simp add: free_all_def sbind_Ok smap_err_def s2 revoke_def s1_def)
  have cuts: "cuts_entries sample_sb 0 60 (trunc_leaf_loop sample_sb 0 1 0 rt) [] (leaves_of rt)"
    using trunc_leaf_loop_spec[of 0 1 rt sample_sb 0] leaf(1) rt by (simp add: leaves_of_def)
  then obtain nd where nd: "length nd = 60" "trunc_leaf_loop sample_sb 0 1 0 rt sample_state = (Ok (0, nd), s1)"
    using freed leaf(2) unfolding cuts_entries_def rt(3) by (auto simp: sbind_Ok cut_leaf_def simp del: trunc_leaf_loop.simps)
  define root' where "root' = patch 0 (make_header 0 4 0) nd"
  have tr: "truncate_node sample_sb 0 0 True rt sample_state = (Ok (True, root'), s1)"
    using nd rt(1,2) by (simp add: parse_header_def sbind_Ok patch_r_def root'_def)
  have len: "length root' = 60" using nd by (simp add: root'_def)
  have inv: "fs_inv sample_sb sample_disk 1 s1"
    using preservesD[OF free_all_inv[OF sample_sb_ok] sample_state_inv freed] .
  have shape: "wf_disk (f_dev s1)" "sector_count (f_dev s1) = 48" "write_fails (f_dev s1) = (\<lambda>_. False)"
      "read_fails (f_dev s1) = (\<lambda>_. False)"
    using fs_inv_shape[OF inv] by (simp_all add: same_shape_def sample_disk_def)
  have "\<exists>data. block_with_txn EwBlockDevice sample_sb 6 s1 = Ok data \<and> length data = 1024"
  proof (cases "pinned (f_txn s1) 6")
    case None
    then show ?thesis using shape by (simp add: block_with_txn_def wmul_def read_sectors_Ok_iff readable_def length_sector_run)
  next
    case (Some data)
    moreover have "length data = 1024" using inv pinned_sized[OF _ Some, of 1024] by (simp add: fs_inv_def)
    ultimately show ?thesis by (simp add: block_with_txn_def)
  qed
  then obtain data where data: "block_with_txn EwBlockDevice sample_sb 6 s1 = Ok data" "length data = 1024" by blast
  define upd where "upd = patch 28 (to_le 4 (count_iblocks (i_block (set_i_block root' ?raw)) 1024)) (set_i_block root' ?raw)"
  have upd: "length upd = 128" using len by (simp add: upd_def set_i_block_def)
  define new where "new = patch 384 upd data"
  have "length new = 512 * 2" using data(2) upd by (simp add: new_def)
  from write_sectors_Ok_iff[OF shape(1) this, of 12] have "write_sectors 12 new (f_dev s1) = (Ok (), store_run 12 new (f_dev s1))"
    using shape by (simp add: writable_def)
  then have "flush_raw_inode sample_sb 6 384 upd s1 =
      (Ok (), s1\<lparr>f_dev := store_run 12 new (f_dev s1), f_txn := pin_block 6 new (f_txn s1)\<rparr>)"
    using data upd
    by (simp add: flush_raw_inode_def ew_block_eq ew_write_block_def pin_def new_def[symmetric] patch_r_def
        sbind_def smap_err_def on_dev_def wmul_def del: One_nat_def)
  moreover have "read_raw_inode_at_with_txn sample_sb 6 384 sample_state = (Ok ?raw, sample_state)"
    by (simp add: read_raw_inode_at_with_txn_def ew_block_eq blk raw slice_r_def raw_inode_read_from_def del: One_nat_def)
  moreover have "parse_header rt 0 = Ok (header_of rt)" by (simp add: parse_header_def rt(1,2))
  ultimately show ?thesis
    using sample_read_inode(3) ew_location[OF sample_sb_ok there] tr
    by (simp add: extent_truncate_def fields place uses_extents_def sample_ino_fields sbind_Ok root rt(2) Let_def
        upd_def[symmetric] del: One_nat_def truncate_node.simps)
qed

theorem truncate_cuts_map_witness:
  "\<exists>s' ino'. extent_truncate sample_sb 12 0 sample_state = (Ok (), s') \<and>
     read_inode_with_txn (f_dev s') sample_sb (f_gdt s') (f_txn s') 12 = Ok ino' \<and>
     lookup_block (f_dev s') sample_sb ino' 0 = Ok None"
proof -
  obtain s' where s': "extent_truncate sample_sb 12 0 sample_state = (Ok (), s')" using sample_truncate by blast
  have fields: "f_txn sample_state = txn_new 1" "f_dev sample_state = sample_disk" "f_gdt sample_state = [sample_gd]"
    "pinned (txn_new q) b = None" "sb_inodes_count sample_sb = 16" "gd_inode_table sample_gd = 5" for b q
    by (simp_all add: sample_state_def pinned_def txn_new_def sample_sb_def sample_gd_def)
  have there: "inode_there sample_sb (f_gdt sample_state) 12"
    by (simp add: inode_there_def inode_group_def fields)
  have read: "read_inode_with_txn (f_dev sample_state) sample_sb (f_gdt sample_state) (f_txn sample_state) 12 =
      Ok (sample_ino 0x81A4 5 1 16 1)"
    using sample_read_inode(3) by (simp add: read_inode_with_txn_def fields gdt_get_def wadd_def)
  have uses: "uses_extents (sample_ino 0x81A4 5 1 16 1)" by (simp add: uses_extents_def sample_ino_fields)
  define rt where "rt = ino_block_data (sample_ino 0x81A4 5 1 16 1)"
  note rt = sample_root[folded rt_def]
  have shape: "eh_depth (header_of rt) = 0" "eh_entries (header_of rt) \<le> 4" "\<forall>l \<in> set (leaves_of rt). leaf_fits l"
    by (simp_all add: rt(2,3) leaf_fits_def leaf_blocks_def leaf_start_def hi_lo_def)
  from truncate_cuts_map[OF sample_sb_ok sample_state_inv there read uses rt_def shape s'] s'
  show ?thesis by fastforce
qed

end
