(* ===== verification/Journal_Commit.thy ===== *)
theory Journal_Commit
  imports Journal_Recovery
begin

text \<open>
  Committing on the device: write-ahead order (until the log is complete no block outside it
  has been touched, whatever the host's writes do), and what a committed transaction leaves.
\<close>

section \<open>Writes on a device that may fail\<close>

lemma write_loop_frame:
  "wf_disk d \<Longrightarrow> length data = 512 * n \<Longrightarrow> s + n \<le> sector_count d \<Longrightarrow> i < s \<or> s + n \<le> i \<Longrightarrow>
   sectors (snd (dyn_write_loop write_sector s n data d)) i = sectors d i"
proof (induction n arbitrary: s data d)
  case (Suc n)
  have s: "s < sector_count d" using Suc.prems by simp
  obtain r d1 where w: "write_sector s (take 512 data) d = (r, d1)" by force
  have sh: "same_shape d d1"
    using same_shape_write_sector[OF same_shape_refl[OF Suc.prems(1)], of "take 512 data" s] w Suc.prems(2) by simp
  have d1: "sectors d1 i = sectors d i"
    using w Suc.prems(4) by (auto simp: write_sector_def split: option.split_asm if_split_asm)
  have "sectors (snd (dyn_write_loop write_sector (Suc s) n (drop 512 data) d1)) i = sectors d1 i"
    by (rule Suc.IH) (use Suc.prems sh in \<open>auto simp: same_shape_def\<close>)
  then show ?case
    using w d1 sector_wrap[OF Suc.prems(1) s] by (cases r) (simp_all add: sbind_def)
qed simp

lemma read_frame:
  assumes "same_shape d d'" and "\<And>i. t \<le> i \<Longrightarrow> i < t + m \<Longrightarrow> sectors d' i = sectors d i" and "t + m \<le> 2 ^ 64"
  shows "read_sectors d' t m = read_sectors d t m"
  using read_loop_cong[of d' d t m] assms by (simp add: same_shape_def read_sectors_def)

text \<open>Two blocks are apart.\<close>

lemma blocks_apart: "p \<noteq> q \<Longrightarrow> q * k + k \<le> p * k \<or> p * k + k \<le> q * (k :: nat)"
proof (cases "q < p")
  case True
  then have "(q + 1) * k \<le> p * k" by (intro mult_le_mono1) simp
  then show ?thesis by simp
next
  case False
  moreover assume "p \<noteq> q"
  ultimately have "(p + 1) * k \<le> q * k" by (intro mult_le_mono1) simp
  then show ?thesis by simp
qed

lemma wf_block_place: "wf_disk d \<Longrightarrow> in_disk sb d p \<Longrightarrow> wmul 64 p (spb sb) = p * spb sb \<and> p * spb sb + spb sb \<le> sector_count d"
proof -
  assume a: "wf_disk d" "in_disk sb d p"
  then have "p * spb sb + spb sb \<le> sector_count d" by (simp add: in_disk_def)
  moreover have "sector_count d < 2 ^ 64" using a(1) by (simp add: wf_disk_def)
  ultimately have "p * spb sb < 2 ^ 64" by linarith
  then show ?thesis using \<open>p * spb sb + spb sb \<le> sector_count d\<close> by (simp add: wmul_def)
qed

text \<open>A write of one block, complete or not, leaves every other block as it was.\<close>

lemma block_write_frame:
  assumes "sb_ok sb" and "wf_disk d" and "in_disk sb d p" and "length data = sb_block_size sb"
    and "in_disk sb d q" and "q \<noteq> p"
  shows "read_phys_block (snd (write_sectors (wmul 64 p (spb sb)) data d)) sb q = read_phys_block d sb q"
proof -
  define k where "k = spb sb"
  have n: "length data = 512 * k" using sb_ok_block_size(4)[OF assms(1)] assms(4) by (simp add: k_def)
  note p = wf_block_place[OF assms(2,3), folded k_def] and q = wf_block_place[OF assms(2,5), folded k_def]
  have small: "sector_count d \<le> 2 ^ 64" using assms(2) by (simp add: wf_disk_def)
  let ?d' = "snd (write_sectors (p * k) data d)"
  have "same_shape d ?d'" by (rule same_shape_write_sectors[OF same_shape_refl[OF assms(2)]])
  moreover have "sectors ?d' i = sectors d i" if "q * k \<le> i" "i < q * k + k" for i
  proof -
    have "i < p * k \<or> p * k + k \<le> i" using blocks_apart[of p q k] assms(6) that by linarith
    from write_loop_frame[OF assms(2) n conjunct2[OF p] this] show ?thesis
      using n by (simp add: write_sectors_def dyn_write_sectors_def)
  qed
  ultimately have "read_sectors ?d' (q * k) k = read_sectors d (q * k) k"
    using q small by (intro read_frame) simp_all
  then show ?thesis using p q by (simp add: read_phys_block_def k_def)
qed

section \<open>Logging touches the log only\<close>

definition log_frame :: "superblock \<Rightarrow> disk \<Rightarrow> nat list \<Rightarrow> jstate \<Rightarrow> bool" where
  "log_frame sb d0 bl s \<longleftrightarrow> sb_ok sb \<and> same_shape d0 (js_dev s) \<and> jw_journal_blocks (js_w s) = bl \<and>
     jw_block_size (js_w s) = sb_block_size sb \<and> (\<forall>p \<in> set bl. in_disk sb d0 p) \<and>
     (\<forall>q. in_disk sb d0 q \<and> q \<notin> set bl \<longrightarrow> read_phys_block (js_dev s) sb q = read_phys_block d0 sb q)"

lemma log_frame_write [preserves_intros]: "preserves (log_frame sb d0 bl) (write_to_journal data)"
proof (rule preservesI)
  fix s assume f: "log_frame sb d0 bl s"
  let ?h = "jw_write_head (js_w s)"
  show "log_frame sb d0 bl (snd (write_to_journal data s))"
  proof (cases "?h < length bl")
    case True
    let ?p = "bl ! ?h"
    obtain r d' where w: "write_sectors (wmul 64 ?p (spb sb)) (resize0 (sb_block_size sb) data) (js_dev s) = (r, d')"
      by force
    have shape: "same_shape d0 d'"
      using same_shape_write_sectors[of d0 "js_dev s" "wmul 64 ?p (spb sb)" "resize0 (sb_block_size sb) data"] f w
      by (simp add: log_frame_def)
    have wf: "wf_disk (js_dev s)" using f by (simp add: log_frame_def same_shape_def)
    have dk: "in_disk sb (js_dev s) q = in_disk sb d0 q" for q
      using f by (intro in_disk_shape) (simp add: log_frame_def)
    have "read_phys_block d' sb q = read_phys_block d0 sb q" if q: "in_disk sb d0 q" "q \<notin> set bl" for q
    proof -
      have "q \<noteq> ?p" using q True by (metis nth_mem)
      moreover have "in_disk sb (js_dev s) ?p" "in_disk sb (js_dev s) q" using f True q by (auto simp: log_frame_def dk)
      ultimately have "read_phys_block d' sb q = read_phys_block (js_dev s) sb q"
        using block_write_frame[OF _ wf, of sb ?p "resize0 (sb_block_size sb) data" q] f w by (simp add: log_frame_def)
      then show ?thesis using f q by (simp add: log_frame_def)
    qed
    then show ?thesis
      using f shape True w
      by (cases r) (auto simp: write_to_journal_def journal_block_addr_def sbind_def smap_err_def js_on_dev_def
          log_frame_def advance_write_head_def Let_def)
  qed (use f in \<open>simp add: write_to_journal_def journal_block_addr_def log_frame_def sbind_def\<close>)
qed

lemma log_frame_transaction: "preserves (log_frame sb d0 bl) (log_transaction txn)"
  unfolding log_transaction_def write_descriptor_block_def write_data_block_def write_commit_block_def write_revoke_block_def
  by (intro preserves_intros)


lemma store_in_place_apply:
  assumes "\<forall>e \<in> set bs. length (snd e) = sb_block_size sb"
  shows "jw_block_size (js_w s) = sb_block_size sb \<Longrightarrow>
    store_in_place bs s = (case apply_pending sb bs (js_dev s) of (r, d) \<Rightarrow> (r, s\<lparr>js_dev := d\<rparr>))"
  using assms
proof (induction bs arbitrary: s)
  case (Cons e bs)
  let ?w = "smap_err JBlockDevice (write_sectors (wmul 64 (fst e) (spb sb)) (snd e))"
  have one: "js_on_dev (write_fs_block (fst e) (snd e) (sb_block_size sb)) s =
      (case ?w (js_dev s) of (r, d) \<Rightarrow> (r, s\<lparr>js_dev := d\<rparr>))"
    using Cons.prems(2) by (simp add: js_on_dev_def write_fs_block_def)
  obtain r d where w: "?w (js_dev s) = (r, d)" by force
  have ih: "store_in_place bs (s\<lparr>js_dev := d\<rparr>) = (case apply_pending sb bs d of (r, d') \<Rightarrow> (r, s\<lparr>js_dev := d'\<rparr>))"
    using Cons.IH[of "s\<lparr>js_dev := d\<rparr>"] Cons.prems by simp
  have left: "store_in_place (e # bs) s = (case r of Ok _ \<Rightarrow> store_in_place bs (s\<lparr>js_dev := d\<rparr>)
      | Err x \<Rightarrow> (Err x, s\<lparr>js_dev := d\<rparr>) | Panic \<Rightarrow> (Panic, s\<lparr>js_dev := d\<rparr>) | Diverge \<Rightarrow> (Diverge, s\<lparr>js_dev := d\<rparr>))"
    using one[unfolded w] Cons.prems(1) by (cases r) (simp_all add: store_in_place_def sbind_def)
  have right: "apply_pending sb (e # bs) (js_dev s) = (case r of Ok _ \<Rightarrow> apply_pending sb bs d
      | Err x \<Rightarrow> (Err x, d) | Panic \<Rightarrow> (Panic, d) | Diverge \<Rightarrow> (Diverge, d))"
    by (cases r) (simp_all only: apply_pending_def sfor.simps sbind_def w prod.case res.case)
  show ?case unfolding left right using ih by (cases r) simp_all
qed (simp add: store_in_place_def apply_pending_def)

section \<open>Properties\<close>

text \<open>
  C22. Write-ahead order: while a transaction is being logged no block outside the journal
  changes, whichever writes of the host fail, so a commit that fails before its log is
  complete has left the volume's own blocks exactly as they were.
\<close>

theorem commit_writes_log_first:
  assumes "sb_ok sb" and "wf_disk (js_dev s)" and "jw_block_size (js_w s) = sb_block_size sb"
    and "\<forall>p \<in> set (jw_journal_blocks (js_w s)). in_disk sb (js_dev s) p"
  shows "(\<forall>q. in_disk sb (js_dev s) q \<and> q \<notin> set (jw_journal_blocks (js_w s)) \<longrightarrow>
       read_phys_block (js_dev (snd (log_transaction txn s))) sb q = read_phys_block (js_dev s) sb q) \<and>
    (fst (log_transaction txn s) \<noteq> Ok () \<longrightarrow> commit txn s = log_transaction txn s)"
proof -
  have "log_frame sb (js_dev s) (jw_journal_blocks (js_w s)) s"
    using assms by (simp add: log_frame_def same_shape_refl)
  then have "log_frame sb (js_dev s) (jw_journal_blocks (js_w s)) (snd (log_transaction txn s))"
    using log_frame_transaction by (simp add: preserves_def)
  moreover have "commit txn s = log_transaction txn s" if "fst (log_transaction txn s) \<noteq> Ok ()"
    using that by (cases "log_transaction txn s"; cases "fst (log_transaction txn s)") (auto simp: commit_def sbind_def)
  ultimately show ?thesis by (auto simp: log_frame_def)
qed

theorem commit_writes_log_first_witness:
  "\<forall>fails. let s = sample_log\<lparr>js_dev := sample_disk\<lparr>write_fails := fails\<rparr>\<rparr> in
     read_phys_block (js_dev (snd (log_transaction (one_block (replicate 1024 1)) s))) sample_sb 17 =
     read_phys_block (js_dev s) sample_sb 17"
proof
  fix fails
  define s where "s = sample_log\<lparr>js_dev := sample_disk\<lparr>write_fails := fails\<rparr>\<rparr>"
  have dk: "in_disk sample_sb (js_dev s) p \<longleftrightarrow> p < 24" for p
    using in_sample[of p] by (simp add: s_def in_disk_def)
  have w: "jw_journal_blocks (js_w s) = [8..<16]" "jw_block_size (js_w s) = sb_block_size sample_sb" "wf_disk (js_dev s)"
    using wf_sample by (simp_all add: s_def sample_log_def journal_writer_new_def wf_disk_def)
  have "\<forall>p \<in> set (jw_journal_blocks (js_w s)). in_disk sample_sb (js_dev s) p" by (simp add: w dk)
  from commit_writes_log_first[OF sample_sb_ok w(3,2) this, of "one_block (replicate 1024 1)"]
  show "let s = sample_log\<lparr>js_dev := sample_disk\<lparr>write_fails := fails\<rparr>\<rparr> in
     read_phys_block (js_dev (snd (log_transaction (one_block (replicate 1024 1)) s))) sample_sb 17 =
     read_phys_block (js_dev s) sample_sb 17"
    by (simp add: s_def[symmetric] dk w(1) Let_def)
qed

lemma commit_stores:
  assumes "log_ready sb jn s" and "loggable sb jn (js_dev s) txn"
  shows "\<exists>s'. commit txn s = (Ok (), s') \<and> log_ready sb jn s' \<and>
    jw_next_sequence (js_w s') = wadd 32 (jw_next_sequence (js_w s)) 1 \<and>
    (\<forall>q. in_disk sb (js_dev s) q \<and> q \<notin> set (jn_blocks jn) \<longrightarrow>
       read_phys_block (js_dev s') sb q =
       (case pinned txn q of Some data \<Rightarrow> Ok data | None \<Rightarrow> read_phys_block (js_dev s) sb q))"
proof -
  note l = assms(2)[unfolded loggable_def]
  obtain s1 desc com where log: "log_transaction txn s = (Ok (), s1)"
    and run: "sfor (desc # map (\<lambda>e. escaped (snd e)) (txn_blocks txn) @ [com]) write_to_journal s = (Ok (), s1)"
    using log_transaction_run[OF assms] by metis
  have "length (desc # map (\<lambda>e. escaped (snd e)) (txn_blocks txn) @ [com]) \<le> log_size jn" using l by simp
  from log_writes[OF assms(1) this] run have r1: "log_ready sb jn s1" and sh: "same_shape (js_dev s) (js_dev s1)"
    and w1: "jw_next_sequence (js_w s1) = jw_next_sequence (js_w s)"
    and old: "\<And>q. in_disk sb (js_dev s) q \<Longrightarrow> q \<notin> set (jn_blocks jn) \<Longrightarrow>
      read_phys_block (js_dev s1) sb q = read_phys_block (js_dev s) sb q"
    by auto
  note r = r1[unfolded log_ready_def]
  from apply_pending_spec[of sb "js_dev s1" "txn_blocks txn"] r l obtain d' where
    ap: "apply_pending sb (txn_blocks txn) (js_dev s1) = (Ok (), d')" and sh': "same_shape (js_dev s1) d'"
    and new: "\<And>q. in_disk sb (js_dev s1) q \<Longrightarrow> read_phys_block d' sb q =
      (case map_of (txn_blocks txn) q of Some x \<Rightarrow> Ok x | None \<Rightarrow> read_phys_block (js_dev s1) sb q)"
    by (auto simp: txn_ok_def in_disk_shape[OF sh])
  define s' where "s' = s1\<lparr>js_dev := d', js_w := (js_w s1)\<lparr>jw_next_sequence := wadd 32 (jw_next_sequence (js_w s1)) 1\<rparr>\<rparr>"
  have "store_in_place (txn_blocks txn) s1 = (Ok (), s1\<lparr>js_dev := d'\<rparr>)"
    using store_in_place_apply[of "txn_blocks txn" sb s1] l r ap by simp
  then have "commit txn s = (Ok (), s')" using log by (simp add: commit_def sbind_def s'_def)
  moreover have "log_ready sb jn s'"
    using r sh' good_disk_shape[OF _ sh'] in_disk_shape[OF sh'] by (simp add: log_ready_def s'_def)
  moreover have "pinned txn q = map_of (txn_blocks txn) q" for q
    using l by (simp add: pinned_map_of)
  ultimately show ?thesis using new old w1 by (intro exI[of _ s']) (auto simp: s'_def in_disk_shape[OF sh] split: option.split)
qed

text \<open>
  C11. A transaction that fits the log is committed on a device without faults: afterwards
  every block of the volume reads as the transaction saw it, its pinned version where it has
  one and the old block where it has none, and the next transaction has the next number.
\<close>

theorem commit_stores_blocks:
  assumes "log_ready sb jn s" and "loggable sb jn (js_dev s) txn"
  shows "\<exists>s'. commit txn s = (Ok (), s') \<and> log_ready sb jn s' \<and>
    jw_next_sequence (js_w s') = wadd 32 (jw_next_sequence (js_w s)) 1 \<and>
    (\<forall>q. in_disk sb (js_dev s) q \<and> q \<notin> set (jn_blocks jn) \<longrightarrow>
       read_phys_block (js_dev s') sb q =
       (case pinned txn q of Some data \<Rightarrow> Ok data | None \<Rightarrow> read_phys_block (js_dev s) sb q))"
  using assms by (rule commit_stores)

theorem commit_stores_blocks_witness:
  "\<exists>s'. commit (one_block (replicate 1024 1)) sample_log = (Ok (), s') \<and>
     read_phys_block (js_dev s') sample_sb 17 = Ok (replicate 1024 1)"
proof -
  have p: "pinned (one_block (replicate 1024 1)) 17 = Some (replicate 1024 1)"
    by (simp add: pinned_def one_block_def)
  have "loggable sample_sb dirty_journal (js_dev sample_log) (one_block (replicate 1024 1))"
    using one_block_loggable[of "replicate 1024 1"] by simp
  from commit_stores_blocks[OF sample_log_ready this] obtain s' where "commit (one_block (replicate 1024 1)) sample_log = (Ok (), s')"
    and "\<forall>q. in_disk sample_sb (js_dev sample_log) q \<and> q \<notin> set (jn_blocks dirty_journal) \<longrightarrow>
       read_phys_block (js_dev s') sample_sb q = (case pinned (one_block (replicate 1024 1)) q of Some data \<Rightarrow> Ok data
          | None \<Rightarrow> read_phys_block (js_dev sample_log) sample_sb q)"
    by blast
  from this(1) spec[OF this(2), of 17] show ?thesis by (simp add: p)
qed

end
