(* ===== verification/Write_Sound.thy ===== *)
theory Write_Sound
  imports Journal_Commit Extent_Append
begin

text \<open>
  Writing in place: \<open>write_file_data\<close> over blocks that are all mapped stores the data where the
  block map says, byte for byte, and leaves every other byte of the device alone.
\<close>

section \<open>Provisioning when nothing is missing\<close>

lemma provision_over:
  assumes "\<forall>lb. first \<le> lb \<and> lb < m \<longrightarrow> lookup_block (f_dev s) sb ino lb = Ok (Some (p lb)) \<and> p lb < 2 ^ 64"
    and "m \<le> Suc last_lb"
  shows "first \<le> lb \<Longrightarrow> lb \<le> m \<Longrightarrow> length pm = Suc last_lb - first \<Longrightarrow>
    provision sb i ino first last_lb lb pm s =
    provision sb i ino first last_lb m (take (lb - first) pm @ map p [lb..<m] @ drop (m - first) pm) s"
proof (induction "m - lb" arbitrary: lb pm)
  case 0
  then show ?case by simp
next
  case (Suc k)
  have lb: "first \<le> lb" "lb < m" using Suc by auto
  let ?at = "lb - first"
  let ?pm = "take ?at pm @ [p lb] @ drop (?at + 1) pm"
  have at: "?at + 1 \<le> length pm" using Suc.prems lb assms(2) by simp
  have look: "lookup_block (f_dev s) sb ino lb = Ok (Some (p lb))" "p lb < 2 ^ 64" using assms(1) lb by auto
  have run: "map_run ?at (p lb) 1 pm = (Ok ?pm :: (file_write_error, _) res)"
    using at look(2) by (simp add: map_run_def wadd_def)
  have "provision sb i ino first last_lb lb pm s = provision sb i ino first last_lb (lb + 1) ?pm s"
    using lb assms(2) look(1) run by (subst provision.simps) (simp add: sbind_def)
  also have "\<dots> = provision sb i ino first last_lb m (take (lb + 1 - first) ?pm @ map p [lb + 1..<m] @ drop (m - first) ?pm) s"
  proof (rule Suc.hyps(1))
    show "k = m - (lb + 1)" using Suc.hyps(2) by simp
    show "length ?pm = Suc last_lb - first" using at Suc.prems(3) by simp
  qed (use lb in simp_all)
  also have "take (lb + 1 - first) ?pm = take ?at pm @ [p lb]"
    using at lb(1) by (simp add: Suc_diff_le)
  also have "drop (m - first) ?pm = drop (m - first) pm"
  proof -
    obtain a j where "lb = first + a" "m = first + a + Suc j"
      using lb by (metis le_Suc_ex less_imp_Suc_add add_Suc_right)
    then show ?thesis using at by (simp add: add.commute)
  qed
  also have "(take ?at pm @ [p lb]) @ map p [lb + 1..<m] @ drop (m - first) pm = take ?at pm @ map p [lb..<m] @ drop (m - first) pm"
    using lb(2) by (simp add: upt_conv_Cons del: upt_Suc)
  finally show ?case .
qed

lemma provision_mapped:
  assumes "\<forall>lb. first \<le> lb \<and> lb \<le> last_lb \<longrightarrow> lookup_block (f_dev s) sb ino lb = Ok (Some (p lb)) \<and> p lb < 2 ^ 64"
    and "first \<le> lb" and "lb \<le> Suc last_lb" and "length pm = Suc last_lb - first"
  shows "provision sb i ino first last_lb lb pm s = (Ok (take (lb - first) pm @ map p [lb..<Suc last_lb]), s)"
proof -
  have "\<forall>lb. first \<le> lb \<and> lb < Suc last_lb \<longrightarrow> lookup_block (f_dev s) sb ino lb = Ok (Some (p lb)) \<and> p lb < 2 ^ 64"
    using assms(1) by (simp add: less_Suc_eq_le)
  from provision_over[OF this order.refl assms(2-4)] show ?thesis
    using assms(4) by (simp add: provision.simps[of sb i ino first last_lb "Suc last_lb"] del: upt_Suc)
qed

section \<open>Provisioning what is missing\<close>

text \<open>A run of blocks that is missing to the end of the range: one request fills it.\<close>

lemma run_length_all:
  "\<forall>lb. m \<le> lb \<and> lb < m + k \<longrightarrow> lookup_block d sb ino lb = Ok None \<Longrightarrow> run_length d sb ino m k = Ok k"
proof (induction k arbitrary: m)
  case (Suc k)
  then show ?case by (simp add: Suc.IH)
qed simp

lemma fill_run_once:
  fixes at n phys :: nat
  assumes "alloc_blocks sb n hint s = (Ok phys, s1)" and "0 < n" and "n \<le> 32768"
    and "write_sectors (wmul 64 phys (spb sb)) (replicate (n * sb_block_size sb) 0) (f_dev s1) = (Ok (), d2)"
    and "extent_append sb i phys n (s1\<lparr>f_dev := d2\<rparr>) = (Ok (), s3)"
    and "at + n = length pm" and "phys + n < 2 ^ 64"
  shows "fill_run sb i hint at n pm s = (Ok (take at pm @ map ((+) phys) [0..<n]), s3)"
proof -
  have "min n EXTENT_BATCH_MAX = n" using assms(3) by (simp add: EXTENT_BATCH_MAX_def)
  moreover have "alloc_shrinking sb hint n s = (Ok (phys, n), s1)" by (simp add: alloc_shrinking.simps assms(1))
  moreover have "on_dev (write_sectors (wmul 64 phys (spb sb)) (replicate (n * sb_block_size sb) 0)) s1 = (Ok (), s1\<lparr>f_dev := d2\<rparr>)"
    using assms(4) by (simp add: on_dev_Ok_iff)
  moreover have "map_run at phys n pm = (Ok (take at pm @ map ((+) phys) [0..<n]) :: (file_write_error, _) res)"
    using assms(6,7) by (simp add: map_run_def wadd_def)
  ultimately show ?thesis
    using assms(2,3,5) by (simp add: fill_run.simps[of sb i hint at n] fill_run.simps[of sb i hint _ 0] sbind_Ok smap_err_Ok_iff)
qed

lemma provision_missing:
  fixes first m n phys last_lb :: nat
  assumes "\<forall>lb. first \<le> lb \<and> lb < m \<longrightarrow> lookup_block (f_dev s) sb ino lb = Ok (Some (p lb)) \<and> p lb < 2 ^ 64"
    and "\<forall>lb. m \<le> lb \<and> lb \<le> last_lb \<longrightarrow> lookup_block (f_dev s) sb ino lb = Ok None"
    and "first \<le> m" and "m + n = Suc last_lb" and "0 < n" and "n \<le> 32768" and "phys + n < 2 ^ 64"
    and "alloc_blocks sb n (max (ino_size ino div sb_block_size sb) m) s = (Ok phys, s1)"
    and "write_sectors (wmul 64 phys (spb sb)) (replicate (n * sb_block_size sb) 0) (f_dev s1) = (Ok (), d2)"
    and "extent_append sb i phys n (s1\<lparr>f_dev := d2\<rparr>) = (Ok (), s3)"
    and "length pm = Suc last_lb - first"
  shows "provision sb i ino first last_lb first pm s =
    (Ok (map (\<lambda>lb. if lb < m then p lb else phys + (lb - m)) [first..<Suc last_lb]), s3)"
proof -
  let ?p = "\<lambda>lb. if lb < m then p lb else phys + (lb - m)"
  define pm1 where "pm1 = map p [first..<m] @ drop (m - first) pm"
  have len: "m - first + n = length pm1" using assms(3,4,11) by (simp add: pm1_def)
  have "provision sb i ino first last_lb first pm s = provision sb i ino first last_lb m pm1 s"
    using provision_over[OF assms(1) _ order.refl assms(3,11)] assms(4,5) by (simp add: pm1_def)
  also have "\<dots> = (Ok (take (m - first) pm1 @ map ((+) phys) [0..<n]), s3)"
  proof -
    have "lookup_block (f_dev s) sb ino m = Ok None" using assms(2,4,5) by simp
    moreover have "min (Suc last_lb - m) EXTENT_BATCH_MAX = n" using assms(4,6) by (simp add: EXTENT_BATCH_MAX_def)
    moreover have "run_length (f_dev s) sb ino m n = Ok n" using assms(2,4) by (intro run_length_all) simp
    ultimately show ?thesis
      using fill_run_once[OF assms(8,5,6,9,10) len assms(7)] assms(4,5)
      by (subst provision.simps) (simp add: sbind_Ok provision.simps[of sb i ino first last_lb "Suc last_lb"])
  qed
  also have "take (m - first) pm1 = map ?p [first..<m]" using assms(3) by (simp add: pm1_def)
  also have "map ((+) phys) [0..<n] = map ?p [m..<m + n]"
    by (rule nth_equalityI) simp_all
  also have "map ?p [first..<m] @ map ?p [m..<m + n] = map ?p [first..<Suc last_lb]"
    unfolding assms(4)[symmetric] by (simp only: map_append[symmetric] upt_add_eq_append[OF assms(3)])
  finally show ?thesis .
qed

section \<open>One block\<close>

text \<open>What the file's block \<open>lb\<close> holds once \<open>data\<close> is written at \<open>offset\<close>: byte \<open>r\<close> of it.\<close>

definition overlaid :: "nat \<Rightarrow> byte list \<Rightarrow> nat \<Rightarrow> byte \<Rightarrow> byte" where
  "overlaid offset data k old = (if offset \<le> k \<and> k < offset + length data then data ! (k - offset) else old)"

text \<open>
  The pieces of one turn: where the block's part of the data goes and what it is. A block that
  is written as a whole is not read before.
\<close>

lemma write_one_block_parts:
  assumes "sb_ok sb" and "wf_disk (f_dev s)" and "offset + length data < 2 ^ 62" and "data \<noteq> []"
    and "first = offset div sb_block_size sb" and "last_lb = (offset + length data - 1) div sb_block_size sb"
    and "first \<le> lb" and "lb \<le> last_lb" and "lb - first < length pm" and "pm ! (lb - first) = q"
    and "(q + 1) * spb sb \<le> sector_count (f_dev s)"
  obtains intra slice where "intra + length slice \<le> sb_block_size sb"
    and "\<And>blk. length blk = sb_block_size sb \<Longrightarrow>
      intra = 0 \<and> length slice = sb_block_size sb \<or> blk = sector_run (f_dev s) (q * spb sb) (spb sb) \<Longrightarrow>
      patch intra slice blk = map (\<lambda>r. overlaid offset data (lb * sb_block_size sb + r)
        (sector_run (f_dev s) (q * spb sb) (spb sb) ! r)) [0..<sb_block_size sb]"
    and "write_one_block sb offset data first pm lb s =
      sbind (if intra = 0 \<and> length slice = sb_block_size sb then sreturn (replicate (sb_block_size sb) 0)
             else sread (\<lambda>s. map_err FwBlockDevice (read_sectors (f_dev s) (q * spb sb) (spb sb))))
        (\<lambda>blk. sbind (lift_res (patch_r intra slice blk)) (\<lambda>b.
         sbind (smap_err FwBlockDevice (on_dev (write_sectors (q * spb sb) b))) (\<lambda>_. pin q b))) s"
proof -
  define B N k where "B = sb_block_size sb" and "N = length data" and "k = spb sb"
  define x where "x = lb * B"
  have B: "0 < B" "B \<le> 65536" "512 * k = B" "0 < k"
    using sb_ok_block_size[OF assms(1)] unfolding B_def k_def by auto
  have N: "0 < N" using assms(4) by (simp add: N_def)
  have end_: "offset + N < 2 ^ 62" using assms(3) by (simp add: N_def)
  have "lb * B \<le> (offset + N - 1) div B * B" using assms(6,8) unfolding B_def N_def by (intro mult_le_mono1) simp
  also have "\<dots> \<le> offset + N - 1" by simp
  finally have x: "x \<le> offset + N - 1" unfolding x_def .
  have f1: "first * B \<le> offset" unfolding assms(5) B_def by simp
  have f2: "offset < first * B + B" unfolding assms(5) B_def using dividend_less_div_times[of "sb_block_size sb" offset] B(1)
    by (simp add: B_def add.commute)
  have lo: "lb \<noteq> first \<Longrightarrow> offset < x"
  proof -
    assume "lb \<noteq> first"
    then have "(first + 1) * B \<le> lb * B" using assms(7) by (intro mult_le_mono1) simp
    then show "offset < x" using f2 by (simp add: x_def)
  qed
  have eq: "lb = first \<Longrightarrow> x \<le> offset \<and> offset < x + B" using f1 f2 by (simp add: x_def)
  have hi: "offset < x + B" using lo eq B(1) by (cases "lb = first") auto
  define intra ds de where "intra = offset - x" and "ds = x - offset" and "de = min (x + B - offset) N"
  have w1: "wmul 64 lb B = x" using x end_ N by (simp add: wmul_def x_def[symmetric])
  have "(lb + 1) * B = x + B" by (simp add: x_def algebra_simps)
  then have w2: "wmul 64 (lb + 1) B = x + B" using x end_ N B(2) by (simp add: wmul_def)
  have w3: "(if lb = first then wsub 64 offset x else 0) = intra"
    using eq lo end_ by (auto simp: intra_def wsub_small)
  have w4: "(if lb = first then 0 else wsub 64 x offset) = ds"
    using eq lo end_ x by (auto simp: ds_def wsub_small)
  have w5: "min (wsub 64 (x + B) offset) (length data) = de"
    using hi end_ x B(2) by (simp add: de_def N_def wsub_small)
  define slice where "slice = bytes_at ds (de - ds) data"
  have de: "de \<le> N" "ds \<le> de" using x hi N by (auto simp: de_def ds_def)
  have sl: "length slice = de - ds" using de by (simp add: slice_def N_def)
  have room: "intra + (de - ds) \<le> B" using x hi unfolding intra_def ds_def de_def by linarith
  note old = assms(11)[folded k_def]
  have place: "wmul 64 q k = q * k" "q * k + k \<le> sector_count (f_dev s)"
  proof -
    show "q * k + k \<le> sector_count (f_dev s)" using old by simp
    moreover have "sector_count (f_dev s) < 2 ^ 64" using assms(2) by (simp add: wf_disk_def)
    ultimately show "wmul 64 q k = q * k" by (simp add: wmul_def)
  qed
  let ?run = "sector_run (f_dev s) (q * k) k"
  have len: "length ?run = B" using length_sector_run[OF assms(2) place(2)] B(3) by simp
  have new: "patch intra slice blk = map (\<lambda>r. overlaid offset data (x + r) (?run ! r)) [0..<B]"
    if lb: "length blk = B" and blk: "intra = 0 \<and> length slice = B \<or> blk = ?run" for blk
  proof (rule nth_equalityI)
    show "length (patch intra slice blk) = length (map (\<lambda>r. overlaid offset data (x + r) (?run ! r)) [0..<B])"
      using room sl lb by simp
    fix r assume "r < length (patch intra slice blk)"
    then have r: "r < B" using room sl lb by simp
    have inside: "intra \<le> r \<and> r < intra + (de - ds) \<longleftrightarrow> offset \<le> x + r \<and> x + r < offset + N"
      using r x hi unfolding intra_def ds_def de_def by linarith
    show "patch intra slice blk ! r = map (\<lambda>r. overlaid offset data (x + r) (?run ! r)) [0..<B] ! r"
    proof (cases "intra \<le> r \<and> r < intra + (de - ds)")
      case True
      then have "ds + (r - intra) = x + r - offset" unfolding intra_def ds_def by linarith
      moreover have "ds + (r - intra) < length data" using True de unfolding N_def by linarith
      moreover have "r - intra < de - ds" using True by linarith
      ultimately have "slice ! (r - intra) = data ! (x + r - offset)"
        unfolding slice_def by (simp only: nth_bytes_at)
      then show ?thesis using True inside r room sl lb by (simp add: nth_patch overlaid_def N_def)
    next
      case False
      then have "\<not> (intra = 0 \<and> length slice = B)" using r sl by auto
      then have "blk = ?run" using blk by blast
      then show ?thesis using False inside r room sl lb by (auto simp: nth_patch overlaid_def N_def)
    qed
  qed
  have "write_one_block sb offset data first pm lb s =
      sbind (if intra = 0 \<and> length slice = B then sreturn (replicate B 0)
             else sread (\<lambda>s. map_err FwBlockDevice (read_sectors (f_dev s) (q * k) k)))
        (\<lambda>blk. sbind (lift_res (patch_r intra slice blk)) (\<lambda>b.
         sbind (smap_err FwBlockDevice (on_dev (write_sectors (q * k) b))) (\<lambda>_. pin q b))) s"
    using de
    unfolding write_one_block_def Let_def k_def[symmetric]
    unfolding B_def[symmetric] w1 w2 w3 w4 w5 slice_def[symmetric]
    by (simp add: assms(9,10) place(1) rassert_def fun_eq_iff)
  moreover have "intra + length slice \<le> B" using room sl by simp
  ultimately show thesis using that new unfolding x_def B_def k_def by blast
qed

lemma write_one_block_spec:
  assumes "sb_ok sb" and "wf_disk (f_dev s)" and "offset + length data < 2 ^ 62" and "data \<noteq> []"
    and "first = offset div sb_block_size sb" and "last_lb = (offset + length data - 1) div sb_block_size sb"
    and "first \<le> lb" and "lb \<le> last_lb" and "lb - first < length pm" and "pm ! (lb - first) = q"
    and "(q + 1) * spb sb \<le> sector_count (f_dev s)"
  defines "new \<equiv> map (\<lambda>r. overlaid offset data (lb * sb_block_size sb + r)
      (sector_run (f_dev s) (q * spb sb) (spb sb) ! r)) [0..<sb_block_size sb]"
  defines "written \<equiv> s\<lparr>f_dev := store_run (q * spb sb) new (f_dev s), f_txn := pin_block q new (f_txn s)\<rparr>"
  shows "write_one_block sb offset data first pm lb s = (Ok (), s') \<Longrightarrow> s' = written"
    and "readable (f_dev s) (q * spb sb) (spb sb) \<Longrightarrow> writable (f_dev s) (q * spb sb) (spb sb) \<Longrightarrow>
      write_one_block sb offset data first pm lb s = (Ok (), written)"
proof -
  define k where "k = spb sb"
  have k: "0 < k" "sb_block_size sb = 512 * k" using sb_ok_block_size(4,5)[OF assms(1)] by (simp_all add: k_def)
  have len: "length (sector_run (f_dev s) (q * k) k) = sb_block_size sb"
    unfolding k(2) by (rule length_sector_run[OF assms(2)]) (use assms(11) in \<open>simp add: k_def\<close>)
  have "length new = 512 * k" unfolding new_def k(2)[symmetric] by simp
  note wr = write_sectors_Ok_iff[OF assms(2) this k(1)]
  obtain intra slice where parts: "intra + length slice \<le> sb_block_size sb"
    "\<And>blk. length blk = sb_block_size sb \<Longrightarrow>
      intra = 0 \<and> length slice = sb_block_size sb \<or> blk = sector_run (f_dev s) (q * k) k \<Longrightarrow> patch intra slice blk = new"
    and run: "write_one_block sb offset data first pm lb s =
      sbind (if intra = 0 \<and> length slice = sb_block_size sb then sreturn (replicate (sb_block_size sb) 0)
             else sread (\<lambda>s. map_err FwBlockDevice (read_sectors (f_dev s) (q * k) k)))
        (\<lambda>blk. sbind (lift_res (patch_r intra slice blk)) (\<lambda>b.
         sbind (smap_err FwBlockDevice (on_dev (write_sectors (q * k) b))) (\<lambda>_. pin q b))) s"
    using write_one_block_parts[OF assms(1-11)] unfolding new_def k_def by blast
  show "s' = written" if "write_one_block sb offset data first pm lb s = (Ok (), s')"
    using that parts len
    by (auto simp: run sbind_Ok_iff on_dev_Ok_iff pin_def read_sectors_Ok_iff[OF assms(2) k(1)] wr written_def k_def[symmetric]
        simp del: sbind_sread split: if_split_asm)
  show "write_one_block sb offset data first pm lb s = (Ok (), written)"
    if "readable (f_dev s) (q * spb sb) (spb sb)" "writable (f_dev s) (q * spb sb) (spb sb)"
    unfolding run
    using that parts len wr[THEN iffD2]
    by (auto simp: sbind_Ok_iff on_dev_Ok_iff pin_def read_sectors_Ok_iff[OF assms(2) k(1)] wr patch_r_def written_def k_def[symmetric]
        simp del: sbind_sread)
qed

section \<open>All blocks\<close>

definition outside :: "superblock \<Rightarrow> (nat \<Rightarrow> nat) \<Rightarrow> nat set \<Rightarrow> nat \<Rightarrow> bool" where
  "outside sb p lbs t \<longleftrightarrow> (\<forall>lb \<in> lbs. t < p lb * spb sb \<or> p lb * spb sb + spb sb \<le> t)"

lemma sector_run_cong: "(\<And>t. s \<le> t \<Longrightarrow> t < s + n \<Longrightarrow> sectors d' t = sectors d t) \<Longrightarrow> sector_run d' s n = sector_run d s n"
  unfolding sector_run_def by (intro arg_cong[where f = concat] map_cong) auto

lemma write_blocks_spec:
  fixes first last_lb :: nat
  assumes "sb_ok sb" and "offset + length data < 2 ^ 62" and "data \<noteq> []"
    and "first = offset div sb_block_size sb" and "last_lb = (offset + length data - 1) div sb_block_size sb"
    and "pm = map p [first..<Suc last_lb]"
  shows "sfor lbs (write_one_block sb offset data first pm) s = (Ok (), s') \<Longrightarrow> wf_disk (f_dev s) \<Longrightarrow>
    distinct lbs \<Longrightarrow> inj_on p (set lbs) \<Longrightarrow>
    \<forall>lb \<in> set lbs. first \<le> lb \<and> lb \<le> last_lb \<and> (p lb + 1) * spb sb \<le> sector_count (f_dev s) \<Longrightarrow>
    (\<forall>lb \<in> set lbs. sector_run (f_dev s') (p lb * spb sb) (spb sb) = map (\<lambda>r. overlaid offset data (lb * sb_block_size sb + r)
       (sector_run (f_dev s) (p lb * spb sb) (spb sb) ! r)) [0..<sb_block_size sb]) \<and>
    (\<forall>t. outside sb p (set lbs) t \<longrightarrow> sectors (f_dev s') t = sectors (f_dev s) t)"
proof (induction lbs arbitrary: s)
  case (Cons lb lbs)
  define k where "k = spb sb"
  define new where "new = map (\<lambda>r. overlaid offset data (lb * sb_block_size sb + r)
      (sector_run (f_dev s) (p lb * k) k ! r)) [0..<sb_block_size sb]"
  obtain s1 where one: "write_one_block sb offset data first pm lb s = (Ok (), s1)"
    and rest: "sfor lbs (write_one_block sb offset data first pm) s1 = (Ok (), s')"
    using Cons.prems(1) by (auto simp: sbind_Ok_iff)
  have lb: "first \<le> lb" "lb \<le> last_lb" "(p lb + 1) * spb sb \<le> sector_count (f_dev s)" using Cons.prems(5) by auto
  have pm: "lb - first < length pm" "pm ! (lb - first) = p lb" using lb by (simp_all add: assms(6) del: upt_Suc)
  have d1: "f_dev s1 = store_run (p lb * k) new (f_dev s)"
    using write_one_block_spec(1)[OF assms(1) Cons.prems(2) assms(2-5) lb(1,2) pm lb(3) one] by (simp add: new_def k_def)
  have len: "length new = 512 * k" using sb_ok_block_size(4)[OF assms(1)] by (simp add: new_def k_def)
  have shape: "same_shape (f_dev s) (f_dev s1)"
    unfolding d1 by (rule store_run_same_shape[OF Cons.prems(2) len]) (use lb(3) in \<open>simp add: k_def\<close>)
  have apart: "p m * k + k \<le> p lb * k \<or> p lb * k + k \<le> p m * k" if "m \<in> set lbs" for m
  proof -
    have "p m \<noteq> p lb" using Cons.prems(3,4) that by (auto simp: inj_on_def)
    then show ?thesis using blocks_apart[of "p lb" "p m" k] by auto
  qed
  have old: "sector_run (f_dev s1) (p m * k) k = sector_run (f_dev s) (p m * k) k" if "m \<in> set lbs" for m
    unfolding d1 by (rule sector_run_store_other) (use apart[OF that] len in auto)
  have ih: "(\<forall>lb \<in> set lbs. sector_run (f_dev s') (p lb * k) k = map (\<lambda>r. overlaid offset data (lb * sb_block_size sb + r)
       (sector_run (f_dev s1) (p lb * k) k ! r)) [0..<sb_block_size sb]) \<and>
    (\<forall>t. outside sb p (set lbs) t \<longrightarrow> sectors (f_dev s') t = sectors (f_dev s1) t)"
    unfolding k_def by (rule Cons.IH[OF rest]) (use Cons.prems shape in \<open>auto simp: same_shape_def\<close>)
  have "sector_run (f_dev s') (p lb * k) k = sector_run (f_dev s1) (p lb * k) k"
  proof (rule sector_run_cong)
    fix t assume t: "p lb * k \<le> t" "t < p lb * k + k"
    have "outside sb p (set lbs) t" unfolding outside_def k_def[symmetric] using apart t by fastforce
    then show "sectors (f_dev s') t = sectors (f_dev s1) t" using ih by blast
  qed
  also have "\<dots> = new" unfolding d1 by (rule sector_run_store_same[OF len])
  finally have mine: "sector_run (f_dev s') (p lb * k) k = new" .
  have "sectors (f_dev s') t = sectors (f_dev s) t" if t: "outside sb p (set (lb # lbs)) t" for t
  proof -
    have "sectors (f_dev s1) t = sectors (f_dev s) t"
      using t len by (auto simp: d1 store_run_def outside_def k_def[symmetric])
    then show ?thesis using ih t by (simp add: outside_def)
  qed
  then show ?case using mine ih old unfolding new_def k_def by (auto simp: k_def[symmetric])
qed simp

section \<open>Property\<close>

text \<open>After the first phase what is left is the loop over the blocks.\<close>

lemma write_file_data_provisioned:
  fixes first last_lb :: nat
  assumes "sb_ok sb" and "data \<noteq> []" and "offset + length data < 2 ^ 60"
    and "first = offset div sb_block_size sb" and "last_lb = (offset + length data - 1) div sb_block_size sb"
    and "provision sb i ino first last_lb first (replicate (Suc last_lb - first) 0) s = (Ok pm, s1)"
  shows "write_file_data sb i ino offset data s = sfor [first..<Suc last_lb] (write_one_block sb offset data first pm) s1"
proof -
  define B N where "B = sb_block_size sb" and "N = length data"
  have B: "0 < B" using sb_ok_block_size(1)[OF assms(1)] by (simp add: B_def)
  have N: "0 < N" "offset + N < 2 ^ 60" using assms(2,3) by (simp_all add: N_def)
  have "offset \<le> offset + length data - 1" using N(1) unfolding N_def by linarith
  then have le: "first \<le> last_lb" unfolding assms(4,5) by (rule div_le_mono)
  have "last_lb \<le> offset + N - 1" unfolding assms(5) N_def by (rule div_le_dividend)
  then have last: "last_lb < 2 ^ 60" using N by linarith
  have "last_lb * 2 \<le> last_lb * B" using sb_ok_block_size(5)[OF assms(1)] by (intro mult_le_mono2) (simp add: B_def)
  also have "\<dots> \<le> offset + N - 1" unfolding assms(5) B_def N_def by simp
  finally have room: "Suc last_lb - first < 2 ^ 60" using N by linarith
  have "wsub 64 (offset + N) 1 = offset + N - 1" using N by (intro wsub_small) simp_all
  moreover have "wadd 64 offset N = offset + N" using N by (simp add: wadd_def)
  ultimately have w: "wsub 64 (wadd 64 offset N) 1 div B = last_lb" "offset div B = first"
    using assms(4,5) by (simp_all only: B_def N_def)
  have total: "wadd 64 (wsub 64 last_lb first) 1 = Suc last_lb - first"
    using le last by (simp add: wadd_def wsub_small)
  show ?thesis
    using assms(2,6) le last room unfolding write_file_data_def Let_def B_def[symmetric] N_def[symmetric] w total
    by (simp add: rassert_def sbind_Ok B del: upt_Suc replicate_Suc)
qed

lemma write_file_data_mapped:
  fixes first last_lb :: nat
  assumes "sb_ok sb" and "wf_disk (f_dev s)" and "data \<noteq> []" and "offset + length data < 2 ^ 60"
    and "first = offset div sb_block_size sb" and "last_lb = (offset + length data - 1) div sb_block_size sb"
    and "\<forall>lb. first \<le> lb \<and> lb \<le> last_lb \<longrightarrow> lookup_block (f_dev s) sb ino lb = Ok (Some (p lb)) \<and>
       (p lb + 1) * spb sb \<le> sector_count (f_dev s)"
  shows "write_file_data sb i ino offset data s =
    sfor [first..<Suc last_lb] (write_one_block sb offset data first (map p [first..<Suc last_lb])) s"
proof (rule write_file_data_provisioned[OF assms(1,3-6)])
  have k: "0 < spb sb" using sb_ok_block_size(5)[OF assms(1)] by linarith
  have small: "p lb < 2 ^ 64" if "first \<le> lb" "lb \<le> last_lb" for lb
  proof -
    have "(p lb + 1) * 1 \<le> (p lb + 1) * spb sb" using k by (intro mult_le_mono2) simp
    also have "\<dots> \<le> sector_count (f_dev s)" using assms(7) that by blast
    also have "\<dots> < 2 ^ 64" using assms(2) by (simp add: wf_disk_def)
    finally show ?thesis by simp
  qed
  have "offset \<le> offset + length data - 1" using assms(3) by (cases data) auto
  then have "first \<le> Suc last_lb" unfolding assms(5,6) by (intro le_SucI div_le_mono)
  then show "provision sb i ino first last_lb first (replicate (Suc last_lb - first) 0) s = (Ok (map p [first..<Suc last_lb]), s)"
    using provision_mapped[of first last_lb s sb ino p first "replicate (Suc last_lb - first) 0" i] assms(7) small
    by (simp del: upt_Suc replicate_Suc)
qed

lemma write_in_place:
  fixes first last_lb :: nat
  assumes "sb_ok sb" and "wf_disk (f_dev s)" and "data \<noteq> []" and "offset + length data < 2 ^ 60"
    and "first = offset div sb_block_size sb" and "last_lb = (offset + length data - 1) div sb_block_size sb"
    and "\<forall>lb. first \<le> lb \<and> lb \<le> last_lb \<longrightarrow> lookup_block (f_dev s) sb ino lb = Ok (Some (p lb)) \<and>
       (p lb + 1) * spb sb \<le> sector_count (f_dev s)"
    and "inj_on p {first..last_lb}"
    and "write_file_data sb i ino offset data s = (Ok (), s')"
  shows "(\<forall>lb r. first \<le> lb \<and> lb \<le> last_lb \<and> r < sb_block_size sb \<longrightarrow>
      sector_run (f_dev s') (p lb * spb sb) (spb sb) ! r =
      (let k = lb * sb_block_size sb + r in
       if offset \<le> k \<and> k < offset + length data then data ! (k - offset)
       else sector_run (f_dev s) (p lb * spb sb) (spb sb) ! r)) \<and>
    (\<forall>t. (\<forall>lb. first \<le> lb \<and> lb \<le> last_lb \<longrightarrow> t < p lb * spb sb \<or> p lb * spb sb + spb sb \<le> t) \<longrightarrow>
      sectors (f_dev s') t = sectors (f_dev s) t)"
proof -
  have run: "sfor [first..<Suc last_lb] (write_one_block sb offset data first (map p [first..<Suc last_lb])) s = (Ok (), s')"
    using write_file_data_mapped[OF assms(1-7)] assms(9) by simp
  have "set [first..<Suc last_lb] = {first..last_lb}" by auto
  with write_blocks_spec[OF assms(1) _ assms(3,5,6) refl run assms(2)] assms(4,7,8)
  have spec: "(\<forall>lb \<in> {first..last_lb}. sector_run (f_dev s') (p lb * spb sb) (spb sb) =
      map (\<lambda>r. overlaid offset data (lb * sb_block_size sb + r)
       (sector_run (f_dev s) (p lb * spb sb) (spb sb) ! r)) [0..<sb_block_size sb]) \<and>
    (\<forall>t. outside sb p {first..last_lb} t \<longrightarrow> sectors (f_dev s') t = sectors (f_dev s) t)"
    by (simp del: upt_Suc)
  then show ?thesis by (auto simp: outside_def overlaid_def Let_def)
qed

text \<open>
  C16. A write over blocks that are mapped, to distinct blocks of the device, stores the data
  in place: afterwards byte k of the file's range holds the byte written there, or what it
  held before where the range of the write ends inside a block, and no other sector changes.
\<close>

theorem write_stores_in_place:
  fixes first last_lb :: nat
  assumes "sb_ok sb" and "wf_disk (f_dev s)" and "data \<noteq> []" and "offset + length data < 2 ^ 60"
    and "first = offset div sb_block_size sb" and "last_lb = (offset + length data - 1) div sb_block_size sb"
    and "\<forall>lb. first \<le> lb \<and> lb \<le> last_lb \<longrightarrow> lookup_block (f_dev s) sb ino lb = Ok (Some (p lb)) \<and>
       (p lb + 1) * spb sb \<le> sector_count (f_dev s)"
    and "inj_on p {first..last_lb}"
    and "write_file_data sb i ino offset data s = (Ok (), s')"
  shows "(\<forall>lb r. first \<le> lb \<and> lb \<le> last_lb \<and> r < sb_block_size sb \<longrightarrow>
      sector_run (f_dev s') (p lb * spb sb) (spb sb) ! r =
      (let k = lb * sb_block_size sb + r in
       if offset \<le> k \<and> k < offset + length data then data ! (k - offset)
       else sector_run (f_dev s) (p lb * spb sb) (spb sb) ! r)) \<and>
    (\<forall>t. (\<forall>lb. first \<le> lb \<and> lb \<le> last_lb \<longrightarrow> t < p lb * spb sb \<or> p lb * spb sb + spb sb \<le> t) \<longrightarrow>
      sectors (f_dev s') t = sectors (f_dev s) t)"
  using assms by (rule write_in_place)

text \<open>Two bytes into the only block of the file of the sample image.\<close>

lemma sample_file_block: "lookup_block sample_disk sample_sb (sample_ino 0x81A4 5 1 16 1) 0 = Ok (Some 16)"
proof -
  define rt where "rt = ino_block_data (sample_ino 0x81A4 5 1 16 1)"
  note rt = sample_root[folded rt_def]
  have "lookup_in_node (tree_fuel sample_disk) sample_disk sample_sb rt 0 = Ok (Some 16)"
    by (subst lookup_root[OF rt(1)]) (simp_all add: rt(2,3) leaf_start_def hi_lo_def checked_add_def)
  then show ?thesis by (simp add: lookup_block_def uses_extents_def sample_ino_fields rt_def)
qed

theorem write_stores_in_place_witness:
  "\<exists>s'. write_file_data sample_sb 12 (sample_ino 0x81A4 5 1 16 1) 1 [7, 8] sample_state = (Ok (), s') \<and>
     sector_run (f_dev s') 32 2 ! 1 = 7 \<and> sector_run (f_dev s') 32 2 ! 2 = 8 \<and>
     sector_run (f_dev s') 32 2 ! 3 = sector_run sample_disk 32 2 ! 3"
proof -
  let ?ino = "sample_ino 0x81A4 5 1 16 1"
  have dev: "f_dev sample_state = sample_disk" by (simp add: sample_state_def)
  have look: "\<forall>lb. 0 \<le> lb \<and> lb \<le> 0 \<longrightarrow> lookup_block (f_dev sample_state) sample_sb ?ino lb = Ok (Some 16) \<and> 16 < (2::nat) ^ 64"
    using sample_file_block by (simp add: dev)
  have prov: "provision sample_sb 12 ?ino 0 0 0 [0] sample_state = (Ok [16], sample_state)"
    using provision_mapped[OF look, of 0 "[0]" 12] by simp
  define data where "data = patch (Suc 0) [7, 8] (sample_block 16)"
  have "length data = 512 * 2" by (simp add: data_def)
  from write_sectors_Ok_iff[OF wf_sample this, of 32]
  have w: "write_sectors 32 data sample_disk = (Ok (), store_run 32 data sample_disk)"
    by (simp add: writable_def sample_disk_def)
  have rd: "read_sectors sample_disk 32 2 = Ok (sample_block 16)" using read_sample_block[of 32 16] by simp
  have two: "bytes_at 0 (Suc (Suc 0)) [7, 8 :: byte] = [7, 8]" by (simp add: bytes_at_def)
  obtain s' where "write_one_block sample_sb 1 [7, 8] 0 [16] 0 sample_state = (Ok (), s')"
    using w rd two
    by (simp add: write_one_block_def Let_def wmul_def wsub_def dev data_def[symmetric] sbind_def smap_err_def on_dev_def
        pin_def rassert_def patch_r_def)
  then have run: "write_file_data sample_sb 12 ?ino 1 [7, 8] sample_state = (Ok (), s')"
    using prov by (simp add: write_file_data_def Let_def wsub_def wadd_def rassert_def sbind_Ok)
  have cnt: "sector_count sample_disk = 48" by (simp add: sample_disk_def)
  have at: "sector_run (f_dev s') 32 2 ! r = (if 1 \<le> r \<and> r < 3 then [7, 8] ! (r - 1) else sector_run sample_disk 32 2 ! r)"
    if "r < 1024" for r
  proof -
    have "sector_run (f_dev s') (16 * spb sample_sb) (spb sample_sb) ! r =
        (let k = 0 * sb_block_size sample_sb + r in
         if 1 \<le> k \<and> k < 1 + length [7, 8 :: byte] then [7, 8] ! (k - 1)
         else sector_run (f_dev sample_state) (16 * spb sample_sb) (spb sample_sb) ! r)"
      using write_stores_in_place[OF sample_sb_ok _ _ _ refl refl _ _ run, of "\<lambda>_. 16"] that sample_file_block wf_sample
      by (simp add: dev cnt)
    then show ?thesis by (simp add: dev Let_def)
  qed
  show ?thesis using run at[of 1] at[of 2] at[of 3] by auto
qed

end
