(* ===== verification/Path_Sound.thy ===== *)
theory Path_Sound
  imports Alloc_Sound
begin

text \<open>
  Paths and the read callback of a mounted volume: how a path is cut into components, what
  resolving it means, and that the pieces \<open>create_handle\<close> works with (parent path and name)
  name the same file as the whole path. A read request returns the bytes of the range asked
  for.
\<close>

section \<open>Components\<close>

lemma split_slash_not_Nil [simp]: "split_slash xs \<noteq> []"
  by (induction xs) (auto split: list.split)

lemma split_slash_append: "split_slash (xs @ SLASH # ys) = split_slash xs @ split_slash ys"
  by (induction xs) (auto split: list.split)

lemma components_append: "path_components (xs @ SLASH # ys) = path_components xs @ path_components ys"
  by (simp add: path_components_def split_slash_append)

lemma components_slash [simp]: "path_components [SLASH] = []" "path_components [] = []"
  by (simp_all add: path_components_def)

lemma components_name: "SLASH \<notin> set nm \<Longrightarrow> split_slash nm = [nm]"
  by (induction nm) auto

lemma components_one: "SLASH \<notin> set nm \<Longrightarrow> nm \<noteq> [] \<Longrightarrow> path_components nm = [nm]"
  by (simp add: path_components_def components_name)

lemma components_slashes: "path_components (xs @ replicate n SLASH) = path_components xs"
proof (induction n)
  case (Suc n)
  have "xs @ replicate (Suc n) SLASH = (xs @ replicate n SLASH) @ SLASH # []"
    by (simp add: replicate_append_same)
  then show ?case using Suc.IH components_append[of "xs @ replicate n SLASH" "[]"] by (simp only: components_slash append_Nil2)
qed simp

lemma trim_end_slash_split: "\<exists>n. p = trim_end_slash p @ replicate n SLASH"
proof -
  have "p = rev (dropWhile (\<lambda>b. b = SLASH) (rev p)) @ rev (takeWhile (\<lambda>b. b = SLASH) (rev p))"
    by (metis rev_append rev_rev_ident takeWhile_dropWhile_id)
  moreover have "takeWhile (\<lambda>b. b = SLASH) xs = replicate (length (takeWhile (\<lambda>b. b = SLASH) xs)) SLASH" for xs
    by (induction xs) auto
  ultimately show ?thesis unfolding trim_end_slash_def by (metis rev_replicate)
qed

lemma components_trim: "path_components (trim_end_slash p) = path_components p"
  using trim_end_slash_split[of p] components_slashes by metis

lemma rfind_slash_Some:
  assumes "rfind_slash p = Some k"
  shows "k < length p \<and> p = take k p @ SLASH # drop (k + 1) p \<and> SLASH \<notin> set (drop (k + 1) p)"
proof -
  define t where "t = takeWhile (\<lambda>b. b \<noteq> SLASH) (rev p)"
  have k: "k = length p - length t - 1" and lt: "length t \<noteq> length p"
    using assms by (auto simp: rfind_slash_def t_def[symmetric] Let_def split: if_split_asm)
  have le: "length t \<le> length p" unfolding t_def by (metis length_rev length_takeWhile_le)
  have t: "t = take (length t) (rev p)" unfolding t_def by (metis takeWhile_eq_take)
  have "rev p ! length t = SLASH"
    using nth_length_takeWhile[of "\<lambda>b. b \<noteq> SLASH" "rev p"] lt le unfolding t_def by (simp add: t_def)
  then have at: "p ! k = SLASH" using lt le by (simp add: rev_nth k)
  have k1: "k + 1 = length p - length t" using lt le k by simp
  have "rev t = rev (rev (drop (length p - length t) p))"
    by (subst t) (simp only: take_rev)
  then have tail: "drop (k + 1) p = rev t" by (simp only: k1 rev_rev_ident)
  have "SLASH \<notin> set t" unfolding t_def using set_takeWhileD by fastforce
  then have "SLASH \<notin> set (drop (k + 1) p)" by (simp only: tail set_rev) simp
  moreover have "k < length p" using lt le k by simp
  moreover from this have "p = take k p @ SLASH # drop (k + 1) p" using at by (metis id_take_nth_drop Suc_eq_plus1)
  ultimately show ?thesis by blast
qed

lemma split_path_components:
  assumes "split_path p = Some (parent, nm)"
  shows "nm \<noteq> [] \<and> SLASH \<notin> set nm \<and> path_components p = path_components parent @ [nm]"
proof -
  let ?t = "trim_end_slash p"
  obtain k where k: "rfind_slash ?t = Some k" and nm: "nm = drop (k + 1) ?t" "nm \<noteq> []"
    and parent: "parent = (if k = 0 then [SLASH] else take k ?t)"
    using assms by (auto simp: split_path_def Let_def split: option.split_asm if_split_asm)
  note r = rfind_slash_Some[OF k]
  have "path_components p = path_components (take k ?t) @ path_components nm"
    using r nm(1) components_append[of "take k ?t" nm] components_trim[of p] by metis
  moreover have "path_components (take k ?t) = path_components parent" by (simp add: parent)
  ultimately show ?thesis using r nm components_one[of nm] by simp
qed

section \<open>Resolving\<close>

lemma sbind_sfail [simp]: "sbind (sfail e) f = sfail e"
  by (simp add: sbind_def sfail_def fun_eq_iff)

lemma sbind_If: "sbind (if b then m else m') f = (if b then sbind m f else sbind m' f)"
  by simp

lemma sbind_case_option:
  "sbind (case x of None \<Rightarrow> m | Some y \<Rightarrow> g y) f = (case x of None \<Rightarrow> sbind m f | Some y \<Rightarrow> sbind (g y) f)"
  by (simp split: option.split)

lemma resolve_from_append:
  "resolve_from path (cs @ cs') cur = sbind (resolve_from path cs cur) (resolve_from path cs')"
  by (induction cs arbitrary: cur)
     (simp_all add: sbind_assoc sbind_If sbind_case_option cong: option.case_cong if_cong)

text \<open>Which number a path resolves to does not depend on the text kept for the error, and a
  resolution that succeeds leaves the volume as it was.\<close>

lemma ctx_inode_OkD: "ctx_inode i x = (Ok a, y) \<Longrightarrow> y = x"
  by (auto simp: ctx_inode_def with_gdt_Ok_iff)

lemma ctx_lookup_OkD: "ctx_lookup ino nm x = (Ok a, y) \<Longrightarrow> y = x"
  by (auto simp: ctx_lookup_def with_gdt_Ok_iff)

lemma resolve_from_OkD: "resolve_from path cs cur x = (Ok n, y) \<Longrightarrow> y = x"
  by (induction cs arbitrary: cur)
     (auto simp: sbind_Ok_iff split: if_split_asm option.split_asm dest: ctx_inode_OkD ctx_lookup_OkD)

lemma resolve_from_path: "resolve_from path cs cur x = (Ok n, y) \<longleftrightarrow> resolve_from path' cs cur x = (Ok n, y)"
proof (induction cs arbitrary: cur x)
  case (Cons c cs)
  show ?case by (auto simp: sbind_Ok_iff Cons.IH split: option.split)
qed simp

lemma resolve_path_eq: "resolve_path path = resolve_from path (path_components path) 2"
  by (simp add: resolve_path_def resolve_path_with_hops_def)

lemma resolve_from_dotdot: "DOTDOT \<in> set cs \<Longrightarrow> resolve_from path cs cur x \<noteq> (Ok n, y)"
proof (induction cs arbitrary: cur x)
  case (Cons c cs)
  then show ?case by (auto simp: sbind_Ok_iff split: option.split)
qed simp

lemma resolve_one:
  "nm \<noteq> DOT \<Longrightarrow> nm \<noteq> DOTDOT \<Longrightarrow> resolve_from path [nm] pn x = (Ok n, y) \<longleftrightarrow>
     y = x \<and> (\<exists>dir. ctx_inode pn x = (Ok dir, x) \<and> is_dir dir \<and> ctx_lookup dir nm x = (Ok (Some n), x))"
proof -
  assume ne: "nm \<noteq> DOT" "nm \<noteq> DOTDOT"
  let ?dir = "\<lambda>dir. ctx_inode pn x = (Ok dir, x) \<and> is_dir dir \<and> ctx_lookup dir nm x = (Ok (Some n), x)"
  have "?dir dir \<Longrightarrow> resolve_from path [nm] pn x = (Ok n, x)" for dir
    using ne by (simp add: sbind_def)
  moreover have "y = x \<and> (\<exists>dir. ?dir dir)" if "resolve_from path [nm] pn x = (Ok n, y)"
    using that ne
    by (auto simp: sbind_Ok_iff split: option.split_asm if_split_asm dest: ctx_inode_OkD ctx_lookup_OkD)
  ultimately show ?thesis by blast
qed

section \<open>The properties\<close>

text \<open>
  A path with a parent-directory component never resolves, wherever the component
  stands and whatever the volume holds: no request escapes the directory it names.
\<close>

theorem path_traversal_refused:
  assumes "DOTDOT \<in> set (path_components path)"
  shows "resolve_path path x \<noteq> (Ok n, y)"
  using assms by (simp add: resolve_path_eq resolve_from_dotdot)

theorem path_traversal_refused_witness:
  "\<forall>x n y. resolve_path [0x61, SLASH, 0x2E, 0x2E] x \<noteq> (Ok n, y)"
proof -
  have "DOTDOT \<in> set (path_components [0x61, SLASH, 0x2E, 0x2E])"
    by (simp add: path_components_def SLASH_def DOTDOT_def)
  from path_traversal_refused[OF this] show ?thesis by blast
qed

text \<open>
  Splitting a path into parent and name, as create, delete and rename do, agrees with
  resolving it: the path names inode n exactly when the parent resolves to a directory in
  which the name is found with number n. Backslashes apart, trailing and doubled separators
  make no difference.
\<close>

theorem split_path_resolves:
  assumes "split_path path = Some (parent, nm)" and "nm \<noteq> DOT" and "nm \<noteq> DOTDOT"
  shows "resolve_path path x = (Ok n, y) \<longleftrightarrow>
    y = x \<and> (\<exists>pn dir. resolve_path parent x = (Ok pn, x) \<and> ctx_inode pn x = (Ok dir, x) \<and> is_dir dir \<and>
       ctx_lookup dir nm x = (Ok (Some n), x))"
proof -
  have "path_components path = path_components parent @ [nm]" using split_path_components[OF assms(1)] by blast
  then have "resolve_path path x = (Ok n, y) \<longleftrightarrow>
      (\<exists>pn z. resolve_from path (path_components parent) 2 x = (Ok pn, z) \<and> resolve_from path [nm] pn z = (Ok n, y))"
    by (simp only: resolve_path_eq resolve_from_append sbind_Ok_iff)
  also have "\<dots> \<longleftrightarrow> (\<exists>pn. resolve_path parent x = (Ok pn, x) \<and> resolve_from path [nm] pn x = (Ok n, y))"
    by (metis resolve_from_OkD resolve_from_path resolve_path_eq)
  finally show ?thesis by (auto simp: resolve_one[OF assms(2,3)] simp del: resolve_from.simps)
qed

theorem split_path_resolves_witness:
  "\<forall>n y. resolve_path [SLASH, 0x61, SLASH] (sample_fs ReadOnly) = (Ok n, y) \<longleftrightarrow> y = sample_fs ReadOnly \<and>
     ctx_lookup (sample_ino 0x41ED 1024 2 7 1) [0x61] (sample_fs ReadOnly) = (Ok (Some n), sample_fs ReadOnly)"
proof (intro allI)
  fix n y
  have sp: "split_path [SLASH, 0x61, SLASH] = Some ([SLASH], [0x61])"
    by (simp add: split_path_def trim_end_slash_def rfind_slash_def SLASH_def)
  have root: "resolve_path [SLASH] (sample_fs ReadOnly) = (Ok 2, sample_fs ReadOnly)"
    by (simp add: resolve_path_eq)
  have ino: "ctx_inode 2 (sample_fs ReadOnly) = (Ok (sample_ino 0x41ED 1024 2 7 1), sample_fs ReadOnly)"
    by (simp add: ctx_inode_def with_gdt_def sample_fs_def sample_read_inode)
  have dir: "is_dir (sample_ino 0x41ED 1024 2 7 1)" by (simp add: is_dir_def inode_file_type_def sample_ino_fields S_IFMT_def S_IFREG_def S_IFDIR_def S_IFLNK_def)
  have ne: "[0x61] \<noteq> DOT" "[0x61] \<noteq> DOTDOT" by (simp_all add: DOT_def DOTDOT_def)
  show "resolve_path [SLASH, 0x61, SLASH] (sample_fs ReadOnly) = (Ok n, y) \<longleftrightarrow> y = sample_fs ReadOnly \<and>
     ctx_lookup (sample_ino 0x41ED 1024 2 7 1) [0x61] (sample_fs ReadOnly) = (Ok (Some n), sample_fs ReadOnly)"
    using split_path_resolves[OF sp ne, of "sample_fs ReadOnly" n y] by (auto simp: root ino dir simp del: One_nat_def)
qed

lemma read_request:
  assumes "sb_ok (x_sb x)" and "wf_disk (x_dev x)" and "\<not> x_gdt_held x" and "offset < 2 ^ 63"
    and "read_inode (x_dev x) (x_sb x) (x_gdt x) i = Ok ino"
    and "file_reader_new (x_dev x) (x_sb x) ino = Ok fr"
    and "blocks_readable (x_dev x) (x_sb x) (fr_leaves fr) (ino_size ino)"
  shows "read_file_data (HFile i inode0) len offset x =
    (Ok (map (file_byte (x_dev x) (x_sb x) (fr_leaves fr)) [min offset (ino_size ino)..<min (offset + len) (ino_size ino)]), x)"
proof -
  have fr: "fr_inode fr = ino" "fr_position fr = 0"
    using assms(6) by (auto simp: file_reader_new_def rbind_Ok_iff split: if_split_asm)
  define fr' where "fr' = fr\<lparr>fr_position := min offset (ino_size ino)\<rparr>"
  have seek: "run_local (file_seek (SeekStart offset)) fr = Ok (min offset (ino_size ino), fr')"
    using assms(4) by (simp add: run_local_def file_seek_def seek_target_def fr fr'_def Let_def)
  have same: "fr_inode fr' = ino" "fr_leaves fr' = fr_leaves fr" "fr_position fr' = min offset (ino_size ino)"
    by (simp_all add: fr'_def fr)
  have inode: "ctx_inode i x = (Ok ino, x)"
    using assms(3,5) by (simp add: ctx_inode_def with_gdt_def)
  have "min offset (ino_size ino) + min len (ino_size ino - min offset (ino_size ino)) = min (offset + len) (ino_size ino)"
    by linarith
  then have "file_read (x_dev x) (x_sb x) len fr' =
      (Ok (map (file_byte (x_dev x) (x_sb x) (fr_leaves fr)) [min offset (ino_size ino)..<min (offset + len) (ino_size ino)]),
       fr'\<lparr>fr_position := min (offset + len) (ino_size ino)\<rparr>)"
    using file_read_contents[OF assms(1,2), of fr' len] assms(7) by (simp only: same Let_def simp_thms)
  then show ?thesis
    by (simp add: read_file_data_def smap_err_def sbind_def inode assms(6) seek)
qed

text \<open>
  The read callback returns the bytes of the file in the requested range, cut at the end
  of the file, and leaves the volume as it was.
\<close>

theorem read_request_returns_range:
  assumes "sb_ok (x_sb x)" and "wf_disk (x_dev x)" and "\<not> x_gdt_held x" and "offset < 2 ^ 63"
    and "read_inode (x_dev x) (x_sb x) (x_gdt x) i = Ok ino"
    and "file_reader_new (x_dev x) (x_sb x) ino = Ok fr"
    and "blocks_readable (x_dev x) (x_sb x) (fr_leaves fr) (ino_size ino)"
  shows "read_file_data (HFile i inode0) len offset x =
    (Ok (map (file_byte (x_dev x) (x_sb x) (fr_leaves fr)) [min offset (ino_size ino)..<min (offset + len) (ino_size ino)]), x)"
  using assms by (rule read_request)

theorem read_request_returns_range_witness:
  "\<exists>bs. read_file_data (HFile 12 (sample_ino 0x81A4 5 1 16 1)) 100 2 (sample_fs ReadOnly) = (Ok bs, sample_fs ReadOnly) \<and> length bs = 3"
proof -
  let ?x = "sample_fs ReadOnly" and ?ino = "sample_ino 0x81A4 5 1 16 1"
  define fr where "fr = \<lparr>fr_inode = ?ino, fr_position = 0,
    fr_leaves = [\<lparr>ee_block = 0, ee_len = 1, ee_start_hi = 0, ee_start_lo = 16\<rparr>]\<rparr>"
  have sb: "sb_ok (x_sb ?x)" "wf_disk (x_dev ?x)" "\<not> x_gdt_held ?x"
    by (simp_all add: sample_fs_def sample_sb_ok wf_sample)
  have rd: "read_inode (x_dev ?x) (x_sb ?x) (x_gdt ?x) 12 = Ok ?ino"
    using sample_read_inode(3) by (simp add: sample_fs_def)
  have new: "file_reader_new (x_dev ?x) (x_sb ?x) ?ino = Ok fr"
    by (simp add: file_reader_new_def sample_fs_def fr_def is_file_def inode_file_type_def S_IFMT_def S_IFREG_def S_IFDIR_def S_IFLNK_def sample_ino_fields sample_ino_leaves)
  have sz: "ino_size ?ino = 5" by (simp add: sample_ino_fields)
  have lv: "resolve_lblock (fr_leaves fr) k = (if k = 0 then Some 16 else None)" for k
    by (simp add: fr_def resolve_lblock_def partition_point_def leaf_start_def hi_lo_def)
  have ok: "blocks_readable (x_dev ?x) (x_sb ?x) (fr_leaves fr) (ino_size ?ino)"
    by (simp add: blocks_readable_def lv sample_fs_def)
  show ?thesis
    using read_request_returns_range[OF sb(1,2,3) _ rd new ok, of 2 ?ino 100] by (simp add: sz del: One_nat_def)
qed

end
