(* ===== verification/Dir_Blocks.thy ===== *)
theory Dir_Blocks
  imports Dir_Write
begin

text \<open>
  What the record scans of \<open>Dir_Write\<close> do to the entries a directory block parses to:
  insertion adds the entry, lookup finds it, removal takes one entry out.
\<close>

section \<open>Records that were written\<close>

lemma rec_fields_same:
  assumes "same_upto n b b'" and "pos + 8 \<le> n"
  shows "rec_inode b' pos = rec_inode b pos" "rec_len b' pos = rec_len b pos"
    "rec_name_len b' pos = rec_name_len b pos" "rec_file_type b' pos = rec_file_type b pos"
  using assms by (simp_all add: rec_defs int_read_defs same_uptoD)

lemma parse_dirent_same:
  assumes "parse_dirent b pos = Ok (Some (e, rl))" and "same_upto (pos + rl) b b'"
  shows "parse_dirent b' pos = Ok (Some (e, rl))"
proof -
  have rl: "8 \<le> rl" "rec_len b pos = rl" "rec_name_len b pos \<le> rl - 8"
    using assms(1) parse_dirent_consumed[OF assms(1)]
    by (auto simp: parse_dirent_def Let_def split: if_split_asm)
  have "length b' = length b" using assms(2) by (simp add: same_upto_def)
  moreover have "bytes_at (pos + 8) (rec_name_len b pos) b' = bytes_at (pos + 8) (rec_name_len b pos) b"
    using rl by (intro same_uptoD[OF assms(2)]) linarith
  moreover have "pos + 8 \<le> pos + rl" using rl(1) by simp
  moreover note rec_fields_same[OF assms(2) this]
  ultimately have "parse_dirent b' pos = parse_dirent b pos" by (simp add: parse_dirent_def Let_def)
  then show ?thesis using assms(1) by simp
qed

lemma length_dirent_bytes [simp]: "length (dirent_bytes c nm ft rl) = 8 + length nm"
  by (simp add: dirent_bytes_def)

lemma parse_dirent_written:
  assumes "pos + rl \<le> length b" and "8 + length nm \<le> rl" and "rl < 2 ^ 16"
    and "0 < c" and "c < 2 ^ 32" and "ft < 256" and "length nm < 256" and "valid_utf8 nm"
  shows "parse_dirent (patch pos (dirent_bytes c nm ft rl) b) pos =
    Ok (Some (\<lparr>de_inode_num = c, de_name = nm, de_file_type = ft\<rparr>, rl))"
proof -
  let ?d = "dirent_bytes c nm ft rl"
  let ?b = "patch pos ?d b"
  have fit: "pos + length ?d \<le> length b" using assms(1,2) by simp
  have field: "bytes_at (pos + o') k ?b = bytes_at o' k ?d" if "o' + k \<le> 8 + length nm" for o' k
    using bytes_at_patch_inside[OF fit, of "pos + o'" k] that by simp
  have f0: "bytes_at pos 4 ?b = bytes_at 0 4 ?d" using field[of 0 4] by simp
  have "rec_inode ?b pos = c" "rec_len ?b pos = rl" "rec_name_len ?b pos = length nm"
      "rec_file_type ?b pos = ft" "bytes_at (pos + 8) (length nm) ?b = nm"
    using assms(3,5-7)
    by (simp_all add: rec_defs int_read_defs f0 field)
       (simp_all add: dirent_bytes_def bytes_at_def le_nat_to_le unat_of_nat)
  then show ?thesis
    using assms(1,2,4,8) by (simp add: parse_dirent_def Let_def fit valid_utf8_def) linarith
qed

lemma min_rec_len_ge: "k < 256 \<Longrightarrow> 8 + k \<le> min_rec_len k \<and> min_rec_len k < 2 ^ 16"
  by (simp add: min_rec_len_def) linarith

section \<open>Inserting into a block\<close>

lemma try_insert_from_same:
  "try_insert_from nm c ft b pos = Ok (Some b') \<Longrightarrow> same_upto pos b b'"
proof (induction nm c ft b pos rule: try_insert_from.induct)
  case (1 nm c ft b pos)
  have step: "same_upto pos b b'" if "same_upto (pos + rec_len b pos) b b'"
    using that by (rule same_upto_less) simp
  have two: "same_upto pos b (patch (pos + k) d2 (patch (pos + 4) d1 b))"
    if "pos + 4 + length d1 \<le> length b" "pos + k + length d2 \<le> length b" for k d1 d2
    using that by (intro same_upto_trans[OF same_upto_patch same_upto_patch]) simp_all
  show ?case
    using 1 step
    by (subst (asm) try_insert_from.simps[of nm c ft b pos])
       (auto simp: Let_def write_dirent_def intro: same_upto_patch two
         split: if_split_asm)
qed

text \<open>What the parser's fields are when it returns a record.\<close>

lemma parse_dirent_fields:
  assumes "parse_dirent b pos = Ok (Some (e, rl))"
  shows "pos + 8 \<le> length b" "rec_len b pos = rl" "8 \<le> rl" "pos + rl \<le> length b"
    "8 + rec_name_len b pos \<le> rl" "de_inode_num e = rec_inode b pos" "rec_len b pos < 2 ^ 16"
    "de_inode_num e \<noteq> 0 \<Longrightarrow> de_name e = utf8_lossy (bytes_at (pos + 8) (rec_name_len b pos) b)"
  using assms le16_less[of "pos + 4" b]
  by (auto simp: parse_dirent_def Let_def rec_len_def split: if_split_asm)

lemma parse_entries_Cons:
  assumes "pos + 8 \<le> length b" and "parse_entries_from b pos = Ok es"
  obtains e rl es' where "parse_dirent b pos = Ok (Some (e, rl))"
    and "parse_entries_from b (pos + rl) = Ok es'"
    and "es = (if de_inode_num e \<noteq> 0 then e # es' else es')"
proof -
  have "parse_dirent b pos \<noteq> Ok None" using assms(1) by (auto simp: parse_dirent_def Let_def)
  then show ?thesis
    using assms(1) that assms(2)[unfolded parse_entries_from.simps[of b pos]]
    by (auto split: if_split_asm option.split_asm)
qed

lemma parse_entries_here:
  "parse_dirent b pos = Ok (Some (e, rl)) \<Longrightarrow> parse_entries_from b (pos + rl) = Ok es' \<Longrightarrow>
   parse_entries_from b pos = Ok (if de_inode_num e \<noteq> 0 then e # es' else es')"
  using parse_dirent_fields[of b pos e rl] by (subst parse_entries_from.simps) auto

lemma parse_entries_end: "length b < pos + 8 \<Longrightarrow> pos \<le> length b \<Longrightarrow> parse_entries_from b pos = Ok []"
proof -
  assume "length b < pos + 8" "pos \<le> length b"
  then have "parse_dirent b pos = Ok None" by (simp add: parse_dirent_def) linarith
  then show ?thesis by (subst parse_entries_from.simps) simp
qed

lemma parse_entries_same_from:
  "same_from pos b b' \<Longrightarrow> parse_entries_from b' pos = parse_entries_from b pos"
proof (induction b pos rule: parse_entries_from.induct)
  case (1 b pos)
  have len: "length b' = length b" using "1.prems" by (simp add: same_from_def)
  have d: "parse_dirent b' pos = parse_dirent b pos"
    using "1.prems" by (simp add: parse_dirent_def Let_def rec_defs int_read_defs same_from_def)
  have "parse_entries_from b' (pos + rl) = parse_entries_from b (pos + rl)"
    if "pos < length b" "parse_dirent b pos = Ok (Some (e, rl))" for e rl
    using that by (intro "1.IH") (use "1.prems" in \<open>auto simp: same_from_def\<close>)
  then show ?case
    unfolding parse_entries_from.simps[of b' pos] parse_entries_from.simps[of b pos] len d
    by (cases "parse_dirent b pos") (auto split: option.split)
qed

lemma try_insert_entries:
  assumes "valid_utf8 nm" and "length nm < 256" and "0 < c" and "c < 2 ^ 32" and "ft < 256"
  shows "parse_entries_from b pos = Ok es \<Longrightarrow> try_insert_from nm c ft b pos = Ok (Some b') \<Longrightarrow>
    \<exists>es1 es2. es = es1 @ es2 \<and>
      parse_entries_from b' pos = Ok (es1 @ \<lparr>de_inode_num = c, de_name = nm, de_file_type = ft\<rparr> # es2)"
proof (induction "length b - pos" arbitrary: pos es rule: less_induct)
  case less
  let ?new = "\<lparr>de_inode_num = c, de_name = nm, de_file_type = ft\<rparr>"
  note ins = less.prems(2)[unfolded try_insert_from.simps[of nm c ft b pos]]
  have pos: "pos + 8 \<le> length b" using ins by (auto split: if_split_asm)
  obtain e rl es' where e: "parse_dirent b pos = Ok (Some (e, rl))"
    and rest: "parse_entries_from b (pos + rl) = Ok es'"
    and es: "es = (if de_inode_num e \<noteq> 0 then e # es' else es')"
    using parse_entries_Cons[OF pos less.prems(1)] .
  note f = parse_dirent_fields[OF e]
  note needed = min_rec_len_ge[OF assms(2)]
  consider
      (deleted) "rec_inode b pos = 0" "min_rec_len (length nm) \<le> rl"
        "b' = patch pos (dirent_bytes c nm ft rl) b"
    | (last) "rec_inode b pos \<noteq> 0" "length b \<le> pos + rl"
        "min_rec_len (length nm) \<le> rl - min_rec_len (rec_name_len b pos)"
        "b' = patch (pos + min_rec_len (rec_name_len b pos))
           (dirent_bytes c nm ft (rl - min_rec_len (rec_name_len b pos)))
           (patch (pos + 4) (to_le 2 (min_rec_len (rec_name_len b pos))) b)"
    | (next_record) "try_insert_from nm c ft b (pos + rl) = Ok (Some b')"
        "rec_inode b pos = 0 \<longrightarrow> \<not> min_rec_len (length nm) \<le> rl"
    using ins f(1-3) by (auto simp: Let_def write_dirent_def split: if_split_asm)
  then show ?case
  proof cases
    case deleted
    have "parse_dirent b' pos = Ok (Some (?new, rl))"
      unfolding deleted(3)
      by (rule parse_dirent_written) (use assms f deleted(2) needed in auto)
    moreover have "same_from (pos + rl) b b'"
      unfolding deleted(3) using f(4) deleted(2) needed by (intro same_from_patch) auto
    then have "parse_entries_from b' (pos + rl) = Ok es'"
      using rest parse_entries_same_from by simp
    ultimately have "parse_entries_from b' pos = Ok (?new # es')"
      using parse_entries_here assms(3) by fastforce
    then show ?thesis using es deleted(1) f(6) by (intro exI[of _ "[]"] exI[of _ es']) auto
  next
    case last
    define a where "a = min_rec_len (rec_name_len b pos)"
    have nl: "rec_name_len b pos < 256" by (simp add: rec_name_len_def u8_at_less)
    have a: "8 + rec_name_len b pos \<le> a" "a < 2 ^ 16" using min_rec_len_ge[OF nl] by (simp_all add: a_def)
    have room: "min_rec_len (length nm) \<le> rl - a" using last(3) by (simp add: a_def)
    define b1 where "b1 = patch (pos + 4) (to_le 2 a) b"
    have len1: "length b1 = length b" using pos by (simp add: b1_def)
    have b': "b' = patch (pos + a) (dirent_bytes c nm ft (rl - a)) b1" using last(4) by (simp add: a_def b1_def)
    have new: "parse_dirent b' (pos + a) = Ok (Some (?new, rl - a))"
      unfolding b' by (rule parse_dirent_written) (use assms f room needed a len1 in auto)
    have old: "parse_dirent b' pos = Ok (Some (e, a))"
    proof -
      have fields: "rec_inode b1 pos = rec_inode b pos" "rec_len b1 pos = a"
          "rec_name_len b1 pos = rec_name_len b pos" "Dir.rec_file_type b1 pos = Dir.rec_file_type b pos"
          "bytes_at (pos + 8) (rec_name_len b pos) b1 = bytes_at (pos + 8) (rec_name_len b pos) b"
        using pos a(2) by (simp_all add: b1_def rec_defs int_read_defs buffer_simps)
      have "parse_dirent b1 pos = Ok (Some (e, a))"
        using e f a room needed last(1)
        by (auto simp: parse_dirent_def Let_def fields len1 split: if_split_asm)
      moreover have "same_upto (pos + a) b1 b'"
        unfolding b' using f(4) room needed len1 by (intro same_upto_patch) auto
      ultimately show ?thesis by (rule parse_dirent_same)
    qed
    have end_eq: "pos + rl = length b" using last(2) f(4) by simp
    have "es' = []" using rest end_eq parse_entries_end[of b "pos + rl"] by simp
    moreover have "parse_entries_from b' (pos + a + (rl - a)) = Ok []"
      using end_eq room needed len1 f by (intro parse_entries_end) (auto simp: b')
    then have "parse_entries_from b' pos = Ok [e, ?new]"
      using parse_entries_here[OF old] parse_entries_here[OF new] f(6) last(1) assms(3) by simp
    ultimately show ?thesis using es f(6) last(1) by (intro exI[of _ "[e]"] exI[of _ "[]"]) auto
  next
    case next_record
    have "length b - (pos + rl) < length b - pos" using f pos by linarith
    from less.hyps[OF this rest next_record(1)] obtain es1 es2 where
      ih: "es' = es1 @ es2" "parse_entries_from b' (pos + rl) = Ok (es1 @ ?new # es2)" by blast
    have "parse_dirent b' pos = Ok (Some (e, rl))"
      using parse_dirent_same[OF e try_insert_from_same[OF next_record(1)]] .
    from parse_entries_here[OF this ih(2)] show ?thesis
      using es ih(1)
      by (intro exI[of _ "if de_inode_num e \<noteq> 0 then e # es1 else es1"] exI[of _ es2]) auto
  qed
qed

text \<open>
  C19. Inserting an entry into a directory block: after a successful insertion the block
  parses to the old entries, in their order, with the new entry among them.
\<close>

theorem insert_adds_entry:
  assumes "parse_block_entries b [] = Ok es" and "try_insert_in_block nm c ft b = Ok (Some b')"
    and "valid_utf8 nm" and "length nm < 256" and "0 < c" and "c < 2 ^ 32" and "ft < 256"
  shows "\<exists>es1 es2. es = es1 @ es2 \<and> length b' = length b \<and>
    parse_block_entries b' [] = Ok (es1 @ \<lparr>de_inode_num = c, de_name = nm, de_file_type = ft\<rparr> # es2)"
  using try_insert_entries[OF assms(3-7), of b 0 es b'] assms(1,2) try_insert_from_same[of nm c ft b 0 b']
  by (auto simp: parse_block_entries_def try_insert_in_block_def same_upto_def)

lemma find_append:
  "find P (xs @ ys) = (case find P xs of None \<Rightarrow> find P ys | Some x \<Rightarrow> Some x)"
  by (induction xs) auto

lemma lookup_from_entries:
  "parse_entries_from b pos = Ok es \<Longrightarrow>
   lookup_from nm b pos = Ok (map_option de_inode_num (find (\<lambda>e. de_name e = nm) es))"
proof (induction "length b - pos" arbitrary: pos es rule: less_induct)
  case less
  show ?case
  proof (cases "pos < length b \<and> parse_dirent b pos \<noteq> Ok None")
    case True
    then obtain e rl es' where e: "parse_dirent b pos = Ok (Some (e, rl))"
      and rest: "parse_entries_from b (pos + rl) = Ok es'"
      and es: "es = (if de_inode_num e \<noteq> 0 then e # es' else es')"
      using less.prems[unfolded parse_entries_from.simps[of b pos]]
      by (auto split: if_split_asm option.split_asm)
    have "length b - (pos + rl) < length b - pos" using parse_dirent_fields[OF e] True by linarith
    from less.hyps[OF this rest] show ?thesis
      using True e es by (subst lookup_from.simps) auto
  next
    case False
    then show ?thesis
      using less.prems unfolding parse_entries_from.simps[of b pos] lookup_from.simps[of nm b pos]
      by (auto split: if_split_asm)
  qed
qed

text \<open>
  The name can be looked up afterwards: a name that no entry had is found with the inode
  number that was stored.
\<close>

theorem insert_then_lookup:
  assumes "parse_block_entries b [] = Ok es" and "try_insert_in_block nm c ft b = Ok (Some b')"
    and "valid_utf8 nm" and "length nm < 256" and "0 < c" and "c < 2 ^ 32" and "ft < 256"
    and "nm \<notin> de_name ` set es"
  shows "lookup_from nm b' 0 = Ok (Some c) \<and>
    (\<forall>other. other \<noteq> nm \<longrightarrow> lookup_from other b' 0 = lookup_from other b 0)"
proof -
  obtain es1 es2 where es: "es = es1 @ es2"
    and new: "parse_entries_from b' 0 = Ok (es1 @ \<lparr>de_inode_num = c, de_name = nm, de_file_type = ft\<rparr> # es2)"
    using try_insert_entries[OF assms(3-7), of b 0 es b'] assms(1,2)
    by (auto simp: parse_block_entries_def try_insert_in_block_def)
  have old: "parse_entries_from b 0 = Ok es" using assms(1) by (auto simp: parse_block_entries_def)
  have miss: "find (\<lambda>e. de_name e = nm) es1 = None"
    using assms(8) es by (auto simp: find_None_iff)
  show ?thesis
    unfolding lookup_from_entries[OF new] lookup_from_entries[OF old]
    using miss by (auto simp: es find_append split: option.split)
qed

section \<open>The scans on a block that lists\<close>

lemma try_insert_runs:
  assumes "length nm < 256"
  shows "parse_entries_from b pos = Ok es \<Longrightarrow> \<exists>r. try_insert_from nm c ft b pos = Ok r"
proof (induction "length b - pos" arbitrary: pos es rule: less_induct)
  case less
  show ?case
  proof (cases "length b < pos + 8")
    case False
    then have pos: "pos + 8 \<le> length b" by simp
    obtain e rl es' where e: "parse_dirent b pos = Ok (Some (e, rl))" and rest: "parse_entries_from b (pos + rl) = Ok es'"
      using parse_entries_Cons[OF pos less.prems] .
    note f = parse_dirent_fields[OF e]
    have "length b - (pos + rl) < length b - pos" using f(3) pos by linarith
    from less.hyps[OF this rest] obtain r where r: "try_insert_from nm c ft b (pos + rl) = Ok r" by blast
    have "8 + length nm \<le> min_rec_len (length nm)" using min_rec_len_ge[OF assms] by simp
    then show ?thesis
      using pos f(2-4) r
      by (subst try_insert_from.simps) (auto simp: Let_def write_dirent_def patch_r_def)
  qed (simp add: try_insert_from.simps)
qed

lemma scan_exists_absent:
  assumes "valid_utf8 nm"
  shows "parse_entries_from b pos = Ok es \<Longrightarrow> nm \<notin> de_name ` set es \<Longrightarrow> scan_exists nm b pos = Ok None"
proof (induction "length b - pos" arbitrary: pos es rule: less_induct)
  case less
  show ?case
  proof (cases "length b < pos + 8")
    case False
    then have pos: "pos + 8 \<le> length b" by simp
    obtain e rl es' where e: "parse_dirent b pos = Ok (Some (e, rl))" and rest: "parse_entries_from b (pos + rl) = Ok es'"
      and es: "es = (if de_inode_num e \<noteq> 0 then e # es' else es')"
      using parse_entries_Cons[OF pos less.prems(1)] .
    note f = parse_dirent_fields[OF e]
    have "length b - (pos + rl) < length b - pos" using f(3) pos by linarith
    from less.hyps[OF this rest] have next_record: "scan_exists nm b (pos + rl) = Ok None"
      using less.prems(2) es by (auto split: if_split_asm)
    have "bytes_at (pos + 8) (length nm) b \<noteq> nm" if "rec_inode b pos \<noteq> 0" "rec_name_len b pos = length nm"
    proof -
      have "de_name e = utf8_lossy (bytes_at (pos + 8) (length nm) b)" "e \<in> set es" using f(6,8) that es by auto
      moreover have "utf8_lossy nm = nm" using assms by (simp add: valid_utf8_def)
      ultimately show ?thesis using less.prems(2) by force
    qed
    moreover have "min (rec_name_len b pos) (rl - 8) = rec_name_len b pos" using f(5) by simp
    ultimately show ?thesis
      using pos f(2-5) next_record by (subst scan_exists.simps) (auto simp: Let_def slice_r_def)
  qed (simp add: scan_exists.simps)
qed

section \<open>Removing from a block\<close>

text \<open>The records from a position on are all live.\<close>

function live_chain :: "byte list \<Rightarrow> nat \<Rightarrow> bool" where
  "live_chain b pos = (case parse_dirent b pos of
       Ok (Some (e, rl)) \<Rightarrow> de_inode_num e \<noteq> 0 \<and> live_chain b (pos + rl)
     | _ \<Rightarrow> True)"
  by pat_completeness auto
termination
  by (relation "measure (\<lambda>(b, pos). Suc (length b) - pos)") (auto dest!: parse_dirent_consumed)

declare live_chain.simps [simp del]

text \<open>The live record just before \<open>pos\<close>, when the scan has passed one.\<close>

definition prev_live :: "byte list \<Rightarrow> nat option \<Rightarrow> nat \<Rightarrow> dir_entry list \<Rightarrow> bool" where
  "prev_live b prev pos pre \<longleftrightarrow> (case prev of
       None \<Rightarrow> pre = []
     | Some p \<Rightarrow> \<exists>e rl. parse_dirent b p = Ok (Some (e, rl)) \<and> p + rl = pos \<and> de_inode_num e \<noteq> 0 \<and> pre = [e])"

lemma remove_from_same:
  "remove_from nm b pos prev = Ok (Some (i, b')) \<Longrightarrow> (\<forall>p. prev = Some p \<longrightarrow> p + 8 \<le> pos) \<Longrightarrow>
   same_upto (case prev of None \<Rightarrow> pos | Some p \<Rightarrow> p) b b'"
proof (induction "length b - pos" arbitrary: pos prev rule: less_induct)
  case less
  note rem = less.prems(1)[unfolded remove_from.simps[of nm b pos prev]]
  have pos: "pos + 8 \<le> length b" and rl: "8 \<le> rec_len b pos" using rem by (auto simp: Let_def split: if_split_asm)
  show ?case
  proof (cases "remove_from nm b (pos + rec_len b pos) (if rec_inode b pos \<noteq> 0 then Some pos else prev) = Ok (Some (i, b'))")
    case True
    have "length b - (pos + rec_len b pos) < length b - pos" using pos rl by linarith
    moreover have "\<forall>p. (if rec_inode b pos \<noteq> 0 then Some pos else prev) = Some p \<longrightarrow> p + 8 \<le> pos + rec_len b pos"
      using less.prems(2) rl by auto
    ultimately have "same_upto (case if rec_inode b pos \<noteq> 0 then Some pos else prev of None \<Rightarrow> pos + rec_len b pos | Some p \<Rightarrow> p) b b'"
      using less.hyps True by blast
    then show ?thesis
      using less.prems(2) by (auto elim!: same_upto_less split: option.splits if_splits)
  next
    case False
    then show ?thesis
      using rem pos less.prems(2)
      by (auto simp: Let_def same_upto_patch split: if_split_asm option.split_asm)
  qed
qed

lemma remove_from_entries:
  assumes "length b < 2 ^ 16"
  shows "remove_from nm b pos prev = Ok (Some (i, b')) \<Longrightarrow> parse_entries_from b pos = Ok es \<Longrightarrow>
    live_chain b pos \<Longrightarrow> prev_live b prev pos pre \<Longrightarrow>
    \<exists>es1 e es2. es = es1 @ e # es2 \<and> de_name e = utf8_lossy nm \<and> de_inode_num e = i \<and>
      parse_entries_from b' (case prev of None \<Rightarrow> pos | Some p \<Rightarrow> p) = Ok (pre @ es1 @ es2)"
proof (induction "length b - pos" arbitrary: pos prev es pre rule: less_induct)
  case less
  note rem = less.prems(1)[unfolded remove_from.simps[of nm b pos prev]]
  have pos: "pos + 8 \<le> length b" using rem by (auto split: if_split_asm)
  obtain e rl es' where e: "parse_dirent b pos = Ok (Some (e, rl))"
    and rest: "parse_entries_from b (pos + rl) = Ok es'"
    and es0: "es = (if de_inode_num e \<noteq> 0 then e # es' else es')"
    using parse_entries_Cons[OF pos less.prems(2)] .
  note f = parse_dirent_fields[OF e]
  have live: "de_inode_num e \<noteq> 0" "live_chain b (pos + rl)"
    using less.prems(3) e by (auto simp: live_chain.simps[of b pos])
  then have es: "es = e # es'" using es0 by simp
  consider
      (found) "bytes_at (pos + 8) (rec_name_len b pos) b = nm" "rec_inode b pos = i"
        "prev = None \<longrightarrow> b' = patch pos (to_le 4 0) b"
        "\<forall>p. prev = Some p \<longrightarrow> b' = patch (p + 4) (to_le 2 (wadd 16 (rec_len b p) rl)) b"
    | (next_record) "remove_from nm b (pos + rl) (Some pos) = Ok (Some (i, b'))"
    using rem f(1-6) live(1) by (auto simp: Let_def split: if_split_asm option.split_asm)
  then show ?case
  proof cases
    case found
    have "de_name e = utf8_lossy nm" "de_inode_num e = i"
      using f(6) f(8)[OF live(1)] found(1,2) by simp_all
    moreover have "parse_entries_from b' (case prev of None \<Rightarrow> pos | Some p \<Rightarrow> p) = Ok (pre @ es')"
    proof (cases prev)
      case None
      then have b': "b' = patch pos (to_le 4 0) b" using found(3) by simp
      have "same_from (pos + rl) b b'" unfolding b' using f(1,3) by (intro same_from_patch) auto
      then have tail: "parse_entries_from b' (pos + rl) = Ok es'" using rest parse_entries_same_from by simp
      have fields: "rec_inode b' pos = 0" "rec_len b' pos = rec_len b pos" "rec_name_len b' pos = rec_name_len b pos"
          "length b' = length b"
        using f(1) by (simp_all add: b' rec_defs int_read_defs buffer_simps)
      have "\<exists>e'. parse_dirent b' pos = Ok (Some (e', rl)) \<and> de_inode_num e' = 0"
        using f by (simp add: parse_dirent_def Let_def fields) linarith
      with parse_entries_here[OF _ tail] None less.prems(4) show ?thesis by (auto simp: prev_live_def)
    next
      case (Some p)
      then obtain ep rp where p: "parse_dirent b p = Ok (Some (ep, rp))" "p + rp = pos" "de_inode_num ep \<noteq> 0"
          and pre: "pre = [ep]"
        using less.prems(4) by (auto simp: prev_live_def)
      note fp = parse_dirent_fields[OF p(1)]
      have b': "b' = patch (p + 4) (to_le 2 (rp + rl)) b"
        using found(4) Some fp(2) f(4) p(2) assms by (simp add: wadd_def)
      have "same_from (pos + rl) b b'" unfolding b' using fp(1,3) p(2) f(3,4) by (intro same_from_patch) auto
      then have tail: "parse_entries_from b' (p + (rp + rl)) = Ok es'"
        using rest parse_entries_same_from p(2) by (simp add: add.assoc[symmetric])
      have fields: "rec_inode b' p = rec_inode b p" "rec_len b' p = rp + rl" "rec_name_len b' p = rec_name_len b p"
          "Dir.rec_file_type b' p = Dir.rec_file_type b p" "length b' = length b"
          "bytes_at (p + 8) (rec_name_len b p) b' = bytes_at (p + 8) (rec_name_len b p) b"
        using fp(1) p(2) f(4) assms by (simp_all add: b' rec_defs int_read_defs buffer_simps)
      have "parse_dirent b' p = Ok (Some (ep, rp + rl))"
        using p(1) fp f(3,4) p(2,3) by (auto simp: parse_dirent_def Let_def fields split: if_split_asm)
      from parse_entries_here[OF this tail] show ?thesis using Some pre p(3) by simp
    qed
    ultimately show ?thesis using es by (intro exI[of _ "[]"] exI[of _ e] exI[of _ es']) simp
  next
    case next_record
    have lt: "length b - (pos + rl) < length b - pos" using f pos by linarith
    have "prev_live b (Some pos) (pos + rl) [e]" using e live(1) by (auto simp: prev_live_def)
    from less.hyps[OF lt next_record rest live(2) this] obtain es1 e' es2 where
        ih: "es' = es1 @ e' # es2" "de_name e' = utf8_lossy nm"
        "de_inode_num e' = i" "parse_entries_from b' pos = Ok ([e] @ es1 @ es2)"
      by auto
    have same: "same_upto pos b b'" using remove_from_same[OF next_record] f(3) by simp
    have "parse_entries_from b' (case prev of None \<Rightarrow> pos | Some p \<Rightarrow> p) = Ok (pre @ (e # es1) @ es2)"
    proof (cases prev)
      case (Some p)
      then obtain ep rp where p: "parse_dirent b p = Ok (Some (ep, rp))" "p + rp = pos" "de_inode_num ep \<noteq> 0"
          and pre: "pre = [ep]"
        using less.prems(4) by (auto simp: prev_live_def)
      have "parse_dirent b' p = Ok (Some (ep, rp))" using parse_dirent_same[OF p(1)] same p(2) by simp
      from parse_entries_here[OF this] ih(4) p(2,3) show ?thesis by (simp add: Some pre)
    qed (use less.prems(4) ih(4) in \<open>simp add: prev_live_def\<close>)
    then show ?thesis
      using es ih(1-3) by (intro exI[of _ "e # es1"] exI[of _ e'] exI[of _ es2]) simp
  qed
qed

text \<open>
  C20. Removing a name from a block in which no record but possibly the first is deleted: the
  block then parses to the other entries, in their order; the entry that went had the name and
  the inode number that is returned. (With a deleted record between two live ones this fails,
  see \<open>remove_after_gap_breaks_block\<close> below; 64 KiB blocks are left out, where the 16-bit sum of
  two record lengths can wrap.)
\<close>

theorem remove_removes_entry:
  assumes "parse_block_entries b [] = Ok es" and "remove_from nm b 0 None = Ok (Some (i, b'))"
    and "valid_utf8 nm" and "length b < 2 ^ 16"
    and "live_chain b 0 \<or> (\<exists>e rl. parse_dirent b 0 = Ok (Some (e, rl)) \<and> de_inode_num e = 0 \<and> live_chain b rl)"
  shows "\<exists>es1 e es2. es = es1 @ e # es2 \<and> de_name e = nm \<and> de_inode_num e = i \<and>
    parse_block_entries b' [] = Ok (es1 @ es2)"
proof -
  have nm: "utf8_lossy nm = nm" using assms(3) by (simp add: valid_utf8_def)
  have parsed: "parse_entries_from b 0 = Ok es" using assms(1) by (auto simp: parse_block_entries_def)
  show ?thesis
    using assms(5)
  proof
    assume "live_chain b 0"
    from remove_from_entries[OF assms(4,2) parsed this] nm show ?thesis
      by (fastforce simp: prev_live_def parse_block_entries_def)
  next
    assume "\<exists>e rl. parse_dirent b 0 = Ok (Some (e, rl)) \<and> de_inode_num e = 0 \<and> live_chain b rl"
    then obtain e rl where e: "parse_dirent b 0 = Ok (Some (e, rl))" and dead: "de_inode_num e = 0"
      and chain: "live_chain b rl" by blast
    note f = parse_dirent_fields[OF e]
    obtain es' where rest: "parse_entries_from b rl = Ok es'"
      using parse_entries_Cons[OF f(1) parsed] e by fastforce
    have es: "es = es'" using parse_entries_here[OF e] rest parsed dead by simp
    have "remove_from nm b rl None = Ok (Some (i, b'))"
      using assms(2)[unfolded remove_from.simps[of nm b 0 None]] f dead by (auto simp: Let_def)
    from remove_from_entries[OF assms(4) this rest chain] nm obtain es1 e' es2 where
      r: "es' = es1 @ e' # es2" "de_name e' = nm" "de_inode_num e' = i" "parse_entries_from b' rl = Ok (es1 @ es2)"
      by (auto simp: prev_live_def)
    have "parse_dirent b' 0 = Ok (Some (e, rl))"
      using parse_dirent_same[OF e] remove_from_same[OF \<open>remove_from nm b rl None = _\<close>] by simp
    from parse_entries_here[OF this] r dead es show ?thesis by (auto simp: parse_block_entries_def)
  qed
qed

text \<open>Small blocks: two live records with room after the second; the same with a deleted one between.\<close>

definition small_block :: "byte list" where
  "small_block = dirent_bytes 2 [0x2E] 2 12 @ [0, 0, 0] @ dirent_bytes 5 [0x61] 1 36 @ replicate 27 0"

definition gap_block :: "byte list" where
  "gap_block = dirent_bytes 2 [0x2E] 2 12 @ [0, 0, 0] @ dirent_bytes 0 [0x78] 1 20 @ replicate 11 0 @
     dirent_bytes 5 [0x61] 1 16 @ replicate 7 0"

definition small_entries :: "dir_entry list" where
  "small_entries = [\<lparr>de_inode_num = 2, de_name = [0x2E], de_file_type = 2\<rparr>,
     \<lparr>de_inode_num = 5, de_name = [0x61], de_file_type = 1\<rparr>]"

lemma small_block_parse: "parse_block_entries small_block [] = Ok small_entries"
  unfolding small_entries_def by code_simp

definition small_inserted :: "byte list" where
  "small_inserted = dirent_bytes 2 [0x2E] 2 12 @ [0, 0, 0] @ dirent_bytes 5 [0x61] 1 12 @ [0, 0, 0] @
     dirent_bytes 7 [0x62] 1 24 @ replicate 15 0"

definition small_removed :: "byte list" where
  "small_removed = dirent_bytes 2 [0x2E] 2 48 @ [0, 0, 0] @ dirent_bytes 5 [0x61] 1 36 @ replicate 27 0"

definition gap_removed :: "byte list" where
  "gap_removed = dirent_bytes 2 [0x2E] 2 28 @ [0, 0, 0] @ dirent_bytes 0 [0x78] 1 20 @ replicate 11 0 @
     dirent_bytes 5 [0x61] 1 16 @ replicate 7 0"

lemma small_fields [simp]:
  "length small_block = 48" "rec_inode small_block 0 = 2" "rec_len small_block 0 = 12"
  "rec_name_len small_block 0 = 1" "rec_inode small_block 12 = 5" "rec_len small_block 12 = 36"
  "rec_name_len small_block 12 = 1"
  by code_simp+

lemma gap_fields [simp]:
  "length gap_block = 48" "rec_inode gap_block 0 = 2" "rec_len gap_block 0 = 12"
  "rec_name_len gap_block 0 = 1" "rec_inode gap_block 12 = 0" "rec_len gap_block 12 = 20"
  "rec_name_len gap_block 12 = 1" "rec_inode gap_block 32 = 5" "rec_len gap_block 32 = 16"
  "rec_name_len gap_block 32 = 1"
  by code_simp+

lemma small_insert: "try_insert_in_block [0x62] 7 1 small_block = Ok (Some small_inserted)"
proof -
  have "patch 24 (dirent_bytes 7 [0x62] 1 24) (patch 16 (to_le 2 12) small_block) = small_inserted"
    by code_simp
  then show ?thesis
    by (simp add: try_insert_in_block_def try_insert_from.simps min_rec_len_def write_dirent_def patch_r_def)
qed

lemma names_here [simp]:
  "bytes_at 8 1 small_block = [0x2E]" "bytes_at 20 1 small_block = [0x61]"
  "bytes_at 8 1 gap_block = [0x2E]" "bytes_at 40 1 gap_block = [0x61]"
  by code_simp+

lemma small_remove: "remove_from [0x61] small_block 0 None = Ok (Some (5, small_removed))"
proof -
  have "patch 4 (to_le 2 48) small_block = small_removed" by code_simp
  then show ?thesis
    by (simp add: remove_from.simps slice_r_def patch_r_def wadd_def del: One_nat_def)
qed

lemma gap_remove: "remove_from [0x61] gap_block 0 None = Ok (Some (5, gap_removed))"
proof -
  have "patch 4 (to_le 2 28) gap_block = gap_removed" by code_simp
  then show ?thesis
    by (simp add: remove_from.simps slice_r_def patch_r_def wadd_def del: One_nat_def)
qed

lemma valid_names: "valid_utf8 [0x61]" "valid_utf8 [0x62]"
  by code_simp+

theorem insert_adds_entry_witness:
  "\<exists>es1 es2. small_entries = es1 @ es2 \<and>
     parse_block_entries small_inserted [] = Ok (es1 @ \<lparr>de_inode_num = 7, de_name = [0x62], de_file_type = 1\<rparr> # es2)"
  using insert_adds_entry[OF small_block_parse small_insert] by (auto simp: valid_names)

theorem insert_then_lookup_witness:
  "lookup_from [0x62] small_inserted 0 = Ok (Some 7) \<and> lookup_from [0x61] small_inserted 0 = Ok (Some 5)"
proof -
  have "lookup_from [0x61] small_block 0 = Ok (Some 5)"
    using lookup_from_entries[of small_block 0 small_entries] small_block_parse
    by (auto simp: parse_block_entries_def small_entries_def)
  then show ?thesis
    using insert_then_lookup[OF small_block_parse small_insert] by (auto simp: valid_names small_entries_def)
qed

theorem remove_removes_entry_witness:
  "\<exists>es1 e es2. small_entries = es1 @ e # es2 \<and> de_inode_num e = 5 \<and>
     parse_block_entries small_removed [] = Ok (es1 @ es2)"
proof -
  have "live_chain small_block 0" by code_simp
  then show ?thesis
    using remove_removes_entry[OF small_block_parse small_remove] by (auto simp: valid_names)
qed

text \<open>
  A deleted record between the previous live record and the one removed: the previous
  record is extended by the removed one's length only, so the chain of records now ends
  inside a record, and the block cannot be listed any more.
\<close>

theorem remove_after_gap_breaks_block:
  "parse_block_entries gap_block [] = Ok small_entries \<and>
   remove_from [0x61] gap_block 0 None = Ok (Some (5, gap_removed)) \<and>
   parse_block_entries gap_removed [] = Err (DirInvalidRecLen 5)"
proof (intro conjI)
  show "parse_block_entries gap_block [] = Ok small_entries" unfolding small_entries_def by code_simp
  show "remove_from [0x61] gap_block 0 None = Ok (Some (5, gap_removed))" by (rule gap_remove)
  show "parse_block_entries gap_removed [] = Err (DirInvalidRecLen 5)" by code_simp
qed

end
