(* ===== verification/Lookup_Sound.thy ===== *)
theory Lookup_Sound
  imports Extent_Append Dir_Blocks Sample_Image
begin

text \<open>
  The searches of the read side against reference definitions: the descent of an extent tree
  against the list of all its leaves, the extent iterator against the lookup of each block,
  and the lookup of a name against the listing of the directory.
\<close>

section \<open>Ordered extent trees\<close>

definition leaf_within :: "nat \<Rightarrow> nat \<Rightarrow> extent_leaf \<Rightarrow> bool" where
  "leaf_within lo hi l \<longleftrightarrow> lo \<le> ee_block l \<and> ee_block l + leaf_blocks l \<le> hi"

text \<open>
  A node of depth \<open>d\<close> whose leaves, in order, are \<open>ls\<close> and map blocks from \<open>lo\<close> up to \<open>hi\<close>:
  every child of an index node is readable, is one level lower, and maps blocks from its key
  up to the key of the next child.
\<close>

inductive ordered_node ::
    "disk \<Rightarrow> superblock \<Rightarrow> nat \<Rightarrow> byte list \<Rightarrow> nat \<Rightarrow> nat \<Rightarrow> extent_leaf list \<Rightarrow> bool"
  and ordered_children ::
    "disk \<Rightarrow> superblock \<Rightarrow> nat \<Rightarrow> extent_idx list \<Rightarrow> nat \<Rightarrow> nat \<Rightarrow> extent_leaf list \<Rightarrow> bool"
  for dev sb where
  leaf_node: "check_node node = Ok h \<Longrightarrow> eh_depth h = 0 \<Longrightarrow> leaves_in_order (leaves_of node) \<Longrightarrow>
     \<forall>l \<in> set (leaves_of node). leaf_within lo hi l \<Longrightarrow>
     ordered_node dev sb 0 node lo hi (leaves_of node)"
| index_node: "check_node node = Ok h \<Longrightarrow> eh_depth h = Suc d \<Longrightarrow>
     ordered_children dev sb d (idxs_of node) lo hi ls \<Longrightarrow> ordered_node dev sb (Suc d) node lo hi ls"
| no_children: "lo \<le> hi \<Longrightarrow> ordered_children dev sb d [] lo hi []"
| first_child: "lo \<le> ei_block x \<Longrightarrow> extent_read_block dev sb (idx_child x) = Ok child \<Longrightarrow>
     mid = (case xs of [] \<Rightarrow> hi | y # _ \<Rightarrow> ei_block y) \<Longrightarrow> ei_block x \<le> mid \<Longrightarrow>
     ordered_node dev sb d child (ei_block x) mid ls \<Longrightarrow> ordered_children dev sb d xs mid hi ms \<Longrightarrow>
     ordered_children dev sb d (x # xs) lo hi (ls @ ms)"

inductive_cases ordered_nodeE: "ordered_node dev sb d node lo hi ls"

lemma children_bounds: "ordered_children dev sb d xs lo hi ls \<Longrightarrow> lo \<le> hi"
proof (induction xs arbitrary: lo ls)
  case Nil
  then show ?case by (auto elim: ordered_children.cases)
next
  case (Cons x xs)
  then obtain mid ms where "lo \<le> ei_block x" "ei_block x \<le> mid" "ordered_children dev sb d xs mid hi ms"
    by (auto elim: ordered_children.cases)
  then show ?case using Cons.IH by force
qed

lemma leaf_within_mono: "leaf_within lo hi l \<Longrightarrow> lo' \<le> lo \<Longrightarrow> hi \<le> hi' \<Longrightarrow> leaf_within lo' hi' l"
  by (simp add: leaf_within_def)

lemma ordered_within:
  "ordered_node dev sb d node lo hi ls \<Longrightarrow> \<forall>l \<in> set ls. leaf_within lo hi l"
  "ordered_children dev sb d xs lo hi ls \<Longrightarrow> \<forall>l \<in> set ls. leaf_within lo hi l"
proof (induction rule: ordered_node_ordered_children.inducts)
  case (first_child lo x child mid xs hi d ls ms)
  have "mid \<le> hi" using first_child(7) by (rule children_bounds)
  then show ?case
    using first_child by (auto intro: leaf_within_mono)
qed auto

lemma leaves_in_order_append:
  assumes "leaves_in_order ls" and "leaves_in_order ms"
    and "\<forall>l \<in> set ls. leaf_within lo mid l" and "\<forall>l \<in> set ms. leaf_within mid hi l"
  shows "leaves_in_order (ls @ ms)"
  using assms by (fastforce simp: leaves_in_order_def sorted_wrt_append leaf_within_def)

lemma ordered_leaves:
  "ordered_node dev sb d node lo hi ls \<Longrightarrow> leaves_in_order ls"
  "ordered_children dev sb d xs lo hi ls \<Longrightarrow> leaves_in_order ls"
proof (induction rule: ordered_node_ordered_children.inducts)
  case (first_child lo x child mid xs hi d ls ms)
  show ?case
    by (rule leaves_in_order_append[OF first_child(6,8) ordered_within(1)[OF first_child(5)]
          ordered_within(2)[OF first_child(7)]])
qed (auto simp: leaves_in_order_def)

lemma ordered_depth: "ordered_node dev sb d node lo hi ls \<Longrightarrow> d \<le> 5"
  by (auto elim!: ordered_nodeE simp: check_node_def Let_def MAX_DEPTH_def split: if_splits)

section \<open>The descent finds the leaf\<close>

lemma best_child_next: "ei_block y \<le> l \<Longrightarrow> best_child (y # ys) l best = best_child (y # ys) l best'"
  by simp

lemma lookup_within_after:
  "\<forall>x \<in> set ls. leaf_within lo hi x \<Longrightarrow> l < lo \<Longrightarrow> lookup_leaves ls l = Ok None"
  by (rule lookup_leaves_after) (auto simp: leaf_within_def)

lemma lookup_within_before:
  "\<forall>x \<in> set ls. leaf_within lo hi x \<Longrightarrow> hi \<le> l \<Longrightarrow> lookup_leaves ls l = Ok None"
  by (rule lookup_leaves_before) (auto simp: leaf_within_def)

text \<open>Following the child found, as the descent does.\<close>

definition descend ::
  "nat \<Rightarrow> disk \<Rightarrow> superblock \<Rightarrow> nat \<Rightarrow> nat option \<Rightarrow> (extent_error, nat option) res" where
  "descend fuel dev sb l best = (case best of
       None \<Rightarrow> Ok None
     | Some b \<Rightarrow> rbind (extent_read_block dev sb b) (\<lambda>c. lookup_in_node fuel dev sb c l))"

lemma lookup_ordered:
  "ordered_node dev sb d node lo hi ls \<Longrightarrow>
     (\<forall>fuel. d < fuel \<longrightarrow> lookup_in_node fuel dev sb node l = lookup_leaves ls l)"
  "ordered_children dev sb d xs lo hi ls \<Longrightarrow>
     (\<forall>fuel. d < fuel \<longrightarrow> descend fuel dev sb l (best_child xs l None) = lookup_leaves ls l)"
proof (induction rule: ordered_node_ordered_children.inducts)
  case (leaf_node node h lo hi)
  then show ?case by (auto simp: gr0_conv_Suc)
next
  case (index_node node h d lo hi ls)
  show ?case
  proof (intro allI impI)
    fix fuel assume "Suc d < fuel"
    then obtain k where k: "fuel = Suc k" "d < k" by (cases fuel) auto
    then have "descend k dev sb l (best_child (idxs_of node) l None) = lookup_leaves ls l"
      using index_node.IH by simp
    then show "lookup_in_node fuel dev sb node l = lookup_leaves ls l"
      using index_node.hyps by (simp add: k descend_def)
  qed
next
  case (no_children lo hi d)
  then show ?case by (simp add: descend_def)
next
  case (first_child lo x child mid xs hi d ls ms)
  note in_ls = ordered_within(1)[OF first_child(5)] and in_ms = ordered_within(2)[OF first_child(7)]
  show ?case
  proof (intro allI impI)
    fix fuel assume fuel: "d < fuel"
    consider (before) "l < ei_block x" | (here) "ei_block x \<le> l" "xs = [] \<or> l < mid"
      | (later) "ei_block x \<le> l" "xs \<noteq> []" "mid \<le> l" by fastforce
    then show "descend fuel dev sb l (best_child (x # xs) l None) = lookup_leaves (ls @ ms) l"
    proof cases
      case before
      then have "lookup_leaves ls l = Ok None" "lookup_leaves ms l = Ok None"
        using lookup_within_after[OF in_ls] lookup_within_after[OF in_ms] first_child(3) by auto
      then show ?thesis using before by (simp add: descend_def lookup_leaves_append)
    next
      case here
      have "best_child (x # xs) l None = Some (idx_child x)"
        using here first_child(2) by (cases xs) auto
      moreover have "lookup_leaves ms l = Ok None"
      proof (cases "xs = []")
        case True
        then have "ms = []" using first_child(7) by (auto elim: ordered_children.cases)
        then show ?thesis by simp
      qed (use here lookup_within_after[OF in_ms] in auto)
      ultimately show ?thesis
        using first_child(6) fuel first_child(4)
        by (simp add: descend_def lookup_leaves_append split: res.split option.split)
    next
      case later
      then obtain y ys where xs: "xs = y # ys" by (cases xs) auto
      then have "best_child (x # xs) l None = best_child xs l None"
        using later first_child(2) best_child_next[of y l ys] by simp
      moreover have "lookup_leaves ls l = Ok None" using lookup_within_before[OF in_ls later(3)] .
      ultimately show ?thesis using first_child(8) fuel by (simp add: lookup_leaves_append)
    qed
  qed
qed

lemma length_leaves_of [simp]: "length (leaves_of node) = eh_entries (header_of node)"
  by (simp add: leaves_of_def)

lemma check_node_header: "check_node node = Ok h \<Longrightarrow> h = header_of node"
  by (auto simp: check_node_def Let_def split: if_splits)

lemma collect_ordered:
  "ordered_node dev sb d node lo hi ls \<Longrightarrow>
     (\<forall>fuel out. d < fuel \<longrightarrow> length out + length ls \<le> MAX_TOTAL_LEAVES \<longrightarrow>
        collect_leaves fuel dev sb node out = Ok (out @ ls))"
  "ordered_children dev sb d xs lo hi ls \<Longrightarrow>
     (\<forall>fuel out. d < fuel \<longrightarrow> length out + length ls \<le> MAX_TOTAL_LEAVES \<longrightarrow>
        foldl (\<lambda>acc idx. rbind acc (\<lambda>o1. rbind (extent_read_block dev sb (idx_child idx)) (\<lambda>child_data.
            collect_leaves fuel dev sb child_data o1))) (Ok out) xs = Ok (out @ ls))"
proof (induction rule: ordered_node_ordered_children.inducts)
  case (leaf_node node h lo hi)
  show ?case
  proof (intro allI impI)
    fix fuel :: nat and out :: "extent_leaf list"
    assume "0 < fuel" and len: "length out + length (leaves_of node) \<le> MAX_TOTAL_LEAVES"
    then obtain k where "fuel = Suc k" by (cases fuel) auto
    moreover have "sat_add 64 (length out) (eh_entries h) \<le> MAX_TOTAL_LEAVES"
      using len check_node_header[OF leaf_node(1)] by (auto simp: sat_add_def MAX_TOTAL_LEAVES_def)
    ultimately show "collect_leaves fuel dev sb node out = Ok (out @ leaves_of node)"
      using leaf_node by simp
  qed
next
  case (index_node node h d lo hi ls)
  show ?case
  proof (intro allI impI)
    fix fuel and out :: "extent_leaf list"
    assume "Suc d < fuel" and len: "length out + length ls \<le> MAX_TOTAL_LEAVES"
    then obtain k where "fuel = Suc k" "d < k" by (cases fuel) auto
    then show "collect_leaves fuel dev sb node out = Ok (out @ ls)"
      using index_node len by simp
  qed
next
  case (first_child lo x child mid xs hi d ls ms)
  then show ?case by simp
qed simp

text \<open>The tree of an inode, with its leaves.\<close>

definition ordered_tree :: "disk \<Rightarrow> superblock \<Rightarrow> inode \<Rightarrow> extent_leaf list \<Rightarrow> bool" where
  "ordered_tree dev sb ino ls \<longleftrightarrow> uses_extents ino \<and> length ls \<le> MAX_TOTAL_LEAVES \<and>
     (\<exists>d hi. ordered_node dev sb d (ino_block_data ino) 0 hi ls)"

lemma ordered_tree_walks:
  assumes "ordered_tree dev sb ino ls"
  shows "lookup_block dev sb ino l = lookup_leaves ls l" and "collect_leaves_pub dev sb ino = Ok ls"
    and "leaves_in_order ls"
proof -
  obtain d hi where t: "ordered_node dev sb d (ino_block_data ino) 0 hi ls"
    and u: "uses_extents ino" "length ls \<le> MAX_TOTAL_LEAVES"
    using assms by (auto simp: ordered_tree_def)
  have "d < tree_fuel dev" using ordered_depth[OF t] by (simp add: tree_fuel_def)
  then show "lookup_block dev sb ino l = lookup_leaves ls l" "collect_leaves_pub dev sb ino = Ok ls"
    using lookup_ordered(1)[OF t] collect_ordered(1)[OF t] u
    by (simp_all add: lookup_block_def collect_leaves_pub_def)
  show "leaves_in_order ls" using ordered_leaves(1)[OF t] .
qed

lemma lookup_block_tree: "ordered_tree dev sb ino ls \<Longrightarrow> lookup_block dev sb ino l = Ok (resolve_lblock ls l)"
  using ordered_tree_walks lookup_leaves_resolve by simp

section \<open>The iterator\<close>

lemma leaves_in_order_ConsD:
  "leaves_in_order (l # ls) \<Longrightarrow> leaves_in_order ls \<and> (\<forall>m \<in> set ls. ee_block l + leaf_blocks l \<le> ee_block m)"
  by (simp add: leaves_in_order_def)

text \<open>One scan answers as a lookup among the leaves not yet passed; the leaves it passes lie before.\<close>

lemma iter_scan_lookup:
  "leaves_in_order ls \<Longrightarrow> iter_scan ls b = (r, k) \<Longrightarrow>
     r = lookup_leaves ls b \<and> k \<le> length ls \<and> (\<forall>x \<in> set (take k ls). ee_block x + leaf_blocks x \<le> b)"
proof (induction ls arbitrary: r k)
  case (Cons l ls)
  note rest = leaves_in_order_ConsD[OF Cons.prems(1)]
  consider (before) "b < ee_block l" | (inside) "ee_block l \<le> b" "b < ee_block l + leaf_blocks l"
    | (after) "ee_block l + leaf_blocks l \<le> b" by fastforce
  then show ?case
  proof cases
    case before
    then have "\<forall>m \<in> set (l # ls). b < ee_block m" using rest by fastforce
    from lookup_leaves_after[OF this] show ?thesis using Cons.prems(2) before by (simp add: Let_def)
  next
    case inside
    then have "\<forall>m \<in> set ls. b < ee_block m" using rest by fastforce
    from lookup_leaves_after[OF this] show ?thesis
      using Cons.prems(2) inside
      by (cases "checked_add 64 (leaf_start l) (b - ee_block l)") (auto simp: Let_def leaf_blocks_def split: if_splits)
  next
    case after
    obtain r' k' where s: "iter_scan ls b = (r', k')" by (cases "iter_scan ls b")
    have "lookup_leaves (l # ls) b = lookup_leaves ls b"
      using after by (auto simp: leaf_blocks_def split: if_splits)
    then show ?thesis
      using Cons.IH[OF conjunct1[OF rest] s] Cons.prems(2) after s
      by (auto simp: Let_def leaf_blocks_def split: if_splits)
  qed
qed simp

text \<open>What the calls of \<open>next\<close> return until the first \<open>None\<close>, for at most \<open>n\<close> calls.\<close>

primrec iter_run ::
  "nat \<Rightarrow> extent_iter \<Rightarrow> (extent_error, nat \<times> nat option) res list" where
  "iter_run 0 it = []"
| "iter_run (Suc n) it = (case extent_iter_next it of
       (None, _) \<Rightarrow> []
     | (Some r, it') \<Rightarrow> r # iter_run n it')"

definition iter_good :: "extent_iter \<Rightarrow> bool" where
  "iter_good it \<longleftrightarrow> leaves_in_order (it_leaves it) \<and> it_leaf_idx it \<le> length (it_leaves it) \<and>
     (\<forall>x \<in> set (take (it_leaf_idx it) (it_leaves it)). ee_block x + leaf_blocks x \<le> it_next_lblock it)"

lemma leaves_in_order_drop: "leaves_in_order ls \<Longrightarrow> leaves_in_order (drop i ls)"
  by (auto simp: leaves_in_order_def sorted_wrt_drop dest: in_set_dropD)

lemma iter_next_good:
  assumes "iter_good it" and "it_next_lblock it < it_total_lblocks it"
  shows "\<exists>it'. extent_iter_next it =
      (Some (Ok (it_next_lblock it, resolve_lblock (it_leaves it) (it_next_lblock it))), it') \<and> iter_good it' \<and>
      it_leaves it' = it_leaves it \<and> it_next_lblock it' = it_next_lblock it + 1 \<and>
      it_total_lblocks it' = it_total_lblocks it"
proof -
  let ?ls = "it_leaves it" and ?i = "it_leaf_idx it" and ?b = "it_next_lblock it"
  have ord: "leaves_in_order ?ls" and idx: "?i \<le> length ?ls"
    and passed: "\<forall>x \<in> set (take ?i ?ls). ee_block x + leaf_blocks x \<le> ?b"
    using assms(1) by (auto simp: iter_good_def)
  obtain r k where s: "iter_scan (drop ?i ?ls) ?b = (r, k)" by (cases "iter_scan (drop ?i ?ls) ?b")
  note scan = iter_scan_lookup[OF leaves_in_order_drop[OF ord] s]
  have "lookup_leaves ?ls ?b = lookup_leaves (drop ?i ?ls) ?b"
    using lookup_leaves_append[of "take ?i ?ls" "drop ?i ?ls" ?b] lookup_leaves_before[OF passed] by simp
  then have r: "r = Ok (resolve_lblock ?ls ?b)" using scan lookup_leaves_resolve[OF ord] by simp
  have "take (?i + k) ?ls = take ?i ?ls @ take k (drop ?i ?ls)" by (rule take_add)
  then have "iter_good (it\<lparr>it_leaf_idx := ?i + k, it_next_lblock := ?b + 1\<rparr>)"
    using ord idx passed scan by (fastforce simp: iter_good_def)
  then show ?thesis using assms(2) s r by (simp add: extent_iter_next_def)
qed

lemma iter_run_good:
  assumes "iter_good it"
  shows "it_next_lblock it + n = it_total_lblocks it \<Longrightarrow> iter_run (Suc n) it =
    map (\<lambda>b. Ok (b, resolve_lblock (it_leaves it) b)) [it_next_lblock it..<it_total_lblocks it]"
  using assms
proof (induction n arbitrary: it)
  case 0
  then show ?case by (simp add: extent_iter_next_def)
next
  case (Suc n)
  then obtain it' where it': "extent_iter_next it =
      (Some (Ok (it_next_lblock it, resolve_lblock (it_leaves it) (it_next_lblock it))), it')" "iter_good it'"
      "it_leaves it' = it_leaves it" "it_next_lblock it' = it_next_lblock it + 1"
      "it_total_lblocks it' = it_total_lblocks it"
    using iter_next_good[of it] by auto
  show ?case
    unfolding iter_run.simps(2)[of "Suc n"] it'(1)
    using Suc.IH[of it'] Suc.prems it' by (simp add: upt_conv_Cons)
qed

lemma sorted_leaves: "leaves_in_order ls \<Longrightarrow> sort_key ee_block ls = ls"
  by (rule sort_key_id_if_sorted) (auto simp: leaves_in_order_def sorted_map intro: sorted_wrt_mono_rel[rotated])

section \<open>Names\<close>

lemma foldl_rbind_OkD: "foldl (\<lambda>acc x. rbind acc (f x)) r xs = Ok y \<Longrightarrow> \<exists>x0. r = Ok x0"
proof (induction xs arbitrary: r)
  case (Cons x xs)
  from Cons.IH[of "rbind r (f x)"] Cons.prems show ?case by auto
qed simp

lemma lookup_blocks_listed:
  "foldl (\<lambda>acc lblock. rbind acc (\<lambda>entries.
        rbind (dir_block_at dev sb ino lblock) (\<lambda>blk.
          case blk of None \<Rightarrow> Ok entries | Some block_data \<Rightarrow> parse_block_entries block_data entries)))
      (Ok es0) ls = Ok es \<Longrightarrow>
   \<exists>more. es = es0 @ more \<and>
     lookup_blocks dev sb ino nm ls = Ok (map_option de_inode_num (find (\<lambda>e. de_name e = nm) more))"
proof (induction ls arbitrary: es0)
  case (Cons l ls)
  let ?step = "\<lambda>lblock entries. rbind (dir_block_at dev sb ino lblock) (\<lambda>blk.
          case blk of None \<Rightarrow> Ok entries | Some block_data \<Rightarrow> parse_block_entries block_data entries)"
  have run: "foldl (\<lambda>acc lblock. rbind acc (?step lblock)) (?step l es0) ls = Ok es"
    using Cons.prems by simp
  obtain es1 where es1: "?step l es0 = Ok es1" using foldl_rbind_OkD[OF run] by blast
  obtain more where more: "es = es1 @ more"
    "lookup_blocks dev sb ino nm ls = Ok (map_option de_inode_num (find (\<lambda>e. de_name e = nm) more))"
    using Cons.IH[of es1] run es1 by auto
  obtain blk where blk: "dir_block_at dev sb ino l = Ok blk" using es1 by auto
  show ?case
  proof (cases blk)
    case None
    then show ?thesis using more es1 blk by simp
  next
    case (Some b)
    then obtain here where here: "parse_entries_from b 0 = Ok here" "es1 = es0 @ here"
      using es1 blk by (auto simp: parse_block_entries_def)
    show ?thesis
      using more blk Some here(2) lookup_from_entries[OF here(1), of nm]
      by (intro exI[of _ "here @ more"]) (auto simp: find_append split: option.split)
  qed
qed simp

lemma lookup_in_listing:
  assumes "read_dir dev sb gdt ino = Ok es"
  shows "dir_lookup dev sb gdt ino nm = Ok (map_option de_inode_num (find (\<lambda>e. de_name e = nm) es))"
proof -
  obtain n where n: "dir_block_count sb ino = Ok n" using assms by (auto simp: read_dir_def)
  obtain more where "es = [] @ more"
    "lookup_blocks dev sb ino nm [0..<n] = Ok (map_option de_inode_num (find (\<lambda>e. de_name e = nm) more))"
    using lookup_blocks_listed[of dev sb ino "[]" "[0..<n]" es nm] assms by (auto simp: read_dir_def n)
  then show ?thesis by (simp add: dir_lookup_def n)
qed

text \<open>The entries a logical block of a directory holds: none where the directory has a hole.\<close>

definition block_lists :: "disk \<Rightarrow> superblock \<Rightarrow> inode \<Rightarrow> nat \<Rightarrow> dir_entry list \<Rightarrow> bool" where
  "block_lists dev sb ino lb es \<longleftrightarrow>
     rbind (dir_block_at dev sb ino lb) (\<lambda>blk. case blk of None \<Rightarrow> Ok [] | Some b \<Rightarrow> parse_entries_from b 0) = Ok es"

lemma foldl_rbind_start:
  "foldl (\<lambda>acc x. rbind acc (f x)) r xs = Ok y \<longleftrightarrow>
     (\<exists>x0. r = Ok x0 \<and> foldl (\<lambda>acc x. rbind acc (f x)) (Ok x0) xs = Ok y)"
  using foldl_rbind_OkD[of f r xs y] by auto

lemma listing_of_blocks:
  "foldl (\<lambda>acc lblock. rbind acc (\<lambda>entries. rbind (dir_block_at dev sb ino lblock) (\<lambda>blk.
        case blk of None \<Rightarrow> Ok entries | Some block_data \<Rightarrow> parse_block_entries block_data entries))) (Ok es0) ls = Ok es \<longleftrightarrow>
   (\<exists>ess. list_all2 (block_lists dev sb ino) ls ess \<and> es = es0 @ concat ess)"
proof (induction ls arbitrary: es0)
  case (Cons l ls)
  let ?step = "\<lambda>lblock entries. rbind (dir_block_at dev sb ino lblock) (\<lambda>blk.
          case blk of None \<Rightarrow> Ok entries | Some block_data \<Rightarrow> parse_block_entries block_data entries)"
  have one: "?step l es0 = Ok es1 \<longleftrightarrow> (\<exists>here. block_lists dev sb ino l here \<and> es1 = es0 @ here)" for es1
  proof (cases "dir_block_at dev sb ino l")
    case (Ok blk)
    then show ?thesis by (cases blk) (auto simp: block_lists_def parse_block_entries_def)
  qed (simp_all add: block_lists_def)
  have "foldl (\<lambda>acc lblock. rbind acc (?step lblock)) (?step l es0) ls = Ok es \<longleftrightarrow>
      (\<exists>es1. ?step l es0 = Ok es1 \<and> foldl (\<lambda>acc lblock. rbind acc (?step lblock)) (Ok es1) ls = Ok es)"
    by (rule foldl_rbind_start)
  also have "\<dots> \<longleftrightarrow> (\<exists>ess. list_all2 (block_lists dev sb ino) (l # ls) ess \<and> es = es0 @ concat ess)"
    unfolding Cons.IH one list_all2_Cons1
  proof (intro iffI; elim exE conjE)
    fix es1 ess here
    assume "block_lists dev sb ino l here" "list_all2 (block_lists dev sb ino) ls ess" "es1 = es0 @ here" "es = es1 @ concat ess"
    then show "\<exists>ess. (\<exists>z zs. ess = z # zs \<and> block_lists dev sb ino l z \<and> list_all2 (block_lists dev sb ino) ls zs) \<and>
        es = es0 @ concat ess"
      by (intro exI[of _ "here # ess"]) simp
  next
    fix ess z zs
    assume "es = es0 @ concat ess" "ess = z # zs" "block_lists dev sb ino l z" "list_all2 (block_lists dev sb ino) ls zs"
    then show "\<exists>es1. (\<exists>here. block_lists dev sb ino l here \<and> es1 = es0 @ here) \<and>
        (\<exists>ess. list_all2 (block_lists dev sb ino) ls ess \<and> es = es1 @ concat ess)"
      by (intro exI[of _ "es0 @ z"] conjI exI[of _ z] exI[of _ zs]) simp_all
  qed
  finally show ?case by simp
qed auto

lemma read_dir_blocks:
  assumes "dir_block_count sb ino = Ok n"
  shows "read_dir dev sb gdt ino = Ok es \<longleftrightarrow>
    (\<exists>ess. list_all2 (block_lists dev sb ino) [0..<n] ess \<and> es = concat ess)"
  using listing_of_blocks[of dev sb ino "[]" "[0..<n]" es] by (simp add: read_dir_def assms)

section \<open>Properties\<close>

text \<open>
  C10. On a tree whose nodes are ordered, the descent from the root for a block, the
  collection of all leaves and the binary search of the file reader agree: the descent
  returns what the binary search finds in the leaves collected, a hole where no extent
  covers the block, at every depth up to five.
\<close>

theorem tree_search_finds_leaf:
  assumes "ordered_tree dev sb ino ls"
  shows "collect_leaves_pub dev sb ino = Ok ls \<and>
    lookup_block dev sb ino lblock = Ok (resolve_lblock ls lblock)"
  using ordered_tree_walks(2)[OF assms] lookup_block_tree[OF assms] by simp

text \<open>An index root over the leaf node in block 2 of the device of one repeated node.\<close>

definition indexed_ino :: inode where
  "indexed_ino = (parse_raw (replicate 128 0))\<lparr>ino_size := 3000, ino_flags := 0x80000, ino_block_data := node_bytes 1\<rparr>"

definition indexed_leaf :: extent_leaf where
  "indexed_leaf = \<lparr>ee_block = 0, ee_len = 2, ee_start_hi = 0, ee_start_lo = 0\<rparr>"

lemma node_bytes_leaves: "leaves_of (node_bytes 0) = [indexed_leaf]"
proof -
  have "eh_entries (header_of (node_bytes 0)) = 1"
    using check_node_header[OF node_bytes_fields(1)[of 0]] by (metis extent_header.simps(2) le0)
  moreover have "leaf_at (node_bytes 0) 0 = indexed_leaf"
  proof -
    have "le_nat (bytes_at 0 2 (to_le 4 2)) = 2" "le_nat (bytes_at 2 2 (to_le 4 2)) = 0" by code_simp+
    then show ?thesis by (simp add: leaf_at_def node_bytes_def int_read_defs buffer_simps indexed_leaf_def)
  qed
  ultimately show ?thesis by (simp add: leaves_of_def)
qed

lemma indexed_tree: "ordered_tree (node_disk (node_bytes 0)) kib_sb indexed_ino [indexed_leaf]"
proof -
  let ?d = "node_disk (node_bytes 0)"
  have "leaves_in_order [indexed_leaf]" "leaf_within 0 2 indexed_leaf"
    by (simp_all add: leaves_in_order_def indexed_leaf_def leaf_within_def leaf_blocks_def)
  then have leaf: "ordered_node ?d kib_sb 0 (node_bytes 0) 0 2 [indexed_leaf]"
    using leaf_node[OF node_bytes_fields(1)[of 0], of 0 2 ?d kib_sb] by (simp add: node_bytes_leaves)
  have "ordered_children ?d kib_sb 0 (idxs_of (node_bytes 1)) 0 2 ([indexed_leaf] @ [])"
  proof -
    have idx: "idxs_of (node_bytes 1) = [\<lparr>ei_block = 0, ei_leaf_lo = 2, ei_leaf_hi = 0\<rparr>]"
      by (rule node_bytes_fields(2)) simp
    show ?thesis
      unfolding idx
      by (rule first_child[where mid = 2 and child = "node_bytes 0"])
         (simp_all add: node_bytes_child node_disk_read leaf no_children)
  qed
  then have "ordered_node ?d kib_sb (Suc 0) (node_bytes 1) 0 2 [indexed_leaf]"
    using index_node[OF node_bytes_fields(1)[of 1]] by simp
  then show ?thesis
    by (auto simp: ordered_tree_def indexed_ino_def uses_extents_def MAX_TOTAL_LEAVES_def)
qed

theorem tree_search_finds_leaf_witness:
  "lookup_block (node_disk (node_bytes 0)) kib_sb indexed_ino 1 = Ok (Some 1) \<and>
   lookup_block (node_disk (node_bytes 0)) kib_sb indexed_ino 2 = Ok None"
  using tree_search_finds_leaf[OF indexed_tree, of 1] tree_search_finds_leaf[OF indexed_tree, of 2]
  by (simp add: resolve_lblock_def partition_point_def indexed_leaf_def leaf_start_def hi_lo_def)

text \<open>
  C26. The extent iterator enumerates the file: over an ordered tree its calls return, for every
  logical block up to the size of the file in order, what a lookup of that block returns, and
  then end.
\<close>

theorem iterator_enumerates_file:
  assumes "ordered_tree dev sb ino ls" and "sb_ok sb" and "extent_iter_new dev sb ino = Ok it"
  shows "iter_run (Suc (div_ceil (ino_size ino) (sb_block_size sb))) it =
    map (\<lambda>b. map_res id (\<lambda>p. (b, p)) (lookup_block dev sb ino b)) [0..<div_ceil (ino_size ino) (sb_block_size sb)]"
proof -
  note walks = ordered_tree_walks[OF assms(1)]
  have it: "it = \<lparr>it_leaves = ls, it_leaf_idx = 0, it_next_lblock = 0,
      it_total_lblocks = div_ceil (ino_size ino) (sb_block_size sb)\<rparr>"
    using assms(3) sorted_leaves[OF walks(3)] by (auto simp: extent_iter_new_def walks(2))
  have "iter_good it" using walks(3) by (simp add: iter_good_def it)
  from iter_run_good[OF this, of "div_ceil (ino_size ino) (sb_block_size sb)"]
  show ?thesis by (simp add: it walks(1) lookup_leaves_resolve[OF walks(3)] del: iter_run.simps)
qed

theorem iterator_enumerates_file_witness:
  "\<exists>it. extent_iter_new (node_disk (node_bytes 0)) kib_sb indexed_ino = Ok it \<and>
     iter_run 4 it = [Ok (0, Some 0), Ok (1, Some 1), Ok (2, None)]"
proof -
  have "\<exists>it. extent_iter_new (node_disk (node_bytes 0)) kib_sb indexed_ino = Ok it"
    using ordered_tree_walks(2)[OF indexed_tree] by (simp add: extent_iter_new_def kib_sb_ok)
  then obtain it where it: "extent_iter_new (node_disk (node_bytes 0)) kib_sb indexed_ino = Ok it" by blast
  have n: "div_ceil (ino_size indexed_ino) (sb_block_size kib_sb) = 3"
    by (simp add: indexed_ino_def kib_sb_ok div_ceil_def)
  have look: "lookup_block (node_disk (node_bytes 0)) kib_sb indexed_ino b =
      Ok (resolve_lblock [indexed_leaf] b)" for b
    by (rule lookup_block_tree[OF indexed_tree])
  from iterator_enumerates_file[OF indexed_tree kib_sb_ok(1) it] it show ?thesis
    unfolding n look
    by (simp add: upt_rec resolve_lblock_def partition_point_def indexed_leaf_def leaf_start_def hi_lo_def del: iter_run.simps)
qed

text \<open>
  C25. Looking a name up in a directory is searching its listing: whenever the directory lists,
  the lookup returns the inode of the first entry with that name in the listing, and nothing
  when there is none.
\<close>

theorem lookup_searches_listing:
  assumes "read_dir dev sb gdt ino = Ok es"
  shows "dir_lookup dev sb gdt ino nm = Ok (map_option de_inode_num (find (\<lambda>e. de_name e = nm) es))"
  using assms by (rule lookup_in_listing)


lemma sample_root_entries:
  "parse_entries_from sample_root 0 = Ok [\<lparr>de_inode_num = 2, de_name = [0x2E], de_file_type = 2\<rparr>,
     \<lparr>de_inode_num = 2, de_name = [0x2E, 0x2E], de_file_type = 2\<rparr>,
     \<lparr>de_inode_num = 12, de_name = [0x61], de_file_type = 1\<rparr>]"
  by code_simp

lemma sample_read_dir:
  "read_dir sample_disk sample_sb [sample_gd] (sample_ino 0x41ED 1024 2 7 1) =
     Ok [\<lparr>de_inode_num = 2, de_name = [0x2E], de_file_type = 2\<rparr>,
     \<lparr>de_inode_num = 2, de_name = [0x2E, 0x2E], de_file_type = 2\<rparr>,
     \<lparr>de_inode_num = 12, de_name = [0x61], de_file_type = 1\<rparr>]"
proof -
  have "is_dir (sample_ino 0x41ED 1024 2 7 1)"
    by (simp add: is_dir_def inode_file_type_def sample_ino_fields S_IFMT_def S_IFREG_def S_IFDIR_def)
  then have count: "dir_block_count sample_sb (sample_ino 0x41ED 1024 2 7 1) = Ok 1"
    by (simp add: dir_block_count_def sample_ino_fields sample_sb_def div_ceil_def MAX_DIR_BLOCKS_def)
  have "dir_read_block sample_disk sample_sb 7 = Ok sample_root"
    by (simp add: dir_read_block_def sample_sb_def checked_mul_def read_sample_block sample_block_def)
  then have "dir_block_at sample_disk sample_sb (sample_ino 0x41ED 1024 2 7 1) 0 = Ok (Some sample_root)"
    using sample_ino_lookup[of 7 1 0] by (simp add: dir_block_at_def)
  then show ?thesis
    by (simp add: read_dir_def count parse_block_entries_def sample_root_entries upt_rec del: One_nat_def)
qed

theorem lookup_searches_listing_witness:
  "dir_lookup sample_disk sample_sb [sample_gd] (sample_ino 0x41ED 1024 2 7 1) [0x61] = Ok (Some 12)"
  using lookup_searches_listing[OF sample_read_dir, of "[0x61]"] by simp

end
