(* ===== verification/Touched.thy ===== *)
theory Touched
  imports Handlers Journal_Commit Inode_Alloc
begin

text \<open>
  Steps on a device without faults, by what they touch: the blocks a step writes and the blocks
  it pins. Such steps compose, and what they pinned is what the device holds once the
  transaction is committed.
\<close>

section \<open>Whole blocks of a device without faults\<close>

abbreviation run_of :: "superblock \<Rightarrow> disk \<Rightarrow> nat \<Rightarrow> byte list" where
  "run_of sb d q \<equiv> sector_run d (q * spb sb) (spb sb)"

lemma good_block_access:
  assumes "good_disk d" and "in_disk sb d q"
  shows "readable d (q * spb sb) (spb sb)" and "writable d (q * spb sb) (spb sb)"
  using assms by (simp_all add: readable_def writable_def good_disk_def in_disk_def)

lemma read_good_block:
  assumes "sb_ok sb" and "good_disk d" and "in_disk sb d q"
  shows "read_phys_block d sb q = Ok (run_of sb d q)"
    and "read_sectors d (wmul 64 q (spb sb)) (spb sb) = Ok (run_of sb d q)"
    and "length (run_of sb d q) = sb_block_size sb"
proof -
  have wf: "wf_disk d" using assms(2) by (simp add: good_disk_def)
  have n: "0 < spb sb" "sb_block_size sb = 512 * spb sb" using sb_ok_block_size(4,5)[OF assms(1)] by simp_all
  show "read_sectors d (wmul 64 q (spb sb)) (spb sb) = Ok (run_of sb d q)"
    unfolding block_place[OF assms(2,3)] read_sectors_Ok_iff[OF wf n(1)] using good_block_access(1)[OF assms(2,3)] by simp
  then show "read_phys_block d sb q = Ok (run_of sb d q)" by (simp add: read_phys_block_def)
  show "length (run_of sb d q) = sb_block_size sb"
    by (rule trans[OF length_sector_run[OF wf] n(2)[symmetric]]) (use assms(3) in \<open>simp add: in_disk_def\<close>)
qed

lemma in_disk_less:
  assumes "sb_ok sb" and "good_disk d" and "in_disk sb d q"
  shows "q < 2 ^ 64"
proof -
  have "(q + 1) * 1 \<le> (q + 1) * spb sb" using sb_ok_block_size(5)[OF assms(1)] by (intro mult_le_mono2) simp
  also have "\<dots> \<le> sector_count d" using assms(3) by (simp add: in_disk_def)
  also have "\<dots> < 2 ^ 64" using assms(2) by (simp add: good_disk_def wf_disk_def)
  finally show ?thesis by simp
qed

section \<open>What a step touches\<close>

text \<open>The step writes only the blocks \<open>W\<close> and pins only the blocks \<open>Q\<close>, each to a whole block.\<close>

definition touches :: "superblock \<Rightarrow> nat set \<Rightarrow> nat set \<Rightarrow> fs \<Rightarrow> fs \<Rightarrow> bool" where
  "touches sb W Q s s' \<longleftrightarrow> same_shape (f_dev s) (f_dev s') \<and> txn_ok (f_txn s') \<and>
     txn_revoked (f_txn s') = txn_revoked (f_txn s) \<and> txn_sequence (f_txn s') = txn_sequence (f_txn s) \<and>
     (\<forall>q. q \<notin> W \<longrightarrow> run_of sb (f_dev s') q = run_of sb (f_dev s) q) \<and>
     (\<forall>q. q \<notin> Q \<longrightarrow> pinned (f_txn s') q = pinned (f_txn s) q) \<and>
     (\<forall>q \<in> Q. \<exists>data. pinned (f_txn s') q = Some data \<and> length data = sb_block_size sb)"

lemma touches_trans:
  "touches sb W Q s s1 \<Longrightarrow> touches sb W' Q' s1 s2 \<Longrightarrow> touches sb (W \<union> W') (Q \<union> Q') s s2"
  using same_shape_trans[of "f_dev s" "f_dev s1" "f_dev s2"]
  unfolding touches_def by (metis Un_iff)

lemma touches_refl: "good_disk (f_dev s) \<Longrightarrow> txn_ok (f_txn s) \<Longrightarrow> touches sb {} {} s s"
  by (simp add: touches_def same_shape_def good_disk_def)

lemma touches_table: "good_disk (f_dev s) \<Longrightarrow> txn_ok (f_txn s) \<Longrightarrow> touches sb {} {} s (s\<lparr>f_gdt := g\<rparr>)"
  by (simp add: touches_def same_shape_def good_disk_def)

lemma touches_pin:
  "good_disk (f_dev s) \<Longrightarrow> txn_ok (f_txn s) \<Longrightarrow> length data = sb_block_size sb \<Longrightarrow>
   touches sb {} {q} s (s\<lparr>f_txn := pin_block q data (f_txn s)\<rparr>)"
  by (simp add: touches_def same_shape_def good_disk_def txn_ok_pin txn_pins.lookup_pin)
     (simp add: pin_block_def)

lemma touches_write:
  assumes "sb_ok sb" and "good_disk (f_dev s)" and "txn_ok (f_txn s)" and "in_disk sb (f_dev s) q"
    and "length new = sb_block_size sb"
  shows "touches sb {q} {q} s (s\<lparr>f_dev := store_run (q * spb sb) new (f_dev s), f_txn := pin_block q new (f_txn s)\<rparr>)"
    and "run_of sb (store_run (q * spb sb) new (f_dev s)) q = new"
proof -
  have wf: "wf_disk (f_dev s)" using assms(2) by (simp add: good_disk_def)
  have len: "length new = 512 * spb sb" using sb_ok_block_size(4)[OF assms(1)] assms(5) by simp
  show "run_of sb (store_run (q * spb sb) new (f_dev s)) q = new" by (rule sector_run_store_same[OF len])
  have "same_shape (f_dev s) (store_run (q * spb sb) new (f_dev s))"
    by (rule store_run_same_shape[OF wf len]) (use assms(4) in \<open>simp add: in_disk_def\<close>)
  moreover have "run_of sb (store_run (q * spb sb) new (f_dev s)) r = run_of sb (f_dev s) r" if "r \<noteq> q" for r
    by (rule sector_run_store_other) (use blocks_apart[of q r "spb sb"] that len in auto)
  moreover have "txn_revoked (pin_block q new (f_txn s)) = txn_revoked (f_txn s)"
    "txn_sequence (pin_block q new (f_txn s)) = txn_sequence (f_txn s)" by (simp_all add: pin_block_def)
  ultimately show "touches sb {q} {q} s (s\<lparr>f_dev := store_run (q * spb sb) new (f_dev s), f_txn := pin_block q new (f_txn s)\<rparr>)"
    using assms(3,5) by (simp add: touches_def txn_ok_pin txn_pins.lookup_pin[OF assms(3)])
qed

lemma touches_keeps:
  assumes "touches sb W Q s s'"
  shows "good_disk (f_dev s) \<Longrightarrow> good_disk (f_dev s')" and "txn_ok (f_txn s')"
    and "in_disk sb (f_dev s') q = in_disk sb (f_dev s) q"
    and "q \<notin> W \<Longrightarrow> run_of sb (f_dev s') q = run_of sb (f_dev s) q"
    and "q \<notin> Q \<Longrightarrow> pinned (f_txn s') q = pinned (f_txn s) q"
  using assms good_disk_shape in_disk_shape by (auto simp: touches_def)

lemma flush_run:
  assumes "sb_ok sb" and "good_disk (f_dev s)" and "in_disk sb (f_dev s) q" and "length data = sb_block_size sb"
  shows "flush_inode_bitmap sb q data s = (Ok (), s\<lparr>f_dev := store_run (q * spb sb) data (f_dev s), f_txn := pin_block q data (f_txn s)\<rparr>)"
    and "flush_inode_table sb q data s = (Ok (), s\<lparr>f_dev := store_run (q * spb sb) data (f_dev s), f_txn := pin_block q data (f_txn s)\<rparr>)"
proof -
  have wf: "wf_disk (f_dev s)" using assms(2) by (simp add: good_disk_def)
  have n: "0 < spb sb" "length data = 512 * spb sb" using sb_ok_block_size(4,5)[OF assms(1)] assms(4) by simp_all
  have "on_dev (write_sectors (wmul 64 q (spb sb)) data) s = (Ok (), s\<lparr>f_dev := store_run (q * spb sb) data (f_dev s)\<rparr>)"
    using write_sectors_Ok_iff[OF wf n(2,1), of "q * spb sb"] good_block_access(2)[OF assms(2,3)]
    by (simp add: on_dev_Ok_iff block_place[OF assms(2,3)])
  note w = sbind_Ok[of "smap_err AllocBlockDevice (on_dev (write_sectors (wmul 64 q (spb sb)) data))", unfolded smap_err_Ok_iff, OF this]
  have same: "resize0 (sb_block_size sb) data = data" using assms(4) by simp
  show "flush_inode_bitmap sb q data s = (Ok (), s\<lparr>f_dev := store_run (q * spb sb) data (f_dev s), f_txn := pin_block q data (f_txn s)\<rparr>)"
    "flush_inode_table sb q data s = (Ok (), s\<lparr>f_dev := store_run (q * spb sb) data (f_dev s), f_txn := pin_block q data (f_txn s)\<rparr>)"
    by (simp_all add: flush_inode_bitmap_def flush_inode_table_def Let_def same w pin_def)
qed

text \<open>A run of whole blocks set to zero.\<close>

lemma fill_zeros_run:
  fixes phys n :: nat
  assumes "sb_ok sb" and "good_disk (f_dev s)" and "txn_ok (f_txn s)" and "0 < n"
    and "\<forall>q \<in> {phys..<phys + n}. in_disk sb (f_dev s) q"
  shows "\<exists>d. write_sectors (wmul 64 phys (spb sb)) (replicate (n * sb_block_size sb) 0) (f_dev s) = (Ok (), d) \<and>
    touches sb {phys..<phys + n} {} s (s\<lparr>f_dev := d\<rparr>) \<and> (\<forall>q \<in> {phys..<phys + n}. run_of sb d q = replicate (sb_block_size sb) 0)"
proof -
  define k where "k = spb sb"
  define d where "d = store_run (phys * k) (replicate (n * sb_block_size sb) 0) (f_dev s)"
  have wf: "wf_disk (f_dev s)" using assms(2) by (simp add: good_disk_def)
  have k: "0 < k" "sb_block_size sb = 512 * k" using sb_ok_block_size(4,5)[OF assms(1)] by (simp_all add: k_def)
  have len: "length (replicate (n * sb_block_size sb) (0 :: byte)) = 512 * (n * k)" by (simp add: k(2))
  have "in_disk sb (f_dev s) (phys + (n - 1))" using assms(4,5) by simp
  moreover have "phys + (n - 1) + 1 = phys + n" using assms(4) by simp
  ultimately have last: "phys * k + n * k \<le> sector_count (f_dev s)"
    by (simp add: in_disk_def k_def[symmetric] add_mult_distrib[symmetric])
  have "in_disk sb (f_dev s) phys" using assms(4,5) by simp
  then have place: "wmul 64 phys k = phys * k" using block_place[OF assms(2)] by (simp add: k_def)
  have "writable (f_dev s) (phys * k) (n * k)" using last assms(2) by (simp add: writable_def good_disk_def)
  then have w: "write_sectors (phys * k) (replicate (n * sb_block_size sb) 0) (f_dev s) = (Ok (), d)"
    using write_sectors_Ok_iff[OF wf len, of "phys * k"] assms(4) k(1) by (simp add: d_def)
  have shape: "same_shape (f_dev s) d" unfolding d_def by (rule store_run_same_shape[OF wf len last])
  have other: "run_of sb d q = run_of sb (f_dev s) q" if "q \<notin> {phys..<phys + n}" for q
  proof -
    have "q + 1 \<le> phys \<or> phys + n \<le> q" using that by auto
    then have "(q + 1) * k \<le> phys * k \<or> (phys + n) * k \<le> q * k" using mult_le_mono1 by blast
    then show ?thesis unfolding d_def k_def[symmetric]
      by (intro sector_run_store_other) (auto simp: k(2) add_mult_distrib)
  qed
  have zeros: "run_of sb d q = replicate (sb_block_size sb) 0" if q: "q \<in> {phys..<phys + n}" for q
  proof -
    have "phys * k \<le> q * k" "(q + 1) * k \<le> (phys + n) * k" using q by (intro mult_le_mono1; simp)+
    moreover have "(q + 1) * k = q * k + k" "(phys + n) * k = phys * k + n * k" by (simp_all add: add_mult_distrib)
    ultimately have inside: "phys * k \<le> t" "t < phys * k + n * k" if "q * k \<le> t" "t < q * k + k" for t
      using that by linarith+
    have "sectors d t = replicate 512 0" if "q * k \<le> t" "t < q * k + k" for t
    proof -
      note t = inside[OF that]
      then have "512 * (t - phys * k) + 512 \<le> 512 * (n * k)" by linarith
      then have "min 512 (512 * (n * k) - 512 * (t - phys * k)) = 512" by linarith
      then show ?thesis using t by (simp add: d_def store_run_def k(2) mult.left_commute)
    qed
    then have "sector_run d (q * k) k = concat (map (\<lambda>_. replicate 512 0) [0..<k])"
      unfolding sector_run_def by (intro arg_cong[where f = concat] nth_equalityI) auto
    moreover have "concat (replicate j (replicate 512 (0 :: byte))) = replicate (512 * j) 0" for j
      by (induction j) (simp_all add: replicate_add)
    ultimately show ?thesis by (simp add: k_def[symmetric] k(2) map_replicate_const)
  qed
  show ?thesis
    using w place shape other zeros assms(3) by (intro exI[of _ d]) (simp add: touches_def k_def[symmetric])
qed

section \<open>Committing what was touched\<close>

lemma txn_keys:
  assumes "txn_ok t"
  shows "fst ` set (txn_blocks t) = {q. pinned t q \<noteq> None}" and "length (txn_blocks t) = card {q. pinned t q \<noteq> None}"
    and "(b, data) \<in> set (txn_blocks t) \<Longrightarrow> pinned t b = Some data"
proof -
  have d: "distinct (map fst (txn_blocks t))" using assms by (simp add: txn_ok_def)
  show keys: "fst ` set (txn_blocks t) = {q. pinned t q \<noteq> None}"
    by (simp add: pinned_map_of[OF assms] dom_map_of_conv_image_fst[symmetric] dom_def)
  show "length (txn_blocks t) = card {q. pinned t q \<noteq> None}"
    using distinct_card[OF d] keys by simp
  show "(b, data) \<in> set (txn_blocks t) \<Longrightarrow> pinned t b = Some data"
    using d by (simp add: pinned_map_of[OF assms])
qed

text \<open>A block that a transaction of the log \<open>jn\<close> can carry.\<close>

definition can_pin :: "superblock \<Rightarrow> journal \<Rightarrow> disk \<Rightarrow> nat \<Rightarrow> bool" where
  "can_pin sb jn d q \<longleftrightarrow> in_disk sb d q \<and> q \<notin> set (jn_blocks jn) \<and> tag_fits jn q"

lemma loggable_pins:
  assumes "txn_ok t" and "txn_revoked t = []" and "txn_sequence t < 2 ^ 32" and "{q. pinned t q \<noteq> None} = Q" and "Q \<noteq> {}"
    and "28 + 12 * card Q \<le> sb_block_size sb" and "card Q + 2 \<le> log_size jn" and "\<forall>q \<in> Q. can_pin sb jn d q"
    and "\<And>q data. pinned t q = Some data \<Longrightarrow> length data = sb_block_size sb"
  shows "loggable sb jn d t"
proof -
  note k = txn_keys[OF assms(1)]
  have "txn_blocks t \<noteq> []" using k(1) assms(4,5) by auto
  moreover have "can_pin sb jn d (fst e) \<and> length (snd e) = sb_block_size sb" if "e \<in> set (txn_blocks t)" for e
    using that k(1) k(3)[of "fst e" "snd e"] assms(4,8,9) by fastforce
  ultimately show ?thesis using assms k(2) by (auto simp: loggable_def can_pin_def)
qed

lemma touched_committed:
  assumes "log_ready sb jn \<lparr>js_w = w, js_dev = d\<rparr>" and "jw_next_sequence w < 2 ^ 32"
    and "touches sb W Q \<lparr>f_dev = d, f_gdt = gdt, f_txn = begin_transaction w\<rparr> s1" and "Q \<noteq> {}"
    and "28 + 12 * card Q \<le> sb_block_size sb" and "card Q + 2 \<le> log_size jn" and "\<forall>q \<in> Q. can_pin sb jn d q"
  shows "\<exists>js. commit (f_txn s1) \<lparr>js_w = w, js_dev = f_dev s1\<rparr> = (Ok (), js) \<and> same_shape d (js_dev js) \<and>
    (\<forall>q. can_pin sb jn d q \<longrightarrow> run_of sb (js_dev js) q =
       (case pinned (f_txn s1) q of Some data \<Rightarrow> data | None \<Rightarrow> run_of sb (f_dev s1) q))"
proof -
  note t = assms(3)[unfolded touches_def, simplified]
  have sb: "sb_ok sb" and good: "good_disk d" using assms(1) by (auto simp: log_ready_def)
  have shape: "same_shape d (f_dev s1)" using t by blast
  have new: "pinned (begin_transaction w) q = None" "txn_revoked (begin_transaction w) = []"
    "txn_sequence (begin_transaction w) = jw_next_sequence w" for q
    by (simp_all add: begin_transaction_def pinned_def txn_new_def)
  have log: "log_ready sb jn \<lparr>js_w = w, js_dev = f_dev s1\<rparr>"
    using assms(1) good_disk_shape[OF good shape] in_disk_shape[OF shape] by (simp add: log_ready_def)
  have keys: "{q. pinned (f_txn s1) q \<noteq> None} = Q" using t new(1) by fastforce
  have sized: "length data = sb_block_size sb" if "pinned (f_txn s1) q = Some data" for q data
  proof -
    have "q \<in> Q" using that keys by auto
    then show ?thesis using t that by fastforce
  qed
  have inside: "\<forall>q \<in> Q. can_pin sb jn (f_dev s1) q" using assms(7) in_disk_shape[OF shape] by (simp add: can_pin_def)
  have fields: "txn_ok (f_txn s1)" "txn_revoked (f_txn s1) = []" "txn_sequence (f_txn s1) < 2 ^ 32"
    using t new assms(2) by simp_all
  have "loggable sb jn (f_dev s1) (f_txn s1)"
    by (rule loggable_pins[OF fields keys assms(4-6) inside sized])
  then have "loggable sb jn (js_dev \<lparr>js_w = w, js_dev = f_dev s1\<rparr>) (f_txn s1)" by simp
  from commit_stores[OF log this] obtain js where c: "commit (f_txn s1) \<lparr>js_w = w, js_dev = f_dev s1\<rparr> = (Ok (), js)"
    "log_ready sb jn js" and reads: "\<And>q. in_disk sb (f_dev s1) q \<Longrightarrow> q \<notin> set (jn_blocks jn) \<Longrightarrow>
      read_phys_block (js_dev js) sb q =
      (case pinned (f_txn s1) q of Some data \<Rightarrow> Ok data | None \<Rightarrow> read_phys_block (f_dev s1) sb q)"
    by (auto cong: option.case_cong)
  have shape2: "same_shape d (js_dev js)" using preservesD[OF commit_unflushed _ c(1), of "f_dev s1"] same_shape_trans[OF shape] same_shape_refl[OF same_shape_wf[OF shape]]
    by (auto simp: unflushed_def)
  have good2: "good_disk (js_dev js)" using c(2) by (simp add: log_ready_def)
  have "run_of sb (js_dev js) q = (case pinned (f_txn s1) q of Some data \<Rightarrow> data | None \<Rightarrow> run_of sb (f_dev s1) q)"
    if "can_pin sb jn d q" for q
  proof -
    have in1: "in_disk sb (f_dev s1) q" "in_disk sb (js_dev js) q" "q \<notin> set (jn_blocks jn)"
      using that in_disk_shape[OF shape] in_disk_shape[OF shape2] by (auto simp: can_pin_def)
    show ?thesis
      using reads[OF in1(1,3)] read_good_block(1)[OF sb good2 in1(2)] read_good_block(1)[OF sb good_disk_shape[OF good shape] in1(1)]
      by (simp split: option.split_asm option.split)
  qed
  then show ?thesis using c(1) shape2 by blast
qed

end
