(* ===== verification/Write_Request.thy ===== *)
theory Write_Request
  imports Write_Sound Path_Sound Lookup_Sound Touched
begin

text \<open>
  A write request and the reads after it, from the callback down to the device: on a device
  without faults, a write over mapped blocks of a file whose extents are in its inode succeeds,
  its transaction is committed, and every later read returns the file with the new bytes in place.
\<close>

section \<open>Writing the blocks\<close>

text \<open>Every block is written and pinned with what the device then holds.\<close>

definition writes_blocks :: "superblock \<Rightarrow> nat set \<Rightarrow> fs \<Rightarrow> fs \<Rightarrow> bool" where
  "writes_blocks sb qs s s' \<longleftrightarrow> f_gdt s' = f_gdt s \<and> touches sb qs qs s s' \<and>
     (\<forall>q \<in> qs. pinned (f_txn s') q = Some (run_of sb (f_dev s') q))"

lemma writes_blocks_one:
  assumes "sb_ok sb" and "good_disk (f_dev s)" and "txn_ok (f_txn s)" and "in_disk sb (f_dev s) q"
    and "length new = sb_block_size sb"
  shows "writes_blocks sb {q} s (s\<lparr>f_dev := store_run (q * spb sb) new (f_dev s), f_txn := pin_block q new (f_txn s)\<rparr>)"
  using touches_write[OF assms] assms(3) by (simp add: writes_blocks_def txn_pins.lookup_pin)

lemma writes_blocks_trans:
  assumes "writes_blocks sb A s s1" and "writes_blocks sb B s1 s2" and "A \<inter> B = {}"
  shows "writes_blocks sb (A \<union> B) s s2"
  using assms touches_trans[of sb A A s s1 B B s2] touches_keeps(4,5)[of sb B B s1 s2]
  by (auto simp: writes_blocks_def disjoint_iff)

lemma write_blocks_run:
  fixes first last_lb :: nat
  assumes "sb_ok sb" and "offset + length data < 2 ^ 62" and "data \<noteq> []"
    and "first = offset div sb_block_size sb" and "last_lb = (offset + length data - 1) div sb_block_size sb"
    and "pm = map p [first..<Suc last_lb]"
  shows "good_disk (f_dev s) \<Longrightarrow> txn_ok (f_txn s) \<Longrightarrow> distinct lbs \<Longrightarrow> inj_on p (set lbs) \<Longrightarrow>
    \<forall>lb \<in> set lbs. first \<le> lb \<and> lb \<le> last_lb \<and> in_disk sb (f_dev s) (p lb) \<Longrightarrow>
    \<exists>s'. sfor lbs (write_one_block sb offset data first pm) s = (Ok (), s') \<and> writes_blocks sb (p ` set lbs) s s'"
proof (induction lbs arbitrary: s)
  case Nil
  then show ?case by (auto simp: writes_blocks_def touches_refl)
next
  case (Cons lb lbs)
  have wf: "wf_disk (f_dev s)" using Cons.prems(1) by (simp add: good_disk_def)
  have lb: "first \<le> lb" "lb \<le> last_lb" "in_disk sb (f_dev s) (p lb)" using Cons.prems(5) by auto
  have pm: "lb - first < length pm" "pm ! (lb - first) = p lb" using lb by (simp_all add: assms(6) del: upt_Suc)
  define new where "new = map (\<lambda>r. overlaid offset data (lb * sb_block_size sb + r)
      (run_of sb (f_dev s) (p lb) ! r)) [0..<sb_block_size sb]"
  define s1 where "s1 = s\<lparr>f_dev := store_run (p lb * spb sb) new (f_dev s), f_txn := pin_block (p lb) new (f_txn s)\<rparr>"
  have one: "write_one_block sb offset data first pm lb s = (Ok (), s1)"
    unfolding s1_def new_def
    by (rule write_one_block_spec(2)[OF assms(1) wf assms(2-5) lb(1,2) pm])
       (use lb(3) good_block_access[OF Cons.prems(1) lb(3)] in \<open>simp_all add: in_disk_def\<close>)
  have w1: "writes_blocks sb {p lb} s s1"
    unfolding s1_def by (rule writes_blocks_one[OF assms(1) Cons.prems(1,2) lb(3)]) (simp add: new_def)
  then have shape: "same_shape (f_dev s) (f_dev s1)" "txn_ok (f_txn s1)" by (auto simp: writes_blocks_def touches_def)
  have "\<exists>s'. sfor lbs (write_one_block sb offset data first pm) s1 = (Ok (), s') \<and> writes_blocks sb (p ` set lbs) s1 s'"
    by (rule Cons.IH[OF good_disk_shape[OF Cons.prems(1) shape(1)] shape(2)])
       (use Cons.prems(3-5) in_disk_shape[OF shape(1)] in \<open>auto simp: inj_on_def\<close>)
  then obtain s' where s': "sfor lbs (write_one_block sb offset data first pm) s1 = (Ok (), s')"
    "writes_blocks sb (p ` set lbs) s1 s'" by blast
  have "{p lb} \<inter> p ` set lbs = {}" using Cons.prems(3,4) by (auto simp: inj_on_def)
  from writes_blocks_trans[OF w1 s'(2) this] show ?case
    using one s'(1) by (intro exI[of _ s']) (simp add: sbind_Ok)
qed

text \<open>Once every block of the range has its place, the data are stored there.\<close>

lemma write_provisioned_run:
  fixes first last_lb :: nat
  assumes "sb_ok sb" and "good_disk (f_dev s)" and "txn_ok (f_txn s)" and "data \<noteq> []" and "offset + length data < 2 ^ 60"
    and "first = offset div sb_block_size sb" and "last_lb = (offset + length data - 1) div sb_block_size sb"
    and "\<forall>lb. first \<le> lb \<and> lb \<le> last_lb \<longrightarrow> in_disk sb (f_dev s) (p lb)" and "inj_on p {first..last_lb}"
    and "provision sb i ino first last_lb first (replicate (Suc last_lb - first) 0) s0 = (Ok (map p [first..<Suc last_lb]), s)"
  shows "\<exists>s'. write_file_data sb i ino offset data s0 = (Ok (), s') \<and> writes_blocks sb (p ` {first..last_lb}) s s' \<and>
    (\<forall>lb r. first \<le> lb \<and> lb \<le> last_lb \<and> r < sb_block_size sb \<longrightarrow>
       run_of sb (f_dev s') (p lb) ! r = overlaid offset data (lb * sb_block_size sb + r) (run_of sb (f_dev s) (p lb) ! r))"
proof -
  have wf: "wf_disk (f_dev s)" using assms(2) by (simp add: good_disk_def)
  have set: "set [first..<Suc last_lb] = {first..last_lb}" by auto
  have big: "offset + length data < 2 ^ 62" using assms(5) by simp
  have inj: "inj_on p (set [first..<Suc last_lb])" unfolding set by (rule assms(9))
  have inside: "\<forall>lb \<in> set [first..<Suc last_lb]. first \<le> lb \<and> lb \<le> last_lb \<and> in_disk sb (f_dev s) (p lb)"
    unfolding set using assms(8) by auto
  obtain s' where s': "sfor [first..<Suc last_lb] (write_one_block sb offset data first (map p [first..<Suc last_lb])) s = (Ok (), s')"
      and w: "writes_blocks sb (p ` {first..last_lb}) s s'"
    using write_blocks_run[OF assms(1) big assms(4,6,7) refl assms(2,3) distinct_upt inj inside] unfolding set by blast
  have "\<forall>lb \<in> set [first..<Suc last_lb]. run_of sb (f_dev s') (p lb) = map (\<lambda>r. overlaid offset data (lb * sb_block_size sb + r)
       (run_of sb (f_dev s) (p lb) ! r)) [0..<sb_block_size sb]"
    using write_blocks_spec[OF assms(1) big assms(4,6,7) refl s' wf distinct_upt inj] inside by (simp add: in_disk_def del: upt_Suc)
  then have "run_of sb (f_dev s') (p lb) ! r = overlaid offset data (lb * sb_block_size sb + r) (run_of sb (f_dev s) (p lb) ! r)"
    if "first \<le> lb" "lb \<le> last_lb" "r < sb_block_size sb" for lb r
    using that by (simp del: upt_Suc)
  then show ?thesis
    using write_file_data_provisioned[OF assms(1,4-7,10)] s' w by (intro exI[of _ s']) simp
qed

lemma write_file_data_run:
  fixes first last_lb :: nat
  assumes "sb_ok sb" and "good_disk (f_dev s)" and "txn_ok (f_txn s)" and "data \<noteq> []" and "offset + length data < 2 ^ 60"
    and "first = offset div sb_block_size sb" and "last_lb = (offset + length data - 1) div sb_block_size sb"
    and "\<forall>lb. first \<le> lb \<and> lb \<le> last_lb \<longrightarrow> lookup_block (f_dev s) sb ino lb = Ok (Some (p lb)) \<and> in_disk sb (f_dev s) (p lb)"
    and "inj_on p {first..last_lb}"
  shows "\<exists>s'. write_file_data sb i ino offset data s = (Ok (), s') \<and> writes_blocks sb (p ` {first..last_lb}) s s' \<and>
    (\<forall>lb r. first \<le> lb \<and> lb \<le> last_lb \<and> r < sb_block_size sb \<longrightarrow>
       run_of sb (f_dev s') (p lb) ! r = overlaid offset data (lb * sb_block_size sb + r) (run_of sb (f_dev s) (p lb) ! r))"
proof (rule write_provisioned_run[OF assms(1-7) _ assms(9)])
  show "\<forall>lb. first \<le> lb \<and> lb \<le> last_lb \<longrightarrow> in_disk sb (f_dev s) (p lb)" using assms(8) by blast
  have "first \<le> Suc last_lb" unfolding assms(6,7) using assms(4) by (intro le_SucI div_le_mono) (cases data; simp)
  moreover have "\<forall>lb. first \<le> lb \<and> lb \<le> last_lb \<longrightarrow> lookup_block (f_dev s) sb ino lb = Ok (Some (p lb)) \<and> p lb < 2 ^ 64"
    using assms(8) in_disk_less[OF assms(1,2)] by blast
  ultimately show "provision sb i ino first last_lb first (replicate (Suc last_lb - first) 0) s = (Ok (map p [first..<Suc last_lb]), s)"
    using provision_mapped[of first last_lb s sb ino p first "replicate (Suc last_lb - first) 0" i] by (simp del: upt_Suc replicate_Suc)
qed

section \<open>The inode and the superblock\<close>

lemma update_inode_run:
  assumes "sb_ok sb" and "inode_there sb gdt i"
    and "block_with_txn IwBlockDevice sb (inode_block sb gdt i) s = Ok blk" and "inode_off sb i + 128 \<le> length blk"
  shows "update_inode sb gdt i upd s = (Ok (), s\<lparr>f_txn := pin_block (inode_block sb gdt i)
      (patch (inode_off sb i) (apply_update upd (bytes_at (inode_off sb i) 128 blk)) blk) (f_txn s)\<rparr>)"
proof -
  note pos = inode_position[OF assms(1,2)]
  have ipg: "sb_inodes_per_group sb \<noteq> 0" "sb_block_size sb \<noteq> 0"
    using assms(1) sb_ok_block_size(1)[OF assms(1)] by (auto simp: sb_ok_def)
  have loc: "inode_location sb gdt i = Ok (gd_inode_table (gdt ! inode_group sb i),
      (i - 1) mod sb_inodes_per_group sb * sb_inode_size sb)"
    using assms(2) ipg pos(1)
    by (simp add: inode_location_def inode_there_def inode_group_def gdt_get_def rassert_def Let_def del: One_nat_def)
  have blk: "wadd 64 (gd_inode_table (gdt ! inode_group sb i))
      ((i - 1) mod sb_inodes_per_group sb div (sb_block_size sb div sb_inode_size sb)) = inode_block sb gdt i"
    using inode_block_wadd[OF assms(1,2)] by (simp add: inode_group_def)
  show ?thesis
    using assms(3,4) ipg
    by (simp add: update_inode_def loc pos(2,3) blk Let_def pin_def rassert_def del: One_nat_def)
qed

definition superblock_block :: "superblock \<Rightarrow> nat" where
  "superblock_block sb = fst (superblock_place sb)"

lemma sync_superblock_run:
  assumes "sb_ok sb" and "good_disk (f_dev s)" and "in_disk sb (f_dev s) (superblock_block sb)"
  shows "\<exists>data. length data = sb_block_size sb \<and>
    sync_superblock now sb s = (Ok (), s\<lparr>f_txn := pin_block (superblock_block sb) data (f_txn s)\<rparr>)"
proof -
  let ?q = "superblock_block sb"
  obtain off where place: "superblock_place sb = (?q, off)" by (cases "superblock_place sb") (simp add: superblock_block_def)
  have "off + 1024 \<le> sb_block_size sb"
    using assms(1) place by (auto simp: sb_ok_def superblock_place_def split: if_split_asm)
  moreover have "read_sectors (f_dev s) (?q * spb sb) (spb sb) = Ok (run_of sb (f_dev s) ?q)"
    using read_good_block(2)[OF assms] by (simp add: block_place[OF assms(2,3)])
  moreover define data where "data = store_superblock_counts off (total_free_blocks (f_gdt s)) (total_free_inodes (f_gdt s)) now
      (run_of sb (f_dev s) ?q)"
  ultimately have "length data = sb_block_size sb"
    "sync_superblock now sb s = (Ok (), s\<lparr>f_txn := pin_block ?q data (f_txn s)\<rparr>)"
    using read_good_block(3)[OF assms]
    by (simp_all add: sync_superblock_def update_superblock_def place smap_err_def pin_def store_superblock_counts_def)
  then show ?thesis by blast
qed

section \<open>The transaction of a write\<close>

text \<open>What the transaction of the write leaves behind, with \<open>P\<close> the blocks of the data.\<close>

definition write_done :: "nat \<Rightarrow> superblock \<Rightarrow> nat \<Rightarrow> nat \<Rightarrow> nat set \<Rightarrow> fs \<Rightarrow> fs \<Rightarrow> bool" where
  "write_done now sb i sz P s s' \<longleftrightarrow>
     (let ib = inode_block sb (f_gdt s) i; old = run_of sb (f_dev s) ib in
      f_gdt s' = f_gdt s \<and> touches sb P (P \<union> {ib, superblock_block sb}) s s' \<and>
      (\<forall>q \<in> P. pinned (f_txn s') q = Some (run_of sb (f_dev s') q)) \<and>
      pinned (f_txn s') ib = Some (patch (inode_off sb i)
        (apply_update (set_size_update now sz) (bytes_at (inode_off sb i) 128 old)) old))"

lemma write_txn_after:
  assumes "sb_ok sb" and "write_file_data sb i ino offset data s = (Ok (), s1)"
    and "good_disk (f_dev s1)" and "txn_ok (f_txn s1)" and "inode_there sb (f_gdt s1) i" and "ib = inode_block sb (f_gdt s1) i"
    and "block_with_txn IwBlockDevice sb ib s1 = Ok blk" and "length blk = sb_block_size sb"
    and "in_disk sb (f_dev s1) (superblock_block sb)" and "ib \<noteq> superblock_block sb"
  shows "\<exists>s'. write_txn now sb i ino offset data sz s = (Ok (), s') \<and> f_dev s' = f_dev s1 \<and> f_gdt s' = f_gdt s1 \<and>
    touches sb {} {ib, superblock_block sb} s1 s' \<and>
    pinned (f_txn s') ib = Some (patch (inode_off sb i) (apply_update (set_size_update now sz) (bytes_at (inode_off sb i) 128 blk)) blk)"
proof -
  let ?q = "superblock_block sb" and ?off = "inode_off sb i"
  define new where "new = patch ?off (apply_update (set_size_update now sz) (bytes_at ?off 128 blk)) blk"
  define s2 where "s2 = s1\<lparr>f_txn := pin_block ib new (f_txn s1)\<rparr>"
  have fit: "?off + 128 \<le> length blk"
    using inode_off_fits[OF assms(1), of i] sb_ok_inode_size(1)[OF assms(1)] assms(8) by simp
  have upd: "update_inode sb (f_gdt s1) i (set_size_update now sz) s1 = (Ok (), s2)"
    using update_inode_run[OF assms(1,5), folded assms(6), OF assms(7) fit] unfolding s2_def new_def by blast
  have "length new = sb_block_size sb" using fit assms(8) by (simp add: new_def)
  note t2 = touches_pin[OF assms(3,4) this, of ib, folded s2_def]
  have good2: "good_disk (f_dev s2)" "txn_ok (f_txn s2)" "in_disk sb (f_dev s2) ?q"
    using touches_keeps(1-3)[OF t2] assms(3,9) by auto
  obtain d where d: "length d = sb_block_size sb"
    "sync_superblock now sb s2 = (Ok (), s2\<lparr>f_txn := pin_block ?q d (f_txn s2)\<rparr>)"
    using sync_superblock_run[OF assms(1) good2(1,3), of now] by blast
  define s3 where "s3 = s2\<lparr>f_txn := pin_block ?q d (f_txn s2)\<rparr>"
  have "write_txn now sb i ino offset data sz s = (Ok (), s3)"
    using assms(2) upd d(2) by (simp add: write_txn_def sbind_Ok smap_err_def s3_def)
  moreover have "touches sb {} {ib, ?q} s1 s3"
    using touches_trans[OF t2 touches_pin[OF good2(1,2) d(1), of ?q, folded s3_def]] by (simp add: insert_commute)
  moreover have "pinned (f_txn s3) ib = Some new"
    using assms(4,10) good2(2) by (simp add: s3_def s2_def txn_pins.lookup_pin)
  ultimately show ?thesis unfolding new_def by (auto simp: s3_def s2_def)
qed

lemma write_txn_run:
  assumes "sb_ok sb" and "good_disk (f_dev s)" and "txn_ok (f_txn s)"
    and "write_file_data sb i ino offset data s = (Ok (), s1)" and "writes_blocks sb P s s1"
    and "inode_there sb (f_gdt s) i" and "ib = inode_block sb (f_gdt s) i" and "in_disk sb (f_dev s) ib"
    and "in_disk sb (f_dev s) (superblock_block sb)" and "ib \<notin> P" and "superblock_block sb \<notin> P"
    and "ib \<noteq> superblock_block sb" and "pinned (f_txn s) ib = None"
  shows "\<exists>s'. write_txn now sb i ino offset data sz s = (Ok (), s') \<and> f_dev s' = f_dev s1 \<and> write_done now sb i sz P s s'"
proof -
  note w = assms(5)[unfolded writes_blocks_def]
  note t1 = conjunct1[OF conjunct2[OF w]]
  note k = touches_keeps[OF t1]
  define old where "old = run_of sb (f_dev s) ib"
  have good1: "good_disk (f_dev s1)" "in_disk sb (f_dev s1) ib" "in_disk sb (f_dev s1) (superblock_block sb)"
    using k(1)[OF assms(2)] k(3) assms(8,9) by auto
  have there: "inode_there sb (f_gdt s1) i" "ib = inode_block sb (f_gdt s1) i" using w assms(6,7) by auto
  have "run_of sb (f_dev s1) ib = old" "pinned (f_txn s1) ib = None" using k(4,5)[OF assms(10)] assms(13) by (simp_all add: old_def)
  then have blk: "block_with_txn IwBlockDevice sb ib s1 = Ok old" "length old = sb_block_size sb"
    using read_good_block(2,3)[OF assms(1) good1(1,2)] by (simp_all add: block_with_txn_def)
  obtain s2 where s2: "write_txn now sb i ino offset data sz s = (Ok (), s2)" "f_dev s2 = f_dev s1" "f_gdt s2 = f_gdt s1"
    "touches sb {} {ib, superblock_block sb} s1 s2"
    "pinned (f_txn s2) ib = Some (patch (inode_off sb i) (apply_update (set_size_update now sz) (bytes_at (inode_off sb i) 128 old)) old)"
    using write_txn_after[OF assms(1,4) good1(1) k(2) there blk good1(3) assms(12)] by blast
  have "pinned (f_txn s2) q = Some (run_of sb (f_dev s2) q)" if "q \<in> P" for q
  proof -
    have "q \<notin> {ib, superblock_block sb}" using that assms(10,11) by auto
    then show ?thesis using touches_keeps(5)[OF s2(4)] w that s2(2) by simp
  qed
  moreover have "touches sb P (P \<union> {ib, superblock_block sb}) s s2" using touches_trans[OF t1 s2(4)] by simp
  ultimately have "write_done now sb i sz P s s2"
    using w s2(3,5) assms(7) by (simp add: write_done_def Let_def old_def)
  with s2(1,2) show ?thesis by blast
qed

section \<open>Files whose extents are in the inode\<close>

text \<open>A root node of depth zero: such a tree maps blocks whatever the device holds.\<close>

definition flat_tree :: "inode \<Rightarrow> extent_leaf list \<Rightarrow> bool" where
  "flat_tree ino ls \<longleftrightarrow> uses_extents ino \<and> length (ino_block_data ino) = 60 \<and>
     (\<exists>h. check_node (ino_block_data ino) = Ok h \<and> eh_depth h = 0) \<and>
     ls = leaves_of (ino_block_data ino) \<and> leaves_in_order ls"

definition flat_file :: "inode \<Rightarrow> extent_leaf list \<Rightarrow> bool" where
  "flat_file ino ls \<longleftrightarrow> is_file ino \<and> flat_tree ino ls"

lemma flat_tree_lookup:
  assumes "flat_tree ino ls"
  shows "lookup_block d sb ino l = Ok (resolve_lblock ls l)"
proof -
  obtain k where fuel: "tree_fuel d = Suc k" by (simp add: tree_fuel_def)
  show ?thesis
    using assms lookup_leaves_resolve[of ls l] by (auto simp: flat_tree_def lookup_block_def fuel)
qed

lemma flat_reader:
  assumes "flat_file ino ls"
  shows "file_reader_new d sb ino = Ok \<lparr>fr_inode = ino, fr_position = 0, fr_leaves = ls\<rparr>"
proof -
  obtain k where fuel: "tree_fuel d = Suc k" by (simp add: tree_fuel_def)
  obtain h where h: "check_node (ino_block_data ino) = Ok h" "eh_depth h = 0" using assms by (auto simp: flat_file_def flat_tree_def)
  then have "h = header_of (ino_block_data ino)" by (auto simp: check_node_def Let_def split: if_split_asm)
  moreover have "eh_entries h * 12 \<le> 60"
    using h(1) assms le16_less[of 2 "ino_block_data ino"]
    by (auto simp: check_node_def Let_def flat_file_def flat_tree_def sat_add_def sat_mul_def header_of_def split: if_split_asm)
  moreover have "sort_key ee_block ls = ls" "ls = leaves_of (ino_block_data ino)" "is_file ino" "uses_extents ino"
    using assms by (auto simp: flat_file_def flat_tree_def sorted_leaves)
  ultimately show ?thesis
    using h by (simp add: file_reader_new_def collect_leaves_pub_def fuel sat_add_def MAX_TOTAL_LEAVES_def)
qed

lemma flat_file_updated: "flat_file ino ls \<Longrightarrow> flat_file (updated (set_size_update now sz) ino) ls"
proof -
  let ?new = "updated (set_size_update now sz) ino"
  have "ino_mode ?new = ino_mode ino" "ino_flags ?new = ino_flags ino" "ino_block_data ?new = ino_block_data ino"
    by (simp_all add: updated_def set_size_update_def no_update_def)
  then show "flat_file ino ls \<Longrightarrow> flat_file ?new ls"
    by (auto simp: flat_file_def flat_tree_def is_file_def inode_file_type_def uses_extents_def)
qed

text \<open>
  The blocks of the file lie on the device, can be logged, are not the block of the inode or
  of the superblock, and no block belongs to two places of the file.
\<close>

definition file_apart :: "superblock \<Rightarrow> journal \<Rightarrow> disk \<Rightarrow> nat \<Rightarrow> extent_leaf list \<Rightarrow> bool" where
  "file_apart sb jn d ib ls \<longleftrightarrow> (\<forall>lb q. resolve_lblock ls lb = Some q \<longrightarrow> can_pin sb jn d q \<and> q \<noteq> ib \<and>
     q \<noteq> superblock_block sb \<and> (\<forall>lb'. resolve_lblock ls lb' = Some q \<longrightarrow> lb' = lb))"

text \<open>The bytes of the file after the write, seen by its readers.\<close>

lemma file_byte_overlaid:
  fixes first last_lb :: nat
  assumes "sb_ok sb" and "first = offset div sb_block_size sb" and "last_lb = (offset + length data - 1) div sb_block_size sb"
    and "\<And>lb. first \<le> lb \<Longrightarrow> lb \<le> last_lb \<Longrightarrow> resolve_lblock ls lb \<noteq> None"
    and "\<And>lb q r. resolve_lblock ls lb = Some q \<Longrightarrow> first \<le> lb \<Longrightarrow> lb \<le> last_lb \<Longrightarrow> r < sb_block_size sb \<Longrightarrow>
      run_of sb d' q ! r = overlaid offset data (lb * sb_block_size sb + r) (run_of sb d q ! r)"
    and "\<And>lb q. resolve_lblock ls lb = Some q \<Longrightarrow> \<not> (first \<le> lb \<and> lb \<le> last_lb) \<Longrightarrow> run_of sb d' q = run_of sb d q"
  shows "file_byte d' sb ls k = overlaid offset data k (file_byte d sb ls k)"
proof -
  define lb r where "lb = k div sb_block_size sb" and "r = k mod sb_block_size sb"
  have k: "k = lb * sb_block_size sb + r" "r < sb_block_size sb"
    using sb_ok_block_size(1)[OF assms(1)] by (simp_all add: lb_def r_def)
  have inside: "first \<le> lb \<and> lb \<le> last_lb" if "offset \<le> k \<and> k < offset + length data"
    unfolding assms(2,3) lb_def using that by (intro conjI div_le_mono) linarith+
  show ?thesis
  proof (cases "resolve_lblock ls lb")
    case None
    then have "\<not> (first \<le> lb \<and> lb \<le> last_lb)" using assms(4) by blast
    then have "\<not> (offset \<le> k \<and> k < offset + length data)" using inside by blast
    then show ?thesis using None by (auto simp: file_byte_def lb_def[symmetric] overlaid_def)
  next
    case (Some q)
    have now: "file_byte e sb ls k = run_of sb e q ! r" for e
      by (simp add: file_byte_def lb_def[symmetric] r_def[symmetric] Some)
    show ?thesis
    proof (cases "first \<le> lb \<and> lb \<le> last_lb")
      case True
      then show ?thesis using assms(5)[OF Some _ _ k(2)] by (simp add: now k(1)[symmetric])
    next
      case False
      then have "file_byte d' sb ls k = file_byte d sb ls k" using assms(6)[OF Some False] by (simp add: now)
      moreover have "\<not> (offset \<le> k \<and> k < offset + length data)" using inside False by blast
      ultimately show ?thesis by (auto simp: overlaid_def)
    qed
  qed
qed

section \<open>From the write to the committed device\<close>

text \<open>
  A volume on a device without faults, its log, and a file of it whose extents are in its
  inode; and a range of the file whose blocks are all mapped and fit one transaction.
\<close>

definition write_ready ::
  "superblock \<Rightarrow> journal \<Rightarrow> disk \<Rightarrow> gdt \<Rightarrow> journal_writer \<Rightarrow> nat \<Rightarrow> inode \<Rightarrow> extent_leaf list \<Rightarrow> bool" where
  "write_ready sb jn d gdt w i ino ls \<longleftrightarrow> log_ready sb jn \<lparr>js_w = w, js_dev = d\<rparr> \<and> jw_next_sequence w < 2 ^ 32 \<and>
     inode_there sb gdt i \<and> read_inode d sb gdt i = Ok ino \<and> flat_file ino ls \<and>
     file_apart sb jn d (inode_block sb gdt i) ls \<and> can_pin sb jn d (inode_block sb gdt i) \<and>
     can_pin sb jn d (superblock_block sb) \<and> inode_block sb gdt i \<noteq> superblock_block sb"

definition write_fits :: "superblock \<Rightarrow> journal \<Rightarrow> extent_leaf list \<Rightarrow> nat \<Rightarrow> nat \<Rightarrow> bool" where
  "write_fits sb jn ls offset n \<longleftrightarrow>
     (let first = offset div sb_block_size sb; last_lb = (offset + n - 1) div sb_block_size sb in
      0 < n \<and> offset + n < 2 ^ 60 \<and> (\<forall>lb. first \<le> lb \<and> lb \<le> last_lb \<longrightarrow> resolve_lblock ls lb \<noteq> None) \<and>
      28 + 12 * (last_lb - first + 3) \<le> sb_block_size sb \<and> last_lb - first + 5 \<le> log_size jn)"

lemma write_txn_ready:
  fixes offset :: nat
  assumes "write_ready sb jn d gdt w i ino ls" and "write_fits sb jn ls offset (length data)"
  defines "s \<equiv> \<lparr>f_dev = d, f_gdt = gdt, f_txn = begin_transaction w\<rparr>"
    and "P \<equiv> (\<lambda>lb. the (resolve_lblock ls lb)) ` {offset div sb_block_size sb..(offset + length data - 1) div sb_block_size sb}"
  shows "\<exists>s1. write_txn now sb i ino offset data sz s = (Ok (), s1) \<and> write_done now sb i sz P s s1 \<and>
    (\<forall>k. file_byte (f_dev s1) sb ls k = overlaid offset data k (file_byte d sb ls k))"
proof -
  define first last_lb p where "first = offset div sb_block_size sb"
    and "last_lb = (offset + length data - 1) div sb_block_size sb" and "p = (\<lambda>lb. the (resolve_lblock ls lb))"
  note r = assms(1)[unfolded write_ready_def]
  note f = assms(2)[unfolded write_fits_def Let_def, folded first_def last_lb_def]
  have sb: "sb_ok sb" and good: "good_disk d" using r by (auto simp: log_ready_def)
  have fields: "f_dev s = d" "f_gdt s = gdt" "txn_ok (f_txn s)" "pinned (f_txn s) b = None" for b
    by (simp_all add: s_def begin_transaction_def txn_ok_def pinned_def txn_new_def)
  have P: "P = p ` {first..last_lb}" by (simp add: P_def p_def first_def last_lb_def)
  have at: "resolve_lblock ls lb = Some (p lb)" if "first \<le> lb" "lb \<le> last_lb" for lb
    using f that by (auto simp: p_def)
  have apart: "can_pin sb jn d (p lb)" "p lb \<noteq> inode_block sb gdt i" "p lb \<noteq> superblock_block sb"
      "\<And>m. resolve_lblock ls m = Some (p lb) \<Longrightarrow> m = lb" if "first \<le> lb" "lb \<le> last_lb" for lb
    using r at[OF that] unfolding file_apart_def by blast+
  have inj: "inj_on p {first..last_lb}" using apart(4) at by (fastforce simp: inj_on_def)
  have ne: "data \<noteq> []" and big: "offset + length data < 2 ^ 60" using f by auto
  have mapped: "\<forall>lb. first \<le> lb \<and> lb \<le> last_lb \<longrightarrow>
      lookup_block (f_dev s) sb ino lb = Ok (Some (p lb)) \<and> in_disk sb (f_dev s) (p lb)"
    using r at apart(1) flat_tree_lookup[of ino ls] by (simp add: flat_file_def fields can_pin_def)
  have "good_disk (f_dev s)" using good by (simp add: fields)
  then obtain s1 where w: "write_file_data sb i ino offset data s = (Ok (), s1)" "writes_blocks sb P s s1"
    and inplace: "\<And>lb r. first \<le> lb \<Longrightarrow> lb \<le> last_lb \<Longrightarrow> r < sb_block_size sb \<Longrightarrow>
      run_of sb (f_dev s1) (p lb) ! r = overlaid offset data (lb * sb_block_size sb + r) (run_of sb d (p lb) ! r)"
    using write_file_data_run[OF sb _ fields(3) ne big first_def last_lb_def mapped inj] unfolding P fields by blast
  have "q \<notin> P" if "\<And>lb. first \<le> lb \<Longrightarrow> lb \<le> last_lb \<Longrightarrow> p lb \<noteq> q" for q
  proof
    assume "q \<in> P"
    then obtain lb where "first \<le> lb" "lb \<le> last_lb" "q = p lb" unfolding P by auto
    then show False using that[of lb] by simp
  qed
  note out = this[OF apart(2)] this[OF apart(3)]
  from write_txn_run[OF sb _ fields(3) w] obtain s2 where
    s2: "write_txn now sb i ino offset data sz s = (Ok (), s2)" "f_dev s2 = f_dev s1" "write_done now sb i sz P s s2"
    using r good out unfolding fields can_pin_def by blast
  have "file_byte (f_dev s2) sb ls k = overlaid offset data k (file_byte d sb ls k)" for k
  proof (rule file_byte_overlaid[OF sb first_def last_lb_def])
    show "resolve_lblock ls lb \<noteq> None" if "first \<le> lb" "lb \<le> last_lb" for lb using at[OF that] by simp
    show "run_of sb (f_dev s2) q ! r = overlaid offset data (lb * sb_block_size sb + r) (run_of sb d q ! r)"
      if "resolve_lblock ls lb = Some q" "first \<le> lb" "lb \<le> last_lb" "r < sb_block_size sb" for lb q r
      using inplace[OF that(2-4)] that(1) at[OF that(2,3)] by (simp add: s2(2))
    show "run_of sb (f_dev s2) q = run_of sb d q"
      if q: "resolve_lblock ls lb = Some q" "\<not> (first \<le> lb \<and> lb \<le> last_lb)" for lb q
    proof -
      have "q \<notin> P" unfolding P using q apart(4) by fastforce
      then show ?thesis using w(2) touches_keeps(4)[of sb P P s s1 q] by (simp add: writes_blocks_def s2(2) fields)
    qed
  qed
  then show ?thesis using s2 by blast
qed

lemma write_committed:
  fixes offset :: nat
  assumes "write_ready sb jn d gdt w i ino ls" and "write_fits sb jn ls offset n" and "now < 2 ^ 32" and "sz < 2 ^ 64"
  defines "s \<equiv> \<lparr>f_dev = d, f_gdt = gdt, f_txn = begin_transaction w\<rparr>"
    and "P \<equiv> (\<lambda>lb. the (resolve_lblock ls lb)) ` {offset div sb_block_size sb..(offset + n - 1) div sb_block_size sb}"
  assumes "write_done now sb i sz P s s1"
  shows "\<exists>js. commit (f_txn s1) \<lparr>js_w = w, js_dev = f_dev s1\<rparr> = (Ok (), js) \<and> same_shape d (js_dev js) \<and>
    read_inode (js_dev js) sb gdt i = Ok (updated (set_size_update now sz) ino) \<and>
    (\<forall>k. file_byte (js_dev js) sb ls k = file_byte (f_dev s1) sb ls k)"
proof -
  define first last_lb where "first = offset div sb_block_size sb" and "last_lb = (offset + n - 1) div sb_block_size sb"
  define ib where "ib = inode_block sb gdt i"
  define Q where "Q = P \<union> {ib, superblock_block sb}"
  note r = assms(1)[unfolded write_ready_def, folded ib_def]
  note f = assms(2)[unfolded write_fits_def Let_def, folded first_def last_lb_def]
  note dn = assms(7)[unfolded write_done_def Let_def s_def fs.simps, folded ib_def, folded Q_def]
  have sb: "sb_ok sb" and good: "good_disk d" using r by (auto simp: log_ready_def)
  have P: "P = (\<lambda>lb. the (resolve_lblock ls lb)) ` {first..last_lb}" by (simp add: P_def first_def last_lb_def)
  have pin: "\<forall>q \<in> Q. can_pin sb jn d q" using r f unfolding Q_def P file_apart_def by fastforce
  have "card P \<le> Suc last_lb - first" unfolding P using card_image_le[of "{first..last_lb}"] by simp
  moreover have "card Q \<le> card P + 2"
    unfolding Q_def using card_Un_le[of P "{ib, superblock_block sb}"] card_insert_le_m1[of 2 "{superblock_block sb}" ib] by simp
  moreover have "first \<le> last_lb" unfolding first_def last_lb_def using f by (intro div_le_mono) linarith
  ultimately have card: "card Q \<le> last_lb - first + 3" by linarith
  have room: "28 + 12 * (last_lb - first + 3) \<le> sb_block_size sb" "last_lb - first + 5 \<le> log_size jn" using f by blast+
  have small: "28 + 12 * card Q \<le> sb_block_size sb" "card Q + 2 \<le> log_size jn"
    using le_trans[OF add_left_mono[OF mult_le_mono2[OF card, of 12]] room(1)] card room(2) by linarith+
  have "Q \<noteq> {}" by (simp add: Q_def)
  then obtain js where c: "commit (f_txn s1) \<lparr>js_w = w, js_dev = f_dev s1\<rparr> = (Ok (), js)" and shape: "same_shape d (js_dev js)"
    and block: "\<And>q. can_pin sb jn d q \<Longrightarrow> run_of sb (js_dev js) q = (case pinned (f_txn s1) q of Some data \<Rightarrow> data | None \<Rightarrow> run_of sb (f_dev s1) q)"
    using touched_committed[OF _ _ conjunct1[OF conjunct2[OF dn]] _ small pin] r by blast
  have good2: "good_disk (js_dev js)" by (rule good_disk_shape[OF good shape])
  have new: "pinned (begin_transaction w) q = None" for q by (simp add: begin_transaction_def pinned_def txn_new_def)
  have data: "run_of sb (js_dev js) q = run_of sb (f_dev s1) q" if "resolve_lblock ls lb = Some q" for lb q
  proof -
    have q: "can_pin sb jn d q" "q \<noteq> ib" "q \<noteq> superblock_block sb" using r that unfolding file_apart_def by blast+
    then show ?thesis
      using block[OF q(1)] dn new touches_keeps(5)[OF conjunct1[OF conjunct2[OF dn]], of q] by (cases "q \<in> P") (simp_all add: Q_def)
  qed
  then have "file_byte (js_dev js) sb ls k = file_byte (f_dev s1) sb ls k" for k
    by (simp add: file_byte_def split: option.split)
  moreover have "read_inode (js_dev js) sb gdt i = Ok (updated (set_size_update now sz) ino)"
  proof -
    define old where "old = run_of sb d ib"
    have ib: "can_pin sb jn d ib" "in_disk sb d ib" "inode_there sb gdt i" using r by (auto simp: can_pin_def)
    have len: "length old = sb_block_size sb" using read_good_block(3)[OF sb good ib(2)] by (simp add: old_def)
    have fit: "inode_off sb i + 128 \<le> length old"
      using inode_off_fits[OF sb, of i] sb_ok_inode_size(1)[OF sb] len by simp
    let ?raw = "bytes_at (inode_off sb i) 128 old"
    have raw: "length ?raw = 128" using fit by simp
    have "wf_disk d" "wf_disk (js_dev js)" using good good2 by (simp_all add: good_disk_def)
    note at = read_inode_of_block[OF sb _ ib(3), folded ib_def]
    have "decode_inode i ?raw = Ok ino"
      using at[OF \<open>wf_disk d\<close> read_good_block(2)[OF sb good ib(2)]] r by (simp add: old_def)
    moreover have "update_fits (set_size_update now sz)"
      using assms(3,4) by (simp add: update_fits_def set_size_update_def no_update_def)
    ultimately have "decode_inode i (apply_update (set_size_update now sz) ?raw) = Ok (updated (set_size_update now sz) ino)"
      using parse_apply_update[OF raw] by (auto simp: decode_inode_def split: if_split_asm)
    moreover have "run_of sb (js_dev js) ib = patch (inode_off sb i) (apply_update (set_size_update now sz) ?raw) old"
      using block[OF ib(1)] dn by (simp add: old_def)
    moreover have "in_disk sb (js_dev js) ib" using ib(2) in_disk_shape[OF shape] by simp
    ultimately show ?thesis
      using at[OF \<open>wf_disk (js_dev js)\<close> read_good_block(2)[OF sb good2]] fit raw by (simp add: buffer_simps)
  qed
  ultimately show ?thesis using c(1) shape by blast
qed

section \<open>Property\<close>

lemma overlaid_range:
  assumes "n = length data" and "offset + n \<le> sz"
  shows "map (\<lambda>k. overlaid offset data k (old k)) [min offset sz..<min (offset + n) sz] = data"
  using assms by (intro nth_equalityI) (auto simp: overlaid_def)

text \<open>
  C1. What is written is what is read. On a device without faults a write request over mapped
  blocks of a file whose extents are in its inode, and which fits one transaction, succeeds:
  it answers with the number of bytes (as a 32-bit number) and the new size, the larger of the
  old size and the end of the write. Every read request after it, through any handle of the
  file, returns the bytes of the old file overlaid with the bytes written, cut at the new
  size, and changes nothing.
\<close>

theorem write_then_read:
  assumes "write_ready (x_sb x) jn (x_dev x) (x_gdt x) (x_journal x) i ino ls"
    and "write_fits (x_sb x) jn ls offset (length buf)" and "now < 2 ^ 32"
    and "\<not> x_read_only x" and "\<not> x_gdt_held x" and "\<not> x_journal_held x"
    and "sz = max (offset + length buf) (ino_size ino)"
  shows "\<exists>info y. write_file_data_cb now (HFile i h) buf offset False False x = (Ok (length buf mod 2 ^ 32, info), y) \<and>
    fi_file_size info = sz \<and>
    (\<forall>h' len off. off < 2 ^ 63 \<longrightarrow> read_file_data (HFile i h') len off y =
       (Ok (map (\<lambda>k. overlaid offset buf k (file_byte (x_dev x) (x_sb x) ls k)) [min off sz..<min (off + len) sz]), y)) \<and>
    read_file_data (HFile i h) (length buf) offset y = (Ok buf, y)"
proof -
  let ?sb = "x_sb x" and ?new = "updated (set_size_update now sz) ino"
  note r = assms(1)[unfolded write_ready_def] and f = assms(2)[unfolded write_fits_def Let_def]
  have sb: "sb_ok ?sb" and good: "good_disk (x_dev x)" using r by (auto simp: log_ready_def)
  have old: "inode_ok ino" using r read_inode_ok by blast
  then have sz: "sz < 2 ^ 64" using f by (simp add: assms(7) inode_ok_def)
  obtain s1 where w: "write_txn now ?sb i ino offset buf sz
      \<lparr>f_dev = x_dev x, f_gdt = x_gdt x, f_txn = begin_transaction (x_journal x)\<rparr> = (Ok (), s1)"
    and bytes1: "\<And>k. file_byte (f_dev s1) ?sb ls k = overlaid offset buf k (file_byte (x_dev x) ?sb ls k)"
    and dn: "write_done now ?sb i sz ((\<lambda>lb. the (resolve_lblock ls lb)) `
      {offset div sb_block_size ?sb..(offset + length buf - 1) div sb_block_size ?sb})
      \<lparr>f_dev = x_dev x, f_gdt = x_gdt x, f_txn = begin_transaction (x_journal x)\<rparr> s1"
    using write_txn_ready[OF assms(1,2)] by blast
  obtain js where c: "commit (f_txn s1) \<lparr>js_w = x_journal x, js_dev = f_dev s1\<rparr> = (Ok (), js)"
    and shape: "same_shape (x_dev x) (js_dev js)" and ino: "read_inode (js_dev js) ?sb (x_gdt x) i = Ok ?new"
    and bytes2: "\<And>k. file_byte (js_dev js) ?sb ls k = file_byte (f_dev s1) ?sb ls k"
    using write_committed[OF assms(1-3) sz dn] by blast
  have gdt: "f_gdt s1 = x_gdt x" using dn by (simp add: write_done_def Let_def)
  define y where "y = x\<lparr>x_dev := js_dev js, x_journal := js_w js\<rparr>"
  have y: "x_dev y = js_dev js" "x_sb y = ?sb" "x_gdt y = x_gdt x" "\<not> x_gdt_held y" by (simp_all add: y_def assms(5))
  have size: "ino_size ?new = sz" by (simp add: updated_def set_size_update_def no_update_def)
  have "wadd 64 offset (length buf) = offset + length buf" using f by (simp add: wadd_def)
  then have run: "write_file_data_cb now (HFile i h) buf offset False False x =
      (Ok (length buf mod 2 ^ 32, file_info_from_inode ?new i), y)"
    using assms(4-7) f r ino w c gdt
    by (simp add: write_file_data_cb_def guard_writable_def with_journal_def write_locked_def ctx_begin_def ctx_inode_def
        with_gdt_def ctx_sb_def on_fs_def ctx_commit_def smap_err_def sbind_def y_def)
  have new: "flat_file ?new ls" using r flat_file_updated by blast
  have readable: "blocks_readable (x_dev y) (x_sb y) ls (ino_size ?new)"
    using r good_block_access(1)[OF good_disk_shape[OF good shape]] in_disk_shape[OF shape]
    by (auto simp: blocks_readable_def y file_apart_def can_pin_def)
  have "wf_disk (x_dev y)" using good_disk_shape[OF good shape] by (simp add: good_disk_def y)
  note read = read_request[OF _ this y(4) _ _ flat_reader[OF new], unfolded y, simplified, OF sb _ ino readable[unfolded y]]
  have reads: "read_file_data (HFile i h') len off y =
      (Ok (map (\<lambda>k. overlaid offset buf k (file_byte (x_dev x) ?sb ls k)) [min off sz..<min (off + len) sz]), y)"
    if "off < 2 ^ 63" for h' len off
    using read[of off h' len] that by (simp add: size bytes2 bytes1)
  moreover have "read_file_data (HFile i h) (length buf) offset y = (Ok buf, y)"
    using reads[of offset h "length buf"] f overlaid_range[OF refl, of offset buf sz] by (simp add: assms(7))
  moreover have "fi_file_size (file_info_from_inode ?new i) = sz" by (simp add: file_info_from_inode_def Let_def size)
  ultimately show ?thesis using run by blast
qed

text \<open>Two bytes into the file of the sample image, read back with the byte before them.\<close>

lemma sample_write_ready:
  "write_ready sample_sb sample_journal sample_disk [sample_gd] (journal_writer_new sample_journal) 12
     (sample_ino 0x81A4 5 1 16 1) [\<lparr>ee_block = 0, ee_len = 1, ee_start_hi = 0, ee_start_lo = 16\<rparr>]"
proof -
  let ?ino = "sample_ino 0x81A4 5 1 16 1" and ?ls = "[\<lparr>ee_block = 0, ee_len = 1, ee_start_hi = 0, ee_start_lo = 16\<rparr>]"
  define rt where "rt = ino_block_data ?ino"
  note rt = sample_root[folded rt_def]
  have log: "log_ready sample_sb sample_journal \<lparr>js_w = journal_writer_new sample_journal, js_dev = sample_disk\<rparr>"
    using sample_sb_ok good_sample
    by (auto simp: log_ready_def journal_writer_new_def sample_journal_def is_clean_def)
  have gd: "sb_inodes_count sample_sb = 16" "gd_inode_table sample_gd = 5" by (simp_all add: sample_sb_def sample_gd_def)
  have there: "inode_there sample_sb [sample_gd] 12" "inode_block sample_sb [sample_gd] 12 = 6"
    by (simp_all add: inode_there_def inode_group_def inode_block_def gd)
  have sbb: "superblock_block sample_sb = 1" by (simp add: superblock_block_def superblock_place_def)
  have seq: "jw_next_sequence (journal_writer_new sample_journal) = 1"
    by (simp add: journal_writer_new_def sample_journal_def)
  have pin: "can_pin sample_sb sample_journal sample_disk q" if "q < 8 \<or> q = 16" for q
    using that by (auto simp: can_pin_def tag_fits_def sample_journal_def)
  have lv: "resolve_lblock ?ls k = (if k = 0 then Some 16 else None)" for k
    by (simp add: resolve_lblock_def partition_point_def leaf_start_def hi_lo_def)
  have "check_node rt = Ok (header_of rt)"
    by (simp add: check_node_def rt(1,2) sat_add_def sat_mul_def MAX_DEPTH_def)
  moreover have "leaves_in_order ?ls" by (simp add: leaves_in_order_def)
  moreover have "is_file ?ino" "uses_extents ?ino"
    by (simp_all add: is_file_def inode_file_type_def S_IFMT_def S_IFREG_def sample_ino_fields sample_ino_uses)
  ultimately have "flat_file ?ino ?ls" unfolding flat_file_def flat_tree_def rt_def[symmetric] rt(3) by (simp add: rt(1,2) del: One_nat_def)
  moreover have "file_apart sample_sb sample_journal sample_disk 6 ?ls"
    unfolding file_apart_def lv sbb using pin by (auto split: if_split_asm)
  ultimately show ?thesis
    using log there pin sample_read_inode(3) by (simp add: write_ready_def sbb seq)
qed

theorem write_then_read_witness:
  "\<exists>info y. write_file_data_cb 9 (HFile 12 (sample_ino 0x81A4 5 1 16 1)) [7, 8] 4 False False (sample_fs ReadWrite) = (Ok (2, info), y) \<and>
     fi_file_size info = 6 \<and> read_file_data (HFile 12 (sample_ino 0x81A4 5 1 16 1)) 2 4 y = (Ok [7, 8], y)"
proof -
  let ?x = "sample_fs ReadWrite"
  have x: "x_sb ?x = sample_sb" "x_dev ?x = sample_disk" "x_gdt ?x = [sample_gd]"
    "x_journal ?x = journal_writer_new sample_journal" "\<not> x_read_only ?x" "\<not> x_gdt_held ?x" "\<not> x_journal_held ?x"
    by (simp_all add: sample_fs_def)
  have "write_fits sample_sb sample_journal [\<lparr>ee_block = 0, ee_len = 1, ee_start_hi = 0, ee_start_lo = 16\<rparr>] 4 (length [7, 8 :: byte])"
    by (simp add: write_fits_def resolve_lblock_def partition_point_def log_size_def sample_journal_def)
  from write_then_read[of ?x sample_journal 12, unfolded x(1-4), OF sample_write_ready this _ x(5-7) refl, of 9]
  show ?thesis by (simp add: sample_ino_fields) (metis numeral_2_eq_2)
qed

end
