(* ===== verification/Create_Request.thy ===== *)
theory Create_Request
  imports Write_Request
begin

text \<open>
  A create request and the requests after it, from the callback down to the device: on a device
  without faults, creating a file in a directory whose extents are in its inode and which has
  room succeeds, its transaction is committed, and every later lookup finds the new file.
\<close>

section \<open>Inserting where there is room\<close>

lemma list_all2_changed:
  assumes "list_all2 P xs ys" and "i < length xs" and "\<And>j. j < length xs \<Longrightarrow> j \<noteq> i \<Longrightarrow> P (xs ! j) (ys ! j) \<Longrightarrow> Q (xs ! j) (ys ! j)"
    and "Q (xs ! i) y"
  shows "list_all2 Q xs (ys[i := y])"
  using assms by (auto simp: list_all2_conv_all_nth nth_list_update)

lemma concat_changed:
  assumes "i < length ys"
  shows "concat ys = concat (take i ys) @ ys ! i @ concat (drop (Suc i) ys)"
    and "concat (ys[i := y]) = concat (take i ys) @ y @ concat (drop (Suc i) ys)"
  using arg_cong[OF id_take_nth_drop[OF assms], of concat] assms by (simp_all add: upd_conv_take_nth_drop)

lemma insert_in_blocks_run:
  assumes "sb_ok sb" and "good_disk (f_dev s)" and "length nm < 256"
  shows "\<forall>lb \<in> set ls. lookup_block (f_dev s) sb ino lb = Ok (pm lb) \<and>
      (\<forall>q. pm lb = Some q \<longrightarrow> in_disk sb (f_dev s) q \<and> pinned (f_txn s) q = None \<and>
         (\<exists>es. parse_entries_from (run_of sb (f_dev s) q) 0 = Ok es)) \<Longrightarrow>
    \<exists>lb \<in> set ls. \<exists>q. pm lb = Some q \<and> try_insert_in_block nm c ft (run_of sb (f_dev s) q) \<noteq> Ok None \<Longrightarrow>
    \<exists>lb \<in> set ls. \<exists>q b'. pm lb = Some q \<and> try_insert_in_block nm c ft (run_of sb (f_dev s) q) = Ok (Some b') \<and>
      insert_in_blocks sb ino nm c ft ls s = (Ok True, s\<lparr>f_txn := pin_block q b' (f_txn s)\<rparr>)"
proof (induction ls)
  case (Cons l ls)
  have look: "lookup_block (f_dev s) sb ino l = Ok (pm l)" using Cons.prems(1) by simp
  show ?case
  proof (cases "pm l")
    case None
    then have "\<exists>lb \<in> set ls. \<exists>q. pm lb = Some q \<and> try_insert_in_block nm c ft (run_of sb (f_dev s) q) \<noteq> Ok None"
      using Cons.prems(2) by auto
    moreover have "insert_in_blocks sb ino nm c ft (l # ls) s = insert_in_blocks sb ino nm c ft ls s"
      by (simp add: look None)
    ultimately show ?thesis using Cons.IH Cons.prems(1) by auto
  next
    case (Some q)
    let ?b = "run_of sb (f_dev s) q"
    obtain es where q: "in_disk sb (f_dev s) q" "pinned (f_txn s) q = None" "parse_entries_from ?b 0 = Ok es"
      using Cons.prems(1) Some by auto
    obtain r where r: "try_insert_in_block nm c ft ?b = Ok r"
      using try_insert_runs[OF assms(3) q(3)] by (auto simp: try_insert_in_block_def)
    have small: "q * spb sb < 2 ^ 64"
      using wf_block_place[of "f_dev s" sb q] q(1) assms(2) by (auto simp: good_disk_def wf_disk_def)
    have read: "dw_read_block sb q (f_dev s) = Ok ?b"
      using read_good_block(2)[OF assms(1,2) q(1)] small by (simp add: dw_read_block_def checked_mul_def)
    have "?b \<noteq> []" using read_good_block(3)[OF assms(1,2) q(1)] sb_ok_block_size(1)[OF assms(1)] by auto
    then have data: "insert_block_data sb q s = Ok ?b" by (simp add: insert_block_data_def q(2) read Let_def)
    show ?thesis
    proof (cases r)
      case None
      then have "\<exists>lb \<in> set ls. \<exists>q. pm lb = Some q \<and> try_insert_in_block nm c ft (run_of sb (f_dev s) q) \<noteq> Ok None"
        using Cons.prems(2) Some r by auto
      moreover have "insert_in_blocks sb ino nm c ft (l # ls) s = insert_in_blocks sb ino nm c ft ls s"
        by (simp add: look Some data r None)
      ultimately show ?thesis using Cons.IH Cons.prems(1) by auto
    next
      case (Some b')
      then show ?thesis
        using \<open>pm l = Some q\<close> by (intro bexI[of _ l] exI[of _ q] exI[of _ b']) (simp_all add: look data r pin_def)
    qed
  qed
qed simp

section \<open>Taking an inode\<close>

definition gdt_block :: "superblock \<Rightarrow> nat" where
  "gdt_block sb = sb_first_data_block sb + 1"

lemma sync_gdt_run:
  assumes "sb_ok sb" and "good_disk (f_dev s)" and "in_disk sb (f_dev s) (gdt_block sb)"
    and "g < length (f_gdt s)" and "(g + 1) * sb_desc_size sb \<le> sb_block_size sb"
  shows "\<exists>data. length data = sb_block_size sb \<and>
    sync_gdt_block sb g s = (Ok (), s\<lparr>f_txn := pin_block (gdt_block sb) data (f_txn s)\<rparr>)"
proof -
  define old where "old = run_of sb (f_dev s) (gdt_block sb)"
  have len: "length old = sb_block_size sb" using read_good_block(3)[OF assms(1-3)] by (simp add: old_def)
  have read: "read_fs_block sb (gdt_block sb) s = (Ok old, s)"
    using read_good_block(2)[OF assms(1-3)] by (simp add: read_fs_block_def old_def)
  have fit: "g * sb_desc_size sb + sb_desc_size sb \<le> sb_block_size sb" using assms(5) by simp
  then have off: "wmul 64 g (sb_desc_size sb) = g * sb_desc_size sb"
    using sb_ok_block_size(2)[OF assms(1)] by (simp add: wmul_def)
  have small: "g * sb_desc_size sb + 64 < 2 ^ 64" using fit sb_ok_block_size(2)[OF assms(1)] by simp
  have ds: "32 \<le> sb_desc_size sb" using assms(1) by (simp add: sb_ok_def)
  have "\<exists>data. store_free_inodes (sb_desc_size sb) (g * sb_desc_size sb) desc old = Ok data" for desc
    using fit ds len small by (simp add: store_free_inodes_def patch_r_def wadd_def)
  then obtain data where data: "store_free_inodes (sb_desc_size sb) (g * sb_desc_size sb) (f_gdt s ! g) old = Ok data" by blast
  have "sync_gdt_block sb g s = (Ok (), s\<lparr>f_txn := pin_block (gdt_block sb) data (f_txn s)\<rparr>)"
    using read[unfolded gdt_block_def] fit ds len small assms(4) data
    by (simp add: sync_gdt_block_def gdt_block_def Let_def sbind_Ok off gdt_get_def pin_def wadd_def)
  then show ?thesis using store_free_inodes_len[OF data] len by auto
qed

text \<open>The counters of the group go down, and the descriptor block is pinned twice with them.\<close>

lemma counters_run:
  assumes "sb_ok sb" and "good_disk (f_dev s)" and "txn_ok (f_txn s)" and "in_disk sb (f_dev s) (gdt_block sb)"
    and "g < length (f_gdt s)" and "(g + 1) * sb_desc_size sb \<le> sb_block_size sb"
  defines "old \<equiv> f_gdt s ! g"
  shows "\<exists>s1 s2 s3 u. update_gdt_free_inodes sb g (- 1) s = (Ok (), s1) \<and>
    on_gdt (update_itable_unused g slot sb) s1 = (Ok (), s2) \<and> update_gdt_itable_unused sb g s2 = (Ok (), s3) \<and>
    f_gdt s3 = (f_gdt s)[g := old\<lparr>gd_free_inodes_count := adjust_count (gd_free_inodes_count old) (- 1), gd_itable_unused := u\<rparr>] \<and>
    f_dev s3 = f_dev s \<and> touches sb {} {gdt_block sb} s s3"
proof -
  define g1 where "g1 = (f_gdt s)[g := old\<lparr>gd_free_inodes_count := adjust_count (gd_free_inodes_count old) (- 1)\<rparr>]"
  define s1 where "s1 = s\<lparr>f_gdt := g1\<rparr>"
  have adj: "on_gdt (adjust_free_inodes g (- 1)) s = (Ok (), s1)"
    using assms(5) by (simp add: on_gdt_def adjust_free_inodes_def gdt_update_def s1_def g1_def old_def)
  obtain gd where gd: "length gd = sb_block_size sb" "sync_gdt_block sb g s1 = (Ok (), s1\<lparr>f_txn := pin_block (gdt_block sb) gd (f_txn s1)\<rparr>)"
    using sync_gdt_run[of sb s1 g] assms(1,2,4-6) by (auto simp: s1_def g1_def)
  define s2 where "s2 = s1\<lparr>f_txn := pin_block (gdt_block sb) gd (f_txn s1)\<rparr>"
  define u where "u = gd_itable_unused (snd (update_itable_unused g slot sb g1) ! g)"
  define g2 where "g2 = g1[g := (g1 ! g)\<lparr>gd_itable_unused := u\<rparr>]"
  have "update_itable_unused g slot sb g1 = (Ok (), g2)"
    using assms(5) by (auto simp: update_itable_unused_def gdt_update_def u_def g2_def g1_def Let_def)
  then have unused: "on_gdt (update_itable_unused g slot sb) s2 = (Ok (), s2\<lparr>f_gdt := g2\<rparr>)" by (simp add: on_gdt_def s2_def s1_def)
  define s3 where "s3 = s2\<lparr>f_gdt := g2\<rparr>"
  have k3: "good_disk (f_dev s3)" "txn_ok (f_txn s3)" "in_disk sb (f_dev s3) (gdt_block sb)" "g < length (f_gdt s3)"
    using assms(2-5) by (simp_all add: s3_def s2_def s1_def g2_def g1_def txn_ok_pin)
  obtain gd' where gd': "length gd' = sb_block_size sb" "sync_gdt_block sb g s3 = (Ok (), s3\<lparr>f_txn := pin_block (gdt_block sb) gd' (f_txn s3)\<rparr>)"
    using sync_gdt_run[OF assms(1) k3(1,3,4) assms(6)] by blast
  have t: "touches sb {} {} s s1" "touches sb {} {gdt_block sb} s1 s2" "touches sb {} {} s2 s3"
    using touches_table[OF assms(2,3)] touches_pin[of s1 gd sb "gdt_block sb"] touches_table[of s2] assms(2,3) gd(1) k3
    by (simp_all add: s3_def s2_def s1_def txn_ok_pin)
  have "touches sb ({} \<union> {} \<union> {} \<union> {}) ({} \<union> {gdt_block sb} \<union> {} \<union> {gdt_block sb}) s (s3\<lparr>f_txn := pin_block (gdt_block sb) gd' (f_txn s3)\<rparr>)"
    by (rule touches_trans[OF touches_trans[OF touches_trans[OF t(1,2)] t(3)] touches_pin[OF k3(1,2) gd'(1)]])
  then show ?thesis
    using adj gd(2) unused gd'(2) assms(5)
    by (intro exI[of _ s2] exI[of _ s3] exI[of _ "s3\<lparr>f_txn := pin_block (gdt_block sb) gd' (f_txn s3)\<rparr>"] exI[of _ u])
       (simp add: update_gdt_free_inodes_def update_gdt_itable_unused_def sbind_Ok s2_def[symmetric] s3_def[symmetric],
        simp add: s3_def s2_def s1_def g2_def g1_def old_def)
qed

text \<open>
  The first group tried has a free inode: its first free slot is taken in the bitmap on the
  device and in the transaction, the counters go down, and the descriptor block is pinned.
\<close>

definition inode_taken :: "superblock \<Rightarrow> nat \<Rightarrow> nat \<Rightarrow> fs \<Rightarrow> fs \<Rightarrow> bool" where
  "inode_taken sb g slot s s' \<longleftrightarrow>
     (let old = f_gdt s ! g; bb = gd_inode_bitmap old in
      (\<exists>u. f_gdt s' = (f_gdt s)[g := old\<lparr>gd_free_inodes_count := adjust_count (gd_free_inodes_count old) (- 1), gd_itable_unused := u\<rparr>]) \<and>
      touches sb {bb} {bb, gdt_block sb} s s' \<and> pinned (f_txn s') bb = Some (run_of sb (f_dev s') bb) \<and>
      (\<forall>j. bm_bit (run_of sb (f_dev s') bb) j \<longleftrightarrow> j = slot \<or> bm_bit (run_of sb (f_dev s) bb) j))"

lemma alloc_inode_run:
  fixes s :: fs
  assumes "sb_ok sb" and "good_disk (f_dev s)" and "txn_ok (f_txn s)"
    and "g < length (f_gdt s)" and "g < 2 ^ 32" and "gd_free_inodes_count (f_gdt s ! g) \<noteq> 0"
    and "bb = gd_inode_bitmap (f_gdt s ! g)" and "in_disk sb (f_dev s) bb" and "in_disk sb (f_dev s) (gdt_block sb)"
    and "bb \<noteq> gdt_block sb" and "ibm_first_free (run_of sb (f_dev s) bb) = Some slot"
    and "(g + 1) * sb_desc_size sb \<le> sb_block_size sb" and "g * sb_inodes_per_group sb + slot + 1 < 2 ^ 32"
  shows "\<exists>s'. alloc_inode sb dir g s = (Ok (g * sb_inodes_per_group sb + slot + 1), s') \<and> inode_taken sb g slot s s'"
proof -
  define bm where "bm = run_of sb (f_dev s) bb"
  have len: "length bm = sb_block_size sb" using read_good_block(3)[OF assms(1,2,8)] by (simp add: bm_def)
  have "slot div 8 < length bm" "\<not> bm_bit bm slot"
    using bm_first_free_spec[of bm slot] assms(11) len sb_ok_block_size(2)[OF assms(1)] by (auto simp: bm_def ibm_eq_bm)
  then obtain bm' where alloc: "ibm_allocate slot bm = (Ok True :: (alloc_error, bool) res, bm')"
    and bm': "length bm' = sb_block_size sb" "\<And>j. bm_bit bm' j \<longleftrightarrow> j = slot \<or> bm_bit bm j"
    using bm_allocate_spec[of slot bm] len unfolding ibm_eq_bm by (metis surj_pair)
  have ld: "ibm_load (f_dev s) sb (f_gdt s) g = Ok bm"
    using read_good_block(2)[OF assms(1,2,8)] assms(4,7) by (simp add: ibm_load_def bm_def)
  define s1 where "s1 = s\<lparr>f_dev := store_run (bb * spb sb) bm' (f_dev s), f_txn := pin_block bb bm' (f_txn s)\<rparr>"
  note w1 = touches_write[OF assms(1-3,8) bm'(1), folded s1_def]
  have flush: "flush_inode_bitmap sb bb bm' s = (Ok (), s1)"
    using flush_run(1)[OF assms(1,2,8) bm'(1)] by (simp add: s1_def)
  have k1: "good_disk (f_dev s1)" "txn_ok (f_txn s1)" "in_disk sb (f_dev s1) (gdt_block sb)" "f_gdt s1 = f_gdt s"
    using touches_keeps(1-3)[OF w1(1)] assms(2,9) by (auto simp: s1_def)
  obtain s2 s3 s4 u where run: "update_gdt_free_inodes sb g (- 1) s1 = (Ok (), s2)"
      "on_gdt (update_itable_unused g slot sb) s2 = (Ok (), s3)" "update_gdt_itable_unused sb g s3 = (Ok (), s4)"
    and gdt: "f_gdt s4 = (f_gdt s)[g := (f_gdt s ! g)\<lparr>gd_free_inodes_count := adjust_count (gd_free_inodes_count (f_gdt s ! g)) (- 1), gd_itable_unused := u\<rparr>]"
    and w2: "f_dev s4 = f_dev s1" "touches sb {} {gdt_block sb} s1 s4"
    using counters_run[OF assms(1) k1(1-3) _ assms(12), of slot] assms(4) unfolding k1(4) by blast
  have num: "wadd 32 (wadd 32 (wmul 32 (g mod 2 ^ 32) (sb_inodes_per_group sb)) slot) 1 = g * sb_inodes_per_group sb + slot + 1"
    using assms(5,13) by (simp add: wmul_def wadd_def)
  obtain gs where gs: "group_order g (length (f_gdt s)) = g # gs"
    using assms(4,5) by (cases "length (f_gdt s)") (simp_all add: group_order_def upt_conv_Cons wadd_def del: upt_Suc)
  have "alloc_inode_in sb (g # gs) s = (Ok (g * sb_inodes_per_group sb + slot + 1), s4)"
    using assms(4,6,11) ld alloc flush run num
    by (simp add: gdt_get_def bm_def[symmetric] sbind_Ok run_local_def assms(7)[symmetric])
  then have "alloc_inode sb dir g s = (Ok (g * sb_inodes_per_group sb + slot + 1), s4)"
    by (simp add: alloc_inode_def gs del: alloc_inode_in.simps)
  moreover have "touches sb {bb} {bb, gdt_block sb} s s4" using touches_trans[OF w1(1) w2(2)] by (simp add: insert_commute)
  moreover have "pinned (f_txn s4) bb = Some bm'"
    using touches_keeps(5)[OF w2(2), of bb] assms(3,10) by (simp add: s1_def txn_pins.lookup_pin)
  ultimately show ?thesis
    using gdt bm'(2) w1(2) w2(1) by (auto simp: inode_taken_def Let_def assms(7)[symmetric] s1_def bm_def)
qed

section \<open>Storing the inode\<close>

lemma init_inode_run:
  assumes "sb_ok sb" and "good_disk (f_dev s)" and "txn_ok (f_txn s)" and "inode_there sb (f_gdt s) i"
    and "tb = inode_block sb (f_gdt s) i" and "in_disk sb (f_dev s) tb" and "pinned (f_txn s) tb = None"
  shows "\<exists>s'. init_inode now sb i mode uid gid s = (Ok (), s') \<and> touches sb {tb} {tb} s s' \<and> f_gdt s' = f_gdt s \<and>
    run_of sb (f_dev s') tb = patch (inode_off sb i) (new_raw_inode now mode uid gid) (run_of sb (f_dev s) tb) \<and>
    pinned (f_txn s') tb = Some (run_of sb (f_dev s') tb)"
proof -
  define old where "old = run_of sb (f_dev s) tb"
  define new where "new = patch (inode_off sb i) (new_raw_inode now mode uid gid) old"
  have len: "length old = sb_block_size sb" using read_good_block(3)[OF assms(1,2,6)] by (simp add: old_def)
  have fit: "inode_off sb i + 128 \<le> sb_block_size sb"
    using inode_off_fits[OF assms(1), of i] sb_ok_inode_size(1)[OF assms(1)] by simp
  then have new: "length new = sb_block_size sb" by (simp add: new_def len)
  note w = touches_write[OF assms(1-3,6) new]
  have "init_inode now sb i mode uid gid s = flush_inode_table sb tb new s"
    using alloc_location[OF assms(1,4)] read_good_block(2)[OF assms(1,2,6)] assms(7) fit len
    by (simp add: init_inode_def load_inode_table_block_with_txn_def load_inode_table_block_def read_fs_block_def
        assms(5)[symmetric] sbind_Ok patch_r_def new_def old_def)
  then have "init_inode now sb i mode uid gid s =
      (Ok (), s\<lparr>f_dev := store_run (tb * spb sb) new (f_dev s), f_txn := pin_block tb new (f_txn s)\<rparr>)"
    using flush_run(2)[OF assms(1,2,6) new] by simp
  then show ?thesis
    using w assms(3) by (simp add: txn_pins.lookup_pin new_def old_def)
qed

section \<open>Adding the entry\<close>

lemma walk_blocks_none:
  assumes "sb_ok sb" and "good_disk d"
  shows "\<forall>lb \<in> set ls. lookup_block d sb ino lb = Ok (pm lb) \<and>
      (\<forall>q. pm lb = Some q \<longrightarrow> in_disk sb d q \<and> f q (run_of sb d q) = Ok None) \<Longrightarrow>
    walk_blocks d sb ino f ls = Ok None"
proof (induction ls)
  case (Cons l ls)
  show ?case
  proof (cases "pm l")
    case (Some q)
    then have q: "in_disk sb d q" using Cons.prems by simp
    have "q * spb sb < 2 ^ 64"
      using wf_block_place[of d sb q] q assms(2) by (auto simp: good_disk_def wf_disk_def)
    then have "dw_read_block sb q d = Ok (run_of sb d q)"
      using read_good_block(2)[OF assms q] by (simp add: dw_read_block_def checked_mul_def)
    then show ?thesis using Cons Some by simp
  qed (use Cons in simp)
qed simp

lemma dir_add_entry_run:
  assumes "sb_ok sb" and "good_disk (f_dev s)" and "valid_utf8 nm" and "length nm < 256"
    and "read_inode (f_dev s) sb gdt p = Ok ino" and "read_inode_with_txn (f_dev s) sb gdt (f_txn s) p = Ok ino"
    and "dw_block_count sb ino = Ok n"
    and "\<forall>lb < n. lookup_block (f_dev s) sb ino lb = Ok (pm lb) \<and>
      (\<forall>q. pm lb = Some q \<longrightarrow> in_disk sb (f_dev s) q \<and> pinned (f_txn s) q = None \<and>
         (\<exists>es. parse_entries_from (run_of sb (f_dev s) q) 0 = Ok es \<and> nm \<notin> de_name ` set es))"
    and "\<exists>lb < n. \<exists>q. pm lb = Some q \<and> try_insert_in_block nm c ft (run_of sb (f_dev s) q) \<noteq> Ok None"
  shows "\<exists>lb < n. \<exists>q b'. pm lb = Some q \<and> try_insert_in_block nm c ft (run_of sb (f_dev s) q) = Ok (Some b') \<and>
    dir_add_entry sb gdt p nm c ft s = (Ok (), s\<lparr>f_txn := pin_block q b' (f_txn s)\<rparr>)"
proof -
  have "walk_blocks (f_dev s) sb ino (\<lambda>_ block. scan_exists nm block 0) [0..<n] = Ok None"
    using assms(8) scan_exists_absent[OF assms(3)] by (intro walk_blocks_none[OF assms(1,2), where pm = pm]) fastforce
  then have walk: "walk_dir_blocks (f_dev s) sb gdt p (\<lambda>_ block. scan_exists nm block 0) = Ok None"
    by (simp add: walk_dir_blocks_def assms(5,7))
  have blocks: "\<forall>lb \<in> set [0..<n]. lookup_block (f_dev s) sb ino lb = Ok (pm lb) \<and>
      (\<forall>q. pm lb = Some q \<longrightarrow> in_disk sb (f_dev s) q \<and> pinned (f_txn s) q = None \<and>
         (\<exists>es. parse_entries_from (run_of sb (f_dev s) q) 0 = Ok es))"
    using assms(8) unfolding atLeast_upt[symmetric] lessThan_iff by blast
  have room: "\<exists>lb \<in> set [0..<n]. \<exists>q. pm lb = Some q \<and> try_insert_in_block nm c ft (run_of sb (f_dev s) q) \<noteq> Ok None"
    using assms(9) by auto
  obtain lb q b' where r: "lb < n" "pm lb = Some q" "try_insert_in_block nm c ft (run_of sb (f_dev s) q) = Ok (Some b')"
    "insert_in_blocks sb ino nm c ft [0..<n] s = (Ok True, s\<lparr>f_txn := pin_block q b' (f_txn s)\<rparr>)"
    using insert_in_blocks_run[OF assms(1,2,4) blocks room] by auto
  then have "dir_add_entry sb gdt p nm c ft s = (Ok (), s\<lparr>f_txn := pin_block q b' (f_txn s)\<rparr>)"
    using assms(4) by (simp add: dir_add_entry_def walk dir_insert_entry_def assms(6,7) sbind_Ok)
  then show ?thesis using r by blast
qed

section \<open>From the request to the committed device\<close>

text \<open>
  The blocks a create in the directory \<open>p\<close> works on: the inode bitmap of the parent's group, the
  descriptor block, the table block of the new inode \<open>i\<close>, and the blocks of the directory.
  They can be logged and are different blocks; the table block of the parent may be the one
  of the new inode.
\<close>

definition create_apart ::
  "superblock \<Rightarrow> journal \<Rightarrow> disk \<Rightarrow> gdt \<Rightarrow> nat \<Rightarrow> nat \<Rightarrow> extent_leaf list \<Rightarrow> bool" where
  "create_apart sb jn d gdt p i ls \<longleftrightarrow>
     (let bb = gd_inode_bitmap (gdt ! inode_group sb p); gb = gdt_block sb; tb = inode_block sb gdt i; pb = inode_block sb gdt p in
      can_pin sb jn d bb \<and> can_pin sb jn d gb \<and> can_pin sb jn d tb \<and> can_pin sb jn d pb \<and>
      bb \<noteq> gb \<and> tb \<noteq> bb \<and> tb \<noteq> gb \<and> pb \<noteq> bb \<and> pb \<noteq> gb \<and>
      (\<forall>lb q. resolve_lblock ls lb = Some q \<longrightarrow> can_pin sb jn d q \<and> q \<noteq> bb \<and> q \<noteq> gb \<and> q \<noteq> tb \<and> q \<noteq> pb \<and>
         (\<forall>lb'. resolve_lblock ls lb' = Some q \<longrightarrow> lb' = lb)))"

text \<open>
  The parent \<open>p\<close> is a listed directory with room for the name, and the bitmap of its group has
  the free slot of the inode \<open>i\<close>.
\<close>

definition create_ready ::
  "superblock \<Rightarrow> journal \<Rightarrow> disk \<Rightarrow> gdt \<Rightarrow> journal_writer \<Rightarrow> nat \<Rightarrow> inode \<Rightarrow> byte list \<Rightarrow> nat \<Rightarrow> dir_entry list \<Rightarrow> bool" where
  "create_ready sb jn d gdt w p pino nm i es \<longleftrightarrow>
     log_ready sb jn \<lparr>js_w = w, js_dev = d\<rparr> \<and> jw_next_sequence w < 2 ^ 32 \<and> 6 \<le> log_size jn \<and> gdt_ok gdt \<and>
     inode_there sb gdt p \<and> read_inode d sb gdt p = Ok pino \<and> read_dir d sb gdt pino = Ok es \<and>
     valid_utf8 nm \<and> length nm < 256 \<and> nm \<notin> de_name ` set es \<and>
     (\<exists>ls. flat_tree pino ls \<and> create_apart sb jn d gdt p i ls \<and>
        (\<exists>lb q. lb * sb_block_size sb < ino_size pino \<and> resolve_lblock ls lb = Some q \<and>
           try_insert_in_block nm i FT_REG_FILE (run_of sb d q) \<noteq> Ok None)) \<and>
     (let g = inode_group sb p in
      gd_free_inodes_count (gdt ! g) \<noteq> 0 \<and> (g + 1) * sb_desc_size sb \<le> sb_block_size sb \<and>
      (\<exists>slot < sb_inodes_per_group sb. ibm_first_free (run_of sb d (gd_inode_bitmap (gdt ! g))) = Some slot \<and>
         i = g * sb_inodes_per_group sb + slot + 1)) \<and>
     i \<le> sb_inodes_count sb \<and> i \<noteq> p"

text \<open>What the transaction of the create leaves behind, with \<open>q\<close> the directory block that took the entry.\<close>

definition create_done ::
  "nat \<Rightarrow> superblock \<Rightarrow> nat \<Rightarrow> nat \<Rightarrow> nat \<Rightarrow> byte list \<Rightarrow> fs \<Rightarrow> fs \<Rightarrow> bool" where
  "create_done now sb p i q b' s s' \<longleftrightarrow>
     (let gdt = f_gdt s; bb = gd_inode_bitmap (gdt ! inode_group sb p); tb = inode_block sb gdt i; g = inode_group sb p in
      touches sb {bb, tb} {bb, gdt_block sb, tb, q} s s' \<and> pinned (f_txn s') q = Some b' \<and>
      pinned (f_txn s') bb = Some (run_of sb (f_dev s') bb) \<and>
      (\<forall>j. bm_bit (run_of sb (f_dev s') bb) j \<longleftrightarrow> j = (i - 1) mod sb_inodes_per_group sb \<or> bm_bit (run_of sb (f_dev s) bb) j) \<and>
      pinned (f_txn s') tb = Some (patch (inode_off sb i) (new_raw_inode now 0x81A4 0 0) (run_of sb (f_dev s) tb)) \<and>
      (\<exists>u. f_gdt s' = gdt[g := (gdt ! g)\<lparr>gd_free_inodes_count := adjust_count (gd_free_inodes_count (gdt ! g)) (- 1), gd_itable_unused := u\<rparr>]))"

text \<open>A descriptor that keeps the place of its inode table keeps the place of every inode.\<close>

lemma table_kept:
  assumes "gdt' = gdt[g := gd]" and "gd_inode_table gd = gd_inode_table (gdt ! g)"
  shows "inode_block sb gdt' j = inode_block sb gdt j" and "inode_there sb gdt' j = inode_there sb gdt j"
proof -
  have "gd_inode_table (gdt' ! k) = gd_inode_table (gdt ! k)" for k
    using assms(2) by (cases "g < length gdt"; cases "k = g") (simp_all add: assms(1) list_update_beyond)
  moreover have "length gdt' = length gdt" by (simp add: assms(1))
  ultimately show "inode_block sb gdt' j = inode_block sb gdt j" "inode_there sb gdt' j = inode_there sb gdt j"
    by (simp_all add: inode_block_def inode_there_def)
qed

lemma same_tables:
  assumes "gdt' = gdt[g := (gdt ! g)\<lparr>gd_free_inodes_count := c, gd_itable_unused := u\<rparr>]"
  shows "inode_block sb gdt' j = inode_block sb gdt j" and "inode_there sb gdt' j = inode_there sb gdt j"
  by (rule table_kept[OF assms]; simp)+

lemma inode_of_slot:
  fixes i g ipg slot :: nat
  assumes "slot < ipg" and "i = g * ipg + slot + 1"
  shows "(i - 1) div ipg = g" and "(i - 1) mod ipg = slot"
proof -
  have "i - 1 = slot + g * ipg" using assms(2) by simp
  then show "(i - 1) div ipg = g" "(i - 1) mod ipg = slot" using assms(1) by simp_all
qed

lemma flat_dir_block:
  assumes "sb_ok sb" and "good_disk d" and "flat_tree ino ls" and "\<And>q. resolve_lblock ls lb = Some q \<Longrightarrow> in_disk sb d q"
  shows "dir_block_at d sb ino lb = Ok (map_option (run_of sb d) (resolve_lblock ls lb))"
proof (cases "resolve_lblock ls lb")
  case None
  then show ?thesis by (simp add: dir_block_at_def flat_tree_lookup[OF assms(3)])
next
  case (Some q)
  note q = assms(4)[OF Some]
  have "q * spb sb < 2 ^ 64" using wf_block_place[of d sb q] q assms(2) by (auto simp: good_disk_def wf_disk_def)
  then show ?thesis
    using read_good_block(2)[OF assms(1,2) q] Some
    by (simp add: dir_block_at_def flat_tree_lookup[OF assms(3)] dir_read_block_def checked_mul_def)
qed

lemma listed_dir_blocks:
  assumes "sb_ok sb" and "good_disk d" and "flat_tree ino ls" and "read_dir d sb gdt ino = Ok es"
    and "\<And>lb q. resolve_lblock ls lb = Some q \<Longrightarrow> in_disk sb d q"
  obtains n where "dir_block_count sb ino = Ok n" and "dw_block_count sb ino = Ok n" and "n = div_ceil (ino_size ino) (sb_block_size sb)"
    and "\<And>lb q. lb < n \<Longrightarrow> resolve_lblock ls lb = Some q \<Longrightarrow>
      \<exists>here. parse_entries_from (run_of sb d q) 0 = Ok here \<and> set here \<subseteq> set es"
proof -
  obtain n where n: "dir_block_count sb ino = Ok n" using assms(4) by (auto simp: read_dir_def)
  then have dw: "dw_block_count sb ino = Ok n" "n = div_ceil (ino_size ino) (sb_block_size sb)"
    by (auto simp: dir_block_count_def dw_block_count_def Let_def split: if_split_asm)
  obtain ess where ess: "list_all2 (block_lists d sb ino) [0..<n] ess" "es = concat ess"
    using assms(4) read_dir_blocks[OF n] by blast
  have "\<exists>here. parse_entries_from (run_of sb d q) 0 = Ok here \<and> set here \<subseteq> set es"
    if "lb < n" "resolve_lblock ls lb = Some q" for lb q
  proof -
    have "dir_block_at d sb ino lb = Ok (Some (run_of sb d q))"
      using flat_dir_block[OF assms(1-3), of lb] assms(5) that(2) by simp
    moreover have "block_lists d sb ino ([0..<n] ! lb) (ess ! lb)" "lb < length ess"
      using ess(1) that(1) by (auto simp: list_all2_conv_all_nth)
    ultimately show ?thesis
      using that(1) nth_mem[of lb ess] UN_upper[of "ess ! lb" "set ess" set]
      by (intro exI[of _ "ess ! lb"]) (simp add: block_lists_def ess(2))
  qed
  then show thesis using that[OF n dw] by blast
qed


text \<open>The bytes of the parent's inode survive: its table block is untouched, or only another slot of it is stored.\<close>

lemma parent_slot_kept:
  assumes "sb_ok sb" and "inode_there sb gdt p" and "inode_there sb gdt i" and "inode_group sb i = inode_group sb p" and "i \<noteq> p"
    and "length old = sb_block_size sb" and "length raw = 128" and "inode_block sb gdt p = inode_block sb gdt i"
  shows "bytes_at (inode_off sb p) 128 (patch (inode_off sb i) raw old) = bytes_at (inode_off sb p) 128 old"
proof -
  have "inode_off sb p + 128 \<le> inode_off sb i \<or> inode_off sb i + 128 \<le> inode_off sb p"
    using inode_slots_apart[OF assms(1,3,2)] assms(4,5,8) by simp
  moreover have "inode_off sb i + 128 \<le> sb_block_size sb"
    using inode_off_fits[OF assms(1), of i] sb_ok_inode_size(1)[OF assms(1)] by simp
  ultimately show ?thesis using assms(6,7) by (simp add: bytes_at_patch_other)
qed

text \<open>What a ready create has in its hands.\<close>

lemma create_readyD:
  assumes "create_ready sb jn d gdt w p pino nm i es"
  shows "sb_ok sb" and "good_disk d" and "wf_disk d" and "inode_there sb gdt p" and "inode_there sb gdt i"
    and "inode_group sb i = inode_group sb p" and "i \<noteq> p" and "0 < i" and "i < 2 ^ 32"
    and "inode_group sb p < length gdt" and "inode_group sb p < 2 ^ 32" and "read_inode d sb gdt p = Ok pino"
    and "(p - 1) div sb_inodes_per_group sb = inode_group sb p" and "wsub 32 p 1 = p - 1"
proof -
  note r = assms[unfolded create_ready_def Let_def]
  show sb: "sb_ok sb" and good: "good_disk d" using r by (auto simp: log_ready_def)
  then show "wf_disk d" by (simp add: good_disk_def)
  show p: "inode_there sb gdt p" and "i \<noteq> p" and "read_inode d sb gdt p = Ok pino" using r by auto
  obtain slot where slot: "slot < sb_inodes_per_group sb" "i = inode_group sb p * sb_inodes_per_group sb + slot + 1"
    using r by auto
  show gi: "inode_group sb i = inode_group sb p" using inode_of_slot(1)[OF slot] by (simp add: inode_group_def)
  show "inode_there sb gdt i" using r gi slot(2) by (auto simp: inode_there_def)
  show "0 < i" "i < 2 ^ 32" using slot(2) r sb by (auto simp: sb_ok_def)
  have p32: "0 < p" "p < 2 ^ 32" using p sb by (auto simp: sb_ok_def inode_there_def)
  show "inode_group sb p < length gdt" using p by (simp add: inode_there_def)
  have "inode_group sb p \<le> p - 1" unfolding inode_group_def by (rule div_le_dividend)
  then show "inode_group sb p < 2 ^ 32" using p32 by simp
  show "(p - 1) div sb_inodes_per_group sb = inode_group sb p" by (simp add: inode_group_def)
  show "wsub 32 p 1 = p - 1" using p32 by (intro wsub_small) simp_all
qed

text \<open>The inode is taken and stored; the directory has not been looked at yet.\<close>

definition inode_made ::
  "nat \<Rightarrow> superblock \<Rightarrow> nat \<Rightarrow> nat \<Rightarrow> fs \<Rightarrow> fs \<Rightarrow> bool" where
  "inode_made now sb p i s s' \<longleftrightarrow>
     (let gdt = f_gdt s; g = inode_group sb p; bb = gd_inode_bitmap (gdt ! g); tb = inode_block sb gdt i in
      touches sb {bb, tb} {bb, gdt_block sb, tb} s s' \<and> pinned (f_txn s') bb = Some (run_of sb (f_dev s') bb) \<and>
      (\<forall>j. bm_bit (run_of sb (f_dev s') bb) j \<longleftrightarrow> j = (i - 1) mod sb_inodes_per_group sb \<or> bm_bit (run_of sb (f_dev s) bb) j) \<and>
      run_of sb (f_dev s') tb = patch (inode_off sb i) (new_raw_inode now 0x81A4 0 0) (run_of sb (f_dev s) tb) \<and>
      pinned (f_txn s') tb = Some (run_of sb (f_dev s') tb) \<and>
      (\<exists>u. f_gdt s' = gdt[g := (gdt ! g)\<lparr>gd_free_inodes_count := adjust_count (gd_free_inodes_count (gdt ! g)) (- 1), gd_itable_unused := u\<rparr>]))"

lemma create_inode_run:
  assumes "create_ready sb jn d gdt w p pino nm i es" and "create_apart sb jn d gdt p i ls"
  defines "s \<equiv> \<lparr>f_dev = d, f_gdt = gdt, f_txn = begin_transaction w\<rparr>"
  shows "\<exists>s1 s2. alloc_inode sb False (inode_group sb p) s = (Ok i, s1) \<and> init_inode now sb i 0x81A4 0 0 s1 = (Ok (), s2) \<and>
    inode_made now sb p i s s2 \<and> fs_inv sb d (length gdt) s2"
proof -
  note r = assms(1)[unfolded create_ready_def Let_def] and R = create_readyD[OF assms(1)]
  define g where "g = inode_group sb p"
  define bb where "bb = gd_inode_bitmap (gdt ! g)"
  define tb where "tb = inode_block sb gdt i"
  have a: "can_pin sb jn d bb" "can_pin sb jn d (gdt_block sb)" "can_pin sb jn d tb" "bb \<noteq> gdt_block sb" "tb \<noteq> bb" "tb \<noteq> gdt_block sb"
    using assms(2) by (simp_all add: create_apart_def Let_def bb_def g_def tb_def)
  then have disk: "in_disk sb d bb" "in_disk sb d (gdt_block sb)" "in_disk sb d tb" by (simp_all add: can_pin_def)
  obtain slot where slot: "slot < sb_inodes_per_group sb" "ibm_first_free (run_of sb d bb) = Some slot"
    "i = g * sb_inodes_per_group sb + slot + 1" using r by (auto simp: g_def bb_def)
  have s: "f_dev s = d" "f_gdt s = gdt" "txn_ok (f_txn s)" "\<And>q. pinned (f_txn s) q = None"
    by (simp_all add: s_def begin_transaction_def txn_ok_def pinned_def txn_new_def)
  have inv: "fs_inv sb d (length gdt) s"
    using R(3) s r by (simp add: fs_inv_def same_shape_refl unflushed_def pins_sized_def) (simp add: s_def begin_transaction_def txn_new_def)
  have g: "g < length gdt" "g < 2 ^ 32" using R(10,11) by (simp_all add: g_def)
  obtain s1 where s1: "alloc_inode sb False g s = (Ok i, s1)" "inode_taken sb g slot s s1"
    using alloc_inode_run[of sb s g bb slot False] R(1,2,9) s g disk a slot r
    by (auto simp: g_def[symmetric] bb_def[symmetric])
  note t1 = s1(2)[unfolded inode_taken_def Let_def s, folded bb_def]
  have gdts: "\<exists>u. f_gdt s1 = gdt[g := (gdt ! g)\<lparr>gd_free_inodes_count := adjust_count (gd_free_inodes_count (gdt ! g)) (- 1), gd_itable_unused := u\<rparr>]"
    using t1 by blast
  then obtain u where gdt1: "f_gdt s1 = gdt[g := (gdt ! g)\<lparr>gd_free_inodes_count := adjust_count (gd_free_inodes_count (gdt ! g)) (- 1), gd_itable_unused := u\<rparr>]"
    by blast
  note tables = same_tables[OF gdt1]
  note k1 = touches_keeps[OF conjunct1[OF conjunct2[OF t1]], unfolded s]
  have p1: "pinned (f_txn s1) tb = None" using k1(5)[of tb] a s(4) by simp
  obtain s2 where s2: "init_inode now sb i 0x81A4 0 0 s1 = (Ok (), s2)" "touches sb {tb} {tb} s1 s2" "f_gdt s2 = f_gdt s1"
    "run_of sb (f_dev s2) tb = patch (inode_off sb i) (new_raw_inode now 0x81A4 0 0) (run_of sb (f_dev s1) tb)"
    "pinned (f_txn s2) tb = Some (run_of sb (f_dev s2) tb)"
    using init_inode_run[of sb s1 i tb now "0x81A4" 0 0] R(1,5) k1(1)[OF R(2)] k1(2) disk(3) p1 tables k1(3)
    by (auto simp: tb_def)
  have tb0: "run_of sb (f_dev s1) tb = run_of sb d tb" using k1(4)[of tb] a(5) by simp
  have bb2: "pinned (f_txn s2) bb = pinned (f_txn s1) bb" "run_of sb (f_dev s2) bb = run_of sb (f_dev s1) bb"
    using touches_keeps(4,5)[OF s2(2), of bb] a(5) by simp_all
  have "touches sb {bb, tb} {bb, gdt_block sb, tb} s s2"
    using touches_trans[OF conjunct1[OF conjunct2[OF t1]] s2(2)] by (simp add: insert_commute)
  moreover have "pinned (f_txn s2) bb = Some (run_of sb (f_dev s2) bb)" using t1 by (simp add: bb2)
  moreover have "\<forall>j. bm_bit (run_of sb (f_dev s2) bb) j \<longleftrightarrow> j = (i - 1) mod sb_inodes_per_group sb \<or> bm_bit (run_of sb d bb) j"
    using t1 unfolding inode_of_slot(2)[OF slot(1,3)] bb2 by blast
  ultimately have "inode_made now sb p i s s2"
    using s2(4,5) gdts tb0 unfolding inode_made_def Let_def s s2(3) g_def[symmetric] bb_def[symmetric] tb_def[symmetric] by simp
  moreover have "fs_inv sb d (length gdt) s2"
    by (rule preservesD[OF init_inode_inv preservesD[OF alloc_inode_inv[OF R(1)] inv s1(1)] s2(1)])
  ultimately show ?thesis using s1(1) s2(1) unfolding g_def by blast
qed

text \<open>The parent still reads the same, on the device and through the transaction.\<close>

lemma parent_seen:
  assumes "create_ready sb jn d gdt w p pino nm i es" and "create_apart sb jn d gdt p i ls"
    and "inode_made now sb p i \<lparr>f_dev = d, f_gdt = gdt, f_txn = begin_transaction w\<rparr> s2" and "fs_inv sb d (length gdt) s2"
  shows "read_inode (f_dev s2) sb (f_gdt s2) p = Ok pino" and "read_inode_with_txn (f_dev s2) sb (f_gdt s2) (f_txn s2) p = Ok pino"
proof -
  note R = create_readyD[OF assms(1)]
  define tb pb where "tb = inode_block sb gdt i" and "pb = inode_block sb gdt p"
  note m = assms(3)[unfolded inode_made_def Let_def fs.simps, folded tb_def]
  have a: "pb \<noteq> gd_inode_bitmap (gdt ! inode_group sb p)" "pb \<noteq> gdt_block sb" "in_disk sb d pb" "in_disk sb d tb"
    using assms(2) by (simp_all add: create_apart_def Let_def can_pin_def pb_def tb_def)
  obtain u where gdt2: "f_gdt s2 = gdt[inode_group sb p := (gdt ! inode_group sb p)\<lparr>gd_free_inodes_count :=
      adjust_count (gd_free_inodes_count (gdt ! inode_group sb p)) (- 1), gd_itable_unused := u\<rparr>]" using m by blast
  note k2 = touches_keeps[OF conjunct1[OF m], unfolded fs.simps]
  have new: "pinned (begin_transaction w) q = None" for q by (simp add: begin_transaction_def pinned_def txn_new_def)
  have len: "length (run_of sb d tb) = sb_block_size sb" by (rule read_good_block(3)[OF R(1,2) a(4)])
  have kept: "bytes_at (inode_off sb p) 128 (run_of sb (f_dev s2) pb) = bytes_at (inode_off sb p) 128 (run_of sb d pb)"
  proof (cases "pb = tb")
    case True
    then show ?thesis
      using parent_slot_kept[OF R(1,4-7) len, of "new_raw_inode now 0x81A4 0 0"] m by (simp add: tb_def pb_def)
  next
    case False
    then show ?thesis using k2(4)[of pb] a(1) by simp
  qed
  have pin2: "pinned (f_txn s2) pb = None \<or> pinned (f_txn s2) pb = Some (run_of sb (f_dev s2) pb)"
    using k2(5)[of pb] a(1,2) new m by (cases "pb = tb") auto
  have place: "inode_block sb (f_gdt s2) p = pb" "inode_there sb (f_gdt s2) p"
    using same_tables[OF gdt2] R(4) by (simp_all add: pb_def)
  have good2: "good_disk (f_dev s2)" "wf_disk (f_dev s2)" using k2(1)[OF R(2)] by (simp_all add: good_disk_def)
  have here: "in_disk sb (f_dev s2) pb" using k2(3) a(3) by simp
  have decoded: "decode_inode p (bytes_at (inode_off sb p) 128 (run_of sb d pb)) = Ok pino"
    using read_inode_of_block[OF R(1,3,4), folded pb_def, OF read_good_block(2)[OF R(1,2) a(3)]] R(12) by simp
  note rd = read_good_block(2)[OF R(1) good2(1) here]
  show "read_inode (f_dev s2) sb (f_gdt s2) p = Ok pino"
    using read_inode_of_block[OF R(1) good2(2) place(2), unfolded place(1), OF rd] decoded kept by simp
  have "block_with_txn AllocBlockDevice sb pb s2 = Ok (run_of sb (f_dev s2) pb)"
    using pin2 rd by (auto simp: block_with_txn_def)
  from read_inode_with_txn_of_block[OF R(1) assms(4) place(2), unfolded place(1), OF this]
  show "read_inode_with_txn (f_dev s2) sb (f_gdt s2) (f_txn s2) p = Ok pino" using decoded kept by simp
qed

lemma create_txn_run:
  assumes "create_ready sb jn d gdt w p pino nm i es" and "flat_tree pino ls" and "create_apart sb jn d gdt p i ls"
    and "\<exists>lb q. lb * sb_block_size sb < ino_size pino \<and> resolve_lblock ls lb = Some q \<and>
      try_insert_in_block nm i FT_REG_FILE (run_of sb d q) \<noteq> Ok None"
  defines "s \<equiv> \<lparr>f_dev = d, f_gdt = gdt, f_txn = begin_transaction w\<rparr>"
  shows "\<exists>s' lb q b'. create_txn now sb False p nm links s = (Ok i, s') \<and> lb * sb_block_size sb < ino_size pino \<and>
    resolve_lblock ls lb = Some q \<and> try_insert_in_block nm i FT_REG_FILE (run_of sb d q) = Ok (Some b') \<and>
    create_done now sb p i q b' s s'"
proof -
  note r = assms(1)[unfolded create_ready_def Let_def] and R = create_readyD[OF assms(1)]
  define bb tb where "bb = gd_inode_bitmap (gdt ! inode_group sb p)" and "tb = inode_block sb gdt i"
  obtain s1 s2 where run: "alloc_inode sb False (inode_group sb p) s = (Ok i, s1)" "init_inode now sb i 0x81A4 0 0 s1 = (Ok (), s2)"
    and made: "inode_made now sb p i s s2" and inv2: "fs_inv sb d (length gdt) s2"
    using create_inode_run[OF assms(1,3)] unfolding s_def by blast
  note m = made[unfolded inode_made_def Let_def s_def fs.simps, folded bb_def tb_def]
  note k2 = touches_keeps[OF conjunct1[OF m], unfolded fs.simps]
  have good2: "good_disk (f_dev s2)" by (rule k2(1)[OF R(2)])
  note seen = parent_seen[OF assms(1,3) made[unfolded s_def] inv2]
  have dirs: "can_pin sb jn d q" "q \<notin> {bb, gdt_block sb, tb}" if "resolve_lblock ls lb = Some q" for lb q
    using assms(3) that by (auto simp: create_apart_def Let_def bb_def tb_def)
  obtain n where n: "dw_block_count sb pino = Ok n" "n = div_ceil (ino_size pino) (sb_block_size sb)"
    and listed: "\<And>lb q. lb < n \<Longrightarrow> resolve_lblock ls lb = Some q \<Longrightarrow>
      \<exists>here. parse_entries_from (run_of sb d q) 0 = Ok here \<and> set here \<subseteq> set es"
    using listed_dir_blocks[OF R(1,2) assms(2), of gdt es] r dirs(1) unfolding can_pin_def by metis
  have below: "lb < n \<longleftrightarrow> lb * sb_block_size sb < ino_size pino" for lb
    unfolding n(2) by (rule div_ceil_less) (use sb_ok_block_size(1)[OF R(1)] in simp)
  have same: "in_disk sb (f_dev s2) q" "pinned (f_txn s2) q = None" "run_of sb (f_dev s2) q = run_of sb d q"
    if "resolve_lblock ls lb = Some q" for lb q
    using dirs[OF that] k2(3-5)[of q] by (auto simp: can_pin_def begin_transaction_def pinned_def txn_new_def)
  have blocks: "\<forall>lb < n. lookup_block (f_dev s2) sb pino lb = Ok (resolve_lblock ls lb) \<and>
      (\<forall>q. resolve_lblock ls lb = Some q \<longrightarrow> in_disk sb (f_dev s2) q \<and> pinned (f_txn s2) q = None \<and>
         (\<exists>es. parse_entries_from (run_of sb (f_dev s2) q) 0 = Ok es \<and> nm \<notin> de_name ` set es))"
    using flat_tree_lookup[OF assms(2)] same listed r by fastforce
  have room: "\<exists>lb < n. \<exists>q. resolve_lblock ls lb = Some q \<and> try_insert_in_block nm i FT_REG_FILE (run_of sb (f_dev s2) q) \<noteq> Ok None"
    using assms(4) same(3) below by metis
  obtain lb q b' where q: "lb < n" "resolve_lblock ls lb = Some q" "try_insert_in_block nm i FT_REG_FILE (run_of sb d q) = Ok (Some b')"
    "dir_add_entry sb (f_gdt s2) p nm i FT_REG_FILE s2 = (Ok (), s2\<lparr>f_txn := pin_block q b' (f_txn s2)\<rparr>)"
    using dir_add_entry_run[OF R(1) good2 _ _ seen n(1) blocks room] r same(3) by metis
  define s3 where "s3 = s2\<lparr>f_txn := pin_block q b' (f_txn s2)\<rparr>"
  have "length b' = sb_block_size sb"
    using try_insert_from_same[of nm i FT_REG_FILE "run_of sb d q" 0 b'] q(3) read_good_block(3)[OF R(1,2)] dirs(1)[OF q(2)]
    by (simp add: try_insert_in_block_def same_upto_def can_pin_def)
  note t3 = touches_trans[OF conjunct1[OF m] touches_pin[OF good2 k2(2) this, of q, folded s3_def], folded s_def]
  have "create_txn now sb False p nm links s = (Ok i, s3)"
    using run q(4) R(1) unfolding create_txn_def Let_def R(13,14)
    by (simp add: sbind_Ok smap_err_def s3_def R(13,14) sb_ok_def)
  moreover have "create_done now sb p i q b' s s3"
  proof -
    have ne: "q \<noteq> bb" "q \<noteq> tb" using dirs(2)[OF q(2)] by auto
    have pins: "pinned (f_txn s3) = (pinned (f_txn s2))(q \<mapsto> b')" by (simp add: s3_def txn_pins.lookup_pin[OF k2(2)])
    have same3: "f_gdt s3 = f_gdt s2" "f_dev s3 = f_dev s2" by (simp_all add: s3_def)
    have "touches sb {bb, tb} {bb, gdt_block sb, tb, q} s s3" using t3 by (simp add: insert_commute)
    then show ?thesis
      using m ne unfolding create_done_def Let_def s_def fs.simps same3 bb_def[symmetric] tb_def[symmetric] by (simp add: pins)
  qed
  ultimately show ?thesis using q(1-3) below by blast
qed

text \<open>One block of the directory took the entry, the others are the same: so is the listing but for it.\<close>

lemma listing_extended:
  assumes "sb_ok sb" and "good_disk d" and "good_disk d'" and "flat_tree ino ls" and "read_dir d sb gdt ino = Ok es"
    and "\<And>k r. resolve_lblock ls k = Some r \<Longrightarrow> in_disk sb d r \<and> in_disk sb d' r"
    and "lb * sb_block_size sb < ino_size ino" and "resolve_lblock ls lb = Some q"
    and "try_insert_in_block nm i ft (run_of sb d q) = Ok (Some (run_of sb d' q))"
    and "\<And>k r. resolve_lblock ls k = Some r \<Longrightarrow> k \<noteq> lb \<Longrightarrow> run_of sb d' r = run_of sb d r"
    and "valid_utf8 nm" and "length nm < 256" and "0 < i" and "i < 2 ^ 32" and "ft < 256"
  shows "\<exists>es1 es2. es = es1 @ es2 \<and>
    read_dir d' sb gdt' ino = Ok (es1 @ \<lparr>de_inode_num = i, de_name = nm, de_file_type = ft\<rparr> # es2)"
proof -
  let ?new = "\<lparr>de_inode_num = i, de_name = nm, de_file_type = ft\<rparr>"
  obtain n where n: "dir_block_count sb ino = Ok n" using assms(5) by (auto simp: read_dir_def)
  then have "n = div_ceil (ino_size ino) (sb_block_size sb)"
    by (auto simp: dir_block_count_def Let_def split: if_split_asm)
  then have lb: "lb < n" using assms(7) div_ceil_less[of "sb_block_size sb" lb "ino_size ino"] sb_ok_block_size(1)[OF assms(1)] by simp
  obtain ess where ess: "list_all2 (block_lists d sb ino) [0..<n] ess" "es = concat ess"
    using assms(5) read_dir_blocks[OF n] by blast
  have at: "dir_block_at d sb ino k = Ok (map_option (run_of sb d) (resolve_lblock ls k))"
    "dir_block_at d' sb ino k = Ok (map_option (run_of sb d') (resolve_lblock ls k))" for k
    using flat_dir_block[OF assms(1,2,4)] flat_dir_block[OF assms(1,3,4)] assms(6) by blast+
  have len: "length ess = n" using list_all2_lengthD[OF ess(1)] by simp
  have "block_lists d sb ino lb (ess ! lb)" using ess(1) lb by (auto simp: list_all2_conv_all_nth)
  then have here: "parse_entries_from (run_of sb d q) 0 = Ok (ess ! lb)" by (simp add: block_lists_def at assms(8))
  obtain h1 h2 where h: "ess ! lb = h1 @ h2" "parse_entries_from (run_of sb d' q) 0 = Ok (h1 @ ?new # h2)"
    using try_insert_entries[OF assms(11-15) here] assms(9) by (auto simp: try_insert_in_block_def)
  have "list_all2 (block_lists d' sb ino) [0..<n] (ess[lb := h1 @ ?new # h2])"
  proof (rule list_all2_changed[OF ess(1)])
    show "lb < length [0..<n]" using lb by simp
    show "block_lists d' sb ino ([0..<n] ! lb) (h1 @ ?new # h2)" using lb h(2) by (simp add: block_lists_def at assms(8))
    show "block_lists d' sb ino ([0..<n] ! j) (ess ! j)"
      if "j < length [0..<n]" "j \<noteq> lb" "block_lists d sb ino ([0..<n] ! j) (ess ! j)" for j
      using that assms(10)[of j] by (cases "resolve_lblock ls j") (simp_all add: block_lists_def at)
  qed
  then have "read_dir d' sb gdt' ino = Ok (concat (ess[lb := h1 @ ?new # h2]))" using read_dir_blocks[OF n] by blast
  then show ?thesis
    using concat_changed[of lb ess] lb len ess(2) h(1)
    by (intro exI[of _ "concat (take lb ess) @ h1"] exI[of _ "h2 @ concat (drop (Suc lb) ess)"]) simp
qed

text \<open>What the device holds after the commit.\<close>

definition file_created ::
  "nat \<Rightarrow> superblock \<Rightarrow> nat \<Rightarrow> inode \<Rightarrow> byte list \<Rightarrow> nat \<Rightarrow> dir_entry list \<Rightarrow> disk \<Rightarrow> gdt \<Rightarrow> disk \<Rightarrow> gdt \<Rightarrow> bool" where
  "file_created now sb p pino nm i es d gdt d' gdt' \<longleftrightarrow>
     read_inode d' sb gdt' i = Ok (parse_raw (new_raw_inode now 0x81A4 0 0)) \<and> read_inode d' sb gdt' p = Ok pino \<and>
     (\<exists>es1 es2. es = es1 @ es2 \<and>
        read_dir d' sb gdt' pino = Ok (es1 @ \<lparr>de_inode_num = i, de_name = nm, de_file_type = FT_REG_FILE\<rparr> # es2)) \<and>
     (\<exists>bm bm'. ibm_load d sb gdt (inode_group sb i) = Ok bm \<and> ibm_load d' sb gdt' (inode_group sb i) = Ok bm' \<and>
        (\<forall>j. bm_bit bm' j \<longleftrightarrow> j = (i - 1) mod sb_inodes_per_group sb \<or> bm_bit bm j)) \<and>
     gd_free_inodes_count (gdt' ! inode_group sb i) = gd_free_inodes_count (gdt ! inode_group sb i) - 1"

text \<open>The same, block by block: the bitmap, the inode's slot, the directory block, and nothing else.\<close>

definition create_stored ::
  "nat \<Rightarrow> superblock \<Rightarrow> journal \<Rightarrow> nat \<Rightarrow> nat \<Rightarrow> nat \<Rightarrow> byte list \<Rightarrow> disk \<Rightarrow> gdt \<Rightarrow> disk \<Rightarrow> gdt \<Rightarrow> bool" where
  "create_stored now sb jn p i q b' d gdt d' gdt' \<longleftrightarrow>
     (let g = inode_group sb p; bb = gd_inode_bitmap (gdt ! g); tb = inode_block sb gdt i in
      same_shape d d' \<and> run_of sb d' q = b' \<and>
      run_of sb d' tb = patch (inode_off sb i) (new_raw_inode now 0x81A4 0 0) (run_of sb d tb) \<and>
      (\<forall>j. bm_bit (run_of sb d' bb) j \<longleftrightarrow> j = (i - 1) mod sb_inodes_per_group sb \<or> bm_bit (run_of sb d bb) j) \<and>
      (\<forall>x. can_pin sb jn d x \<and> x \<notin> {bb, gdt_block sb, tb, q} \<longrightarrow> run_of sb d' x = run_of sb d x) \<and>
      (\<exists>u. gdt' = gdt[g := (gdt ! g)\<lparr>gd_free_inodes_count := adjust_count (gd_free_inodes_count (gdt ! g)) (- 1), gd_itable_unused := u\<rparr>]))"

lemma create_commit_run:
  assumes "create_ready sb jn d gdt w p pino nm i es" and "create_apart sb jn d gdt p i ls" and "resolve_lblock ls lb = Some q"
    and "create_done now sb p i q b' \<lparr>f_dev = d, f_gdt = gdt, f_txn = begin_transaction w\<rparr> s1"
  shows "\<exists>js. commit (f_txn s1) \<lparr>js_w = w, js_dev = f_dev s1\<rparr> = (Ok (), js) \<and>
    create_stored now sb jn p i q b' d gdt (js_dev js) (f_gdt s1)"
proof -
  note r = assms(1)[unfolded create_ready_def Let_def] and R = create_readyD[OF assms(1)]
  define bb tb where "bb = gd_inode_bitmap (gdt ! inode_group sb p)" and "tb = inode_block sb gdt i"
  note a = assms(2)[unfolded create_apart_def Let_def, folded bb_def tb_def]
  note dn = assms(4)[unfolded create_done_def Let_def fs.simps, folded bb_def tb_def]
  have log: "log_ready sb jn \<lparr>js_w = w, js_dev = d\<rparr>" using r by auto
  have pins: "can_pin sb jn d x" if "x \<in> {bb, gdt_block sb, tb, q}" for x using that a assms(3) by blast
  have card: "card {bb, gdt_block sb, tb, q} \<le> 4" using card_length[of "[bb, gdt_block sb, tb, q]"] by simp
  have small: "28 + 12 * card {bb, gdt_block sb, tb, q} \<le> sb_block_size sb" "card {bb, gdt_block sb, tb, q} + 2 \<le> log_size jn"
    using card sb_ok_block_size(1)[OF R(1)] r by linarith+
  obtain js where c: "commit (f_txn s1) \<lparr>js_w = w, js_dev = f_dev s1\<rparr> = (Ok (), js)" "same_shape d (js_dev js)"
    and block: "\<And>x. can_pin sb jn d x \<Longrightarrow> run_of sb (js_dev js) x = (case pinned (f_txn s1) x of Some data \<Rightarrow> data | None \<Rightarrow> run_of sb (f_dev s1) x)"
    using touched_committed[OF log _ conjunct1[OF dn] _ small] r pins by (metis insert_iff insert_not_empty)
  note t = touches_keeps[OF conjunct1[OF dn], unfolded fs.simps]
  have "run_of sb (js_dev js) x = run_of sb d x" if "can_pin sb jn d x" "x \<notin> {bb, gdt_block sb, tb, q}" for x
    using block[OF that(1)] t(4,5)[of x] that(2) by (simp add: begin_transaction_def pinned_def txn_new_def)
  moreover have "run_of sb (js_dev js) bb = run_of sb (f_dev s1) bb" using block[OF pins] dn by simp
  moreover have "run_of sb (js_dev js) tb = patch (inode_off sb i) (new_raw_inode now 0x81A4 0 0) (run_of sb d tb)"
    "run_of sb (js_dev js) q = b'" using block[OF pins] dn by simp_all
  ultimately have "create_stored now sb jn p i q b' d gdt (js_dev js) (f_gdt s1)"
    using c(2) dn unfolding create_stored_def Let_def bb_def[symmetric] tb_def[symmetric] by simp
  then show ?thesis using c(1) by blast
qed

lemma create_stored_inodes:
  assumes "create_ready sb jn d gdt w p pino nm i es" and "create_apart sb jn d gdt p i ls" and "resolve_lblock ls lb = Some q"
    and "create_stored now sb jn p i q b' d gdt d' gdt'" and "now < 2 ^ 32"
  shows "read_inode d' sb gdt' i = Ok (parse_raw (new_raw_inode now 0x81A4 0 0))" and "read_inode d' sb gdt' p = Ok pino"
proof -
  note R = create_readyD[OF assms(1)]
  define bb tb pb where "bb = gd_inode_bitmap (gdt ! inode_group sb p)" and "tb = inode_block sb gdt i" and "pb = inode_block sb gdt p"
  note a = assms(2)[unfolded create_apart_def Let_def, folded bb_def tb_def pb_def]
  note st = assms(4)[unfolded create_stored_def Let_def, folded bb_def tb_def]
  have good: "good_disk d'" using good_disk_shape[OF R(2)] st by blast
  have ind: "in_disk sb d' x = in_disk sb d x" for x using st in_disk_shape by blast
  have pin: "can_pin sb jn d tb" "can_pin sb jn d pb" using a by simp_all
  obtain u where gdt1: "gdt' = gdt[inode_group sb p := (gdt ! inode_group sb p)\<lparr>gd_free_inodes_count :=
      adjust_count (gd_free_inodes_count (gdt ! inode_group sb p)) (- 1), gd_itable_unused := u\<rparr>]" using st by blast
  note tables = same_tables[OF gdt1]
  have read: "read_inode e sb gdt'' k = decode_inode k (bytes_at (inode_off sb k) 128 (run_of sb e (inode_block sb gdt k)))"
    if "good_disk e" "in_disk sb e (inode_block sb gdt k)" "inode_there sb gdt'' k" "inode_block sb gdt'' k = inode_block sb gdt k" for e gdt'' k
    using read_inode_of_block[OF R(1) _ that(3)] read_good_block(2)[OF R(1) that(1,2)] that(1,4) by (simp add: good_disk_def)
  have len: "length (run_of sb d tb) = sb_block_size sb" using read_good_block(3)[OF R(1,2)] pin(1) by (simp add: can_pin_def)
  have fit: "inode_off sb i + 128 \<le> sb_block_size sb"
    using inode_off_fits[OF R(1), of i] sb_ok_inode_size(1)[OF R(1)] by simp
  have "read_inode d' sb gdt' i = decode_inode i (new_raw_inode now 0x81A4 0 0)"
    using read[OF good, of i gdt'] pin(1) R(5) fit len st
    by (simp add: tables ind can_pin_def tb_def[symmetric] buffer_simps)
  then show "read_inode d' sb gdt' i = Ok (parse_raw (new_raw_inode now 0x81A4 0 0))"
    using new_raw_inode_fields(1)[of "0x81A4" 0 0 now] assms(5) by (simp add: decode_inode_def)
  have "bytes_at (inode_off sb p) 128 (run_of sb d' pb) = bytes_at (inode_off sb p) 128 (run_of sb d pb)"
  proof (cases "pb = tb")
    case True
    then show ?thesis
      using parent_slot_kept[OF R(1,4-7) len, of "new_raw_inode now 0x81A4 0 0"] st by (simp add: tb_def pb_def)
  next
    case False
    moreover have "pb \<noteq> q" using a assms(3) by blast
    ultimately show ?thesis using st pin(2) a by auto
  qed
  then show "read_inode d' sb gdt' p = Ok pino"
    using read[OF good, of p gdt'] read[OF R(2), of p gdt] pin(2) R(4,12)
    by (simp add: tables ind can_pin_def pb_def[symmetric])
qed

lemma create_stored_listing:
  assumes "create_ready sb jn d gdt w p pino nm i es" and "flat_tree pino ls" and "create_apart sb jn d gdt p i ls"
    and "lb * sb_block_size sb < ino_size pino" and "resolve_lblock ls lb = Some q"
    and "try_insert_in_block nm i FT_REG_FILE (run_of sb d q) = Ok (Some b')" and "create_stored now sb jn p i q b' d gdt d' gdt'"
  shows "\<exists>es1 es2. es = es1 @ es2 \<and>
    read_dir d' sb gdt' pino = Ok (es1 @ \<lparr>de_inode_num = i, de_name = nm, de_file_type = FT_REG_FILE\<rparr> # es2)"
proof -
  note r = assms(1)[unfolded create_ready_def Let_def] and R = create_readyD[OF assms(1)]
  note a = assms(3)[unfolded create_apart_def Let_def] and st = assms(7)[unfolded create_stored_def Let_def]
  have shape: "same_shape d d'" using st by blast
  show ?thesis
  proof (rule listing_extended[OF R(1,2) good_disk_shape[OF R(2) shape] assms(2) _ _ assms(4,5)])
    show "read_dir d sb gdt pino = Ok es" "valid_utf8 nm" "length nm < 256" using r by blast+
    show "in_disk sb d x \<and> in_disk sb d' x" if "resolve_lblock ls k = Some x" for k x
      using a that in_disk_shape[OF shape] unfolding can_pin_def by blast
    show "try_insert_in_block nm i FT_REG_FILE (run_of sb d q) = Ok (Some (run_of sb d' q))" using assms(6) st by simp
    show "run_of sb d' x = run_of sb d x" if "resolve_lblock ls k = Some x" "k \<noteq> lb" for k x
    proof -
      have "x \<noteq> q" using a that assms(5) by metis
      then show ?thesis using a that(1) st by auto
    qed
  qed (use R(8,9) in \<open>simp_all add: FT_REG_FILE_def\<close>)
qed

lemma create_stored_group:
  assumes "create_ready sb jn d gdt w p pino nm i es" and "create_apart sb jn d gdt p i ls"
    and "create_stored now sb jn p i q b' d gdt d' gdt'"
  shows "\<exists>bm bm'. ibm_load d sb gdt (inode_group sb i) = Ok bm \<and> ibm_load d' sb gdt' (inode_group sb i) = Ok bm' \<and>
      (\<forall>j. bm_bit bm' j \<longleftrightarrow> j = (i - 1) mod sb_inodes_per_group sb \<or> bm_bit bm j)"
    and "gd_free_inodes_count (gdt' ! inode_group sb i) = gd_free_inodes_count (gdt ! inode_group sb i) - 1"
proof -
  note r = assms(1)[unfolded create_ready_def Let_def] and R = create_readyD[OF assms(1)]
  define g bb where "g = inode_group sb p" and "bb = gd_inode_bitmap (gdt ! g)"
  note st = assms(3)[unfolded create_stored_def Let_def, folded g_def, folded bb_def]
  have pin: "in_disk sb d bb" using assms(2) by (simp add: create_apart_def Let_def bb_def g_def can_pin_def)
  have shape: "same_shape d d'" using st by blast
  obtain u where gdt1: "gdt' = gdt[g := (gdt ! g)\<lparr>gd_free_inodes_count := adjust_count (gd_free_inodes_count (gdt ! g)) (- 1), gd_itable_unused := u\<rparr>]"
    using st by blast
  have g: "g < length gdt" "inode_group sb i = g" using R(6,10) by (simp_all add: g_def)
  have "ibm_load d sb gdt g = Ok (run_of sb d bb)" "ibm_load d' sb gdt' g = Ok (run_of sb d' bb)"
    using read_good_block(2)[OF R(1,2) pin] read_good_block(2)[OF R(1) good_disk_shape[OF R(2) shape], of bb] pin g(1) gdt1
    by (auto simp: ibm_load_def gdt_get_def in_disk_shape[OF shape] bb_def)
  then show "\<exists>bm bm'. ibm_load d sb gdt (inode_group sb i) = Ok bm \<and> ibm_load d' sb gdt' (inode_group sb i) = Ok bm' \<and>
      (\<forall>j. bm_bit bm' j \<longleftrightarrow> j = (i - 1) mod sb_inodes_per_group sb \<or> bm_bit bm j)"
    using st g(2) by auto
  have "gd_free_inodes_count (gdt ! g) < 2 ^ 32" "1 \<le> gd_free_inodes_count (gdt ! g)"
    using r g(1) gdt_ok_nth[of gdt g] by (auto simp: gd_ok_def g_def)
  then have "adjust_count (gd_free_inodes_count (gdt ! g)) (- 1) = gd_free_inodes_count (gdt ! g) - 1"
    using adjust_count_down[of 1] by simp
  then show "gd_free_inodes_count (gdt' ! inode_group sb i) = gd_free_inodes_count (gdt ! inode_group sb i) - 1"
    using gdt1 g by auto
qed

lemma create_committed:
  assumes "create_ready sb jn d gdt w p pino nm i es" and "flat_tree pino ls" and "create_apart sb jn d gdt p i ls" and "now < 2 ^ 32"
    and "lb * sb_block_size sb < ino_size pino" and "resolve_lblock ls lb = Some q"
    and "try_insert_in_block nm i FT_REG_FILE (run_of sb d q) = Ok (Some b')"
    and "create_done now sb p i q b' \<lparr>f_dev = d, f_gdt = gdt, f_txn = begin_transaction w\<rparr> s1"
  shows "\<exists>js. commit (f_txn s1) \<lparr>js_w = w, js_dev = f_dev s1\<rparr> = (Ok (), js) \<and>
    file_created now sb p pino nm i es d gdt (js_dev js) (f_gdt s1)"
proof -
  obtain js where c: "commit (f_txn s1) \<lparr>js_w = w, js_dev = f_dev s1\<rparr> = (Ok (), js)"
    and st: "create_stored now sb jn p i q b' d gdt (js_dev js) (f_gdt s1)"
    using create_commit_run[OF assms(1,3,6,8)] by blast
  have "file_created now sb p pino nm i es d gdt (js_dev js) (f_gdt s1)"
    unfolding file_created_def
    using create_stored_inodes[OF assms(1,3,6) st assms(4)] create_stored_listing[OF assms(1-3,5-7) st]
      create_stored_group[OF assms(1,3) st] by blast
  then show ?thesis using c by blast
qed

section \<open>Property\<close>

lemma find_listed:
  fixes i ft :: nat
  assumes "es = es1 @ es2" and "nm \<notin> de_name ` set es"
  defines "new \<equiv> \<lparr>de_inode_num = i, de_name = nm, de_file_type = ft\<rparr>"
  shows "find (\<lambda>e. de_name e = nm) es = None" and "find (\<lambda>e. de_name e = nm) (es1 @ new # es2) = Some new"
    and "other \<noteq> nm \<Longrightarrow> find (\<lambda>e. de_name e = other) (es1 @ new # es2) = find (\<lambda>e. de_name e = other) es"
proof -
  have miss: "find (\<lambda>e. de_name e = nm) es1 = None" using assms(1,2) by (auto simp: find_None_iff)
  show "find (\<lambda>e. de_name e = nm) es = None" using assms(2) by (auto simp: find_None_iff)
  show "find (\<lambda>e. de_name e = nm) (es1 @ new # es2) = Some new" by (simp add: find_append miss new_def)
  show "other \<noteq> nm \<Longrightarrow> find (\<lambda>e. de_name e = other) (es1 @ new # es2) = find (\<lambda>e. de_name e = other) es"
    by (simp add: find_append assms(1) new_def split: option.split)
qed

lemma ctx_reads:
  assumes "\<not> x_gdt_held y"
  shows "read_inode (x_dev y) (x_sb y) (x_gdt y) k = Ok ino \<Longrightarrow> ctx_inode k y = (Ok ino, y)"
    and "dir_lookup (x_dev y) (x_sb y) (x_gdt y) dir nm = Ok found \<Longrightarrow> ctx_lookup dir nm y = (Ok found, y)"
  using assms by (simp_all add: ctx_inode_def ctx_lookup_def with_gdt_def)

lemma new_file_inode:
  fixes now :: nat
  assumes "now < 2 ^ 32"
  defines "ino \<equiv> parse_raw (new_raw_inode now 0x81A4 0 0)"
  shows "ino_mode ino = 0x81A4" and "ino_size ino = 0" and "ino_links_count ino = 1" and "lookup_block d sb ino l = Ok None"
    and "is_file ino" and "\<not> is_dir ino" and "\<not> is_symlink ino"
proof -
  have "(0x81A4 :: nat) < 2 ^ 16" "(0 :: nat) < 2 ^ 32" by simp_all
  note f = new_raw_inode_fields[OF this(1,2,2) assms(1), folded ino_def]
  show "ino_mode ino = 0x81A4" "ino_size ino = 0" "ino_links_count ino = 1" by (simp_all add: f)
  then show "is_file ino" "\<not> is_dir ino" "\<not> is_symlink ino"
    by (simp_all add: is_file_def is_dir_def is_symlink_def inode_file_type_def S_IFMT_def S_IFREG_def S_IFDIR_def S_IFLNK_def)
  show "lookup_block d sb ino l = Ok None"
    using lookup_root[OF f(9), of d sb l] f(8) by (simp add: f(10) lookup_block_def leaves_of_def)
qed

text \<open>A path whose parent is known and holds the name is opened.\<close>

lemma open_found:
  assumes "split_path (to_slashes file_name) = Some (parent, nm)" and "nm \<noteq> DOT" and "nm \<noteq> DOTDOT"
    and "resolve_path parent y = (Ok p, y)" and "ctx_inode p y = (Ok pino, y)" and "is_dir pino"
    and "ctx_lookup pino nm y = (Ok (Some i), y)" and "ctx_inode i y = (Ok ino, y)" and "ino_mode ino = 0x81A4"
  shows "open_handle file_name y = (Ok (HFile i ino, file_info_from_inode ino i), y)"
proof -
  have "path_components (to_slashes file_name) = path_components parent @ [nm]"
    using split_path_components[OF assms(1)] by blast
  moreover have "resolve_from (to_slashes file_name) (path_components parent) 2 y = (Ok p, y)"
    using assms(4) unfolding resolve_path_eq by (subst resolve_from_path)
  moreover have "resolve_from (to_slashes file_name) [nm] p y = (Ok i, y)"
    unfolding resolve_one[OF assms(2,3)] using assms(5-7) by blast
  ultimately have "resolve_path (to_slashes file_name) y = (Ok i, y)"
    unfolding resolve_path_eq by (simp add: resolve_from_append sbind_Ok)
  moreover have "\<not> is_dir ino" "\<not> is_symlink ino"
    using assms(9) by (simp_all add: is_dir_def is_symlink_def inode_file_type_def S_IFMT_def S_IFDIR_def S_IFLNK_def S_IFREG_def)
  ultimately show ?thesis
    using assms(8,9)
    by (simp add: open_handle_def smap_err_def sbind_def Let_def S_IFMT_def S_IFBLK_def S_IFCHR_def S_IFIFO_def S_IFSOCK_def)
qed

text \<open>
  C3. A file that was created is found. On a device without faults, a create request for a name
  that a directory does not hold, in a directory whose extents are in its inode, with room in
  one of its blocks and a free inode in its group, succeeds: it answers with the number of the
  first free inode of that group. Afterwards that inode is an empty regular file with one
  link, the name is found in the directory and every other name is found, or not, as before;
  the group has one free inode less; and where the path of the parent still leads to it, the
  open request for the same path answers with the same file.
\<close>

theorem create_then_lookup:
  assumes "create_ready (x_sb x) jn (x_dev x) (x_gdt x) (x_journal x) p pino nm i es" and "now < 2 ^ 32"
    and "\<not> x_read_only x" and "\<not> x_gdt_held x" and "\<not> x_journal_held x"
    and "split_path (to_slashes file_name) = Some (parent, nm)" and "resolve_path parent x = (Ok p, x)"
    and "opts AND FILE_DIRECTORY_FILE = 0"
  shows "\<exists>ino info y. create_handle now file_name opts x = (Ok (HFile i ino, info), y) \<and>
    ctx_inode i y = (Ok ino, y) \<and> is_file ino \<and> ino_size ino = 0 \<and> ino_links_count ino = 1 \<and>
    (\<forall>l. lookup_block (x_dev y) (x_sb y) ino l = Ok None) \<and>
    ctx_inode p y = (Ok pino, y) \<and> ctx_lookup pino nm y = (Ok (Some i), y) \<and>
    (\<forall>other. other \<noteq> nm \<longrightarrow> ctx_lookup pino other y = (fst (ctx_lookup pino other x), y)) \<and>
    gd_free_inodes_count (x_gdt y ! inode_group (x_sb x) i) = gd_free_inodes_count (x_gdt x ! inode_group (x_sb x) i) - 1 \<and>
    (resolve_path parent y = (Ok p, y) \<and> nm \<noteq> DOT \<and> nm \<noteq> DOTDOT \<longrightarrow> open_handle file_name y = (Ok (HFile i ino, info), y))"
proof -
  let ?sb = "x_sb x" and ?ino = "parse_raw (new_raw_inode now 0x81A4 0 0)"
  note r = assms(1)[unfolded create_ready_def]
  obtain ls lb q where ls: "flat_tree pino ls" "create_apart ?sb jn (x_dev x) (x_gdt x) p i ls"
    and room: "\<exists>lb q. lb * sb_block_size ?sb < ino_size pino \<and> resolve_lblock ls lb = Some q \<and>
      try_insert_in_block nm i FT_REG_FILE (run_of ?sb (x_dev x) q) \<noteq> Ok None"
    using r by blast
  obtain s1 lb q b' where run: "create_txn now ?sb False p nm (ino_links_count pino)
      \<lparr>f_dev = x_dev x, f_gdt = x_gdt x, f_txn = begin_transaction (x_journal x)\<rparr> = (Ok i, s1)"
    and q: "lb * sb_block_size ?sb < ino_size pino" "resolve_lblock ls lb = Some q"
      "try_insert_in_block nm i FT_REG_FILE (run_of ?sb (x_dev x) q) = Ok (Some b')"
    and dn: "create_done now ?sb p i q b' \<lparr>f_dev = x_dev x, f_gdt = x_gdt x, f_txn = begin_transaction (x_journal x)\<rparr> s1"
    using create_txn_run[OF assms(1) ls room] by blast
  obtain js where c: "commit (f_txn s1) \<lparr>js_w = x_journal x, js_dev = f_dev s1\<rparr> = (Ok (), js)"
    and fc: "file_created now ?sb p pino nm i es (x_dev x) (x_gdt x) (js_dev js) (f_gdt s1)"
    using create_committed[OF assms(1) ls assms(2) q dn] by blast
  obtain es1 es2 where es: "es = es1 @ es2" and new: "read_dir (js_dev js) ?sb (f_gdt s1) pino =
      Ok (es1 @ \<lparr>de_inode_num = i, de_name = nm, de_file_type = FT_REG_FILE\<rparr> # es2)"
    and ino: "read_inode (js_dev js) ?sb (f_gdt s1) i = Ok ?ino" "read_inode (js_dev js) ?sb (f_gdt s1) p = Ok pino"
    and count: "gd_free_inodes_count (f_gdt s1 ! inode_group ?sb i) = gd_free_inodes_count (x_gdt x ! inode_group ?sb i) - 1"
    using fc unfolding file_created_def by blast
  have old: "read_dir (x_dev x) ?sb (x_gdt x) pino = Ok es" and absent: "nm \<notin> de_name ` set es" using r by blast+
  note found = find_listed(1)[OF es absent] find_listed(2,3)[OF es absent, where i = i and ft = FT_REG_FILE]
  define y where "y = x\<lparr>x_dev := js_dev js, x_gdt := f_gdt s1, x_journal := js_w js\<rparr>"
  have y: "x_dev y = js_dev js" "x_sb y = ?sb" "x_gdt y = f_gdt s1" "\<not> x_gdt_held y" by (simp_all add: y_def assms(4))
  note at_y = ctx_reads[OF y(4), unfolded y] and at_x = ctx_reads[OF assms(4)]
  note look = lookup_in_listing[OF old] lookup_in_listing[OF new]
  have dir: "is_dir pino" using old by (auto simp: read_dir_def dir_block_count_def split: if_split_asm)
  have get: "ctx_inode i y = (Ok ?ino, y)" "ctx_inode p y = (Ok pino, y)" "ctx_lookup pino nm y = (Ok (Some i), y)"
    by (simp_all add: at_y ino look found(2))
  have others: "ctx_lookup pino other y = (fst (ctx_lookup pino other x), y)" if "other \<noteq> nm" for other
    using that by (simp add: at_y at_x look found(3))
  note f = new_file_inode[OF assms(2)]
  have parent: "ctx_inode p x = (Ok pino, x)" "ctx_lookup pino nm x = (Ok None, x)"
    using r by (simp_all add: at_x look found(1))
  have released: "x\<lparr>x_gdt := f_gdt s1, x_gdt_held := False, x_journal := js_w js, x_dev := js_dev js, x_journal_held := False\<rparr> = y"
    using assms(4,5) by (cases x) (simp add: y_def)
  have made: "create_handle now file_name opts x = (Ok (HFile i ?ino, file_info_from_inode ?ino i), y)"
    using assms(3-8) parent dir run c get(1)
    by (simp add: create_handle_def guard_writable_def smap_err_def sbind_def with_journal_def ctx_begin_def
        with_gdt_def ctx_sb_def on_fs_def ctx_commit_def released)
  have opened: "open_handle file_name y = (Ok (HFile i ?ino, file_info_from_inode ?ino i), y)"
    if "resolve_path parent y = (Ok p, y)" "nm \<noteq> DOT" "nm \<noteq> DOTDOT"
    using open_found[OF assms(6) that(2,3,1) get(2) dir get(3,1) f(1)] by blast
  show ?thesis
    using made get others opened f(2-5) count by (intro exI[of _ ?ino] exI[of _ "file_info_from_inode ?ino i"] exI[of _ y]) (simp add: y)
qed

text \<open>A file in the root of the sample image.\<close>

lemma sample_create_ready:
  "create_ready sample_sb sample_journal sample_disk [sample_gd] (journal_writer_new sample_journal) 2
     (sample_ino 0x41ED 1024 2 7 1) [0x62] 13
     [\<lparr>de_inode_num = 2, de_name = [0x2E], de_file_type = 2\<rparr>, \<lparr>de_inode_num = 2, de_name = [0x2E, 0x2E], de_file_type = 2\<rparr>,
      \<lparr>de_inode_num = 12, de_name = [0x61], de_file_type = 1\<rparr>]"
proof -
  let ?ino = "sample_ino 0x41ED 1024 2 7 1" and ?ls = "[\<lparr>ee_block = 0, ee_len = 1, ee_start_hi = 0, ee_start_lo = 7\<rparr>]"
  note w = sample_write_ready[unfolded write_ready_def]
  have gd: "sb_inodes_count sample_sb = 16" "gd_inode_table sample_gd = 5" "gd_inode_bitmap sample_gd = 4"
    "gd_free_inodes_count sample_gd = 4" "sb_desc_size sample_sb = 32" "sb_first_data_block sample_sb = 1" "gd_ok sample_gd"
    by (simp_all add: sample_sb_def sample_gd_def gd_ok_def)
  have places: "inode_there sample_sb [sample_gd] 2" "inode_group sample_sb 2 = 0" "inode_block sample_sb [sample_gd] 2 = 5"
    "inode_block sample_sb [sample_gd] 13 = 6" "gdt_block sample_sb = 2"
    by (simp_all add: inode_there_def inode_group_def inode_block_def gdt_block_def gd)
  have pin: "can_pin sample_sb sample_journal sample_disk q" if "q < 8" for q
    using that in_sample[of q] by (auto simp: can_pin_def tag_fits_def sample_journal_def in_disk_def)
  have block: "run_of sample_sb sample_disk q = sample_block q" for q
    using sample_block_run[of q] by (simp add: mult.commute)
  have lv: "resolve_lblock ?ls k = (if k = 0 then Some 7 else None)" for k
    by (simp add: resolve_lblock_def partition_point_def leaf_start_def hi_lo_def)
  have tree: "flat_tree ?ino ?ls"
    using sample_ino_node[of 7 1] sample_ino_uses
    by (simp add: flat_tree_def leaves_in_order_def sample_ino_block)
  have apart: "create_apart sample_sb sample_journal sample_disk [sample_gd] 2 13 ?ls"
    using pin by (simp add: create_apart_def Let_def places gd lv del: One_nat_def split: if_split_asm)
  have "rec_inode sample_root 0 = 2" "rec_len sample_root 0 = 12" "rec_name_len sample_root 0 = 1"
    "rec_inode sample_root 12 = 2" "rec_len sample_root 12 = 12" "rec_name_len sample_root 12 = 2"
    "rec_inode sample_root 24 = 12" "rec_len sample_root 24 = 1000" "rec_name_len sample_root 24 = 1"
    by code_simp+
  moreover have "length sample_root = 1024" using length_sample_block[of 7] by (simp add: sample_block_def)
  ultimately have ins: "try_insert_in_block [0x62] 13 FT_REG_FILE sample_root \<noteq> Ok None"
    by (simp add: try_insert_in_block_def try_insert_from.simps min_rec_len_def write_dirent_def patch_r_def)
  have bm: "sample_block 4 = 0xFF # 0x0F # replicate 1022 0" by (simp add: sample_block_def patch_def)
  have "trailing_ones 0x0F = 4" by code_simp
  then have free: "ibm_first_free (sample_block 4) = Some 12" by (simp add: ibm_first_free_def bm wadd_def wmul_def)
  have bitmap: "sector_run sample_disk 8 2 = sample_block 4" using sample_block_run[of 4] by simp
  have "0 * sb_block_size sample_sb < ino_size ?ino" by (simp add: sample_ino_fields)
  moreover have "resolve_lblock ?ls 0 = Some 7" unfolding lv by simp
  moreover have "run_of sample_sb sample_disk 7 = sample_root" unfolding block by (simp add: sample_block_def)
  ultimately have "\<exists>lb q. lb * sb_block_size sample_sb < ino_size ?ino \<and> resolve_lblock ?ls lb = Some q \<and>
      try_insert_in_block [0x62] 13 FT_REG_FILE (run_of sample_sb sample_disk q) \<noteq> Ok None"
    using ins by metis
  moreover have "6 \<le> log_size sample_journal" by (simp add: log_size_def sample_journal_def)
  ultimately show ?thesis
    unfolding create_ready_def Let_def
    using w tree apart sample_read_inode(1) sample_read_dir valid_names(2) free
    by (auto simp: places gd bitmap gdt_ok_def)
qed

theorem create_then_lookup_witness:
  "\<exists>ino info y. create_handle 9 [0x5C, 0x62] 0 (sample_fs ReadWrite) = (Ok (HFile 13 ino, info), y) \<and>
     open_handle [0x5C, 0x62] y = (Ok (HFile 13 ino, info), y)"
proof -
  let ?x = "sample_fs ReadWrite"
  have x: "x_sb ?x = sample_sb" "x_dev ?x = sample_disk" "x_gdt ?x = [sample_gd]"
    "x_journal ?x = journal_writer_new sample_journal" "\<not> x_read_only ?x" "\<not> x_gdt_held ?x" "\<not> x_journal_held ?x"
    by (simp_all add: sample_fs_def)
  have split: "split_path (to_slashes [0x5C, 0x62]) = Some ([SLASH], [0x62])" by code_simp
  have root: "resolve_path [SLASH] y = (Ok 2, y)" for y by (simp add: resolve_path_eq)
  have dots: "[0x62] \<noteq> DOT" "[0x62] \<noteq> DOTDOT" by (simp_all add: DOT_def DOTDOT_def)
  have "(0 :: nat) AND FILE_DIRECTORY_FILE = 0" by simp
  from create_then_lookup[of ?x sample_journal 2 _ "[0x62]" 13, unfolded x(1-4), OF sample_create_ready _ x(5-7) split root this, of 9]
  show ?thesis using root dots by (simp del: not_Cons_self2) blast
qed

end
