(* ===== verification/Append_Request.thy ===== *)
theory Append_Request
  imports Create_Request
begin

text \<open>
  A write request that makes a file longer and the reads after it, from the callback down to the
  device: on a device without faults the missing blocks are taken from the bitmap, zeroed,
  appended to the extents in the inode and written, and the transaction is committed. What the
  file then holds is what was asked for exactly when the write does not begin past a gap.
\<close>

section \<open>Taking blocks\<close>

lemma update_gdt_free_blocks_run:
  assumes "sb_ok sb" and "good_disk (f_dev s)" and "txn_ok (f_txn s)" and "in_disk sb (f_dev s) (gdt_block sb)"
    and "g < length (f_gdt s)" and "(g + 1) * sb_desc_size sb \<le> sb_block_size sb"
  shows "\<exists>s'. update_gdt_free_blocks sb g delta s = (Ok (), s') \<and> f_dev s' = f_dev s \<and>
    f_gdt s' = (f_gdt s)[g := (f_gdt s ! g)\<lparr>gd_free_blocks_count := adjust_count (gd_free_blocks_count (f_gdt s ! g)) delta\<rparr>] \<and>
    touches sb {} {gdt_block sb} s s'"
proof -
  define old where "old = run_of sb (f_dev s) (gdt_block sb)"
  define s1 where "s1 = s\<lparr>f_gdt := (f_gdt s)[g := (f_gdt s ! g)\<lparr>gd_free_blocks_count := adjust_count (gd_free_blocks_count (f_gdt s ! g)) delta\<rparr>]\<rparr>"
  have adj: "on_gdt (adjust_free_blocks g delta) s = (Ok (), s1)"
    using assms(5) by (simp add: on_gdt_def adjust_free_blocks_def gdt_update_def s1_def)
  have len: "length old = sb_block_size sb" using read_good_block(3)[OF assms(1,2,4)] by (simp add: old_def)
  have read: "read_fs_block sb (gdt_block sb) s1 = (Ok old, s1)"
    using read_good_block(2)[OF assms(1,2,4)] by (simp add: read_fs_block_def old_def s1_def)
  have fit: "g * sb_desc_size sb + sb_desc_size sb \<le> sb_block_size sb" using assms(6) by simp
  then have off: "wmul 64 g (sb_desc_size sb) = g * sb_desc_size sb"
    using sb_ok_block_size(2)[OF assms(1)] by (simp add: wmul_def)
  have small: "g * sb_desc_size sb + 64 < 2 ^ 64" using fit sb_ok_block_size(2)[OF assms(1)] by simp
  have ds: "32 \<le> sb_desc_size sb" using assms(1) by (simp add: sb_ok_def)
  have "\<exists>data. store_free_blocks (sb_desc_size sb) (g * sb_desc_size sb) (f_gdt s1 ! g) old = Ok data"
    using fit ds len small by (simp add: store_free_blocks_def patch_r_def wadd_def)
  then obtain data where data: "store_free_blocks (sb_desc_size sb) (g * sb_desc_size sb) (f_gdt s1 ! g) old = Ok data" by blast
  have g: "g < length (f_gdt s1)" using assms(5) by (simp add: s1_def)
  have "update_gdt_free_blocks sb g delta s = (Ok (), s1\<lparr>f_txn := pin_block (gdt_block sb) data (f_txn s1)\<rparr>)"
    using adj read[unfolded gdt_block_def] fit ds len small g data
    by (simp add: update_gdt_free_blocks_def gdt_block_def Let_def sbind_Ok off gdt_get_def pin_def wadd_def smap_err_Ok_iff)
  moreover have "touches sb ({} \<union> {}) ({} \<union> {gdt_block sb}) s (s1\<lparr>f_txn := pin_block (gdt_block sb) data (f_txn s1)\<rparr>)"
  proof (rule touches_trans)
    show "touches sb {} {} s s1" unfolding s1_def by (rule touches_table[OF assms(2,3)])
    show "touches sb {} {gdt_block sb} s1 (s1\<lparr>f_txn := pin_block (gdt_block sb) data (f_txn s1)\<rparr>)"
      using assms(2,3) store_free_blocks_len[OF data] len by (intro touches_pin) (simp_all add: s1_def)
  qed
  ultimately show ?thesis by (simp add: s1_def)
qed

lemma alloc_blocks_run:
  fixes n hint start :: nat
  assumes "sb_ok sb" and "good_disk (f_dev s)" and "txn_ok (f_txn s)" and "hint < 2 ^ 64" and "f_gdt s \<noteq> []"
    and "g = hint div sb_blocks_per_group sb mod length (f_gdt s)" and "bb = gd_block_bitmap (f_gdt s ! g)"
    and "in_disk sb (f_dev s) bb" and "in_disk sb (f_dev s) (gdt_block sb)" and "bb \<noteq> gdt_block sb"
    and "(g + 1) * sb_desc_size sb \<le> sb_block_size sb" and "0 < n" and "n \<le> gd_free_blocks_count (f_gdt s ! g)"
    and "bm_first_free_run (run_of sb (f_dev s) bb) n (sb_blocks_per_group sb) = (Ok (Some start) :: (alloc_error, _) res)"
    and "g * sb_blocks_per_group sb + start < 2 ^ 64"
  shows "\<exists>s'. alloc_blocks sb n hint s = (Ok (g * sb_blocks_per_group sb + start), s') \<and>
    touches sb {bb} {bb, gdt_block sb} s s' \<and> pinned (f_txn s') bb = Some (run_of sb (f_dev s') bb) \<and>
    f_gdt s' = (f_gdt s)[g := (f_gdt s ! g)\<lparr>gd_free_blocks_count := adjust_count (gd_free_blocks_count (f_gdt s ! g)) (- int n)\<rparr>] \<and>
    (\<forall>j. bm_bit (run_of sb (f_dev s') bb) j \<longleftrightarrow> j \<in> {start..<start + n} \<or> bm_bit (run_of sb (f_dev s) bb) j)"
proof -
  define bm where "bm = run_of sb (f_dev s) bb"
  have g: "g < length (f_gdt s)" using assms(5,6) by simp
  have len: "length bm = sb_block_size sb" using read_good_block(3)[OF assms(1,2,8)] by (simp add: bm_def)
  have small: "8 * length bm < 2 ^ 32" using len sb_ok_block_size(2)[OF assms(1)] by simp
  have "run_answer bm (min (sb_blocks_per_group sb) (8 * length bm)) n (Ok (Some start) :: (alloc_error, nat option) res)"
    using bm_first_free_run_spec[OF assms(12) small, of "sb_blocks_per_group sb", where ?'e = alloc_error] assms(14) by (simp add: bm_def)
  then have free: "start + n \<le> 8 * length bm" by (simp add: run_answer_def free_run_def)
  then have range: "wadd 32 start n = start + n" using small by (simp add: wadd_def)
  have "\<forall>i \<in> set [start..<start + n]. i div 8 < length bm" using free by auto
  from bm_allocate_all[OF this, where ?'e = alloc_error] obtain bm' where
    set: "sfor [start..<start + n] (\<lambda>b. sbind (bm_allocate b) (\<lambda>_. sreturn ())) bm = (Ok () :: (alloc_error, unit) res, bm')"
    and bm': "length bm' = sb_block_size sb" "\<And>j. bm_bit bm' j \<longleftrightarrow> j \<in> {start..<start + n} \<or> bm_bit bm j"
    using len by auto
  have ld: "bm_load (f_dev s) sb (f_gdt s) g = Ok bm"
    using read_good_block(2)[OF assms(1,2,8)] g assms(7) by (simp add: bm_load_def bm_def)
  define s1 where "s1 = s\<lparr>f_dev := store_run (bb * spb sb) bm' (f_dev s), f_txn := pin_block bb bm' (f_txn s)\<rparr>"
  note w1 = touches_write[OF assms(1-3,8) bm'(1), folded s1_def]
  have flush: "flush_bitmap sb bb bm' s = (Ok (), s1)"
    using flush_run(1)[OF assms(1,2,8) bm'(1)] by (simp add: s1_def flush_bitmap_def flush_inode_bitmap_def)
  have k1: "good_disk (f_dev s1)" "txn_ok (f_txn s1)" "in_disk sb (f_dev s1) (gdt_block sb)" "f_gdt s1 = f_gdt s"
    using touches_keeps(1-3)[OF w1(1)] assms(2,9) by (auto simp: s1_def)
  obtain s2 where upd: "update_gdt_free_blocks sb g (- int n) s1 = (Ok (), s2)" and dev: "f_dev s2 = f_dev s1"
    and gdt: "f_gdt s2 = (f_gdt s)[g := (f_gdt s ! g)\<lparr>gd_free_blocks_count := adjust_count (gd_free_blocks_count (f_gdt s ! g)) (- int n)\<rparr>]"
    and w2: "touches sb {} {gdt_block sb} s1 s2"
    using update_gdt_free_blocks_run[OF assms(1) k1(1-3) _ assms(11), of "- int n"] g unfolding k1(4) by blast
  have num: "wadd 64 (wmul 64 g (sb_blocks_per_group sb)) start = g * sb_blocks_per_group sb + start"
    using assms(15) by (simp add: wmul_def wadd_def)
  have "hint div sb_blocks_per_group sb < 2 ^ 64" using assms(4) div_le_dividend by (rule le_less_trans[rotated])
  then obtain gs where gs: "group_order (hint div sb_blocks_per_group sb) (length (f_gdt s)) = g # gs"
    using assms(5,6) by (cases "length (f_gdt s)") (simp_all add: group_order_def upt_conv_Cons wadd_def del: upt_Suc)
  have "alloc_blocks_in sb n (g # gs) s = (Ok (g * sb_blocks_per_group sb + start), s2)"
    using g assms(13) assms(14)[folded bm_def] ld set flush upd num
    by (simp add: gdt_get_def sbind_Ok run_local_def range assms(7)[symmetric])
  moreover have "sb_blocks_per_group sb \<noteq> 0" using assms(1) by (simp add: sb_ok_def)
  ultimately have "alloc_blocks sb n hint s = (Ok (g * sb_blocks_per_group sb + start), s2)"
    by (simp add: alloc_blocks_def gs rassert_def del: alloc_blocks_in.simps)
  moreover have "touches sb {bb} {bb, gdt_block sb} s s2" using touches_trans[OF w1(1) w2] by (simp add: insert_commute)
  moreover have "pinned (f_txn s2) bb = Some bm'"
    using touches_keeps(5)[OF w2, of bb] assms(3,10) by (simp add: s1_def txn_pins.lookup_pin)
  ultimately show ?thesis using gdt bm'(2) w1(2) dev by (auto simp: s1_def bm_def)
qed

section \<open>Appending an extent\<close>

text \<open>A root in the inode with room for one more entry.\<close>

definition root_has_room :: "byte list \<Rightarrow> bool" where
  "root_has_room root \<longleftrightarrow> eh_entries (header_of root) < 4 \<and> eh_entries (header_of root) < eh_max (header_of root)"

lemma extent_append_run:
  assumes "sb_ok sb" and "good_disk (f_dev s)" and "txn_ok (f_txn s)" and "inode_there sb (f_gdt s) i"
    and "read_inode (f_dev s) sb (f_gdt s) i = Ok ino" and "flat_tree ino ls" and "root_has_room (ino_block_data ino)"
    and "ib = inode_block sb (f_gdt s) i" and "in_disk sb (f_dev s) ib" and "pinned (f_txn s) ib = None"
  defines "old \<equiv> run_of sb (f_dev s) ib"
  defines "raw \<equiv> bytes_at (inode_off sb i) 128 old"
  shows "\<exists>root' s'. new_root (ino_block_data ino) phys n root' \<and> extent_append sb i phys n s = (Ok (), s') \<and>
    f_gdt s' = f_gdt s \<and> touches sb {ib} {ib} s s' \<and> pinned (f_txn s') ib = Some (run_of sb (f_dev s') ib) \<and>
    run_of sb (f_dev s') ib = patch (inode_off sb i) (update_iblocks sb n (set_i_block root' raw)) old"
proof -
  let ?off = "inode_off sb i"
  define root where "root = ino_block_data ino"
  have wf: "wf_disk (f_dev s)" using assms(2) by (simp add: good_disk_def)
  have len: "length old = sb_block_size sb" using read_good_block(3)[OF assms(1,2,9)] by (simp add: old_def)
  have fit: "?off + 128 \<le> sb_block_size sb"
    using inode_off_fits[OF assms(1), of i] sb_ok_inode_size(1)[OF assms(1)] by simp
  then have raw: "length raw = 128" by (simp add: raw_def len)
  have "decode_inode i raw = Ok ino"
    using read_inode_of_block[OF assms(1) wf assms(4), folded assms(8), OF read_good_block(2)[OF assms(1,2,9)]] assms(5)
    by (simp add: raw_def old_def)
  then have root: "i_block raw = root" by (auto simp: root_def decode_inode_def parse_raw_def split: if_split_asm)
  obtain h where h: "length root = 60" "check_node root = Ok h" "eh_depth h = 0"
    using assms(6) by (auto simp: flat_tree_def root_def)
  note c = check_node_flat[OF h]
  have blk: "block_with_txn EwBlockDevice sb ib s = Ok old"
    using assms(10) read_good_block(2)[OF assms(1,2,9)] by (simp add: block_with_txn_def old_def)
  have read: "read_raw_inode_at_with_txn sb ib ?off s = (Ok raw, s)"
    using fit len raw by (simp add: read_raw_inode_at_with_txn_def ew_block_eq blk raw_def[symmetric] slice_r_def raw_inode_read_from_def)
  have flush: "flush_raw_inode sb ib ?off (update_iblocks sb n (set_i_block root' raw)) s =
      (Ok (), s\<lparr>f_dev := store_run (ib * spb sb) new (f_dev s), f_txn := pin_block ib new (f_txn s)\<rparr>) \<and> length new = sb_block_size sb"
    if "length root' = 60" "new = patch ?off (update_iblocks sb n (set_i_block root' raw)) old" for root' new
  proof -
    have l: "length (update_iblocks sb n (set_i_block root' raw)) = 128" by (rule parse_new_root(3)[OF raw that(1)])
    then have new: "length new = sb_block_size sb" using fit len by (simp add: that(2))
    have "flush_raw_inode sb ib ?off (update_iblocks sb n (set_i_block root' raw)) s = ew_write_block sb ib new s"
      using fit len l by (simp add: flush_raw_inode_def ew_block_eq blk patch_r_def that(2))
    moreover have "ew_write_block sb ib new s = (Ok (), s\<lparr>f_dev := store_run (ib * spb sb) new (f_dev s), f_txn := pin_block ib new (f_txn s)\<rparr>)"
      using write_sectors_Ok_iff[OF wf, of new "spb sb" "ib * spb sb"] good_block_access(2)[OF assms(2,9)] new sb_ok_block_size(4,5)[OF assms(1)]
      by (simp add: ew_write_block_def block_place[OF assms(2,9)] sbind_Ok smap_err_Ok_iff on_dev_Ok_iff pin_def)
    ultimately show ?thesis using new by simp
  qed
  obtain r where r: "try_coalesce_root_leaf root phys n = (Ok r :: (extent_write_error, _) res)"
    using try_coalesce_runs[OF h(1) c(4)] by blast
  have room: "eh_entries (header_of root) < 4" "eh_entries (header_of root) < eh_max (header_of root)"
    using assms(7) by (simp_all add: root_has_room_def root_def)
  have head: "extent_append sb i phys n s = (case r of
       Some root' \<Rightarrow> flush_raw_inode sb ib ?off (update_iblocks sb n (set_i_block root' raw)) s
     | None \<Rightarrow> sbind (append_at_root sb i ib ?off (header_of root) phys n raw)
         (\<lambda>raw'. flush_raw_inode sb ib ?off (update_iblocks sb n raw')) s)"
    using assms(5,6) ew_location[OF assms(1,4)] h(1) c(2,3) r
    by (simp add: extent_append_def assms(8)[symmetric] flat_tree_def sbind_Ok read root parse_header_def split: option.split)
  have "\<exists>root'. length root' = 60 \<and> new_root root phys n root' \<and>
    extent_append sb i phys n s = flush_raw_inode sb ib ?off (update_iblocks sb n (set_i_block root' raw)) s"
  proof (cases r)
    case (Some root')
    have "leaves_in_order (leaves_of root)" using assms(6) by (auto simp: flat_tree_def root_def)
    from coalesced_root[OF r[unfolded Some] h(1) this] have "length root' = 60" by blast
    then show ?thesis using r head by (intro exI[of _ root']) (simp add: Some new_root_def)
  next
    case None
    obtain k where k: "next_logical_block root = (Ok k :: (extent_write_error, _) res)"
      using next_logical_runs[OF h(1) c(4)] by blast
    define root' where "root' = patch 0 (make_header (eh_entries (header_of root) + 1) (eh_max (header_of root)) 0)
        (patch (12 + eh_entries (header_of root) * 12) (make_leaf_entry k n phys) root)"
    have fit': "12 + eh_entries (header_of root) * 12 + 12 \<le> 60" using room(1) by simp
    have "append_at_root sb i ib ?off (header_of root) phys n raw s = (Ok (set_i_block root' raw), s)"
      using k room(2) fit' h(1) by (simp add: append_at_root_def root sbind_Ok Let_def patch_r_def root'_def)
    moreover have "length root' = 60" using fit' h(1) by (simp add: root'_def)
    moreover have "new_root root phys n root'" unfolding new_root_def root'_def using k fit' by blast
    ultimately show ?thesis using head by (intro exI[of _ root']) (simp add: None sbind_Ok)
  qed
  then obtain root' where root': "length root' = 60" "new_root root phys n root'"
    "extent_append sb i phys n s = flush_raw_inode sb ib ?off (update_iblocks sb n (set_i_block root' raw)) s" by blast
  define new where "new = patch ?off (update_iblocks sb n (set_i_block root' raw)) old"
  note f = flush[OF root'(1) new_def]
  note w = touches_write[OF assms(1-3,9) conjunct2[OF f]]
  show ?thesis
    using root' f w assms(3) unfolding root_def
    by (intro exI[of _ root'] exI[of _ "s\<lparr>f_dev := store_run (ib * spb sb) new (f_dev s), f_txn := pin_block ib new (f_txn s)\<rparr>"])
       (simp add: txn_pins.lookup_pin new_def)
qed

text \<open>The tree with the new root: still in order, and its map is longer by the new blocks.\<close>

lemma new_root_flat:
  assumes "flat_tree ino ls" and "new_root (ino_block_data ino) phys n root'" and "leaves_end ls < 2 ^ 32"
    and "0 < n" and "n \<le> 32768" and "phys + n \<le> 2 ^ 48"
    and "uses_extents ino'" and "ino_block_data ino' = root'"
  shows "flat_tree ino' (leaves_of root')"
    and "resolve_lblock (leaves_of root') l =
      (if leaves_end ls \<le> l \<and> l < leaves_end ls + n then Some (phys + (l - leaves_end ls)) else resolve_lblock ls l)"
proof -
  let ?root = "ino_block_data ino"
  obtain h where h: "length ?root = 60" "check_node ?root = Ok h" "eh_depth h = 0" and ls: "ls = leaves_of ?root" "leaves_in_order ls"
    using assms(1) by (auto simp: flat_tree_def)
  note c = check_node_flat[OF h]
  note m = new_root_map[OF assms(2) h(1) c(2,3) ls(2)[unfolded ls(1)] assms(3)[unfolded ls(1)] assms(4-6)]
  show new: "flat_tree ino' (leaves_of root')"
    using new_root_leaves[OF assms(2) h(1) c(2,3) ls(2)[unfolded ls(1)] assms(3)[unfolded ls(1)] assms(4-6)] m assms(7,8)
    by (auto simp: flat_tree_def)
  have "lookup_block d sb ino' l = appended (leaves_end ls) n phys (lookup_block d sb ino) l" for d sb
    using m[of d sb l d] assms(1,7,8) by (simp add: lookup_block_def flat_tree_def ls(1)[symmetric] appended_def)
  from this[of undefined undefined] show "resolve_lblock (leaves_of root') l =
      (if leaves_end ls \<le> l \<and> l < leaves_end ls + n then Some (phys + (l - leaves_end ls)) else resolve_lblock ls l)"
    by (auto simp: flat_tree_lookup[OF new] flat_tree_lookup[OF assms(1)] appended_def split: if_split_asm)
qed

lemma resolve_after:
  "leaves_in_order ls \<Longrightarrow> leaves_end ls \<le> l \<Longrightarrow> resolve_lblock ls l = None"
  using lookup_leaves_before[of ls l] leaves_end_bound[of ls] lookup_leaves_resolve[of ls l] by (fastforce dest: order_trans)

text \<open>
  The first phase of a growing write: the missing blocks are taken in one run, zeroed, and
  appended to the extents.
\<close>

lemma grow_provision_run:
  fixes first m n phys last_lb :: nat
  assumes "sb_ok sb" and "good_disk (f_dev s)" and "txn_ok (f_txn s)"
    and "read_inode (f_dev s) sb (f_gdt s) i = Ok ino" and "inode_there sb (f_gdt s) i" and "ib = inode_block sb (f_gdt s) i"
    and "flat_tree ino ls" and "root_has_room (ino_block_data ino)" and "in_disk sb (f_dev s) ib" and "pinned (f_txn s) ib = None"
    and "alloc_blocks sb n (max (ino_size ino div sb_block_size sb) m) s = (Ok phys, s1)"
    and "touches sb {bb} {bb, gb} s s1" and "inode_there sb (f_gdt s1) i" and "inode_block sb (f_gdt s1) i = ib"
    and "ib \<notin> {bb, gb}" and "\<forall>q \<in> {phys..<phys + n}. in_disk sb (f_dev s) q \<and> q \<notin> {bb, ib}"
    and "first \<le> m" and "m + n = Suc last_lb" and "0 < n" and "n \<le> 32768" and "phys + n < 2 ^ 64"
    and "\<forall>lb. first \<le> lb \<and> lb < m \<longrightarrow> resolve_lblock ls lb = Some (p lb) \<and> p lb < 2 ^ 64"
    and "\<forall>lb. m \<le> lb \<and> lb \<le> last_lb \<longrightarrow> resolve_lblock ls lb = None"
  defines "old \<equiv> run_of sb (f_dev s) ib"
  shows "\<exists>root' s'. provision sb i ino first last_lb first (replicate (Suc last_lb - first) 0) s =
      (Ok (map (\<lambda>lb. if lb < m then p lb else phys + (lb - m)) [first..<Suc last_lb]), s') \<and>
    new_root (ino_block_data ino) phys n root' \<and> f_gdt s' = f_gdt s1 \<and>
    touches sb ({bb, ib} \<union> {phys..<phys + n}) {bb, gb, ib} s s' \<and>
    run_of sb (f_dev s') bb = run_of sb (f_dev s1) bb \<and> pinned (f_txn s') bb = pinned (f_txn s1) bb \<and>
    pinned (f_txn s') ib = Some (run_of sb (f_dev s') ib) \<and>
    run_of sb (f_dev s') ib = patch (inode_off sb i) (update_iblocks sb n (set_i_block root' (bytes_at (inode_off sb i) 128 old))) old \<and>
    (\<forall>q \<in> {phys..<phys + n}. run_of sb (f_dev s') q = replicate (sb_block_size sb) 0)"
proof -
  let ?new = "{phys..<phys + n}"
  note k1 = touches_keeps[OF assms(12)]
  have good1: "good_disk (f_dev s1)" by (rule k1(1)[OF assms(2)])
  have "\<forall>q \<in> ?new. in_disk sb (f_dev s1) q" using assms(16) k1(3) by blast
  then obtain d2 where z: "write_sectors (wmul 64 phys (spb sb)) (replicate (n * sb_block_size sb) 0) (f_dev s1) = (Ok (), d2)"
    and t2: "touches sb ?new {} s1 (s1\<lparr>f_dev := d2\<rparr>)" and zeros: "\<forall>q \<in> ?new. run_of sb d2 q = replicate (sb_block_size sb) 0"
    using fill_zeros_run[OF assms(1) good1 k1(2) assms(19)] by blast
  define s2 where "s2 = s1\<lparr>f_dev := d2\<rparr>"
  note t2' = t2[folded s2_def]
  note k2 = touches_keeps[OF t2']
  have s2: "good_disk (f_dev s2)" "txn_ok (f_txn s2)" "f_gdt s2 = f_gdt s1" "in_disk sb (f_dev s2) ib" "pinned (f_txn s2) ib = None"
    "run_of sb (f_dev s2) ib = old"
    using k2(1)[OF good1] k2(2) k2(3-5)[of ib] k1(3-5)[of ib] assms(9,10,15,16) by (auto simp: s2_def old_def)
  have read2: "read_inode (f_dev s2) sb (f_gdt s2) i = Ok ino"
  proof -
    have wf: "wf_disk (f_dev s)" "wf_disk (f_dev s2)" using assms(2) s2(1) by (simp_all add: good_disk_def)
    note r = read_inode_of_block[OF assms(1)]
    show ?thesis
      using r[OF wf(1) assms(5), folded assms(6), OF read_good_block(2)[OF assms(1,2,9)]]
        r[OF wf(2) assms(13), unfolded assms(14), OF read_good_block(2)[OF assms(1) s2(1,4)]] s2(3,6) assms(4)
      by (simp add: old_def)
  qed
  obtain root' s3 where app: "new_root (ino_block_data ino) phys n root'" "extent_append sb i phys n s2 = (Ok (), s3)"
    "f_gdt s3 = f_gdt s2" "touches sb {ib} {ib} s2 s3" "pinned (f_txn s3) ib = Some (run_of sb (f_dev s3) ib)"
    "run_of sb (f_dev s3) ib = patch (inode_off sb i) (update_iblocks sb n (set_i_block root' (bytes_at (inode_off sb i) 128 old))) old"
    using extent_append_run[OF assms(1) s2(1,2) _ read2 assms(7,8) _ s2(4,5), of phys n] assms(13,14) unfolding s2(3,6) by blast
  note k3 = touches_keeps[OF app(4)]
  have mapped: "\<forall>lb. first \<le> lb \<and> lb < m \<longrightarrow> lookup_block (f_dev s) sb ino lb = Ok (Some (p lb)) \<and> p lb < 2 ^ 64"
    and missing: "\<forall>lb. m \<le> lb \<and> lb \<le> last_lb \<longrightarrow> lookup_block (f_dev s) sb ino lb = Ok None"
    using assms(22,23) flat_tree_lookup[OF assms(7)] by simp_all
  have prov: "provision sb i ino first last_lb first (replicate (Suc last_lb - first) 0) s =
      (Ok (map (\<lambda>lb. if lb < m then p lb else phys + (lb - m)) [first..<Suc last_lb]), s3)"
    by (rule provision_missing[OF mapped missing assms(17-21,11) z app(2)[unfolded s2_def]]) simp
  have "touches sb ({bb} \<union> ?new \<union> {ib}) ({bb, gb} \<union> {} \<union> {ib}) s s3"
    by (rule touches_trans[OF touches_trans[OF assms(12) t2'] app(4)])
  then have t: "touches sb ({bb, ib} \<union> ?new) {bb, gb, ib} s s3" by (simp add: insert_commute Un_commute)
  have "bb \<noteq> ib" "bb \<notin> ?new" using assms(15,16) by auto
  then have "run_of sb (f_dev s3) bb = run_of sb (f_dev s1) bb" "pinned (f_txn s3) bb = pinned (f_txn s1) bb"
    using k3(4,5)[of bb] k2(4,5)[of bb] by auto
  moreover have "run_of sb (f_dev s3) q = replicate (sb_block_size sb) 0" if "q \<in> ?new" for q
    using k3(4)[of q] zeros that assms(16) by (auto simp: s2_def)
  ultimately show ?thesis
    using prov app t s2(3) by (intro exI[of _ root'] exI[of _ s3]) simp
qed


section \<open>A growing write\<close>

text \<open>
  The numbers of a growing write: the blocks of its range, the first one that is missing and
  how many are, and the group, the first bit and the first block that the allocator takes.
\<close>

record growth =
  gr_first :: nat
  gr_last :: nat
  gr_from :: nat
  gr_count :: nat
  gr_group :: nat
  gr_start :: nat
  gr_phys :: nat

abbreviation new_blocks :: "growth \<Rightarrow> nat set" where
  "new_blocks G \<equiv> {gr_phys G..<gr_phys G + gr_count G}"

text \<open>Where the data for a block of the range go, and all these blocks.\<close>

definition data_place :: "extent_leaf list \<Rightarrow> growth \<Rightarrow> nat \<Rightarrow> nat" where
  "data_place ls G lb = (if lb < gr_from G then the (resolve_lblock ls lb) else gr_phys G + (lb - gr_from G))"

abbreviation data_blocks :: "extent_leaf list \<Rightarrow> growth \<Rightarrow> nat set" where
  "data_blocks ls G \<equiv> data_place ls G ` {gr_first G..gr_last G}"

text \<open>
  The range ends after the last extent, its blocks before that are mapped, and the transaction
  has room for it.
\<close>

definition growth_of :: "superblock \<Rightarrow> journal \<Rightarrow> extent_leaf list \<Rightarrow> nat \<Rightarrow> nat \<Rightarrow> growth \<Rightarrow> bool" where
  "growth_of sb jn ls offset len G \<longleftrightarrow> 0 < len \<and> offset + len < 2 ^ 60 \<and>
     gr_first G = offset div sb_block_size sb \<and> gr_last G = (offset + len - 1) div sb_block_size sb \<and>
     gr_from G = max (gr_first G) (leaves_end ls) \<and> gr_from G + gr_count G = Suc (gr_last G) \<and> 0 < gr_count G \<and>
     gr_phys G = gr_group G * sb_blocks_per_group sb + gr_start G \<and> gr_phys G + gr_count G \<le> 2 ^ 48 \<and>
     leaves_end ls < 2 ^ 32 \<and> (\<forall>lb. gr_first G \<le> lb \<and> lb < leaves_end ls \<longrightarrow> resolve_lblock ls lb \<noteq> None) \<and>
     28 + 12 * (gr_last G - gr_first G + 5) \<le> sb_block_size sb \<and> gr_last G - gr_first G + 7 \<le> log_size jn"

text \<open>The blocks the transaction stores besides the data: bitmap, descriptors, inode and superblock.\<close>

definition meta_blocks :: "superblock \<Rightarrow> gdt \<Rightarrow> nat \<Rightarrow> growth \<Rightarrow> nat list" where
  "meta_blocks sb gdt i G = [gd_block_bitmap (gdt ! gr_group G), gdt_block sb, inode_block sb gdt i, superblock_block sb]"

text \<open>
  The group the allocator tries first has the blocks in one run; the blocks of the transaction
  are different blocks, and the new ones are not yet blocks of the file.
\<close>

definition grow_ready ::
  "superblock \<Rightarrow> journal \<Rightarrow> disk \<Rightarrow> gdt \<Rightarrow> journal_writer \<Rightarrow> nat \<Rightarrow> inode \<Rightarrow> extent_leaf list \<Rightarrow> nat \<Rightarrow> nat \<Rightarrow> growth \<Rightarrow> bool" where
  "grow_ready sb jn d gdt w i ino ls offset len G \<longleftrightarrow>
     write_ready sb jn d gdt w i ino ls \<and> root_has_room (ino_block_data ino) \<and> growth_of sb jn ls offset len G \<and> gdt \<noteq> [] \<and>
     gr_group G = max (ino_size ino div sb_block_size sb) (gr_from G) div sb_blocks_per_group sb mod length gdt \<and>
     gr_count G \<le> gd_free_blocks_count (gdt ! gr_group G) \<and> (gr_group G + 1) * sb_desc_size sb \<le> sb_block_size sb \<and>
     bm_first_free_run (run_of sb d (gd_block_bitmap (gdt ! gr_group G))) (gr_count G) (sb_blocks_per_group sb) =
       (Ok (Some (gr_start G)) :: (alloc_error, nat option) res) \<and>
     distinct (meta_blocks sb gdt i G) \<and> new_blocks G \<inter> set (meta_blocks sb gdt i G) = {} \<and>
     (\<forall>q \<in> set (meta_blocks sb gdt i G) \<union> new_blocks G. can_pin sb jn d q) \<and>
     (\<forall>lb q. resolve_lblock ls lb = Some q \<longrightarrow> q \<notin> new_blocks G \<union> set (meta_blocks sb gdt i G))"

lemma grow_ready_facts:
  assumes "grow_ready sb jn d gdt w i ino ls offset len G"
  shows "write_ready sb jn d gdt w i ino ls" and "root_has_room (ino_block_data ino)" and "growth_of sb jn ls offset len G" and "gdt \<noteq> []"
    and "gr_group G = max (ino_size ino div sb_block_size sb) (gr_from G) div sb_blocks_per_group sb mod length gdt"
    and "gr_count G \<le> gd_free_blocks_count (gdt ! gr_group G)" and "(gr_group G + 1) * sb_desc_size sb \<le> sb_block_size sb"
    and "bm_first_free_run (run_of sb d (gd_block_bitmap (gdt ! gr_group G))) (gr_count G) (sb_blocks_per_group sb) =
       (Ok (Some (gr_start G)) :: (alloc_error, nat option) res)"
    and "distinct (meta_blocks sb gdt i G)" and "q \<in> new_blocks G \<Longrightarrow> q \<notin> set (meta_blocks sb gdt i G)"
    and "q \<in> set (meta_blocks sb gdt i G) \<union> new_blocks G \<Longrightarrow> can_pin sb jn d q"
    and "resolve_lblock ls lb = Some q \<Longrightarrow> q \<notin> new_blocks G \<union> set (meta_blocks sb gdt i G)"
  using assms unfolding grow_ready_def by blast+

lemma growth_facts:
  assumes "growth_of sb jn ls offset len G"
  shows "0 < len" and "offset + len < 2 ^ 60" and "gr_first G = offset div sb_block_size sb" and "gr_last G = (offset + len - 1) div sb_block_size sb"
    and "gr_from G = max (gr_first G) (leaves_end ls)" and "gr_from G + gr_count G = Suc (gr_last G)" and "0 < gr_count G"
    and "gr_phys G = gr_group G * sb_blocks_per_group sb + gr_start G" and "gr_phys G + gr_count G \<le> 2 ^ 48"
    and "leaves_end ls < 2 ^ 32" and "gr_first G \<le> lb \<Longrightarrow> lb < leaves_end ls \<Longrightarrow> resolve_lblock ls lb \<noteq> None"
    and "28 + 12 * (gr_last G - gr_first G + 5) \<le> sb_block_size sb" and "gr_last G - gr_first G + 7 \<le> log_size jn"
  using assms unfolding growth_of_def by blast+

lemma grow_readyD:
  fixes offset :: nat
  assumes "grow_ready sb jn d gdt w i ino ls offset len G"
  shows "sb_ok sb" and "good_disk d" and "flat_file ino ls" and "leaves_in_order ls" and "0 < gr_count G" and "gr_count G \<le> 32768"
    and "gr_phys G < 2 ^ 64" and "gr_phys G + gr_count G < 2 ^ 64" and "gr_phys G + gr_count G \<le> 2 ^ 48"
    and "gr_first G \<le> gr_from G" and "gr_from G + gr_count G = Suc (gr_last G)"
    and "max (ino_size ino div sb_block_size sb) (gr_from G) < 2 ^ 64" and "gr_group G < length gdt"
    and "leaves_end ls < 2 ^ 32" and "0 < len" and "offset + len < 2 ^ 60"
proof -
  note r = grow_ready_facts[OF assms] and g = growth_facts[OF grow_ready_facts(3)[OF assms]]
  note wr = r(1)[unfolded write_ready_def]
  show sb: "sb_ok sb" and "good_disk d" using wr by (auto simp: log_ready_def)
  show ff: "flat_file ino ls" using wr by blast
  then show "leaves_in_order ls" by (auto simp: flat_file_def flat_tree_def)
  show "0 < gr_count G" "gr_phys G + gr_count G \<le> 2 ^ 48" "gr_from G + gr_count G = Suc (gr_last G)" "0 < len" "offset + len < 2 ^ 60"
    "leaves_end ls < 2 ^ 32" by (rule g)+
  show "gr_phys G < 2 ^ 64" "gr_phys G + gr_count G < 2 ^ 64" using g(9) by simp_all
  show "gr_first G \<le> gr_from G" using g(5) by simp
  then have "gr_count G \<le> gr_last G - gr_first G + 1" using g(6) by linarith
  then show "gr_count G \<le> 32768" using g(12) sb_ok_block_size(2)[OF sb] by simp
  have "ino_size ino < 2 ^ 64" using wr read_inode_ok by (auto simp: inode_ok_def)
  then have "ino_size ino div sb_block_size sb < 2 ^ 64" by (rule le_less_trans[OF div_le_dividend])
  moreover have "gr_last G \<le> offset + len - 1" unfolding g(4) by (rule div_le_dividend)
  ultimately show "max (ino_size ino div sb_block_size sb) (gr_from G) < 2 ^ 64" using g(2,6,7) by simp
  have "0 < length gdt" using r(4) by simp
  then show "gr_group G < length gdt" by (subst r(5)) simp
qed

text \<open>The blocks of the data: where the file has them, or new ones; all different.\<close>

lemma grow_places:
  assumes "grow_ready sb jn d gdt w i ino ls offset len G"
  shows "gr_first G \<le> lb \<Longrightarrow> lb < gr_from G \<Longrightarrow> resolve_lblock ls lb = Some (data_place ls G lb)"
    and "gr_from G \<le> lb \<Longrightarrow> resolve_lblock ls lb = None"
    and "gr_from G \<le> lb \<Longrightarrow> lb \<le> gr_last G \<Longrightarrow> data_place ls G lb \<in> new_blocks G"
    and "q \<in> data_blocks ls G \<Longrightarrow> can_pin sb jn d q \<and> q \<notin> set (meta_blocks sb gdt i G)"
    and "inj_on (data_place ls G) {gr_first G..gr_last G}" and "new_blocks G \<subseteq> data_blocks ls G"
    and "resolve_lblock ls lb = Some q \<Longrightarrow> lb < gr_first G \<Longrightarrow> q \<notin> data_blocks ls G"
proof -
  let ?p = "data_place ls G" and ?meta = "set (meta_blocks sb gdt i G)"
  note r = grow_ready_facts[OF assms] and R = grow_readyD[OF assms] and g = growth_facts[OF grow_ready_facts(3)[OF assms]]
  have own: "\<And>lb q. resolve_lblock ls lb = Some q \<Longrightarrow> can_pin sb jn d q"
    and once: "\<And>lb lb' q. resolve_lblock ls lb = Some q \<Longrightarrow> resolve_lblock ls lb' = Some q \<Longrightarrow> lb' = lb"
    using r(1) unfolding write_ready_def file_apart_def by blast+
  show at: "resolve_lblock ls lb = Some (?p lb)" if "gr_first G \<le> lb" "lb < gr_from G" for lb
    using g(5) g(11)[of lb] that by (auto simp: data_place_def)
  show "resolve_lblock ls lb = None" if "gr_from G \<le> lb" for lb using resolve_after[OF R(4)] that g(5) by simp
  show new: "?p lb \<in> new_blocks G" if "gr_from G \<le> lb" "lb \<le> gr_last G" for lb
    using that R(11) by (auto simp: data_place_def)
  show "can_pin sb jn d q \<and> q \<notin> ?meta" if q: "q \<in> data_blocks ls G" for q
  proof -
    obtain lb where lb: "gr_first G \<le> lb" "lb \<le> gr_last G" "q = ?p lb" using q by auto
    show ?thesis
    proof (cases "lb < gr_from G")
      case True
      then show ?thesis using r(12)[OF at] own[OF at] lb by blast
    next
      case False
      then have "q \<in> new_blocks G" using new[of lb] lb(2,3) by simp
      then show ?thesis using r(10,11) by blast
    qed
  qed
  show "inj_on ?p {gr_first G..gr_last G}"
  proof (rule linorder_inj_onI)
    fix a b assume ab: "a < b" "a \<in> {gr_first G..gr_last G}" "b \<in> {gr_first G..gr_last G}"
    show "?p a \<noteq> ?p b"
    proof (cases "a < gr_from G")
      case True
      then have a: "resolve_lblock ls a = Some (?p a)" using at[of a] ab(2) by simp
      show ?thesis
      proof (cases "b < gr_from G")
        case True
        then show ?thesis using at[of b] ab once[OF a, of b] by auto
      next
        case False
        then show ?thesis using new[of b] ab(3) r(12)[OF a] by auto
      qed
    qed (use ab(1) in \<open>simp add: data_place_def\<close>)
  qed auto
  show "new_blocks G \<subseteq> data_blocks ls G"
  proof
    fix q assume "q \<in> new_blocks G"
    then obtain k where "q = gr_phys G + k" "k < gr_count G" using le_Suc_ex by fastforce
    then have "q = ?p (gr_from G + k)" "gr_from G + k \<in> {gr_first G..gr_last G}" using R(10,11) by (auto simp: data_place_def)
    then show "q \<in> data_blocks ls G" by blast
  qed
  show "q \<notin> data_blocks ls G" if q: "resolve_lblock ls lb = Some q" "lb < gr_first G"
  proof
    assume "q \<in> data_blocks ls G"
    then obtain l where l: "gr_first G \<le> l" "l \<le> gr_last G" "q = ?p l" by auto
    then show False using at[OF l(1)] once[OF q(1), of l] q r(12)[OF q(1)] new[of l] by (cases "l < gr_from G") auto
  qed
qed

section \<open>The transaction of a growing write\<close>

text \<open>The run is marked in the bitmap of the group and its counter is lower by its length.\<close>

definition blocks_taken :: "superblock \<Rightarrow> growth \<Rightarrow> disk \<Rightarrow> gdt \<Rightarrow> disk \<Rightarrow> gdt \<Rightarrow> bool" where
  "blocks_taken sb G d gdt d' gdt' \<longleftrightarrow>
     (let gd = gdt ! gr_group G; bb = gd_block_bitmap gd in
      gdt' = gdt[gr_group G := gd\<lparr>gd_free_blocks_count := adjust_count (gd_free_blocks_count gd) (- int (gr_count G))\<rparr>] \<and>
      (\<forall>j. bm_bit (run_of sb d' bb) j \<longleftrightarrow> j \<in> {gr_start G..<gr_start G + gr_count G} \<or> bm_bit (run_of sb d bb) j))"

lemma blocks_taken_tables:
  assumes "blocks_taken sb G d gdt d' gdt'"
  shows "inode_block sb gdt' j = inode_block sb gdt j" and "inode_there sb gdt' j = inode_there sb gdt j"
  using assms unfolding blocks_taken_def Let_def by (auto intro!: table_kept)

lemma blocks_taken_cong:
  "blocks_taken sb G d gdt d1 gdt' \<Longrightarrow> bb = gd_block_bitmap (gdt ! gr_group G) \<Longrightarrow> run_of sb d2 bb = run_of sb d1 bb \<Longrightarrow>
   blocks_taken sb G d gdt d2 gdt'"
  by (simp add: blocks_taken_def Let_def)

text \<open>The bytes of the inode's table block with the new root, and with the new size.\<close>

definition rooted_inode :: "superblock \<Rightarrow> nat \<Rightarrow> nat \<Rightarrow> byte list \<Rightarrow> byte list \<Rightarrow> raw_inode" where
  "rooted_inode sb i n root' old = update_iblocks sb n (set_i_block root' (bytes_at (inode_off sb i) 128 old))"

definition grown_inode :: "nat \<Rightarrow> nat \<Rightarrow> superblock \<Rightarrow> nat \<Rightarrow> nat \<Rightarrow> byte list \<Rightarrow> byte list \<Rightarrow> byte list" where
  "grown_inode now sz sb i n root' old =
     patch (inode_off sb i) (apply_update (set_size_update now sz) (rooted_inode sb i n root' old)) old"

text \<open>Every block of the range holds the data over its old bytes, or over zeros.\<close>

definition data_written :: "superblock \<Rightarrow> extent_leaf list \<Rightarrow> nat \<Rightarrow> byte list \<Rightarrow> growth \<Rightarrow> disk \<Rightarrow> disk \<Rightarrow> bool" where
  "data_written sb ls offset data G d d' \<longleftrightarrow>
     (\<forall>lb r. gr_first G \<le> lb \<and> lb \<le> gr_last G \<and> r < sb_block_size sb \<longrightarrow> run_of sb d' (data_place ls G lb) ! r =
        overlaid offset data (lb * sb_block_size sb + r) (if lb < gr_from G then run_of sb d (data_place ls G lb) ! r else 0))"

text \<open>What the first phase leaves behind, and what the whole transaction does.\<close>

definition grow_provisioned :: "superblock \<Rightarrow> nat \<Rightarrow> inode \<Rightarrow> growth \<Rightarrow> fs \<Rightarrow> fs \<Rightarrow> byte list \<Rightarrow> bool" where
  "grow_provisioned sb i ino G s s' root' \<longleftrightarrow>
     (let bb = gd_block_bitmap (f_gdt s ! gr_group G); ib = inode_block sb (f_gdt s) i; old = run_of sb (f_dev s) ib in
      new_root (ino_block_data ino) (gr_phys G) (gr_count G) root' \<and> blocks_taken sb G (f_dev s) (f_gdt s) (f_dev s') (f_gdt s') \<and>
      touches sb ({bb, ib} \<union> new_blocks G) {bb, gdt_block sb, ib} s s' \<and>
      pinned (f_txn s') bb = Some (run_of sb (f_dev s') bb) \<and> pinned (f_txn s') ib = Some (run_of sb (f_dev s') ib) \<and>
      run_of sb (f_dev s') ib = patch (inode_off sb i) (rooted_inode sb i (gr_count G) root' old) old \<and>
      (\<forall>q \<in> new_blocks G. run_of sb (f_dev s') q = replicate (sb_block_size sb) 0))"

definition grow_done ::
  "nat \<Rightarrow> superblock \<Rightarrow> nat \<Rightarrow> inode \<Rightarrow> extent_leaf list \<Rightarrow> nat \<Rightarrow> byte list \<Rightarrow> nat \<Rightarrow> growth \<Rightarrow> fs \<Rightarrow> fs \<Rightarrow> byte list \<Rightarrow> bool" where
  "grow_done now sb i ino ls offset data sz G s s' root' \<longleftrightarrow>
     (let bb = gd_block_bitmap (f_gdt s ! gr_group G); ib = inode_block sb (f_gdt s) i in
      new_root (ino_block_data ino) (gr_phys G) (gr_count G) root' \<and> blocks_taken sb G (f_dev s) (f_gdt s) (f_dev s') (f_gdt s') \<and>
      touches sb ({bb, ib} \<union> data_blocks ls G) (set (meta_blocks sb (f_gdt s) i G) \<union> data_blocks ls G) s s' \<and>
      (\<forall>q \<in> insert bb (data_blocks ls G). pinned (f_txn s') q = Some (run_of sb (f_dev s') q)) \<and>
      pinned (f_txn s') ib = Some (grown_inode now sz sb i (gr_count G) root' (run_of sb (f_dev s) ib)) \<and>
      data_written sb ls offset data G (f_dev s) (f_dev s'))"

lemma grow_alloc_run:
  assumes "grow_ready sb jn d gdt w i ino ls offset len G"
  defines "s \<equiv> \<lparr>f_dev = d, f_gdt = gdt, f_txn = begin_transaction w\<rparr>" and "bb \<equiv> gd_block_bitmap (gdt ! gr_group G)"
  shows "\<exists>s1. alloc_blocks sb (gr_count G) (max (ino_size ino div sb_block_size sb) (gr_from G)) s = (Ok (gr_phys G), s1) \<and>
    touches sb {bb} {bb, gdt_block sb} s s1 \<and> pinned (f_txn s1) bb = Some (run_of sb (f_dev s1) bb) \<and>
    blocks_taken sb G d gdt (f_dev s1) (f_gdt s1)"
proof -
  note r = grow_ready_facts[OF assms(1), folded bb_def] and R = grow_readyD[OF assms(1)] and g = growth_facts[OF grow_ready_facts(3)[OF assms(1)]]
  have fields: "f_dev s = d" "f_gdt s = gdt" "txn_ok (f_txn s)" by (simp_all add: s_def begin_transaction_def txn_ok_def txn_new_def)
  have "in_disk sb d bb" "in_disk sb d (gdt_block sb)" "bb \<noteq> gdt_block sb"
    using r(9) r(11)[of bb] r(11)[of "gdt_block sb"] by (simp_all add: can_pin_def meta_blocks_def bb_def)
  from alloc_blocks_run[OF R(1) _ fields(3) R(12), unfolded fields, OF R(2) r(4,5) bb_def[THEN meta_eq_to_obj_eq] this r(7) R(5) r(6,8), folded g(8), OF R(7)]
  show ?thesis unfolding blocks_taken_def Let_def bb_def[symmetric] by blast
qed

lemma grow_provisioned_run:
  fixes offset :: nat
  assumes "grow_ready sb jn d gdt w i ino ls offset len G"
  defines "s \<equiv> \<lparr>f_dev = d, f_gdt = gdt, f_txn = begin_transaction w\<rparr>"
  shows "\<exists>s' root'. provision sb i ino (gr_first G) (gr_last G) (gr_first G) (replicate (Suc (gr_last G) - gr_first G) 0) s =
      (Ok (map (data_place ls G) [gr_first G..<Suc (gr_last G)]), s') \<and> grow_provisioned sb i ino G s s' root'"
proof -
  define bb ib where "bb = gd_block_bitmap (gdt ! gr_group G)" and "ib = inode_block sb gdt i"
  note r = grow_ready_facts[OF assms(1)] and R = grow_readyD[OF assms(1)] and P = grow_places[OF assms(1)]
  note wr = r(1)[unfolded write_ready_def, folded ib_def] and meta = meta_blocks_def[of sb gdt i G, folded bb_def ib_def]
  have fields: "f_dev s = d" "f_gdt s = gdt" "txn_ok (f_txn s)" "pinned (f_txn s) b = None" for b
    by (simp_all add: s_def begin_transaction_def txn_ok_def pinned_def txn_new_def)
  obtain s1 where al: "alloc_blocks sb (gr_count G) (max (ino_size ino div sb_block_size sb) (gr_from G)) s = (Ok (gr_phys G), s1)"
    "touches sb {bb} {bb, gdt_block sb} s s1" "pinned (f_txn s1) bb = Some (run_of sb (f_dev s1) bb)" "blocks_taken sb G d gdt (f_dev s1) (f_gdt s1)"
    using grow_alloc_run[OF assms(1), folded s_def bb_def] by blast
  note tab = blocks_taken_tables[OF al(4)]
  have facts: "inode_there sb (f_gdt s) i" "read_inode (f_dev s) sb (f_gdt s) i = Ok ino" "ib = inode_block sb (f_gdt s) i"
    "flat_tree ino ls" "root_has_room (ino_block_data ino)" "inode_there sb (f_gdt s1) i" "inode_block sb (f_gdt s1) i = ib"
    "ib \<notin> {bb, gdt_block sb}" "in_disk sb (f_dev s) ib" "good_disk (f_dev s)"
    using r(2,9) wr tab R(2,3) by (auto simp: fields ib_def meta flat_file_def can_pin_def)
  have inside: "\<forall>q \<in> new_blocks G. in_disk sb (f_dev s) q \<and> q \<notin> {bb, ib}" using r(10,11) by (simp add: can_pin_def fields meta)
  have mapped: "\<forall>lb. gr_first G \<le> lb \<and> lb < gr_from G \<longrightarrow> resolve_lblock ls lb = Some (data_place ls G lb) \<and> data_place ls G lb < 2 ^ 64"
  proof (intro allI impI)
    fix lb assume lb: "gr_first G \<le> lb \<and> lb < gr_from G"
    then have "data_place ls G lb \<in> data_blocks ls G" using R(5,11) by auto
    then show "resolve_lblock ls lb = Some (data_place ls G lb) \<and> data_place ls G lb < 2 ^ 64"
      using P(1)[of lb] P(4) lb in_disk_less[OF R(1,2)] by (auto simp: can_pin_def)
  qed
  have missing: "\<forall>lb. gr_from G \<le> lb \<and> lb \<le> gr_last G \<longrightarrow> resolve_lblock ls lb = None" using P(2) by blast
  have place: "(\<lambda>lb. if lb < gr_from G then data_place ls G lb else gr_phys G + (lb - gr_from G)) = data_place ls G"
    by (simp add: data_place_def fun_eq_iff)
  obtain root' s' where pr: "provision sb i ino (gr_first G) (gr_last G) (gr_first G) (replicate (Suc (gr_last G) - gr_first G) 0) s =
      (Ok (map (data_place ls G) [gr_first G..<Suc (gr_last G)]), s')"
    "new_root (ino_block_data ino) (gr_phys G) (gr_count G) root'" "f_gdt s' = f_gdt s1" "touches sb ({bb, ib} \<union> new_blocks G) {bb, gdt_block sb, ib} s s'"
    "run_of sb (f_dev s') bb = run_of sb (f_dev s1) bb" "pinned (f_txn s') bb = pinned (f_txn s1) bb" "pinned (f_txn s') ib = Some (run_of sb (f_dev s') ib)"
    "run_of sb (f_dev s') ib = patch (inode_off sb i) (rooted_inode sb i (gr_count G) root' (run_of sb d ib)) (run_of sb d ib)"
    "\<forall>q \<in> new_blocks G. run_of sb (f_dev s') q = replicate (sb_block_size sb) 0"
    using grow_provision_run[OF R(1) facts(10) fields(3) facts(2,1,3,4,5,9) fields(4) al(1,2) facts(6-8) inside R(10,11,5,6,8) mapped missing,
        unfolded place fields, folded rooted_inode_def] by blast
  have "blocks_taken sb G d gdt (f_dev s') (f_gdt s')"
    unfolding pr(3) by (rule blocks_taken_cong[OF al(4) bb_def pr(5)])
  then have "grow_provisioned sb i ino G s s' root'"
    unfolding grow_provisioned_def Let_def fields bb_def[symmetric] ib_def[symmetric] using pr(2,4-9) al(3) by simp
  then show ?thesis using pr(1) by blast
qed

lemma new_root_length:
  assumes "flat_tree ino ls" and "new_root (ino_block_data ino) phys n root'" and "leaves_end ls < 2 ^ 32"
    and "0 < n" and "n \<le> 32768" and "phys + n \<le> 2 ^ 48"
  shows "length root' = 60"
  using new_root_flat(1)[OF assms, of "ino\<lparr>ino_block_data := root'\<rparr>"] assms(1) by (simp add: flat_tree_def uses_extents_def)

text \<open>The second phase and the stores after it, from what the first one left behind.\<close>

lemma grow_data_run:
  fixes offset :: nat
  assumes "grow_ready sb jn d gdt w i ino ls offset (length data) G"
  defines "s \<equiv> \<lparr>f_dev = d, f_gdt = gdt, f_txn = begin_transaction w\<rparr>"
  assumes "provision sb i ino (gr_first G) (gr_last G) (gr_first G) (replicate (Suc (gr_last G) - gr_first G) 0) s =
      (Ok (map (data_place ls G) [gr_first G..<Suc (gr_last G)]), s2)" and "grow_provisioned sb i ino G s s2 root'"
  shows "\<exists>s'. write_file_data sb i ino offset data s = (Ok (), s') \<and> writes_blocks sb (data_blocks ls G) s2 s' \<and>
    data_written sb ls offset data G d (f_dev s')"
proof -
  let ?p = "data_place ls G"
  note r = grow_ready_facts[OF assms(1)] and R = grow_readyD[OF assms(1)] and P = grow_places[OF assms(1)]
    and g = growth_facts[OF grow_ready_facts(3)[OF assms(1)]]
  note pr = assms(4)[unfolded grow_provisioned_def Let_def]
  have d: "f_dev s = d" "f_gdt s = gdt" by (simp_all add: s_def)
  have t: "touches sb ({gd_block_bitmap (gdt ! gr_group G), inode_block sb gdt i} \<union> new_blocks G)
      {gd_block_bitmap (gdt ! gr_group G), gdt_block sb, inode_block sb gdt i} s s2" using pr unfolding d by blast
  note k = touches_keeps[OF t, unfolded d]
  have inside: "\<forall>lb. gr_first G \<le> lb \<and> lb \<le> gr_last G \<longrightarrow> in_disk sb (f_dev s2) (?p lb)"
    using P(4) k(3) by (auto simp: can_pin_def)
  have ne: "data \<noteq> []" using R(15) by auto
  obtain s' where s': "write_file_data sb i ino offset data s = (Ok (), s')" "writes_blocks sb (data_blocks ls G) s2 s'"
    and bytes: "\<And>lb x. gr_first G \<le> lb \<Longrightarrow> lb \<le> gr_last G \<Longrightarrow> x < sb_block_size sb \<Longrightarrow>
      run_of sb (f_dev s') (?p lb) ! x = overlaid offset data (lb * sb_block_size sb + x) (run_of sb (f_dev s2) (?p lb) ! x)"
    using write_provisioned_run[OF R(1) k(1)[OF R(2)] k(2) ne R(16) g(3,4) inside P(5) assms(3)] by blast
  have "run_of sb (f_dev s') (?p lb) ! x =
      overlaid offset data (lb * sb_block_size sb + x) (if lb < gr_from G then run_of sb d (?p lb) ! x else 0)"
    if "gr_first G \<le> lb" "lb \<le> gr_last G" "x < sb_block_size sb" for lb x
  proof (cases "lb < gr_from G")
    case True
    have "?p lb \<in> data_blocks ls G" using that by simp
    then have "?p lb \<notin> {gd_block_bitmap (gdt ! gr_group G), inode_block sb gdt i} \<union> new_blocks G"
      using P(4) r(12)[OF P(1)[OF that(1) True]] by (simp add: meta_blocks_def)
    then show ?thesis using bytes[OF that] k(4)[of "?p lb"] True by simp
  next
    case False
    then have "run_of sb (f_dev s2) (?p lb) = replicate (sb_block_size sb) 0" using P(3)[of lb] that(2) pr by simp
    then show ?thesis using bytes[OF that] False that(3) by simp
  qed
  then show ?thesis using s' by (auto simp: data_written_def)
qed

lemma grow_txn_run:
  fixes offset :: nat
  assumes "grow_ready sb jn d gdt w i ino ls offset (length data) G"
  defines "s \<equiv> \<lparr>f_dev = d, f_gdt = gdt, f_txn = begin_transaction w\<rparr>"
  shows "\<exists>s' root'. write_txn now sb i ino offset data sz s = (Ok (), s') \<and> grow_done now sb i ino ls offset data sz G s s' root'"
proof -
  define bb ib sbb gb where "bb = gd_block_bitmap (gdt ! gr_group G)" and "ib = inode_block sb gdt i" and "sbb = superblock_block sb"
    and "gb = gdt_block sb"
  note r = grow_ready_facts[OF assms(1)] and R = grow_readyD[OF assms(1)] and P = grow_places[OF assms(1)]
    and meta = meta_blocks_def[of sb gdt i G, folded bb_def ib_def sbb_def gb_def]
  have d: "f_dev s = d" "f_gdt s = gdt" by (simp_all add: s_def)
  obtain s2 root' where prov: "provision sb i ino (gr_first G) (gr_last G) (gr_first G) (replicate (Suc (gr_last G) - gr_first G) 0) s =
      (Ok (map (data_place ls G) [gr_first G..<Suc (gr_last G)]), s2)" and pr: "grow_provisioned sb i ino G s s2 root'"
    using grow_provisioned_run[OF assms(1), folded s_def] by blast
  obtain s3 where s3: "write_file_data sb i ino offset data s = (Ok (), s3)" "writes_blocks sb (data_blocks ls G) s2 s3"
    "data_written sb ls offset data G d (f_dev s3)"
    using grow_data_run[OF assms(1) prov[unfolded s_def] pr[unfolded s_def]] unfolding s_def by blast
  note p = pr[unfolded grow_provisioned_def Let_def d, folded bb_def ib_def gb_def] and w = s3(2)[unfolded writes_blocks_def]
  have t2: "touches sb ({bb, ib} \<union> new_blocks G) {bb, gb, ib} s s2" and t3: "touches sb (data_blocks ls G) (data_blocks ls G) s2 s3"
    and taken: "blocks_taken sb G d gdt (f_dev s2) (f_gdt s2)" and root: "new_root (ino_block_data ino) (gr_phys G) (gr_count G) root'"
    and ib2: "run_of sb (f_dev s2) ib = patch (inode_off sb i) (rooted_inode sb i (gr_count G) root' (run_of sb d ib)) (run_of sb d ib)"
    using p w by blast+
  note k2 = touches_keeps[OF t2, unfolded d] and k3 = touches_keeps[OF t3]
  have apart: "bb \<noteq> gb" "bb \<noteq> ib" "bb \<noteq> sbb" "gb \<noteq> ib" "gb \<noteq> sbb" "ib \<noteq> sbb" using r(9) by (auto simp: meta)
  have out: "bb \<notin> data_blocks ls G" "ib \<notin> data_blocks ls G" "sbb \<notin> data_blocks ls G" using P(4) by (auto simp: meta)
  have ind: "in_disk sb d ib" "in_disk sb d sbb" using r(11) by (simp_all add: can_pin_def meta)
  have good3: "good_disk (f_dev s3)" "in_disk sb (f_dev s3) ib" "in_disk sb (f_dev s3) sbb" using k3(1) k2(1)[OF R(2)] k2(3) k3(3) ind by auto
  define blk where "blk = run_of sb (f_dev s2) ib"
  have blk: "block_with_txn IwBlockDevice sb ib s3 = Ok blk" "length blk = sb_block_size sb"
    using k3(4,5)[OF out(2)] p read_good_block(3)[OF R(1) good3(1,2)] by (simp_all add: block_with_txn_def blk_def)
  have there: "inode_there sb (f_gdt s3) i" "ib = inode_block sb (f_gdt s3) i"
    using w r(1) blocks_taken_tables[OF taken] by (simp_all add: ib_def write_ready_def)
  obtain s4 where u: "write_txn now sb i ino offset data sz s = (Ok (), s4)" "f_dev s4 = f_dev s3" "f_gdt s4 = f_gdt s3" "touches sb {} {ib, sbb} s3 s4"
    "pinned (f_txn s4) ib = Some (patch (inode_off sb i) (apply_update (set_size_update now sz) (bytes_at (inode_off sb i) 128 blk)) blk)"
    using write_txn_after[OF R(1) s3(1) good3(1) k3(2) there blk, folded sbb_def, OF good3(3) apart(6), of now sz] by blast
  note k4 = touches_keeps[OF u(4)]
  have "touches sb ({bb, ib} \<union> new_blocks G \<union> data_blocks ls G \<union> {}) ({bb, gb, ib} \<union> data_blocks ls G \<union> {ib, sbb}) s s4"
    by (rule touches_trans[OF touches_trans[OF t2 t3] u(4)])
  moreover have "{bb, ib} \<union> new_blocks G \<union> data_blocks ls G \<union> {} = {bb, ib} \<union> data_blocks ls G"
    "{bb, gb, ib} \<union> data_blocks ls G \<union> {ib, sbb} = {bb, gb, ib, sbb} \<union> data_blocks ls G" using P(6) by blast+
  ultimately have t: "touches sb ({bb, ib} \<union> data_blocks ls G) ({bb, gb, ib, sbb} \<union> data_blocks ls G) s s4" by simp
  have "pinned (f_txn s4) q = Some (run_of sb (f_dev s4) q)" if "q \<in> insert bb (data_blocks ls G)" for q
  proof -
    have "q \<notin> {ib, sbb}" using that out apart by auto
    then show ?thesis using k4(5) k3(4,5)[OF out(1)] w p that u(2) by (cases "q = bb") auto
  qed
  moreover have "blocks_taken sb G d gdt (f_dev s4) (f_gdt s4)"
    using blocks_taken_cong[OF taken bb_def, of "f_dev s4"] k3(4)[OF out(1)] u(2,3) w by simp
  moreover have "pinned (f_txn s4) ib = Some (grown_inode now sz sb i (gr_count G) root' (run_of sb d ib))"
  proof -
    let ?old = "run_of sb d ib" and ?raw = "rooted_inode sb i (gr_count G) root' (run_of sb d ib)"
    have len: "length ?old = sb_block_size sb" by (rule read_good_block(3)[OF R(1,2) ind(1)])
    have fit: "inode_off sb i + 128 \<le> sb_block_size sb"
      using inode_off_fits[OF R(1), of i] sb_ok_inode_size(1)[OF R(1)] by simp
    have "flat_tree ino ls" using R(3) by (simp add: flat_file_def)
    then have "length root' = 60" by (rule new_root_length[OF _ root R(14,5,6,9)])
    then have raw: "length ?raw = 128" using parse_new_root(3)[of "bytes_at (inode_off sb i) 128 ?old" root'] fit len
      by (simp add: rooted_inode_def)
    then have "bytes_at (inode_off sb i) 128 blk = ?raw" using bytes_at_patch_same[of "inode_off sb i" ?raw ?old] fit len
      by (simp add: blk_def ib2)
    then show ?thesis using u(5) patch_patch_same[of _ ?raw "inode_off sb i" ?old] raw fit len by (simp add: blk_def ib2 grown_inode_def)
  qed
  ultimately have "grow_done now sb i ino ls offset data sz G s s4 root'"
    unfolding grow_done_def Let_def d bb_def[symmetric] ib_def[symmetric]
    using root t s3(3) u(2) by (simp add: meta)
  with u(1) show ?thesis by blast
qed

section \<open>After the commit\<close>

text \<open>What the device holds: the bitmap, the inode's slot, the blocks of the data, and nothing else.\<close>

definition grow_stored ::
  "nat \<Rightarrow> superblock \<Rightarrow> journal \<Rightarrow> nat \<Rightarrow> inode \<Rightarrow> extent_leaf list \<Rightarrow> nat \<Rightarrow> byte list \<Rightarrow> nat \<Rightarrow> growth \<Rightarrow> disk \<Rightarrow> gdt \<Rightarrow> disk \<Rightarrow> gdt \<Rightarrow> byte list \<Rightarrow> bool" where
  "grow_stored now sb jn i ino ls offset data sz G d gdt d' gdt' root' \<longleftrightarrow>
     (let ib = inode_block sb gdt i in
      same_shape d d' \<and> new_root (ino_block_data ino) (gr_phys G) (gr_count G) root' \<and> blocks_taken sb G d gdt d' gdt' \<and>
      run_of sb d' ib = grown_inode now sz sb i (gr_count G) root' (run_of sb d ib) \<and> data_written sb ls offset data G d d' \<and>
      (\<forall>q. can_pin sb jn d q \<and> q \<notin> set (meta_blocks sb gdt i G) \<union> data_blocks ls G \<longrightarrow> run_of sb d' q = run_of sb d q))"

lemma grow_commit_run:
  fixes offset :: nat
  assumes "grow_ready sb jn d gdt w i ino ls offset (length data) G"
    and "grow_done now sb i ino ls offset data sz G \<lparr>f_dev = d, f_gdt = gdt, f_txn = begin_transaction w\<rparr> s1 root'"
  shows "\<exists>js. commit (f_txn s1) \<lparr>js_w = w, js_dev = f_dev s1\<rparr> = (Ok (), js) \<and>
    grow_stored now sb jn i ino ls offset data sz G d gdt (js_dev js) (f_gdt s1) root'"
proof -
  define bb ib Q where "bb = gd_block_bitmap (gdt ! gr_group G)" and "ib = inode_block sb gdt i"
    and "Q = set (meta_blocks sb gdt i G) \<union> data_blocks ls G"
  note r = grow_ready_facts[OF assms(1)] and R = grow_readyD[OF assms(1)] and P = grow_places[OF assms(1)]
    and g = growth_facts[OF grow_ready_facts(3)[OF assms(1)]]
  note dn = assms(2)[unfolded grow_done_def Let_def fs.simps, folded bb_def ib_def, folded Q_def]
  have Q: "{bb, ib} \<union> data_blocks ls G \<subseteq> Q" by (auto simp: Q_def meta_blocks_def bb_def ib_def)
  have log: "log_ready sb jn \<lparr>js_w = w, js_dev = d\<rparr>" "jw_next_sequence w < 2 ^ 32" using r(1) by (auto simp: write_ready_def)
  have pins: "can_pin sb jn d q" if "q \<in> Q" for q using that r(11) P(4) unfolding Q_def by blast
  have "card Q \<le> card (set (meta_blocks sb gdt i G)) + card (data_blocks ls G)" unfolding Q_def by (rule card_Un_le)
  moreover have "card (set (meta_blocks sb gdt i G)) \<le> 4" using card_length[of "meta_blocks sb gdt i G"] by (simp add: meta_blocks_def)
  moreover have "card (data_blocks ls G) \<le> Suc (gr_last G) - gr_first G" using card_image_le[of "{gr_first G..gr_last G}"] by simp
  ultimately have card: "card Q \<le> gr_last G - gr_first G + 5" using R(5,10,11) by linarith
  have small: "28 + 12 * card Q \<le> sb_block_size sb" "card Q + 2 \<le> log_size jn"
    using le_trans[OF add_left_mono[OF mult_le_mono2[OF card, of 12]] g(12)] card g(13) by linarith+
  have t: "touches sb ({bb, ib} \<union> data_blocks ls G) Q \<lparr>f_dev = d, f_gdt = gdt, f_txn = begin_transaction w\<rparr> s1"
    and bb: "\<forall>q \<in> insert bb (data_blocks ls G). pinned (f_txn s1) q = Some (run_of sb (f_dev s1) q)"
    and ib: "pinned (f_txn s1) ib = Some (grown_inode now sz sb i (gr_count G) root' (run_of sb d ib))"
    and taken: "blocks_taken sb G d gdt (f_dev s1) (f_gdt s1)" and written: "data_written sb ls offset data G d (f_dev s1)"
    and root: "new_root (ino_block_data ino) (gr_phys G) (gr_count G) root'" using dn by blast+
  have "Q \<noteq> {}" using Q by blast
  from touched_committed[OF log t this small] pins obtain js where
    c: "commit (f_txn s1) \<lparr>js_w = w, js_dev = f_dev s1\<rparr> = (Ok (), js)" "same_shape d (js_dev js)"
    and block: "\<And>q. can_pin sb jn d q \<Longrightarrow> run_of sb (js_dev js) q = (case pinned (f_txn s1) q of Some data \<Rightarrow> data | None \<Rightarrow> run_of sb (f_dev s1) q)"
    by blast
  have other: "run_of sb (js_dev js) q = run_of sb d q" if "can_pin sb jn d q" "q \<notin> Q" for q
    using block[OF that(1)] touches_keeps(4,5)[OF t, of q] that(2) Q by (auto simp: begin_transaction_def pinned_def txn_new_def)
  have now: "run_of sb (js_dev js) q = run_of sb (f_dev s1) q" if "q \<in> insert bb (data_blocks ls G)" for q
  proof -
    have "q \<in> Q" using Q that by blast
    then show ?thesis using block[OF pins, of q] bspec[OF bb that] by simp
  qed
  have "ib \<in> Q" using Q by blast
  then have "run_of sb (js_dev js) ib = grown_inode now sz sb i (gr_count G) root' (run_of sb d ib)"
    using block[OF pins, of ib] ib by simp
  moreover have "blocks_taken sb G d gdt (js_dev js) (f_gdt s1)" using blocks_taken_cong[OF taken bb_def now] by simp
  moreover have "data_written sb ls offset data G d (js_dev js)" using written now by (simp add: data_written_def)
  ultimately have "grow_stored now sb jn i ino ls offset data sz G d gdt (js_dev js) (f_gdt s1) root'"
    unfolding grow_stored_def Let_def ib_def[symmetric] Q_def[symmetric] using c(2) root other by blast
  then show ?thesis using c(1) by blast
qed

lemma grow_stored_inode:
  fixes offset :: nat
  assumes "grow_ready sb jn d gdt w i ino ls offset (length data) G"
    and "grow_stored now sb jn i ino ls offset data sz G d gdt d' gdt' root'" and "now < 2 ^ 32" and "sz < 2 ^ 64"
  defines "new \<equiv> updated (set_size_update now sz) (ino\<lparr>ino_block_data := root'\<rparr>)"
  shows "read_inode d' sb gdt' i = Ok new" and "flat_file new (leaves_of root')"
proof -
  define ib old where "ib = inode_block sb gdt i" and "old = run_of sb d ib"
  note R = grow_readyD[OF assms(1)]
  note wr = grow_ready_facts(1)[OF assms(1), unfolded write_ready_def, folded ib_def]
  note st = assms(2)[unfolded grow_stored_def Let_def, folded ib_def, folded old_def]
  have root: "new_root (ino_block_data ino) (gr_phys G) (gr_count G) root'" and shape: "same_shape d d'" and taken: "blocks_taken sb G d gdt d' gdt'"
    and stored: "run_of sb d' ib = grown_inode now sz sb i (gr_count G) root' old" using st by blast+
  have fields: "ino_mode new = ino_mode ino" "ino_flags new = ino_flags ino" "ino_block_data new = root'"
    by (simp_all add: new_def updated_def set_size_update_def no_update_def)
  have shape_new: "uses_extents new" "is_file new" "flat_tree ino ls"
    using R(3) fields by (auto simp: flat_file_def flat_tree_def is_file_def inode_file_type_def uses_extents_def)
  show "flat_file new (leaves_of root')"
    using new_root_flat(1)[OF shape_new(3) root R(14,5,6,9) shape_new(1) fields(3)] shape_new(2) by (simp add: flat_file_def)
  have ib: "in_disk sb d ib" "inode_there sb gdt i" using wr by (auto simp: can_pin_def)
  have good: "good_disk d'" "in_disk sb d' ib" using good_disk_shape[OF R(2) shape] in_disk_shape[OF shape] ib(1) by simp_all
  have wf: "wf_disk d" "wf_disk d'" using R(2) good(1) by (simp_all add: good_disk_def)
  have len: "length old = sb_block_size sb" using read_good_block(3)[OF R(1,2) ib(1)] by (simp add: old_def)
  have fit: "inode_off sb i + 128 \<le> sb_block_size sb"
    using inode_off_fits[OF R(1), of i] sb_ok_inode_size(1)[OF R(1)] by simp
  then have raw: "length (bytes_at (inode_off sb i) 128 old) = 128" using len by simp
  note at = read_inode_of_block[OF R(1)]
  have old: "decode_inode i (bytes_at (inode_off sb i) 128 old) = Ok ino"
    using at[OF wf(1) ib(2), folded ib_def, OF read_good_block(2)[OF R(1,2) ib(1)]] wr by (simp add: old_def)
  note rooted = parse_new_root[OF raw new_root_length[OF shape_new(3) root R(14,5,6,9)], of sb "gr_count G", folded rooted_inode_def]
  have "update_fits (set_size_update now sz)"
    using assms(3,4) by (simp add: update_fits_def set_size_update_def no_update_def)
  from parse_apply_update[OF rooted(3) this]
  have "decode_inode i (apply_update (set_size_update now sz) (rooted_inode sb i (gr_count G) root' old)) = Ok new"
    using old rooted(1,2) by (auto simp: decode_inode_def new_def split: if_split_asm)
  moreover have "inode_there sb gdt' i" "inode_block sb gdt' i = ib" using blocks_taken_tables[OF taken] ib(2) by (simp_all add: ib_def)
  ultimately show "read_inode d' sb gdt' i = Ok new"
    using at[OF wf(2), of gdt' i] read_good_block(2)[OF R(1) good] stored fit len rooted(3) by (simp add: grown_inode_def buffer_simps)
qed

section \<open>The file after a growing write\<close>

text \<open>
  The byte \<open>k\<close> of the file: the data lie where they were asked for when there is no gap before
  them, and as many blocks too low as the gap has when there is one.
\<close>

definition grown_pos :: "superblock \<Rightarrow> extent_leaf list \<Rightarrow> nat \<Rightarrow> nat \<Rightarrow> nat" where
  "grown_pos sb ls offset k =
     (if k div sb_block_size sb < leaves_end ls then k
      else k + (offset div sb_block_size sb - leaves_end ls) * sb_block_size sb)"

lemma inside_range:
  fixes k offset n b :: nat
  assumes "offset \<le> k" and "k < offset + n"
  shows "offset div b \<le> k div b" and "k div b \<le> (offset + n - 1) div b"
  using assms by (auto intro!: div_le_mono)

lemma grow_stored_map:
  fixes offset :: nat
  assumes "grow_ready sb jn d gdt w i ino ls offset (length data) G"
    and "grow_stored now sb jn i ino ls offset data sz G d gdt d' gdt' root'"
  shows "resolve_lblock (leaves_of root') lb =
      (if leaves_end ls \<le> lb \<and> lb < leaves_end ls + gr_count G then Some (gr_phys G + (lb - leaves_end ls)) else resolve_lblock ls lb)"
    and "resolve_lblock (leaves_of root') lb = Some q \<Longrightarrow> in_disk sb d q"
proof -
  note r = grow_ready_facts[OF assms(1)] and R = grow_readyD[OF assms(1)]
  have flat: "flat_tree ino ls" using R(3) by (simp add: flat_file_def)
  then have "uses_extents (ino\<lparr>ino_block_data := root'\<rparr>)" by (simp add: flat_tree_def uses_extents_def)
  moreover have "new_root (ino_block_data ino) (gr_phys G) (gr_count G) root'" using assms(2) by (simp add: grow_stored_def Let_def)
  ultimately show map: "resolve_lblock (leaves_of root') lb =
      (if leaves_end ls \<le> lb \<and> lb < leaves_end ls + gr_count G then Some (gr_phys G + (lb - leaves_end ls)) else resolve_lblock ls lb)" for lb
    using new_root_flat(2)[OF flat _ R(14,5,6,9)] by simp
  assume q: "resolve_lblock (leaves_of root') lb = Some q"
  have "can_pin sb jn d q"
  proof (cases "leaves_end ls \<le> lb \<and> lb < leaves_end ls + gr_count G")
    case True
    then have "q \<in> new_blocks G" using q map[of lb] by auto
    then show ?thesis using r(11) by blast
  next
    case False
    then have "resolve_lblock ls lb = Some q" using q map[of lb] by (simp split: if_split_asm)
    then show ?thesis using r(1) unfolding write_ready_def file_apart_def by blast
  qed
  then show "in_disk sb d q" by (simp add: can_pin_def)
qed

lemma grow_stored_bytes:
  fixes offset :: nat
  assumes "grow_ready sb jn d gdt w i ino ls offset (length data) G"
    and "grow_stored now sb jn i ino ls offset data sz G d gdt d' gdt' root'"
  shows "file_byte d' sb (leaves_of root') k = overlaid offset data (grown_pos sb ls offset k) (file_byte d sb ls k)"
proof -
  let ?N = "leaves_end ls" and ?B = "sb_block_size sb"
  note r = grow_ready_facts[OF assms(1)] and R = grow_readyD[OF assms(1)] and P = grow_places[OF assms(1)]
    and g = growth_facts(3-5)[OF grow_ready_facts(3)[OF assms(1)]] and map = grow_stored_map(1)[OF assms]
  define lb x where "lb = k div ?B" and "x = k mod ?B"
  have x: "x < ?B" using sb_ok_block_size(1)[OF R(1)] by (simp add: x_def)
  have k: "k = lb * ?B + x" by (simp add: lb_def x_def)
  have byte: "file_byte e sb ls' k = (case resolve_lblock ls' lb of None \<Rightarrow> 0 | Some q \<Rightarrow> run_of sb e q ! x)" for e ls'
    unfolding file_byte_def lb_def x_def ..
  have written: "run_of sb d' (data_place ls G l) ! x = overlaid offset data (l * ?B + x) (if l < gr_from G then run_of sb d (data_place ls G l) ! x else 0)"
    if "gr_first G \<le> l" "l \<le> gr_last G" for l
    using assms(2) that x by (simp add: grow_stored_def data_written_def Let_def)
  show ?thesis
  proof (cases "lb < ?N")
    case True
    then have pos: "grown_pos sb ls offset k = k" "resolve_lblock (leaves_of root') lb = resolve_lblock ls lb"
      using map by (simp_all add: grown_pos_def lb_def)
    show ?thesis
    proof (cases "gr_first G \<le> lb")
      case in_range: True
      then have "lb < gr_from G" "lb \<le> gr_last G" using True R(5,11) g(3) by simp_all
      then show ?thesis using written[OF in_range] P(1)[OF in_range] by (simp add: byte pos k[symmetric])
    next
      case before: False
      then have "\<not> offset \<le> k" using div_le_mono[of offset k ?B] unfolding g(1) lb_def by linarith
      moreover have "run_of sb d' q = run_of sb d q" if q: "resolve_lblock ls lb = Some q" for q
      proof -
        have "can_pin sb jn d q" using r(1) q unfolding write_ready_def file_apart_def by blast
        then show ?thesis using assms(2) r(12)[OF q] P(7)[OF q] before by (simp add: grow_stored_def Let_def)
      qed
      ultimately show ?thesis by (simp add: byte pos overlaid_def split: option.split)
    qed
  next
    case False
    then have hole: "resolve_lblock ls lb = None" using resolve_after[OF R(4)] by simp
    define l where "l = lb + (gr_from G - ?N)"
    have l: "l + ?N = lb + gr_from G" by (simp add: l_def g(3))
    have "k + (gr_from G - ?N) * ?B = l * ?B + x" by (simp add: l_def k add_mult_distrib)
    moreover have "offset div ?B - ?N = gr_from G - ?N" by (simp add: g(1,3))
    ultimately have pos: "grown_pos sb ls offset k = l * ?B + x" using False by (simp add: grown_pos_def lb_def)
    show ?thesis
    proof (cases "lb < ?N + gr_count G")
      case True
      then have "data_place ls G l = gr_phys G + (lb - ?N)" "gr_from G \<le> l" "l \<le> gr_last G"
        using False l R(11) by (auto simp: data_place_def)
      then show ?thesis using written[of l] R(10) True False by (simp add: byte map hole pos)
    next
      case out: False
      have "(l * ?B + x) div ?B = l" using x by simp
      moreover have "gr_last G < l" using out l R(11) by linarith
      ultimately have "\<not> (offset \<le> l * ?B + x \<and> l * ?B + x < offset + length data)"
        using inside_range(2)[of offset "l * ?B + x" "length data" ?B] unfolding g(2) by linarith
      then show ?thesis using out False by (auto simp: byte map hole pos overlaid_def)
    qed
  qed
qed

section \<open>The request\<close>

lemma grow_request:
  fixes offset :: nat
  assumes "grow_ready (x_sb x) jn (x_dev x) (x_gdt x) (x_journal x) i ino ls offset (length buf) G" and "now < 2 ^ 32"
    and "\<not> x_read_only x" and "\<not> x_gdt_held x" and "\<not> x_journal_held x"
    and "sz = max (offset + length buf) (ino_size ino)"
  shows "\<exists>info y. write_file_data_cb now (HFile i h) buf offset False False x = (Ok (length buf mod 2 ^ 32, info), y) \<and>
    fi_file_size info = sz \<and>
    (\<forall>h' len off. off < 2 ^ 63 \<longrightarrow> read_file_data (HFile i h') len off y =
       (Ok (map (\<lambda>k. overlaid offset buf (grown_pos (x_sb x) ls offset k) (file_byte (x_dev x) (x_sb x) ls k))
         [min off sz..<min (off + len) sz]), y)) \<and>
    (\<exists>bm bm'. bm_load (x_dev x) (x_sb x) (x_gdt x) (gr_group G) = Ok bm \<and> bm_load (x_dev y) (x_sb y) (x_gdt y) (gr_group G) = Ok bm' \<and>
       (\<forall>j. bm_bit bm' j \<longleftrightarrow> j \<in> {gr_start G..<gr_start G + gr_count G} \<or> bm_bit bm j))"
proof -
  let ?sb = "x_sb x" and ?d = "x_dev x" and ?new = "\<lambda>root'. updated (set_size_update now sz) (ino\<lparr>ino_block_data := root'\<rparr>)"
  let ?s = "\<lparr>f_dev = x_dev x, f_gdt = x_gdt x, f_txn = begin_transaction (x_journal x)\<rparr>"
  note r = grow_ready_facts[OF assms(1)] and R = grow_readyD[OF assms(1)]
  note wr = r(1)[unfolded write_ready_def]
  have "ino_size ino < 2 ^ 64" using wr read_inode_ok by (auto simp: inode_ok_def)
  then have sz: "sz < 2 ^ 64" using R(16) by (simp add: assms(6))
  obtain s1 root' where w: "write_txn now ?sb i ino offset buf sz ?s = (Ok (), s1)"
    and dn: "grow_done now ?sb i ino ls offset buf sz G ?s s1 root'"
    using grow_txn_run[OF assms(1)] by blast
  obtain js where c: "commit (f_txn s1) \<lparr>js_w = x_journal x, js_dev = f_dev s1\<rparr> = (Ok (), js)"
    and st: "grow_stored now ?sb jn i ino ls offset buf sz G ?d (x_gdt x) (js_dev js) (f_gdt s1) root'"
    using grow_commit_run[OF assms(1) dn] by blast
  note new = grow_stored_inode[OF assms(1) st assms(2) sz] and bytes = grow_stored_bytes[OF assms(1) st]
  define y where "y = x\<lparr>x_dev := js_dev js, x_journal := js_w js, x_gdt := f_gdt s1\<rparr>"
  have y: "x_dev y = js_dev js" "x_sb y = ?sb" "x_gdt y = f_gdt s1" "\<not> x_gdt_held y" by (simp_all add: y_def assms(4))
  have size: "ino_size (?new root') = sz" by (simp add: updated_def set_size_update_def no_update_def)
  have "wadd 64 offset (length buf) = offset + length buf" using R(16) by (simp add: wadd_def)
  moreover have "read_inode ?d ?sb (x_gdt x) i = Ok ino" using wr by blast
  ultimately have run: "write_file_data_cb now (HFile i h) buf offset False False x =
      (Ok (length buf mod 2 ^ 32, file_info_from_inode (?new root') i), y)"
    using assms(3-6) R(15) new(1) w c
    by (simp add: write_file_data_cb_def guard_writable_def with_journal_def write_locked_def ctx_begin_def ctx_inode_def
        with_gdt_def ctx_sb_def on_fs_def ctx_commit_def smap_err_def sbind_def y_def)
  have shape: "same_shape ?d (js_dev js)" using st by (simp add: grow_stored_def Let_def)
  note good = good_disk_shape[OF R(2) shape]
  have readable: "blocks_readable (x_dev y) (x_sb y) (leaves_of root') (ino_size (?new root'))"
    using grow_stored_map(2)[OF assms(1) st] good_block_access(1)[OF good] in_disk_shape[OF shape] by (auto simp: blocks_readable_def y)
  have "wf_disk (x_dev y)" using good by (simp add: good_disk_def y)
  note read = read_request[OF _ this y(4) _ _ flat_reader[OF new(2)], unfolded y, simplified, OF R(1) _ new(1) readable[unfolded y]]
  have reads: "read_file_data (HFile i h') len off y =
      (Ok (map (\<lambda>k. overlaid offset buf (grown_pos ?sb ls offset k) (file_byte ?d ?sb ls k)) [min off sz..<min (off + len) sz]), y)"
    if "off < 2 ^ 63" for h' len off
    using read[of off h' len] that by (simp add: size bytes)
  define bb where "bb = gd_block_bitmap (x_gdt x ! gr_group G)"
  have bb: "in_disk ?sb ?d bb" "in_disk ?sb (js_dev js) bb" using r(11)[of bb] in_disk_shape[OF shape] by (simp_all add: can_pin_def meta_blocks_def bb_def)
  have taken: "blocks_taken ?sb G ?d (x_gdt x) (js_dev js) (f_gdt s1)" using st by (simp add: grow_stored_def Let_def)
  have "bm_load ?d ?sb (x_gdt x) (gr_group G) = Ok (run_of ?sb ?d bb)"
    "bm_load (x_dev y) (x_sb y) (x_gdt y) (gr_group G) = Ok (run_of ?sb (js_dev js) bb)"
    using read_good_block(2)[OF R(1,2) bb(1)] read_good_block(2)[OF R(1) good bb(2)] R(13) taken
    by (simp_all add: bm_load_def gdt_get_def bb_def y blocks_taken_def Let_def)
  moreover have "\<forall>j. bm_bit (run_of ?sb (js_dev js) bb) j \<longleftrightarrow> j \<in> {gr_start G..<gr_start G + gr_count G} \<or> bm_bit (run_of ?sb ?d bb) j"
    using taken unfolding blocks_taken_def Let_def bb_def by blast
  moreover have "fi_file_size (file_info_from_inode (?new root') i) = sz" by (simp add: file_info_from_inode_def Let_def size)
  ultimately show ?thesis using run reads by blast
qed

section \<open>Properties\<close>

lemma overlaid_at:
  "j < length data \<Longrightarrow> overlaid offset data (offset + j) old = data ! j"
  by (simp add: overlaid_def)

lemma read_back:
  assumes "\<And>j. j < length buf \<Longrightarrow> f (off + j) = buf ! j" and "off + length buf \<le> sz"
  shows "map f [min off sz..<min (off + length buf) sz] = buf"
  using assms by (intro nth_equalityI) auto

text \<open>
  C2. A write that makes a file longer. On a device without faults a write that goes past the
  last extent of a file whose extents are in its inode, that does not begin past a gap, and
  whose missing blocks the allocator finds in one run, succeeds: it answers with the number of
  bytes and the new size. Every read request after it, through any handle of the file, returns
  up to the new size the bytes written where they were written, and elsewhere what the old
  blocks of the file hold on the device and zeros in the new blocks. (Behind the old end of the
  file its last block holds whatever is on the device: the code writes zeros to new blocks only,
  neither to the rest of the last block nor, when a file is made shorter, to what is cut off.)
  In the bitmap on the device exactly the blocks of the run are taken in addition, so that no
  later allocation gives them out again.
\<close>

theorem append_then_read:
  fixes offset :: nat
  assumes "grow_ready (x_sb x) jn (x_dev x) (x_gdt x) (x_journal x) i ino ls offset (length buf) G"
    and "offset div sb_block_size (x_sb x) \<le> leaves_end ls" and "now < 2 ^ 32"
    and "\<not> x_read_only x" and "\<not> x_gdt_held x" and "\<not> x_journal_held x"
    and "sz = max (offset + length buf) (ino_size ino)"
  shows "\<exists>info y. write_file_data_cb now (HFile i h) buf offset False False x = (Ok (length buf mod 2 ^ 32, info), y) \<and>
    fi_file_size info = sz \<and>
    (\<forall>h' len off. off < 2 ^ 63 \<longrightarrow> read_file_data (HFile i h') len off y =
       (Ok (map (\<lambda>k. overlaid offset buf k (file_byte (x_dev x) (x_sb x) ls k)) [min off sz..<min (off + len) sz]), y)) \<and>
    read_file_data (HFile i h) (length buf) offset y = (Ok buf, y) \<and>
    (\<exists>bm bm'. bm_load (x_dev x) (x_sb x) (x_gdt x) (gr_group G) = Ok bm \<and> bm_load (x_dev y) (x_sb y) (x_gdt y) (gr_group G) = Ok bm' \<and>
       (\<forall>j. bm_bit bm' j \<longleftrightarrow> j \<in> {gr_start G..<gr_start G + gr_count G} \<or> bm_bit bm j))"
proof -
  have pos: "grown_pos (x_sb x) ls offset k = k" for k using assms(2) by (simp add: grown_pos_def)
  obtain info y where w: "write_file_data_cb now (HFile i h) buf offset False False x = (Ok (length buf mod 2 ^ 32, info), y)"
    "fi_file_size info = sz" and reads: "\<And>h' len off. off < 2 ^ 63 \<Longrightarrow> read_file_data (HFile i h') len off y =
       (Ok (map (\<lambda>k. overlaid offset buf k (file_byte (x_dev x) (x_sb x) ls k)) [min off sz..<min (off + len) sz]), y)"
    and bits: "\<exists>bm bm'. bm_load (x_dev x) (x_sb x) (x_gdt x) (gr_group G) = Ok bm \<and> bm_load (x_dev y) (x_sb y) (x_gdt y) (gr_group G) = Ok bm' \<and>
       (\<forall>j. bm_bit bm' j \<longleftrightarrow> j \<in> {gr_start G..<gr_start G + gr_count G} \<or> bm_bit bm j)"
    using grow_request[OF assms(1,3-7), of h, unfolded pos] by blast
  have "offset < 2 ^ 63" using grow_readyD(16)[OF assms(1)] by simp
  from reads[OF this, of h "length buf"] have "read_file_data (HFile i h) (length buf) offset y = (Ok buf, y)"
    by (simp only: read_back[OF overlaid_at] assms(7) max.cobounded1)
  then show ?thesis using w reads bits by blast
qed

text \<open>The file of the sample image fills its only block: two more bytes go to a new one.\<close>

definition sample_growth :: "nat \<Rightarrow> growth" where
  "sample_growth lb = \<lparr>gr_first = lb, gr_last = lb, gr_from = lb, gr_count = 1, gr_group = 0, gr_start = 17, gr_phys = 17\<rparr>"

lemma sample_grow_ready:
  assumes "offset = 1024 * lb" and "lb = 1 \<or> lb = 2"
  shows "grow_ready sample_sb sample_journal sample_disk [sample_gd] (journal_writer_new sample_journal) 12
    (sample_ino 0x81A4 5 1 16 1) [\<lparr>ee_block = 0, ee_len = 1, ee_start_hi = 0, ee_start_lo = 16\<rparr>] offset 2 (sample_growth lb)"
proof -
  let ?ino = "sample_ino 0x81A4 5 1 16 1" and ?ls = "[\<lparr>ee_block = 0, ee_len = 1, ee_start_hi = 0, ee_start_lo = 16\<rparr>]"
  have gd: "gd_block_bitmap sample_gd = 3" "gd_free_blocks_count sample_gd = 7" "sb_inodes_count sample_sb = 16" "gd_inode_table sample_gd = 5"
    by (simp_all add: sample_sb_def sample_gd_def)
  have places: "inode_block sample_sb [sample_gd] 12 = 6" "gdt_block sample_sb = 2" "superblock_block sample_sb = 1"
    by (simp_all add: inode_block_def inode_group_def gdt_block_def superblock_block_def superblock_place_def gd)
  have pin: "can_pin sample_sb sample_journal sample_disk q" if "q < 8 \<or> q = 17" for q
    using that by (auto simp: can_pin_def tag_fits_def sample_journal_def)
  have lv: "resolve_lblock ?ls k = (if k = 0 then Some 16 else None)" for k
    by (simp add: resolve_lblock_def partition_point_def leaf_start_def hi_lo_def)
  have e: "leaves_end ?ls = 1" by (simp add: leaves_end_def leaf_blocks_def)
  have block: "sector_run sample_disk 6 2 = sample_block 3" using sample_block_run[of 3] by simp
  have size: "ino_size ?ino = 5" by (simp add: sample_ino_fields)
  have room: "root_has_room (ino_block_data ?ino)" using sample_root(2) by (simp add: root_has_room_def)
  have log: "log_size sample_journal = 7" by (simp add: log_size_def sample_journal_def)
  have growth: "growth_of sample_sb sample_journal ?ls offset 2 (sample_growth lb)"
    unfolding growth_of_def e using assms by (auto simp: sample_growth_def log)
  show ?thesis
    unfolding grow_ready_def size
    using sample_write_ready room pin growth assms(2) sample_first_run[where ?'e = alloc_error]
    by (auto simp: meta_blocks_def places gd lv block sample_growth_def simp del: One_nat_def split: if_split_asm)
qed

theorem append_then_read_witness:
  "\<exists>info y. write_file_data_cb 9 (HFile 12 (sample_ino 0x81A4 5 1 16 1)) [7, 8] 1024 False False (sample_fs ReadWrite) = (Ok (2, info), y) \<and>
     fi_file_size info = 1026 \<and> read_file_data (HFile 12 (sample_ino 0x81A4 5 1 16 1)) 2 1024 y = (Ok [7, 8], y)"
proof -
  let ?x = "sample_fs ReadWrite" and ?ls = "[\<lparr>ee_block = 0, ee_len = 1, ee_start_hi = 0, ee_start_lo = 16\<rparr>]"
  have x: "x_sb ?x = sample_sb" "x_dev ?x = sample_disk" "x_gdt ?x = [sample_gd]"
    "x_journal ?x = journal_writer_new sample_journal" "\<not> x_read_only ?x" "\<not> x_gdt_held ?x" "\<not> x_journal_held ?x"
    by (simp_all add: sample_fs_def)
  have len: "length [7, 8 :: byte] = 2" "1024 = 1024 * (1 :: nat)" by simp_all
  have "1024 div sb_block_size sample_sb \<le> leaves_end ?ls" by (simp add: leaves_end_def leaf_blocks_def del: One_nat_def)
  from append_then_read[where x = ?x and buf = "[7, 8]", unfolded x(1-4) len(1), OF sample_grow_ready[OF len(2)] this _ x(5-7) refl, of 9]
  show ?thesis by (simp add: sample_ino_fields) blast
qed

text \<open>The gap in bytes: at least as long as the write, and below its offset.\<close>

lemma gap_bytes:
  fixes offset gap :: nat
  assumes "grow_ready sb jn d gdt w i ino ls offset len G" and "gap = (gr_first G - leaves_end ls) * sb_block_size sb"
    and "leaves_end ls + gr_count G \<le> gr_first G"
  shows "gap \<le> offset" and "leaves_end ls * sb_block_size sb \<le> offset - gap" and "leaves_end ls * sb_block_size sb \<le> offset" and "len \<le> gap"
proof -
  let ?B = "sb_block_size sb"
  note R = grow_readyD[OF assms(1)] and g = growth_facts(3-6)[OF grow_ready_facts(3)[OF assms(1)]]
  have B: "0 < ?B" using sb_ok_block_size(1)[OF R(1)] by simp
  have first: "gr_first G * ?B \<le> offset" by (simp add: g(1))
  have "leaves_end ls \<le> gr_first G" using assms(3) by simp
  then have "gr_first G * ?B = gap + leaves_end ls * ?B" by (simp add: assms(2) add_mult_distrib[symmetric])
  then show "gap \<le> offset" "leaves_end ls * ?B \<le> offset - gap" "leaves_end ls * ?B \<le> offset" using first by linarith+
  have "gr_count G * ?B \<le> gap" using assms(3) unfolding assms(2) by (intro mult_le_mono1) linarith
  moreover have "offset + len - 1 < Suc (gr_last G) * ?B"
    unfolding g(2) using dividend_less_div_times[OF B, of "offset + len - 1"] by simp
  moreover have "Suc (gr_last G) * ?B = gr_first G * ?B + gr_count G * ?B"
    using g(3,4) assms(3) by (simp add: add_mult_distrib[symmetric])
  ultimately show "len \<le> gap" using first by linarith
qed

text \<open>
  C34. A write past a gap is stored in the wrong place. When a write begins past the end of the
  extents by at least as many blocks as it is long, the request succeeds and the new size covers
  it, but its blocks are appended at the end of the extents: a read of the range that was written
  returns zeros, and the bytes are found below it, by as many blocks as the gap has.
\<close>

theorem write_past_gap_misplaced:
  fixes offset gap :: nat
  assumes "grow_ready (x_sb x) jn (x_dev x) (x_gdt x) (x_journal x) i ino ls offset (length buf) G"
    and "gap = (gr_first G - leaves_end ls) * sb_block_size (x_sb x)" and "leaves_end ls + gr_count G \<le> gr_first G" and "now < 2 ^ 32"
    and "\<not> x_read_only x" and "\<not> x_gdt_held x" and "\<not> x_journal_held x"
  shows "\<exists>info y. write_file_data_cb now (HFile i h) buf offset False False x = (Ok (length buf mod 2 ^ 32, info), y) \<and>
    offset + length buf \<le> fi_file_size info \<and>
    read_file_data (HFile i h) (length buf) offset y = (Ok (replicate (length buf) 0), y) \<and>
    read_file_data (HFile i h) (length buf) (offset - gap) y = (Ok buf, y)"
proof -
  let ?sb = "x_sb x" and ?sz = "max (offset + length buf) (ino_size ino)"
  note R = grow_readyD[OF assms(1)] and gap = gap_bytes[OF assms(1-3)]
  obtain info y where w: "write_file_data_cb now (HFile i h) buf offset False False x = (Ok (length buf mod 2 ^ 32, info), y)"
    "fi_file_size info = ?sz" and reads: "\<And>len off. off < 2 ^ 63 \<Longrightarrow> read_file_data (HFile i h) len off y =
       (Ok (map (\<lambda>k. overlaid offset buf (grown_pos ?sb ls offset k) (file_byte (x_dev x) ?sb ls k)) [min off ?sz..<min (off + len) ?sz]), y)"
    using grow_request[OF assms(1,4-7) refl, of h] by blast
  have byte: "grown_pos ?sb ls offset k = k + gap" "file_byte (x_dev x) ?sb ls k = 0" if "leaves_end ls * sb_block_size ?sb \<le> k" for k
  proof -
    have "leaves_end ls \<le> k div sb_block_size ?sb"
      using div_le_mono[OF that, of "sb_block_size ?sb"] sb_ok_block_size(1)[OF R(1)] by simp
    then show "grown_pos ?sb ls offset k = k + gap" "file_byte (x_dev x) ?sb ls k = 0"
      using resolve_after[OF R(4)] growth_facts(3)[OF grow_ready_facts(3)[OF assms(1)]]
      by (simp_all add: grown_pos_def file_byte_def assms(2))
  qed
  have size: "offset + length buf \<le> ?sz" "offset < 2 ^ 63" using R(16) by simp_all
  have "overlaid offset buf (grown_pos ?sb ls offset (offset + j)) (file_byte (x_dev x) ?sb ls (offset + j)) = replicate (length buf) 0 ! j"
    if "j < length buf" for j
    using byte[of "offset + j"] gap(3,4) that by (simp add: overlaid_def)
  with read_back[of "replicate (length buf) 0" "\<lambda>k. overlaid offset buf (grown_pos ?sb ls offset k) (file_byte (x_dev x) ?sb ls k)" offset ?sz]
  have "read_file_data (HFile i h) (length buf) offset y = (Ok (replicate (length buf) 0), y)" using size by (simp add: reads)
  moreover have "overlaid offset buf (grown_pos ?sb ls offset (offset - gap + j)) (file_byte (x_dev x) ?sb ls (offset - gap + j)) = buf ! j"
    if "j < length buf" for j
  proof -
    have "grown_pos ?sb ls offset (offset - gap + j) = offset + j" using byte(1)[of "offset - gap + j"] gap(1,2) by linarith
    then show ?thesis using overlaid_at[OF that] by (simp only:)
  qed
  then have "read_file_data (HFile i h) (length buf) (offset - gap) y = (Ok buf, y)"
    using read_back[of buf "\<lambda>k. overlaid offset buf (grown_pos ?sb ls offset k) (file_byte (x_dev x) ?sb ls k)" "offset - gap" ?sz] size
    by (simp add: reads)
  ultimately show ?thesis using w size(1) by auto
qed

theorem write_past_gap_misplaced_witness:
  "\<exists>info y. write_file_data_cb 9 (HFile 12 (sample_ino 0x81A4 5 1 16 1)) [7, 8] 2048 False False (sample_fs ReadWrite) = (Ok (2, info), y) \<and>
     read_file_data (HFile 12 (sample_ino 0x81A4 5 1 16 1)) 2 2048 y = (Ok [0, 0], y) \<and>
     read_file_data (HFile 12 (sample_ino 0x81A4 5 1 16 1)) 2 1024 y = (Ok [7, 8], y)"
proof -
  let ?x = "sample_fs ReadWrite" and ?ls = "[\<lparr>ee_block = 0, ee_len = 1, ee_start_hi = 0, ee_start_lo = 16\<rparr>]"
  have x: "x_sb ?x = sample_sb" "x_dev ?x = sample_disk" "x_gdt ?x = [sample_gd]"
    "x_journal ?x = journal_writer_new sample_journal" "\<not> x_read_only ?x" "\<not> x_gdt_held ?x" "\<not> x_journal_held ?x"
    by (simp_all add: sample_fs_def)
  have len: "length [7, 8 :: byte] = 2" "2048 = 1024 * (2 :: nat)" by simp_all
  have e: "leaves_end ?ls = 1" by (simp add: leaves_end_def leaf_blocks_def)
  have gap: "1024 = (gr_first (sample_growth 2) - leaves_end ?ls) * sb_block_size sample_sb"
    "leaves_end ?ls + gr_count (sample_growth 2) \<le> gr_first (sample_growth 2)"
    unfolding e by (simp_all add: sample_growth_def)
  note write_past_gap_misplaced[where x = ?x and buf = "[7, 8]", unfolded x(1-4) len(1), OF sample_grow_ready[OF len(2)] gap _ x(5-7), of 9]
  moreover have "replicate 2 (0 :: byte) = [0, 0]" by (simp add: numeral_2_eq_2)
  ultimately show ?thesis by (simp del: One_nat_def) blast
qed

end
