(* ===== verification/Journal_Crash.thy ===== *)
theory Journal_Crash
  imports Touched
begin

text \<open>
  Loss of power during a commit. The host stops writing at some set of sectors, so the commit
  stops in the middle of a block or between two, and the device is then used again without
  faults: what the next replay makes of the log, and what is left of the volume.
\<close>

section \<open>Power\<close>

text \<open>
  The host stops writing at the sectors \<open>fails\<close>: the first write that meets one returns an error. When
  the power is back every sector can be written again.
\<close>

definition power_on :: "disk \<Rightarrow> disk" where
  "power_on d = d\<lparr>write_fails := \<lambda>_. False\<rparr>"

definition failing :: "(nat \<Rightarrow> bool) \<Rightarrow> jstate \<Rightarrow> jstate" where
  "failing fails s = s\<lparr>js_dev := (js_dev s)\<lparr>write_fails := fails\<rparr>\<rparr>"

definition repowered :: "jstate \<Rightarrow> jstate" where
  "repowered s = s\<lparr>js_dev := power_on (js_dev s)\<rparr>"

lemma power_on_simps [simp]:
  "sectors (power_on d) = sectors d" "sector_count (power_on d) = sector_count d" "read_fails (power_on d) = read_fails d"
  "flush_fails (power_on d) = flush_fails d" "write_fails (power_on d) = (\<lambda>_. False)"
  "wf_disk (power_on d) = wf_disk d" "sector_run (power_on d) i n = sector_run d i n" "in_disk sb (power_on d) q = in_disk sb d q"
  "js_dev (repowered s) = power_on (js_dev s)" "js_w (repowered s) = js_w s"
  "store_run i data (power_on d) = power_on (store_run i data d)"
  by (simp_all add: power_on_def repowered_def wf_disk_def sector_run_def in_disk_def store_run_def cong: if_cong)

lemma failing_simps [simp]:
  "js_w (failing fails s) = js_w s" "js_dev (failing fails s) = (js_dev s)\<lparr>write_fails := fails\<rparr>"
  "failing fails s\<lparr>js_dev := d\<lparr>write_fails := fails\<rparr>\<rparr> = failing fails (s\<lparr>js_dev := d\<rparr>)"
  by (simp_all add: failing_def)

section \<open>Torn blocks\<close>

text \<open>A block whose write stopped after \<open>k\<close> of its sectors.\<close>

definition torn :: "nat \<Rightarrow> byte list \<Rightarrow> byte list \<Rightarrow> byte list" where
  "torn k new old = take (512 * k) new @ drop (512 * k) old"

lemma sector_run_torn:
  assumes "wf_disk d" and "s + n \<le> sector_count d" and "length data = 512 * n" and "k \<le> n"
  shows "sector_run (store_run s (take (512 * k) data) d) s n = torn k data (sector_run d s n)"
proof -
  obtain m where n: "n = k + m" using assms(4) le_Suc_ex by blast
  let ?d = "store_run s (take (512 * k) data) d"
  have len: "length (take (512 * k) data) = 512 * k" using assms(3,4) by simp
  have "sector_run ?d (s + k) m = sector_run d (s + k) m"
    by (rule sector_run_store_other) (simp add: n assms(3))
  moreover have "length (sector_run d s k) = 512 * k"
    using assms(2) by (intro length_sector_run[OF assms(1)]) (simp add: n)
  ultimately show ?thesis
    using sector_run_store_same[OF len, of s d] by (simp add: torn_def n sector_run_add)
qed

lemma torn_0 [simp]: "torn 0 new old = old"
  by (simp add: torn_def)

lemma torn_header:
  assumes "length new = length old" and "512 * k \<le> length new" and "0 < k"
  shows "jheader_of (torn k new old) = jheader_of new" and "length (torn k new old) = length new"
proof -
  have "bytes_at off n (torn k new old) = bytes_at off n new" if "off + n \<le> 512" for off n
  proof -
    have *: "off + n \<le> 512 * k" using that assms(3) by linarith
    then have "bytes_at off n (torn k new old) = bytes_at off n (take (512 * k) new)"
      unfolding torn_def using assms(2) by (intro bytes_at_append_left) simp
    then show ?thesis using * by (simp add: bytes_at_def drop_take min_def)
  qed
  then show "jheader_of (torn k new old) = jheader_of new" by (simp add: jheader_of_def be32_def)
  show "length (torn k new old) = length new" using assms(1,2) by (simp add: torn_def)
qed

text \<open>A block written on a device that may fail: all of it, or a torn block and an error.\<close>

lemma write_block_run:
  assumes "sb_ok sb" and "wf_disk d" and "in_disk sb d p" and "length data = sb_block_size sb"
  shows "\<exists>k d'. k \<le> spb sb \<and> write_sectors (wmul 64 p (spb sb)) data d = ((if k = spb sb then Ok () else Err BdIo), d') \<and>
    same_shape d d' \<and> (\<forall>q. run_of sb d' q = (if q = p then torn k data (run_of sb d p) else run_of sb d q)) \<and>
    (k = spb sb \<longrightarrow> write_sectors (wmul 64 p (spb sb)) data (power_on d) = (Ok (), power_on d')) \<and>
    (k < spb sb \<longrightarrow> write_fails d (p * spb sb + k))"
proof -
  define n where "n = spb sb"
  have n: "0 < n" "length data = 512 * n" using sb_ok_block_size(4,5)[OF assms(1)] assms(4) by (simp_all add: n_def)
  have place: "wmul 64 p n = p * n" "p * n + n \<le> sector_count d"
    using wf_block_place[OF assms(2,3)] by (simp_all add: n_def)
  obtain k where k: "k \<le> n" "dyn_write_loop write_sector (p * n) n data d =
      ((if k = n then Ok () else Err BdIo), store_run (p * n) (take (512 * k) data) d)" "k < n \<longrightarrow> write_fails d (p * n + k)"
    using write_loop_run[OF assms(2) n(2) place(2)] by blast
  let ?d' = "store_run (p * n) (take (512 * k) data) d"
  have w: "write_sectors (p * n) data d = ((if k = n then Ok () else Err BdIo), ?d')"
    using k(2) n by (simp add: write_sectors_def dyn_write_sectors_def rassert_def)
  have "length (take (512 * k) data) = 512 * k" using n(2) k(1) by simp
  then have shape: "same_shape d ?d'" by (rule store_run_same_shape[OF assms(2)]) (use place(2) k(1) in simp)
  have "sector_run ?d' (q * n) n = (if q = p then torn k data (sector_run d (p * n) n) else sector_run d (q * n) n)" for q
  proof (cases "q = p")
    case False
    have "sector_run ?d' (q * n) n = sector_run d (q * n) n"
      by (rule sector_run_store_other) (use blocks_apart[of p q n] False k(1) n(2) in auto)
    then show ?thesis using False by simp
  qed (use sector_run_torn[OF assms(2) place(2) n(2) k(1)] in simp)
  moreover have "write_sectors (p * n) data (power_on d) = (Ok (), power_on ?d')" if "k = n"
    using write_sectors_Ok_iff[of "power_on d" data n "p * n"] assms(2) n place(2) that by (simp add: writable_def)
  ultimately show ?thesis using k(1,3) w shape unfolding n_def[symmetric] place(1) by blast
qed


section \<open>Writing the log\<close>

text \<open>One write to the log, on a device that may fail.\<close>

definition log_place :: "superblock \<Rightarrow> journal \<Rightarrow> jstate \<Rightarrow> bool" where
  "log_place sb jn s \<longleftrightarrow> sb_ok sb \<and> wf_disk (js_dev s) \<and> jw_journal_blocks (js_w s) = jn_blocks jn \<and>
     jw_block_size (js_w s) = sb_block_size sb \<and> (\<forall>p \<in> set (jn_blocks jn). in_disk sb (js_dev s) p)"

lemma write_to_journal_run:
  assumes "log_place sb jn s" and "write_to_journal data s = (r, s')"
  shows "log_place sb jn s' \<and> same_shape (js_dev s) (js_dev s') \<and>
    (r = Ok () \<longrightarrow> write_to_journal data (repowered s) = (Ok (), repowered s')) \<and>
    (r \<noteq> Ok () \<longrightarrow> jw_write_head (js_w s) < length (jn_blocks jn) \<longrightarrow> js_w s' = js_w s \<and>
       (\<exists>k < spb sb. \<forall>q. run_of sb (js_dev s') q = (if q = jn_blocks jn ! jw_write_head (js_w s)
          then torn k (resize0 (sb_block_size sb) data) (run_of sb (js_dev s) q) else run_of sb (js_dev s) q)))"
proof (cases "jw_write_head (js_w s) < length (jn_blocks jn)")
  case True
  let ?p = "jn_blocks jn ! jw_write_head (js_w s)" and ?data = "resize0 (sb_block_size sb) data"
  note l = assms(1)[unfolded log_place_def]
  have "in_disk sb (js_dev s) ?p" "length ?data = sb_block_size sb" using l True by simp_all
  then obtain k d' where k: "k \<le> spb sb" and w: "write_sectors (wmul 64 ?p (spb sb)) ?data (js_dev s) = ((if k = spb sb then Ok () else Err BdIo), d')"
    and shape: "same_shape (js_dev s) d'"
    and runs: "\<And>q. run_of sb d' q = (if q = ?p then torn k ?data (run_of sb (js_dev s) ?p) else run_of sb (js_dev s) q)"
    and on: "k = spb sb \<Longrightarrow> write_sectors (wmul 64 ?p (spb sb)) ?data (power_on (js_dev s)) = (Ok (), power_on d')"
    using write_block_run[of sb "js_dev s" ?p ?data] l by blast
  have run: "write_to_journal data s = (if k = spb sb then (Ok (), s\<lparr>js_dev := d', js_w := advance_write_head (js_w s)\<rparr>)
      else (Err (JBlockDevice BdIo), s\<lparr>js_dev := d'\<rparr>))"
    using w l True by (simp add: write_to_journal_def journal_block_addr_def sbind_def smap_err_def js_on_dev_def)
  have "log_place sb jn s'"
    using l run assms(2) shape in_disk_shape[OF shape, of sb]
    by (auto simp: log_place_def same_shape_def advance_write_head_def Let_def split: if_split_asm)
  moreover have "same_shape (js_dev s) (js_dev s')" using run assms(2) shape by (auto split: if_split_asm)
  moreover have "write_to_journal data (repowered s) = (Ok (), repowered s')" if "r = Ok ()"
  proof -
    have "k = spb sb" "s' = s\<lparr>js_dev := d', js_w := advance_write_head (js_w s)\<rparr>"
      using run assms(2) that by (auto split: if_split_asm)
    then show ?thesis using on l True
      by (simp add: write_to_journal_def journal_block_addr_def sbind_def smap_err_def js_on_dev_def repowered_def)
  qed
  moreover have "js_w s' = js_w s \<and> k < spb sb \<and> js_dev s' = d'" if "r \<noteq> Ok ()"
    using run assms(2) that k by (auto split: if_split_asm)
  ultimately show ?thesis using runs by (auto intro!: exI[of _ k])
next
  case False
  then have "r = Err (JBlockOutOfRange (jw_write_head (js_w s)))" "s' = s"
    using assms by (auto simp: write_to_journal_def journal_block_addr_def sbind_def log_place_def)
  then show ?thesis using assms(1) False by (simp add: log_place_def same_shape_refl)
qed

section \<open>Replaying a log that is not complete\<close>

text \<open>A log in which no usable block but a descriptor carries the sequence number: nothing is applied.\<close>

definition log_incomplete :: "superblock \<Rightarrow> journal \<Rightarrow> nat \<Rightarrow> disk \<Rightarrow> bool" where
  "log_incomplete sb jn seq d \<longleftrightarrow> (\<forall>j buf. usable jn j \<and> log_at sb jn d j = Ok buf \<and> header_matches buf seq \<longrightarrow>
     jh_blocktype (jheader_of buf) = BT_DESCRIPTOR)"

lemma log_readable:
  assumes "log_there sb jn d" and "usable jn j"
  shows "\<exists>buf. log_at sb jn d j = Ok buf \<and> length buf = sb_block_size sb"
proof -
  have j: "j < length (jn_blocks jn)" using assms by (simp add: log_there_def usable_def)
  then have "in_disk sb d (jn_blocks jn ! j)" using assms(1) by (simp add: log_there_def)
  then show ?thesis
    using block_readable[of sb d "jn_blocks jn ! j"] assms(1) j
    by (simp add: log_there_def journal_read_block_def journal_block_addr_def)
qed

lemma parse_tags_runs:
  assumes "log_there sb jn d"
  shows "usable jn j \<Longrightarrow> \<exists>j' ps. parse_tags d sb jn rv buf off j = Ok (j', ps) \<and> usable jn j'"
proof (induction "length buf - off" arbitrary: off j rule: less_induct)
  case less
  let ?off1 = "off + 12 + (if tag_flags buf off AND TF_SAME_UUID = 0 then 16 else 0)"
  obtain data where data: "log_at sb jn d j = Ok data" using log_readable[OF assms less.prems] by blast
  have next1: "usable jn (advance_jblock j jn)" using usable_cell[OF assms less.prems, of 1] by (simp add: cell_def)
  show ?case
  proof (cases "off + 12 \<le> length buf")
    case True
    then have "length buf - ?off1 < length buf - off" by (intro diff_less_mono2) simp_all
    from less.hyps[OF this next1] obtain j' ps
      where "parse_tags d sb jn rv buf ?off1 (advance_jblock j jn) = Ok (j', ps)" "usable jn j'" by blast
    then show ?thesis
      using True data next1 by (subst parse_tags.simps) (auto simp: Let_def)
  qed (use less.prems in \<open>simp add: parse_tags.simps\<close>)
qed

lemma replay_incomplete:
  assumes "log_there sb jn d" and "usable jn j" and "log_incomplete sb jn seq d"
  shows "replay_loop (Suc fuel) sb jn seq j [] d = (Ok seq, d)"
proof -
  obtain buf where buf: "log_at sb jn d j = Ok buf" using log_readable[OF assms(1,2)] by blast
  show ?thesis
  proof (cases "header_matches buf seq")
    case True
    then have bt: "jh_blocktype (jheader_of buf) = BT_DESCRIPTOR"
      using assms(2,3) buf unfolding log_incomplete_def by blast
    have "usable jn (advance_jblock j jn)" using usable_cell[OF assms(1,2), of 1] by (simp add: cell_def)
    then obtain j' ps where p: "parse_descriptor_block d sb jn j [] = Ok (j', ps)" "usable jn j'"
      using parse_tags_runs[OF assms(1)] buf by (fastforce simp: parse_descriptor_block_def)
    obtain com where com: "log_at sb jn d j' = Ok com" using log_readable[OF assms(1) p(2)] by blast
    have "\<not> is_commit_block com seq"
      using assms(3)[unfolded log_incomplete_def, rule_format, of j' com] p(2) com
      by (auto simp: is_commit_block_def header_matches_def BT_COMMIT_def BT_DESCRIPTOR_def)
    then show ?thesis using buf True bt p(1) com by (simp add: header_matches_def sbind_Ok)
  qed (use buf in \<open>auto simp: header_matches_def\<close>)
qed


section \<open>Where a commit can stop\<close>

abbreviation log_cell :: "superblock \<Rightarrow> journal \<Rightarrow> disk \<Rightarrow> nat \<Rightarrow> byte list" where
  "log_cell sb jn d j \<equiv> run_of sb d (jn_blocks jn ! j)"

lemma log_at_cell:
  assumes "sb_ok sb" and "good_disk d" and "j < length (jn_blocks jn)" and "in_disk sb d (jn_blocks jn ! j)"
  shows "log_at sb jn d j = Ok (log_cell sb jn d j)"
  using read_good_block(1)[OF assms(1,2,4)] assms(3) by (simp add: journal_read_block_def journal_block_addr_def)

lemma repowered_failing: "good_disk (js_dev s) \<Longrightarrow> repowered (failing fails s) = s"
  by (cases s) (auto simp: repowered_def failing_def power_on_def good_disk_def intro!: disk.equality ext)

lemma ready_cell:
  assumes "log_ready sb jn s"
  shows "usable jn (cell jn (jw_write_head (js_w s)) i)" and "cell jn (jw_write_head (js_w s)) i < length (jn_blocks jn)"
proof -
  have "usable jn (jw_write_head (js_w s))" using assms by (simp add: log_ready_def usable_def)
  from usable_cell[OF log_ready_there[OF assms] this]
  show "usable jn (cell jn (jw_write_head (js_w s)) i)" .
  then show "cell jn (jw_write_head (js_w s)) i < length (jn_blocks jn)"
    using assms by (simp add: usable_def log_ready_def)
qed

text \<open>The blocks \<open>ds\<close> are in the log up to the \<open>k\<close>-th, which is torn; nothing else has changed.\<close>

definition log_prefix ::
  "superblock \<Rightarrow> journal \<Rightarrow> byte list list \<Rightarrow> nat \<Rightarrow> disk \<Rightarrow> nat \<Rightarrow> disk \<Rightarrow> bool" where
  "log_prefix sb jn ds h d k d' \<longleftrightarrow> k \<le> length ds \<and>
     (\<forall>i < k. log_cell sb jn d' (cell jn h i) = resize0 (sb_block_size sb) (ds ! i)) \<and>
     (k < length ds \<longrightarrow> (\<exists>m < spb sb. log_cell sb jn d' (cell jn h k) =
        torn m (resize0 (sb_block_size sb) (ds ! k)) (log_cell sb jn d (cell jn h k)))) \<and>
     (\<forall>j < length (jn_blocks jn). (\<forall>i \<le> k. i < length ds \<longrightarrow> j \<noteq> cell jn h i) \<longrightarrow> log_cell sb jn d' j = log_cell sb jn d j) \<and>
     (\<forall>q. in_disk sb d q \<and> q \<notin> set (jn_blocks jn) \<longrightarrow> run_of sb d' q = run_of sb d q)"

lemma log_writes_run:
  assumes "log_ready sb jn s" and "length ds \<le> log_size jn" and "sfor ds write_to_journal s = (Ok (), s')"
  shows "log_ready sb jn s'" and "same_shape (js_dev s) (js_dev s')"
    and "js_w s' = (js_w s)\<lparr>jw_write_head := cell jn (jw_write_head (js_w s)) (length ds)\<rparr>"
    and "log_prefix sb jn ds (jw_write_head (js_w s)) (js_dev s) (length ds) (js_dev s')"
proof -
  let ?h = "jw_write_head (js_w s)"
  from log_writes[OF assms(1,2)] assms(3) have r: "log_ready sb jn s'" and shape: "same_shape (js_dev s) (js_dev s')"
    and w: "js_w s' = (js_w s)\<lparr>jw_write_head := cell jn ?h (length ds)\<rparr>"
    and cells: "\<And>i. i < length ds \<Longrightarrow> log_at sb jn (js_dev s') (cell jn ?h i) = Ok (resize0 (sb_block_size sb) (ds ! i))"
    and away: "\<And>j. (\<And>i. i < length ds \<Longrightarrow> j \<noteq> cell jn ?h i) \<Longrightarrow> log_at sb jn (js_dev s') j = log_at sb jn (js_dev s) j"
    and out: "\<And>q. in_disk sb (js_dev s) q \<Longrightarrow> q \<notin> set (jn_blocks jn) \<Longrightarrow> read_phys_block (js_dev s') sb q = read_phys_block (js_dev s) sb q"
    by auto
  then show "log_ready sb jn s'" "same_shape (js_dev s) (js_dev s')"
    "js_w s' = (js_w s)\<lparr>jw_write_head := cell jn ?h (length ds)\<rparr>" by simp_all
  note rs = assms(1)[unfolded log_ready_def] and rs' = r[unfolded log_ready_def]
  have at: "log_at sb jn (js_dev s) j = Ok (log_cell sb jn (js_dev s) j)" "log_at sb jn (js_dev s') j = Ok (log_cell sb jn (js_dev s') j)"
    if "j < length (jn_blocks jn)" for j using rs rs' that by (simp_all add: log_at_cell)
  have phys: "read_phys_block (js_dev s) sb q = Ok (run_of sb (js_dev s) q)" "read_phys_block (js_dev s') sb q = Ok (run_of sb (js_dev s') q)"
    if "in_disk sb (js_dev s) q" for q using rs rs' that in_disk_shape[OF shape] by (simp_all add: read_good_block(1))
  show "log_prefix sb jn ds ?h (js_dev s) (length ds) (js_dev s')"
    unfolding log_prefix_def
  proof (intro conjI allI impI)
    show "log_cell sb jn (js_dev s') (cell jn ?h i) = resize0 (sb_block_size sb) (ds ! i)" if "i < length ds" for i
      using cells[OF that] at(2)[OF ready_cell(2)[OF assms(1)], of i] by simp
    show "log_cell sb jn (js_dev s') j = log_cell sb jn (js_dev s) j"
      if "j < length (jn_blocks jn)" "\<forall>i \<le> length ds. i < length ds \<longrightarrow> j \<noteq> cell jn ?h i" for j
      using away[of j] at[OF that(1)] that(2) by simp
    show "run_of sb (js_dev s') q = run_of sb (js_dev s) q" if "in_disk sb (js_dev s) q \<and> q \<notin> set (jn_blocks jn)" for q
      using out[of q] phys[of q] that by simp
  qed simp_all
qed

lemma log_writes_stop:
  assumes "log_ready sb jn s" and "length ds \<le> log_size jn" and "sfor ds write_to_journal (failing fails s) = (r, t)"
  shows "log_place sb jn t \<and> same_shape (js_dev s) (power_on (js_dev t)) \<and>
    (\<exists>k. (k = length ds \<longleftrightarrow> r = Ok ()) \<and> log_prefix sb jn ds (jw_write_head (js_w s)) (js_dev s) k (js_dev t))"
proof -
  let ?h = "jw_write_head (js_w s)" and ?s = "failing fails s"
  note rs = assms(1)[unfolded log_ready_def]
  have on: "repowered ?s = s" using rs by (simp add: repowered_failing)
  have place: "log_place sb jn ?s"
    using rs by (auto simp: log_place_def failing_def good_disk_def wf_disk_def in_disk_def)
  note sim = sfor_sim[of _ "log_place sb jn" write_to_journal repowered, OF _ place, unfolded on]
  have step: "log_place sb jn u' \<and> write_to_journal d (repowered u) = (Ok (), repowered u')"
    if "log_place sb jn u" "write_to_journal d u = (Ok (), u')" for d u u'
    using write_to_journal_run[OF that] by simp
  show ?thesis
  proof (cases "r = Ok ()")
    case True
    then have *: "log_place sb jn t" "sfor ds write_to_journal s = (Ok (), repowered t)"
      using sim[OF step] assms(3) by blast+
    from log_writes_run[OF assms(1,2) *(2)] True *(1) show ?thesis by (auto simp: log_prefix_def)
  next
    case False
    then obtain k u where k: "k < length ds" "sfor (take k ds) write_to_journal ?s = (Ok (), u)" "write_to_journal (ds ! k) u = (r, t)"
      using sfor_stops[OF assms(3)] by blast
    have u: "log_place sb jn u" "sfor (take k ds) write_to_journal s = (Ok (), repowered u)"
      using sim[OF step k(2)] by blast+
    have len: "length (take k ds) \<le> log_size jn" "length (take k ds) = k" using k(1) assms(2) by simp_all
    note pre = log_writes_run[OF assms(1) len(1) u(2), unfolded len(2), simplified]
    have head: "jw_write_head (js_w u) = cell jn ?h k" using pre(3) by simp
    have cell: "cell jn ?h k < length (jn_blocks jn)" by (rule ready_cell(2)[OF assms(1)])
    obtain m where m: "m < spb sb" and runs: "\<And>q. run_of sb (js_dev t) q = (if q = jn_blocks jn ! cell jn ?h k
          then torn m (resize0 (sb_block_size sb) (ds ! k)) (run_of sb (js_dev u) q) else run_of sb (js_dev u) q)"
      and t: "log_place sb jn t" "same_shape (js_dev u) (js_dev t)"
      using write_to_journal_run[OF u(1) k(3)] False cell unfolding head by blast
    have ks: "k < log_size jn" using k(1) assms(2) by linarith
    have apart: "cell jn ?h i \<noteq> cell jn ?h k" if "i < k" for i
      using cell_inj[OF assms(1) _ ks, of i] that ks by fastforce
    have names: "jn_blocks jn ! i = jn_blocks jn ! j \<longleftrightarrow> i = j" if "i < length (jn_blocks jn)" "j < length (jn_blocks jn)" for i j
      using rs that by (simp add: nth_eq_iff_index_eq)
    note p = pre(4)[unfolded log_prefix_def len(2), simplified]
    have "log_prefix sb jn ds ?h (js_dev s) k (js_dev t)"
      unfolding log_prefix_def
    proof (intro conjI allI impI)
      show "log_cell sb jn (js_dev t) (cell jn ?h i) = resize0 (sb_block_size sb) (ds ! i)" if "i < k" for i
        using runs p apart[OF that] names[OF ready_cell(2)[OF assms(1)] cell] that by simp
      have "\<forall>i \<le> k. i < k \<longrightarrow> cell jn ?h k \<noteq> cell jn ?h i" using apart by metis
      then have "log_cell sb jn (js_dev u) (cell jn ?h k) = log_cell sb jn (js_dev s) (cell jn ?h k)" using p cell by auto
      then show "\<exists>m < spb sb. log_cell sb jn (js_dev t) (cell jn ?h k) =
          torn m (resize0 (sb_block_size sb) (ds ! k)) (log_cell sb jn (js_dev s) (cell jn ?h k))"
        using m runs by auto
      show "log_cell sb jn (js_dev t) j = log_cell sb jn (js_dev s) j"
        if "j < length (jn_blocks jn)" "\<forall>i \<le> k. i < length ds \<longrightarrow> j \<noteq> cell jn ?h i" for j
        using runs p that names[OF that(1) cell] k(1) by auto
      show "run_of sb (js_dev t) q = run_of sb (js_dev s) q" if "in_disk sb (js_dev s) q \<and> q \<notin> set (jn_blocks jn)" for q
        using runs[of q] p that cell by (auto simp: in_set_conv_nth)
    qed (use k(1) in simp)
    moreover have "same_shape (js_dev s) (power_on (js_dev t))"
      using pre(2) t(2) by (simp add: same_shape_def)
    ultimately show ?thesis using t(1) False k(1) by (intro conjI exI[of _ k]) auto
  qed
qed


lemma escaped_no_header:
  assumes "12 \<le> length data"
  shows "\<not> header_matches (escaped data) seq"
proof
  assume "header_matches (escaped data) seq"
  then have magic: "be_nat (bytes_at 0 4 (escaped data)) = JOURNAL_MAGIC" by (simp add: header_matches_def jheader_of_def be32_def)
  show False
  proof (cases "bytes_at 0 4 data = to_be 4 JOURNAL_MAGIC")
    case True
    then have "bytes_at 0 4 (escaped data) = [0, 0, 0, 0]" using assms by (simp add: escaped_def buffer_simps)
    then show False using magic by (simp add: be_nat_def JOURNAL_MAGIC_def)
  next
    case False
    have "to_le 4 (le_nat (rev (bytes_at 0 4 data))) = rev (bytes_at 0 4 data)"
      using to_le_le_nat[of "rev (bytes_at 0 4 data)"] assms by simp
    then have "to_be 4 (be_nat (bytes_at 0 4 data)) = bytes_at 0 4 data" by (simp add: to_be_def be_nat_def)
    moreover have "be_nat (bytes_at 0 4 data) = JOURNAL_MAGIC" using magic False by (simp add: escaped_def)
    ultimately show False using False by simp
  qed
qed

text \<open>The blocks a transaction puts into the log: its descriptor, its data, its commit block.\<close>

definition log_image :: "superblock \<Rightarrow> transaction \<Rightarrow> byte list list \<Rightarrow> bool" where
  "log_image sb txn ds \<longleftrightarrow> (let n = length (txn_blocks txn); seq = txn_sequence txn in
     length ds = n + 2 \<and> (\<forall>i < n + 2. length (ds ! i) = sb_block_size sb) \<and> tags_at (txn_blocks txn) 0 12 (ds ! 0) \<and>
     jheader_of (ds ! 0) = \<lparr>jh_magic = JOURNAL_MAGIC, jh_blocktype = BT_DESCRIPTOR, jh_sequence = seq\<rparr> \<and>
     (\<forall>i < n. ds ! Suc i = escaped (snd (txn_blocks txn ! i))) \<and> is_commit_block (ds ! Suc n) seq)"

lemma logged_image:
  assumes "log_ready sb jn s" and "loggable sb jn (js_dev s) txn"
  obtains ds where "log_image sb txn ds" and "\<And>t. js_w t = js_w s \<Longrightarrow> log_transaction txn t = sfor ds write_to_journal t"
proof -
  note rs = assms(1)[unfolded log_ready_def] and l = assms(2)[unfolded loggable_def]
  let ?bs = "txn_blocks txn" and ?seq = "txn_sequence txn" and ?w = "js_w s"
  obtain desc where desc: "descriptor_block ?w ?bs ?seq = Ok desc" "length desc = sb_block_size sb"
      "jheader_of desc = \<lparr>jh_magic = JOURNAL_MAGIC, jh_blocktype = BT_DESCRIPTOR, jh_sequence = ?seq\<rparr>" "tags_at ?bs 0 12 desc"
    using descriptor_block_spec[of ?w ?bs ?seq] rs l by auto
  obtain com where com: "commit_block ?w ?seq = Ok com" "length com = sb_block_size sb" "is_commit_block com ?seq"
    using commit_block_spec[of ?w ?seq] rs l by auto
  define ds where "ds = desc # map (\<lambda>e. escaped (snd e)) ?bs @ [com]"
  have "length (ds ! i) = sb_block_size sb" if "i < length ?bs + 2" for i
    using that desc(2) com(2) l by (cases i) (auto simp: ds_def nth_append)
  then have "log_image sb txn ds"
    using desc com by (simp add: log_image_def Let_def ds_def nth_append)
  moreover have "log_transaction txn t = sfor ds write_to_journal t" if "js_w t = ?w" for t
    using l desc(1) com(1) that unfolding ds_def by (intro log_transaction_writes) simp_all
  ultimately show thesis using that by blast
qed

text \<open>The cells of a log that was cut off: whole up to the \<open>k\<close>-th, whose header is the new one or the old one.\<close>

lemma prefix_cells:
  assumes "log_ready sb jn s" and "log_image sb txn ds" and "log_prefix sb jn ds (jw_write_head (js_w s)) (js_dev s) k d"
  defines "h \<equiv> jw_write_head (js_w s)"
  shows "i < k \<Longrightarrow> log_cell sb jn d (cell jn h i) = ds ! i"
    and "k < length ds \<Longrightarrow> length (log_cell sb jn d (cell jn h k)) = sb_block_size sb \<and>
      (jheader_of (log_cell sb jn d (cell jn h k)) = jheader_of (ds ! k) \<or>
       jheader_of (log_cell sb jn d (cell jn h k)) = jheader_of (log_cell sb jn (js_dev s) (cell jn h k)))"
proof -
  note rs = assms(1)[unfolded log_ready_def] and p = assms(3)[folded h_def, unfolded log_prefix_def]
  have lens: "length (ds ! i) = sb_block_size sb" if "i < length ds" for i
    using assms(2) that by (simp add: log_image_def Let_def)
  show "log_cell sb jn d (cell jn h i) = ds ! i" if "i < k" using p that lens[of i] by simp
  assume k: "k < length ds"
  let ?old = "log_cell sb jn (js_dev s) (cell jn h k)"
  have old: "length ?old = sb_block_size sb"
    using read_good_block(3)[of sb "js_dev s" "jn_blocks jn ! cell jn h k"] rs ready_cell(2)[OF assms(1), of k] by (simp add: h_def)
  obtain m where "m < spb sb" "log_cell sb jn d (cell jn h k) = torn m (ds ! k) ?old" using p k lens[of k] by auto
  then show "length (log_cell sb jn d (cell jn h k)) = sb_block_size sb \<and>
      (jheader_of (log_cell sb jn d (cell jn h k)) = jheader_of (ds ! k) \<or>
       jheader_of (log_cell sb jn d (cell jn h k)) = jheader_of ?old)"
    using torn_header[of "ds ! k" ?old m] old lens[OF k] sb_ok_block_size(4)[OF conjunct1[OF rs]] by (cases "m = 0") auto
qed

lemma prefix_complete:
  assumes "log_ready sb jn s" and "log_image sb txn ds" and "log_prefix sb jn ds (jw_write_head (js_w s)) (js_dev s) k d"
    and "\<And>j. j < length (jn_blocks jn) \<Longrightarrow> log_at sb jn d' j = Ok (log_cell sb jn d j)"
    and "length (txn_blocks txn) + 1 < k \<or> k = length (txn_blocks txn) + 1 \<and>
      jheader_of (log_cell sb jn d (cell jn (jw_write_head (js_w s)) k)) = jheader_of (ds ! k)"
  shows "log_complete sb jn txn (jw_write_head (js_w s)) d'"
proof -
  let ?n = "length (txn_blocks txn)" and ?h = "jw_write_head (js_w s)"
  note im = assms(2)[unfolded log_image_def Let_def]
  note at = assms(4)[OF ready_cell(2)[OF assms(1)]]
  note full = prefix_cells(1)[OF assms(1-3)] and cut = prefix_cells(2)[OF assms(1-3)]
  have big: "12 \<le> sb_block_size sb" using sb_ok_block_size(1)[of sb] assms(1) by (auto simp: log_ready_def)
  have com: "is_commit_block (log_cell sb jn d (cell jn ?h (Suc ?n))) (txn_sequence txn)"
  proof (cases "?n + 1 < k")
    case True
    then show ?thesis using full[of "Suc ?n"] im by simp
  next
    case False
    then have "k = Suc ?n" "jheader_of (log_cell sb jn d (cell jn ?h (Suc ?n))) = jheader_of (ds ! Suc ?n)" using assms(5) by auto
    then show ?thesis using cut im big by (simp add: is_commit_block_def)
  qed
  have "log_at sb jn d' ?h = Ok (ds ! 0)" using at[of 0] full[of 0] assms(5) by auto
  moreover have "log_at sb jn d' (cell jn ?h (Suc i)) = Ok (escaped (snd (txn_blocks txn ! i)))" if "i < ?n" for i
    using at[of "Suc i"] full[of "Suc i"] assms(5) that im by auto
  ultimately show ?thesis using at[of "Suc ?n"] com im big by (simp add: log_complete_def Let_def)
qed

lemma prefix_incomplete:
  assumes "log_ready sb jn s" and "log_image sb txn ds" and "log_prefix sb jn ds (jw_write_head (js_w s)) (js_dev s) k d"
    and "\<And>j. usable jn j \<Longrightarrow> log_at sb jn d' j = Ok (log_cell sb jn d j) \<and> \<not> header_matches (log_cell sb jn (js_dev s) j) (txn_sequence txn)"
    and "k \<le> length (txn_blocks txn) \<or> k = length (txn_blocks txn) + 1 \<and>
      jheader_of (log_cell sb jn d (cell jn (jw_write_head (js_w s)) k)) \<noteq> jheader_of (ds ! k)"
  shows "log_incomplete sb jn (txn_sequence txn) d'"
  unfolding log_incomplete_def
proof (intro allI impI, elim conjE)
  fix j buf assume j: "usable jn j" "log_at sb jn d' j = Ok buf" "header_matches buf (txn_sequence txn)"
  let ?n = "length (txn_blocks txn)" and ?h = "jw_write_head (js_w s)" and ?seq = "txn_sequence txn"
  note im = assms(2)[unfolded log_image_def Let_def]
  have buf: "buf = log_cell sb jn d j" and old: "\<not> header_matches (log_cell sb jn (js_dev s) j) ?seq" using assms(4)[OF j(1)] j(2) by simp_all
  have sb: "sb_ok sb" and jl: "j < length (jn_blocks jn)" using assms(1) j(1) by (auto simp: log_ready_def usable_def)
  have big: "12 \<le> sb_block_size sb" using sb_ok_block_size(1)[OF sb] by linarith
  have new: "jh_blocktype (jheader_of (ds ! i)) = BT_DESCRIPTOR \<or> \<not> header_matches (ds ! i) ?seq" if "i \<le> ?n" for i
  proof (cases i)
    case (Suc l)
    have "length (ds ! i) = sb_block_size sb" using im that by simp
    moreover have e: "ds ! i = escaped (snd (txn_blocks txn ! l))" using im that Suc by simp
    ultimately have "12 \<le> length (snd (txn_blocks txn ! l))" using big by simp
    then show ?thesis using escaped_no_header[of "snd (txn_blocks txn ! l)" ?seq] e by simp
  qed (use im in simp)
  show "jh_blocktype (jheader_of buf) = BT_DESCRIPTOR"
  proof (cases "\<exists>i \<le> k. i < length ds \<and> j = cell jn ?h i")
    case True
    then obtain i where i: "i \<le> k" "i < length ds" "j = cell jn ?h i" by blast
    show ?thesis
    proof (cases "i < k")
      case True
      then show ?thesis using new[of i] prefix_cells(1)[OF assms(1-3)] i j(3) buf assms(5) by auto
    next
      case False
      then have k: "i = k" using i(1) by simp
      have "length (log_cell sb jn (js_dev s) j) = sb_block_size sb"
        using read_good_block(3)[of sb "js_dev s" "jn_blocks jn ! j"] assms(1) jl by (simp add: log_ready_def)
      then have "jheader_of buf \<noteq> jheader_of (log_cell sb jn (js_dev s) j)"
        using old j(3) big by (auto simp: header_matches_def)
      then have "jheader_of buf = jheader_of (ds ! k)" using prefix_cells(2)[OF assms(1-3)] i k buf by auto
      then show ?thesis
        using new[of k] assms(5) j(3) i k buf im big by (auto simp: header_matches_def)
    qed
  next
    case False
    then have "buf = log_cell sb jn (js_dev s) j" using assms(3) jl buf by (auto simp: log_prefix_def)
    then show ?thesis using old j(3) by simp
  qed
qed

lemma log_crash:
  assumes "log_ready sb jn s" and "loggable sb jn (js_dev s) txn"
    and "\<And>j buf. usable jn j \<Longrightarrow> log_at sb jn (js_dev s) j = Ok buf \<Longrightarrow> \<not> header_matches buf (txn_sequence txn)"
    and "log_transaction txn (failing fails s) = (r, t)"
  defines "h \<equiv> jw_write_head (js_w s)" and "d \<equiv> power_on (js_dev t)"
  shows "log_place sb jn t \<and> same_shape (js_dev s) d \<and>
    (\<forall>q. in_disk sb (js_dev s) q \<and> q \<notin> set (jn_blocks jn) \<longrightarrow> run_of sb d q = run_of sb (js_dev s) q) \<and>
    (\<forall>j < length (jn_blocks jn). (\<forall>i < length (txn_blocks txn) + 2. j \<noteq> cell jn h i) \<longrightarrow> log_cell sb jn d j = log_cell sb jn (js_dev s) j) \<and>
    (log_incomplete sb jn (txn_sequence txn) d \<and> r \<noteq> Ok () \<or> log_complete sb jn txn h d)"
proof -
  note rs = assms(1)[unfolded log_ready_def] and l = assms(2)[unfolded loggable_def]
  let ?n = "length (txn_blocks txn)"
  obtain ds where im: "log_image sb txn ds" and run: "log_transaction txn (failing fails s) = sfor ds write_to_journal (failing fails s)"
    using logged_image[OF assms(1,2)] by (metis failing_simps(1))
  have n: "length ds = ?n + 2" using im by (simp add: log_image_def Let_def)
  have "length ds \<le> log_size jn" using l n by simp
  from log_writes_stop[OF assms(1) this assms(4)[unfolded run]] obtain k where t: "log_place sb jn t" "same_shape (js_dev s) d"
    and k: "k = ?n + 2 \<longleftrightarrow> r = Ok ()" and pre: "log_prefix sb jn ds h (js_dev s) k (js_dev t)"
    unfolding h_def d_def n by blast
  note p = pre[unfolded log_prefix_def n]
  have there: "log_there sb jn d"
    using log_ready_there[OF assms(1)] good_disk_shape[OF _ t(2)] in_disk_shape[OF t(2), of sb] by (simp add: log_there_def)
  have at: "log_at sb jn d j = Ok (log_cell sb jn (js_dev t) j)" if "j < length (jn_blocks jn)" for j
    using log_at_cell[of sb d j jn] there that by (simp add: log_there_def d_def)
  have old: "log_at sb jn d j = Ok (log_cell sb jn (js_dev t) j) \<and> \<not> header_matches (log_cell sb jn (js_dev s) j) (txn_sequence txn)"
    if "usable jn j" for j
    using assms(3)[OF that] log_at_cell[of sb "js_dev s" j jn] at[of j] that rs by (simp add: usable_def)
  have "k \<le> ?n + 2" using p by simp
  then have "log_incomplete sb jn (txn_sequence txn) d \<and> r \<noteq> Ok () \<or> log_complete sb jn txn h d"
    using prefix_complete[OF assms(1) im pre[unfolded h_def] at] prefix_incomplete[OF assms(1) im pre[unfolded h_def] old] k
    unfolding h_def by (cases "k \<le> ?n"; cases "k = ?n + 2") auto
  moreover have "log_cell sb jn d j = log_cell sb jn (js_dev s) j" if "j < length (jn_blocks jn)" "\<forall>i < ?n + 2. j \<noteq> cell jn h i" for j
    using p that by (simp add: d_def)
  ultimately show ?thesis using t p by (simp add: d_def)
qed

lemma apply_pending_frame:
  assumes "sb_ok sb"
  shows "wf_disk d \<Longrightarrow> \<forall>e \<in> set bs. in_disk sb d (fst e) \<and> length (snd e) = sb_block_size sb \<Longrightarrow>
    apply_pending sb bs d = (r, d') \<Longrightarrow> same_shape d d' \<and> (\<forall>q. q \<notin> fst ` set bs \<longrightarrow> run_of sb d' q = run_of sb d q)"
proof (induction bs arbitrary: d)
  case Nil
  then show ?case by (simp add: apply_pending_def same_shape_refl)
next
  case (Cons e bs)
  obtain k d1 where w: "write_sectors (wmul 64 (fst e) (spb sb)) (snd e) d = ((if k = spb sb then Ok () else Err BdIo), d1)"
    "same_shape d d1" "\<And>q. q \<noteq> fst e \<Longrightarrow> run_of sb d1 q = run_of sb d q"
    using write_block_run[OF assms Cons.prems(1), of "fst e" "snd e"] Cons.prems(2) by auto
  show ?case
  proof (cases "k = spb sb")
    case True
    then have "apply_pending sb bs d1 = (r, d')" using w(1) Cons.prems(3) by (simp add: apply_pending_def sbind_def smap_err_def)
    moreover have "wf_disk d1" "in_disk sb d1 q = in_disk sb d q" for q using w(2) in_disk_shape by (auto simp: same_shape_def)
    ultimately show ?thesis
      using Cons.IH[of d1] Cons.prems(2) same_shape_trans[OF w(2)] w(3) by auto
  next
    case False
    then have "d' = d1" using w(1) Cons.prems(3) by (simp add: apply_pending_def sbind_def smap_err_def)
    then show ?thesis using w(2,3) by auto
  qed
qed


text \<open>
  The log of \<open>jn\<close> starts at the writer's head with the sequence number of \<open>txn\<close>, holds nothing
  of that transaction or the next, and has room for it; no block of \<open>txn\<close> starts with the
  journal's magic number.
\<close>

definition log_waiting :: "superblock \<Rightarrow> journal \<Rightarrow> jstate \<Rightarrow> transaction \<Rightarrow> bool" where
  "log_waiting sb jn s txn \<longleftrightarrow> log_ready sb jn s \<and> loggable sb jn (js_dev s) txn \<and> \<not> flush_fails (js_dev s) \<and>
     length (txn_blocks txn) + 2 < log_size jn \<and> 1024 \<le> sb_block_size sb \<and> 0 < jsb_first_usable_block (jn_sb jn) \<and>
     jsb_start_block (jn_sb jn) = jw_write_head (js_w s) \<and> jsb_start_sequence (jn_sb jn) = txn_sequence txn \<and>
     (\<forall>j buf. usable jn j \<and> log_at sb jn (js_dev s) j = Ok buf \<longrightarrow>
        \<not> header_matches buf (txn_sequence txn) \<and> \<not> header_matches buf (wadd 32 (txn_sequence txn) 1)) \<and>
     (\<forall>e \<in> set (txn_blocks txn). bytes_at 0 4 (snd e) \<noteq> to_be 4 JOURNAL_MAGIC)"

text \<open>Outside the log, \<open>d'\<close> reads as \<open>d\<close> with the blocks \<open>m\<close> stored.\<close>

definition volume_with :: "superblock \<Rightarrow> journal \<Rightarrow> (nat \<rightharpoonup> byte list) \<Rightarrow> disk \<Rightarrow> disk \<Rightarrow> bool" where
  "volume_with sb jn m d d' \<longleftrightarrow> (\<forall>q. in_disk sb d q \<and> q \<notin> set (jn_blocks jn) \<longrightarrow>
     read_phys_block d' sb q = (case m q of Some data \<Rightarrow> Ok data | None \<Rightarrow> read_phys_block d sb q))"

text \<open>The device at the moment the commit stops, wherever the host stops it.\<close>

lemma commit_stops:
  assumes "log_waiting sb jn s txn" and "commit txn (failing fails s) = (r, c)"
  defines "d \<equiv> power_on (js_dev c)" and "h \<equiv> jw_write_head (js_w s)" and "n \<equiv> length (txn_blocks txn)"
  shows "same_shape (js_dev s) d \<and> log_cell sb jn d 0 = log_cell sb jn (js_dev s) 0 \<and>
    log_cell sb jn d (cell jn h (n + 2)) = log_cell sb jn (js_dev s) (cell jn h (n + 2)) \<and>
    (\<forall>q. in_disk sb (js_dev s) q \<and> q \<notin> set (jn_blocks jn) \<and> pinned txn q = None \<longrightarrow> run_of sb d q = run_of sb (js_dev s) q) \<and>
    (log_incomplete sb jn (txn_sequence txn) d \<and> r \<noteq> Ok () \<and>
       (\<forall>q. in_disk sb (js_dev s) q \<and> q \<notin> set (jn_blocks jn) \<longrightarrow> run_of sb d q = run_of sb (js_dev s) q) \<or>
     log_complete sb jn txn h d)"
proof -
  note w = assms(1)[unfolded log_waiting_def]
  have rdy: "log_ready sb jn s" and lg: "loggable sb jn (js_dev s) txn" using w by blast+
  note rs = rdy[unfolded log_ready_def] and l = lg[unfolded loggable_def]
  obtain r1 t where t: "log_transaction txn (failing fails s) = (r1, t)" by force
  let ?t = "power_on (js_dev t)"
  from log_crash[OF rdy lg _ t] w have place: "log_place sb jn t" and shape: "same_shape (js_dev s) ?t"
    and out: "\<And>q. in_disk sb (js_dev s) q \<Longrightarrow> q \<notin> set (jn_blocks jn) \<Longrightarrow> run_of sb ?t q = run_of sb (js_dev s) q"
    and away: "\<And>j. j < length (jn_blocks jn) \<Longrightarrow> (\<And>i. i < n + 2 \<Longrightarrow> j \<noteq> cell jn h i) \<Longrightarrow> log_cell sb jn ?t j = log_cell sb jn (js_dev s) j"
    and log: "log_incomplete sb jn (txn_sequence txn) ?t \<and> r1 \<noteq> Ok () \<or> log_complete sb jn txn h ?t"
    unfolding h_def n_def by blast+
  have cells: "cell jn h i < length (jn_blocks jn)" "usable jn (cell jn h i)" for i
    using ready_cell[OF rdy] by (simp_all add: h_def)
  have "0 \<noteq> cell jn h i" for i using cells(2)[of i] w by (auto simp: usable_def)
  moreover have len: "0 < length (jn_blocks jn)" using cells(1)[of 0] by linarith
  ultimately have c0: "log_cell sb jn ?t 0 = log_cell sb jn (js_dev s) 0" using away[of 0] by metis
  have room: "n + 2 < log_size jn" using w by (simp add: n_def)
  have "cell jn h (n + 2) \<noteq> cell jn h i" if "i < n + 2" for i
    using cell_inj[OF rdy room, of i] that room unfolding h_def by linarith
  then have cn: "log_cell sb jn ?t (cell jn h (n + 2)) = log_cell sb jn (js_dev s) (cell jn h (n + 2))"
    by (rule away[OF cells(1)])
  show ?thesis
  proof (cases "r1 = Ok ()")
    case False
    then have "commit txn (failing fails s) = (r1, t)" using t by (cases r1) (simp_all add: commit_def sbind_def)
    then have "r = r1" "d = ?t" using assms(2) by (simp_all add: d_def)
    then show ?thesis using shape out log c0 cn False by auto
  next
    case True
    have bs: "\<forall>e \<in> set (txn_blocks txn). length (snd e) = sb_block_size sb" using l by blast
    have tb: "jw_block_size (js_w t) = sb_block_size sb" "wf_disk (js_dev t)" using place by (simp_all add: log_place_def)
    obtain r2 e where ap: "apply_pending sb (txn_blocks txn) (js_dev t) = (r2, e)" by force
    have "js_dev c = e"
      using assms(2) t True store_in_place_apply[OF bs tb(1)] ap
      by (cases r2) (auto simp: commit_def sbind_def split: prod.split_asm)
    then have d: "d = power_on e" by (simp add: d_def)
    have "\<forall>b \<in> set (txn_blocks txn). in_disk sb (js_dev t) (fst b) \<and> length (snd b) = sb_block_size sb"
      using l in_disk_shape[OF shape, of sb] by simp
    from apply_pending_frame[OF _ tb(2) this ap] rs have sh: "same_shape (js_dev t) e"
      and runs: "\<And>q. q \<notin> fst ` set (txn_blocks txn) \<Longrightarrow> run_of sb d q = run_of sb ?t q" by (auto simp: d)
    have keys: "fst ` set (txn_blocks txn) = {q. pinned txn q \<noteq> None}" using txn_keys(1) l by blast
    have shape': "same_shape (js_dev s) d" using shape sh by (simp add: same_shape_def d)
    have logs: "log_cell sb jn d j = log_cell sb jn ?t j" if "j < length (jn_blocks jn)" for j
      by (rule runs) (use l that nth_mem[OF that] in force)
    have there: "log_there sb jn d" "log_there sb jn ?t"
      using log_ready_there[OF rdy] good_disk_shape[OF _ shape'] good_disk_shape[OF _ shape] in_disk_shape[OF shape', of sb]
        in_disk_shape[OF shape, of sb] by (simp_all add: log_there_def)
    have at: "log_at sb jn d j = log_at sb jn ?t j" if "j < length (jn_blocks jn)" for j
      using logs[OF that] log_at_cell[of sb _ j jn] there that by (simp add: log_there_def)
    have "log_complete sb jn txn h ?t" using log True by blast
    then have "log_complete sb jn txn h d"
      using at[OF cells(1)] at[OF cells(1)[of 0]] unfolding log_complete_def Let_def by simp
    then show ?thesis using shape' logs[OF len] logs[OF cells(1)] c0 cn runs out keys by simp
  qed
qed


text \<open>After the power is back.\<close>

lemma recover_incomplete:
  assumes "log_waiting sb jn s txn" and "same_shape (js_dev s) d" and "log_incomplete sb jn (txn_sequence txn) d"
    and "\<And>q. in_disk sb (js_dev s) q \<Longrightarrow> q \<notin> set (jn_blocks jn) \<Longrightarrow> run_of sb d q = run_of sb (js_dev s) q"
  shows "\<exists>d'. (\<forall>fuel. replay (Suc (Suc fuel)) sb jn d = (Ok (), d')) \<and> volume_with sb jn (\<lambda>_. None) (js_dev s) d' \<and>
    (\<exists>jblk. log_at sb jn d' 0 = Ok jblk \<and> be32 28 jblk = 0)"
proof -
  note w = assms(1)[unfolded log_waiting_def]
  have rdy: "log_ready sb jn s" using w by blast
  note rs = rdy[unfolded log_ready_def]
  have there: "log_there sb jn d"
    using log_ready_there[OF rdy] good_disk_shape[OF _ assms(2)] in_disk_shape[OF assms(2), of sb] by (simp add: log_there_def)
  have start: "usable jn (jsb_start_block (jn_sb jn))" using rs w by (simp add: usable_def)
  have "\<exists>d'. (\<forall>fuel. replay (Suc (1 + fuel)) sb jn d = (Ok (), d')) \<and>
    (\<forall>q. in_disk sb d q \<and> q \<notin> set (jn_blocks jn) \<longrightarrow> read_phys_block d' sb q = read_phys_block d sb q) \<and>
    (\<exists>jblk. log_at sb jn d' 0 = Ok jblk \<and> be32 28 jblk = 0)"
  proof (rule replay_marks_clean[OF there])
    show "same_shape d d" using there by (simp add: log_there_def good_disk_def same_shape_refl)
    show "\<not> flush_fails d" "1024 \<le> sb_block_size sb" using w assms(2) by (simp_all add: same_shape_def)
    show "txn_sequence txn < 2 ^ 32" using w by (simp add: loggable_def)
    show "jsb_start_block (jn_sb jn) \<noteq> 0" using start w by (simp add: usable_def)
    show "replay_loop (Suc (1 + fuel)) sb jn (jsb_start_sequence (jn_sb jn)) (jsb_start_block (jn_sb jn)) [] d = (Ok (txn_sequence txn), d)" for fuel
      using replay_incomplete[OF there start assms(3)] w by simp
  qed
  then obtain d' where d': "\<And>fuel. replay (Suc (Suc fuel)) sb jn d = (Ok (), d')" "\<exists>jblk. log_at sb jn d' 0 = Ok jblk \<and> be32 28 jblk = 0"
    "\<And>q. in_disk sb d q \<Longrightarrow> q \<notin> set (jn_blocks jn) \<Longrightarrow> read_phys_block d' sb q = read_phys_block d sb q" by auto
  have "read_phys_block d sb q = read_phys_block (js_dev s) sb q" if "in_disk sb (js_dev s) q" "q \<notin> set (jn_blocks jn)" for q
    using read_good_block(1)[of sb _ q] rs there that assms(4) in_disk_shape[OF assms(2), of sb q] by (simp add: log_there_def)
  then have "volume_with sb jn (\<lambda>_. None) (js_dev s) d'"
    using d'(3) in_disk_shape[OF assms(2), of sb] by (simp add: volume_with_def)
  then show ?thesis using d'(1,2) by blast
qed

lemma recover_complete:
  assumes "log_waiting sb jn s txn" and "same_shape (js_dev s) d" and "log_complete sb jn txn (jw_write_head (js_w s)) d"
    and "log_cell sb jn d (cell jn (jw_write_head (js_w s)) (length (txn_blocks txn) + 2)) =
      log_cell sb jn (js_dev s) (cell jn (jw_write_head (js_w s)) (length (txn_blocks txn) + 2))"
    and "\<And>q. in_disk sb (js_dev s) q \<Longrightarrow> q \<notin> set (jn_blocks jn) \<Longrightarrow> pinned txn q = None \<Longrightarrow> run_of sb d q = run_of sb (js_dev s) q"
  shows "\<exists>d'. (\<forall>fuel. replay (Suc (Suc fuel)) sb jn d = (Ok (), d')) \<and> volume_with sb jn (pinned txn) (js_dev s) d' \<and>
    (\<exists>jblk. log_at sb jn d' 0 = Ok jblk \<and> be32 28 jblk = 0)"
proof -
  let ?h = "jw_write_head (js_w s)" and ?n = "length (txn_blocks txn)" and ?seq = "wadd 32 (txn_sequence txn) 1"
  note w = assms(1)[unfolded log_waiting_def]
  have rdy: "log_ready sb jn s" and lg: "loggable sb jn (js_dev s) txn" using w by blast+
  note rs = rdy[unfolded log_ready_def] and l = lg[unfolded loggable_def]
  note ind = in_disk_shape[OF assms(2), of sb]
  have there: "log_there sb jn d"
    using log_ready_there[OF rdy] good_disk_shape[OF _ assms(2)] ind by (simp add: log_there_def)
  have "loggable sb jn d txn" using lg ind by (simp add: loggable_def)
  from replay_complete_step[OF there this assms(3)] obtain d2 where shape: "same_shape d d2"
    and step: "\<And>fuel. replay_loop (Suc fuel) sb jn (txn_sequence txn) ?h [] d = replay_loop fuel sb jn ?seq (cell jn ?h (?n + 2)) [] d2"
    and blocks: "\<And>q. in_disk sb d q \<Longrightarrow> read_phys_block d2 sb q =
       (case map_of (txn_blocks txn) q of Some data \<Rightarrow> Ok (escaped data) | None \<Rightarrow> read_phys_block d sb q)" by blast
  have there2: "log_there sb jn d2"
    using there good_disk_shape[OF _ shape] in_disk_shape[OF shape, of sb] by (simp add: log_there_def)
  have j: "usable jn (cell jn ?h (?n + 2))" "cell jn ?h (?n + 2) < length (jn_blocks jn)" using ready_cell[OF rdy] by simp_all
  let ?p = "jn_blocks jn ! cell jn ?h (?n + 2)"
  have p: "?p \<in> set (jn_blocks jn)" "in_disk sb (js_dev s) ?p" using j(2) rs by simp_all
  have "map_of (txn_blocks txn) ?p = None" using l p(1) by (force simp: map_of_eq_None_iff)
  then have "log_at sb jn d2 (cell jn ?h (?n + 2)) = log_at sb jn (js_dev s) (cell jn ?h (?n + 2))"
    using blocks[of ?p] p ind j(2) assms(4) log_at_cell[of sb _ "cell jn ?h (?n + 2)" jn] there rs
    by (simp add: journal_read_block_def journal_block_addr_def log_there_def read_good_block(1))
  moreover obtain buf where buf: "log_at sb jn (js_dev s) (cell jn ?h (?n + 2)) = Ok buf"
    using log_readable[OF log_ready_there[OF rdy] j(1)] by blast
  moreover have "\<not> header_matches buf ?seq" using w j(1) buf by blast
  ultimately have stop: "replay_loop (Suc fuel) sb jn ?seq (cell jn ?h (?n + 2)) [] d2 = (Ok ?seq, d2)" for fuel
    by (auto simp: header_matches_def)
  have "\<exists>d'. (\<forall>fuel. replay (Suc (1 + fuel)) sb jn d = (Ok (), d')) \<and>
    (\<forall>q. in_disk sb d q \<and> q \<notin> set (jn_blocks jn) \<longrightarrow> read_phys_block d' sb q = read_phys_block d2 sb q) \<and>
    (\<exists>jblk. log_at sb jn d' 0 = Ok jblk \<and> be32 28 jblk = 0)"
  proof (rule replay_marks_clean[OF there2 shape])
    show "\<not> flush_fails d2" "1024 \<le> sb_block_size sb" using w assms(2) shape by (simp_all add: same_shape_def)
    show "?seq < 2 ^ 32" by (rule wadd_less)
    show "jsb_start_block (jn_sb jn) \<noteq> 0" using rs w by simp
    show "replay_loop (Suc (1 + fuel)) sb jn (jsb_start_sequence (jn_sb jn)) (jsb_start_block (jn_sb jn)) [] d = (Ok ?seq, d2)" for fuel
      using step[of "Suc fuel"] stop[of fuel] w by (simp del: replay_loop.simps)
  qed
  then obtain d' where d': "\<And>fuel. replay (Suc (Suc fuel)) sb jn d = (Ok (), d')" "\<exists>jblk. log_at sb jn d' 0 = Ok jblk \<and> be32 28 jblk = 0"
    "\<And>q. in_disk sb d q \<Longrightarrow> q \<notin> set (jn_blocks jn) \<Longrightarrow> read_phys_block d' sb q = read_phys_block d2 sb q" by auto
  have "read_phys_block d' sb q = (case pinned txn q of Some data \<Rightarrow> Ok data | None \<Rightarrow> read_phys_block (js_dev s) sb q)"
    if q: "in_disk sb (js_dev s) q" "q \<notin> set (jn_blocks jn)" for q
  proof (cases "pinned txn q")
    case None
    then have "map_of (txn_blocks txn) q = None" using l by (simp add: pinned_map_of)
    moreover have "read_phys_block d sb q = read_phys_block (js_dev s) sb q"
      using read_good_block(1)[of sb _ q] rs there q assms(5)[OF q None] ind by (simp add: log_there_def)
    ultimately show ?thesis using None d'(3) blocks q ind by simp
  next
    case (Some data)
    then have m: "map_of (txn_blocks txn) q = Some data" using l by (simp add: pinned_map_of)
    then have "(q, data) \<in> set (txn_blocks txn)" by (rule map_of_SomeD)
    then have "escaped data = data" using w by (force simp: escaped_def)
    then show ?thesis using Some m d'(3) blocks q ind by simp
  qed
  then show ?thesis using d'(1,2) unfolding volume_with_def by blast
qed

text \<open>
  C4. A commit survives a loss of power. Take a transaction that revokes no block, fits one
  descriptor block and the log, and has no block that begins with the journal's magic number;
  let the journal superblock on the device point to the place of the log where the transaction
  goes, with its sequence number, and let no old block in the log carry that number or the
  next. Then whichever sectors the host stops writing at, so wherever the commit is cut off, in
  the middle of a block or between two, the next replay of the log succeeds and leaves either
  the old volume or the new one, never a mixture: outside the log every block reads as before
  the commit, or every block reads as the transaction had it; the latter if the commit had
  reported success. The journal is clean afterwards.
\<close>

theorem commit_survives_power_loss:
  assumes "log_waiting sb jn s txn" and "commit txn (failing fails s) = (r, c)"
  shows "read_journal_superblock (power_on (js_dev c)) sb (jn_blocks jn) = read_journal_superblock (js_dev s) sb (jn_blocks jn) \<and>
    (\<exists>d'. (\<forall>fuel. replay (Suc (Suc fuel)) sb jn (power_on (js_dev c)) = (Ok (), d')) \<and>
       (volume_with sb jn (\<lambda>_. None) (js_dev s) d' \<and> r \<noteq> Ok () \<or> volume_with sb jn (pinned txn) (js_dev s) d') \<and>
       (\<exists>jblk. log_at sb jn d' 0 = Ok jblk \<and> be32 28 jblk = 0))"
proof -
  let ?d = "power_on (js_dev c)"
  note stops = commit_stops[OF assms(1,2)]
  have shape: "same_shape (js_dev s) ?d" using stops by blast
  have rdy: "log_ready sb jn s" using assms(1) by (simp add: log_waiting_def)
  have len: "0 < length (jn_blocks jn)" using ready_cell(2)[OF rdy, of 0] by linarith
  have "log_at sb jn ?d 0 = log_at sb jn (js_dev s) 0"
    using log_at_cell[of sb _ 0 jn] stops len rdy good_disk_shape[OF _ shape] in_disk_shape[OF shape, of sb]
    by (auto simp: log_ready_def)
  then have "read_journal_superblock ?d sb (jn_blocks jn) = read_journal_superblock (js_dev s) sb (jn_blocks jn)"
    by (simp add: read_journal_superblock_def journal_read_block_def rbind_assoc[symmetric])
  moreover have "\<exists>d'. (\<forall>fuel. replay (Suc (Suc fuel)) sb jn ?d = (Ok (), d')) \<and>
       (volume_with sb jn (\<lambda>_. None) (js_dev s) d' \<and> r \<noteq> Ok () \<or> volume_with sb jn (pinned txn) (js_dev s) d') \<and>
       (\<exists>jblk. log_at sb jn d' 0 = Ok jblk \<and> be32 28 jblk = 0)"
    using stops recover_incomplete[OF assms(1) shape] recover_complete[OF assms(1) shape] by blast
  ultimately show ?thesis by blast
qed


lemma sample_log_waiting:
  assumes "length data = 1024" and "bytes_at 0 4 data \<noteq> to_be 4 JOURNAL_MAGIC"
  shows "log_waiting sample_sb dirty_journal sample_log (one_block data)"
proof -
  have "\<not> header_matches buf seq" if "usable dirty_journal j" "log_at sample_sb dirty_journal sample_disk j = Ok buf" for j buf seq
  proof -
    have j: "1 \<le> j" "j < 8" using that(1) by (simp_all add: usable_def)
    have n: "jn_blocks dirty_journal ! j = 8 + j" unfolding dirty_fields by (rule nth_upt) (use j in simp)
    have len: "j < length (jn_blocks dirty_journal)" using j by simp
    have "sample_block (8 + j) = replicate 1024 0" using j by (simp add: sample_block_def)
    moreover have "log_at sample_sb dirty_journal sample_disk j = Ok (sample_block (8 + j))"
      using log_at_cell[of sample_sb sample_disk j dirty_journal] sample_sb_ok good_sample j len sample_block_run[of "8 + j"]
      by (simp add: n mult.commute del: dirty_fields(1))
    ultimately have "buf = replicate 1024 0" using that(2) by simp
    then show ?thesis by (simp add: header_matches_def jheader_of_def be32_def be_nat_zeros JOURNAL_MAGIC_def)
  qed
  then have "\<forall>j buf. usable dirty_journal j \<and> log_at sample_sb dirty_journal sample_disk j = Ok buf \<longrightarrow>
      \<not> header_matches buf 1 \<and> \<not> header_matches buf (wadd 32 1 1)" by blast
  then show ?thesis
    using sample_log_ready one_block_loggable[OF assms(1)] good_sample assms(2)
    unfolding log_waiting_def by (simp del: One_nat_def)
qed

theorem commit_survives_power_loss_witness:
  "\<forall>fails. \<exists>r c d'. commit (one_block (replicate 1024 0xAB)) (failing fails sample_log) = (r, c) \<and>
     replay 2 sample_sb dirty_journal (power_on (js_dev c)) = (Ok (), d') \<and>
     (read_phys_block d' sample_sb 17 = read_phys_block sample_disk sample_sb 17 \<or> read_phys_block d' sample_sb 17 = Ok (replicate 1024 0xAB))"
proof
  fix fails
  let ?txn = "one_block (replicate 1024 0xAB)"
  obtain r c where run: "commit ?txn (failing fails sample_log) = (r, c)" by force
  have "bytes_at 0 4 (replicate 1024 0xAB :: byte list) \<noteq> to_be 4 JOURNAL_MAGIC"
  proof
    assume "bytes_at 0 4 (replicate 1024 0xAB :: byte list) = to_be 4 JOURNAL_MAGIC"
    then have "be_nat (replicate 4 0xAB) = be_nat (to_be 4 JOURNAL_MAGIC)" by (simp add: bytes_at_def)
    moreover have "replicate 4 (0xAB :: byte) = [0xAB, 0xAB, 0xAB, 0xAB]" by (simp add: eval_nat_numeral)
    ultimately show False by (simp add: be_nat_to_be) (simp add: be_nat_def JOURNAL_MAGIC_def)
  qed
  then have "log_waiting sample_sb dirty_journal sample_log ?txn" by (intro sample_log_waiting) simp_all
  from commit_survives_power_loss[OF this run] obtain d' where
    d': "\<forall>fuel. replay (Suc (Suc fuel)) sample_sb dirty_journal (power_on (js_dev c)) = (Ok (), d')"
      "volume_with sample_sb dirty_journal (\<lambda>_. None) sample_disk d' \<or> volume_with sample_sb dirty_journal (pinned ?txn) sample_disk d'"
    by auto
  have "pinned ?txn 17 = Some (replicate 1024 0xAB)" by (simp add: pinned_def one_block_def)
  then have "read_phys_block d' sample_sb 17 = read_phys_block sample_disk sample_sb 17 \<or> read_phys_block d' sample_sb 17 = Ok (replicate 1024 0xAB)"
    using d'(2) unfolding volume_with_def by (elim disjE; drule_tac x = 17 in spec) auto
  moreover have "replay 2 sample_sb dirty_journal (power_on (js_dev c)) = (Ok (), d')"
    using d'(1) by (simp add: numeral_2_eq_2)
  ultimately show "\<exists>r c d'. commit ?txn (failing fails sample_log) = (r, c) \<and>
     replay 2 sample_sb dirty_journal (power_on (js_dev c)) = (Ok (), d') \<and>
     (read_phys_block d' sample_sb 17 = read_phys_block sample_disk sample_sb 17 \<or> read_phys_block d' sample_sb 17 = Ok (replicate 1024 0xAB))"
    using run by blast
qed


section \<open>A commit to a clean journal is not atomic\<close>

text \<open>A block none of whose sectors fails is written as on a device without faults; one whose first sector fails is not touched.\<close>

lemma write_block_spared:
  assumes "sb_ok sb" and "good_disk d" and "in_disk sb d p" and "length data = sb_block_size sb"
    and "\<And>i. i < spb sb \<Longrightarrow> \<not> fails (p * spb sb + i)" and "write_sectors (wmul 64 p (spb sb)) data d = (Ok (), d')"
  shows "write_sectors (wmul 64 p (spb sb)) data (d\<lparr>write_fails := fails\<rparr>) = (Ok (), d'\<lparr>write_fails := fails\<rparr>)"
proof -
  have wf: "wf_disk d" "wf_disk (d\<lparr>write_fails := fails\<rparr>)" using assms(2) by (simp_all add: good_disk_def wf_disk_def)
  have n: "length data = 512 * spb sb" "0 < spb sb" using sb_ok_block_size(4,5)[OF assms(1)] assms(4) by simp_all
  note place = block_place[OF assms(2,3)]
  have "d' = store_run (p * spb sb) data d" using assms(6) write_sectors_Ok_iff[OF wf(1) n] by (simp add: place)
  then have "d'\<lparr>write_fails := fails\<rparr> = store_run (p * spb sb) data (d\<lparr>write_fails := fails\<rparr>)"
    by (simp add: store_run_def cong: if_cong)
  moreover have "writable (d\<lparr>write_fails := fails\<rparr>) (p * spb sb) (spb sb)"
  proof -
    have "\<not> fails t" if "p * spb sb \<le> t" "t < p * spb sb + spb sb" for t using assms(5)[of "t - p * spb sb"] that by simp
    then show ?thesis using assms(3) by (simp add: writable_def in_disk_def)
  qed
  ultimately show ?thesis using write_sectors_Ok_iff[OF wf(2) n] by (simp add: place)
qed

lemma write_block_refused:
  assumes "sb_ok sb" and "good_disk d" and "in_disk sb d p" and "length data = sb_block_size sb" and "fails (p * spb sb)"
  shows "write_sectors (wmul 64 p (spb sb)) data (d\<lparr>write_fails := fails\<rparr>) = (Err BdIo, d\<lparr>write_fails := fails\<rparr>)"
proof -
  have n: "length data = 512 * spb sb" "0 < spb sb" using sb_ok_block_size(4,5)[OF assms(1)] assms(4) by simp_all
  then obtain m where m: "spb sb = Suc m" using gr0_implies_Suc by blast
  have len: "length data div 512 = Suc m" "length data mod 512 = 0" using n(1) m by simp_all
  have "p * spb sb + spb sb \<le> sector_count d" using assms(3) by (simp add: in_disk_def)
  then have "p * spb sb < sector_count d" using n(2) by linarith
  moreover have "sector_count d * 512 < 2 ^ 64" using assms(2) by (simp add: good_disk_def wf_disk_def)
  ultimately have "write_sector (p * spb sb) (take 512 data) (d\<lparr>write_fails := fails\<rparr>) = (Err BdIo, d\<lparr>write_fails := fails\<rparr>)"
    using assms(5) by (simp add: write_sector_def checked_mul_def)
  then have "dyn_write_loop write_sector (p * spb sb) (Suc m) data (d\<lparr>write_fails := fails\<rparr>) = (Err BdIo, d\<lparr>write_fails := fails\<rparr>)"
    by (simp add: sbind_def)
  then show ?thesis
    unfolding write_sectors_def dyn_write_sectors_def len block_place[OF assms(2,3)] by (simp add: rassert_def del: dyn_write_loop.simps)
qed

lemma log_writes_spared:
  assumes "\<And>p i. p \<in> set (jn_blocks jn) \<Longrightarrow> i < spb sb \<Longrightarrow> \<not> fails (p * spb sb + i)"
  shows "log_ready sb jn s \<Longrightarrow> sfor ds write_to_journal s = (Ok (), s') \<Longrightarrow>
    log_ready sb jn s' \<and> sfor ds write_to_journal (failing fails s) = (Ok (), failing fails s')"
proof (rule sfor_sim[where P = "log_ready sb jn"])
  fix data s s' assume rdy: "log_ready sb jn s" and w: "write_to_journal data s = (Ok (), s')"
  note r = rdy[unfolded log_ready_def]
  let ?p = "jn_blocks jn ! jw_write_head (js_w s)" and ?data = "resize0 (sb_block_size sb) data"
  have h: "jw_write_head (js_w s) < length (jn_blocks jn)" using r by linarith
  then have p: "?p \<in> set (jn_blocks jn)" "in_disk sb (js_dev s) ?p" using r by simp_all
  obtain d' where d': "write_sectors (wmul 64 ?p (spb sb)) ?data (js_dev s) = (Ok (), d')"
      "s' = s\<lparr>js_dev := d', js_w := advance_write_head (js_w s)\<rparr>"
    using w r h by (auto simp: write_to_journal_def journal_block_addr_def sbind_def smap_err_def js_on_dev_def split: prod.split_asm res.split_asm)
  have "write_sectors (wmul 64 ?p (spb sb)) ?data ((js_dev s)\<lparr>write_fails := fails\<rparr>) = (Ok (), d'\<lparr>write_fails := fails\<rparr>)"
    using write_block_spared[where fails = fails, OF _ _ p(2) _ assms[OF p(1)] d'(1)] r by simp
  then have "write_to_journal data (failing fails s) = (Ok (), failing fails s')"
    using r h d'(2) by (simp add: write_to_journal_def journal_block_addr_def sbind_def smap_err_def js_on_dev_def failing_def)
  then show "log_ready sb jn s' \<and> write_to_journal data (failing fails s) = (Ok (), failing fails s')"
    using write_to_journal_log[OF rdy, of data] w by auto
qed

lemma log_spared:
  assumes "log_ready sb jn s" and "loggable sb jn (js_dev s) txn"
    and "\<And>p i. p \<in> set (jn_blocks jn) \<Longrightarrow> i < spb sb \<Longrightarrow> \<not> fails (p * spb sb + i)"
  shows "\<exists>s1. log_transaction txn (failing fails s) = (Ok (), failing fails s1) \<and> log_ready sb jn s1 \<and>
    same_shape (js_dev s) (js_dev s1) \<and>
    (\<forall>q. in_disk sb (js_dev s) q \<and> q \<notin> set (jn_blocks jn) \<longrightarrow> read_phys_block (js_dev s1) sb q = read_phys_block (js_dev s) sb q) \<and>
    (0 < jsb_first_usable_block (jn_sb jn) \<longrightarrow> log_at sb jn (js_dev s1) 0 = log_at sb jn (js_dev s) 0)"
proof -
  obtain ds where im: "log_image sb txn ds" and run: "\<And>t. js_w t = js_w s \<Longrightarrow> log_transaction txn t = sfor ds write_to_journal t"
    using logged_image[OF assms(1,2)] by blast
  have "length ds \<le> log_size jn" using im assms(2) by (simp add: log_image_def Let_def loggable_def)
  from log_writes[OF assms(1) this] obtain s1 where s1: "sfor ds write_to_journal s = (Ok (), s1)" "same_shape (js_dev s) (js_dev s1)"
      "\<And>j. (\<And>i. i < length ds \<Longrightarrow> j \<noteq> cell jn (jw_write_head (js_w s)) i) \<Longrightarrow> log_at sb jn (js_dev s1) j = log_at sb jn (js_dev s) j"
      "\<And>q. in_disk sb (js_dev s) q \<Longrightarrow> q \<notin> set (jn_blocks jn) \<Longrightarrow> read_phys_block (js_dev s1) sb q = read_phys_block (js_dev s) sb q"
    by blast
  have "log_ready sb jn s1 \<and> log_transaction txn (failing fails s) = (Ok (), failing fails s1)"
    using log_writes_spared[of jn sb fails, OF assms(3,1) s1(1)] run[of "failing fails s"] by simp
  moreover have "0 \<noteq> cell jn (jw_write_head (js_w s)) i" if "0 < jsb_first_usable_block (jn_sb jn)" for i
    using ready_cell(1)[OF assms(1), of i] that by (auto simp: usable_def)
  ultimately show ?thesis using s1(2-4) by blast
qed

text \<open>The loop over the blocks in place, cut at the block \<open>m\<close>.\<close>

lemma apply_pending_cut:
  assumes "sb_ok sb" and "good_disk d" and "distinct (map fst bs)" and "m < length bs"
    and "\<forall>e \<in> set bs. in_disk sb d (fst e) \<and> length (snd e) = sb_block_size sb"
  defines "fails \<equiv> \<lambda>i. i = fst (bs ! m) * spb sb"
  shows "\<exists>d'. apply_pending sb (take m bs) d = (Ok (), d') \<and>
    apply_pending sb bs (d\<lparr>write_fails := fails\<rparr>) = (Err (JBlockDevice BdIo), d'\<lparr>write_fails := fails\<rparr>)"
proof -
  let ?w = "\<lambda>e. smap_err JBlockDevice (write_sectors (wmul 64 (fst e) (spb sb)) (snd e))"
  let ?P = "\<lambda>e. good_disk e \<and> same_shape d e"
  have n: "0 < spb sb" using sb_ok_block_size(5)[OF assms(1)] by linarith
  have split: "bs = take m bs @ bs ! m # drop (Suc m) bs" using assms(4) by (simp add: id_take_nth_drop)
  have once: "distinct (map fst (take m bs @ bs ! m # drop (Suc m) bs))" unfolding split[symmetric] by (rule assms(3))
  then have notin: "fst (bs ! m) \<notin> fst ` set (take m bs)" by simp
  have "\<forall>e \<in> set (take m bs). in_disk sb d (fst e) \<and> length (snd e) = sb_block_size sb" "distinct (map fst (take m bs))"
    using assms(3,5) by (auto dest: in_set_takeD simp: take_map[symmetric])
  then obtain d' where d': "apply_pending sb (take m bs) d = (Ok (), d')" "same_shape d d'"
    using apply_pending_spec[OF assms(1,2), of "take m bs"] by blast
  have "?P d' \<and> sfor (take m bs) ?w (d\<lparr>write_fails := fails\<rparr>) = (Ok (), d'\<lparr>write_fails := fails\<rparr>)"
  proof (rule sfor_sim[where P = ?P])
    show "?P d" using assms(2) by (simp add: same_shape_refl good_disk_def)
    show "sfor (take m bs) ?w d = (Ok (), d')" using d'(1) by (simp add: apply_pending_def)
    fix e u u' assume e: "e \<in> set (take m bs)" "?P u" "?w e u = (Ok (), u')"
    have w: "write_sectors (wmul 64 (fst e) (spb sb)) (snd e) u = (Ok (), u')"
      using e(3) by (simp add: smap_err_Ok_iff)
    have here: "in_disk sb u (fst e)" "length (snd e) = sb_block_size sb"
      using e(1,2) assms(5) in_disk_shape[of d u sb] by (auto dest: in_set_takeD)
    have ne: "fst e \<noteq> fst (bs ! m)"
      using notin e(1) by (metis image_eqI)
    have "\<not> fails (fst e * spb sb + i)" if "i < spb sb" for i
      using blocks_apart[OF ne, of "spb sb"] that n by (auto simp: fails_def)
    from write_block_spared[where fails = fails, OF assms(1) conjunct1[OF e(2)] here this w]
    have "?w e (u\<lparr>write_fails := fails\<rparr>) = (Ok (), u'\<lparr>write_fails := fails\<rparr>)" by (simp add: smap_err_Ok_iff)
    moreover have "same_shape u u'" using same_shape_write_sectors[of u u] w e(2) by (metis good_disk_def same_shape_refl snd_conv)
    ultimately show "?P u' \<and> ?w e (u\<lparr>write_fails := fails\<rparr>) = (Ok (), u'\<lparr>write_fails := fails\<rparr>)"
      using e(2) good_disk_shape same_shape_trans by blast
  qed
  moreover have "?w (bs ! m) (d'\<lparr>write_fails := fails\<rparr>) = (Err (JBlockDevice BdIo), d'\<lparr>write_fails := fails\<rparr>)"
    using write_block_refused[OF assms(1) good_disk_shape[OF assms(2) d'(2)], of "fst (bs ! m)" "snd (bs ! m)" fails] assms(4,5)
      in_disk_shape[OF d'(2), of sb] nth_mem[OF assms(4)] by (simp add: fails_def smap_err_def)
  ultimately have "sfor (take m bs @ bs ! m # drop (Suc m) bs) ?w (d\<lparr>write_fails := fails\<rparr>) = (Err (JBlockDevice BdIo), d'\<lparr>write_fails := fails\<rparr>)"
    by (simp add: sfor_append sbind_def)
  then show ?thesis using d'(1) split by (auto simp: apply_pending_def)
qed


lemma power_back: "good_disk d \<Longrightarrow> power_on (d\<lparr>write_fails := fails\<rparr>) = d"
  by (auto simp: power_on_def good_disk_def intro!: disk.equality ext)

text \<open>
  C33. With a clean journal, and the program opens every volume with one, a commit is not
  atomic: for each block of the transaction there is a moment at which the power can fail so
  that the journal still reads as clean, the replay does nothing, and the volume is left with
  the blocks before it in their new version and all the others in their old one.
\<close>

theorem clean_commit_torn:
  assumes "log_ready sb jn s" and "loggable sb jn (js_dev s) txn" and "0 < jsb_first_usable_block (jn_sb jn)"
    and "read_journal_superblock (js_dev s) sb (jn_blocks jn) = Ok jsb" and "is_clean jsb" and "m < length (txn_blocks txn)"
  shows "\<exists>fails c. commit txn (failing fails s) = (Err (JBlockDevice BdIo), c) \<and>
    read_journal_superblock (power_on (js_dev c)) sb (jn_blocks jn) = Ok jsb \<and>
    replay fuel sb (jn\<lparr>jn_sb := jsb\<rparr>) (power_on (js_dev c)) = (Ok (), power_on (js_dev c)) \<and>
    volume_with sb jn (map_of (take m (txn_blocks txn))) (js_dev s) (power_on (js_dev c))"
proof -
  let ?bs = "txn_blocks txn"
  note r = assms(1)[unfolded log_ready_def] and l = assms(2)[unfolded loggable_def]
  define fails where "fails = (\<lambda>i. i = fst (?bs ! m) * spb sb)"
  have bm: "?bs ! m \<in> set ?bs" using assms(6) by simp
  have spared: "\<not> fails (p * spb sb + i)" if "p \<in> set (jn_blocks jn)" "i < spb sb" for p i
  proof -
    have "p \<noteq> fst (?bs ! m)" using l bm that(1) by blast
    from blocks_apart[OF this, of "spb sb"] that(2) show ?thesis by (auto simp: fails_def)
  qed
  obtain s1 where log: "log_transaction txn (failing fails s) = (Ok (), failing fails s1)" and r1: "log_ready sb jn s1"
    and shape: "same_shape (js_dev s) (js_dev s1)"
    and old: "\<And>q. in_disk sb (js_dev s) q \<Longrightarrow> q \<notin> set (jn_blocks jn) \<Longrightarrow> read_phys_block (js_dev s1) sb q = read_phys_block (js_dev s) sb q"
    and zero: "log_at sb jn (js_dev s1) 0 = log_at sb jn (js_dev s) 0"
    using log_spared[where fails = fails, OF assms(1,2) spared] assms(3) by blast
  note ind = in_disk_shape[OF shape, of sb]
  have good1: "good_disk (js_dev s1)" and sb: "sb_ok sb" using r1 by (simp_all add: log_ready_def)
  have blocks: "\<forall>e \<in> set ?bs. in_disk sb (js_dev s1) (fst e) \<and> length (snd e) = sb_block_size sb" "distinct (map fst ?bs)"
    using l ind by (auto simp: txn_ok_def)
  obtain d' where cut: "apply_pending sb (take m ?bs) (js_dev s1) = (Ok (), d')"
    "apply_pending sb ?bs ((js_dev s1)\<lparr>write_fails := fails\<rparr>) = (Err (JBlockDevice BdIo), d'\<lparr>write_fails := fails\<rparr>)"
    using apply_pending_cut[OF sb good1 blocks(2) assms(6) blocks(1)] unfolding fails_def by blast
  have "\<forall>e \<in> set (take m ?bs). in_disk sb (js_dev s1) (fst e) \<and> length (snd e) = sb_block_size sb" "distinct (map fst (take m ?bs))"
    using blocks by (auto dest: in_set_takeD simp: take_map[symmetric])
  from apply_pending_spec[OF sb good1 this(2,1)] cut(1) have shape2: "same_shape (js_dev s1) d'"
    and new: "\<And>q. in_disk sb (js_dev s1) q \<Longrightarrow> read_phys_block d' sb q =
      (case map_of (take m ?bs) q of Some x \<Rightarrow> Ok x | None \<Rightarrow> read_phys_block (js_dev s1) sb q)" by auto
  define c where "c = failing fails (s1\<lparr>js_dev := d'\<rparr>)"
  have "store_in_place ?bs (failing fails s1) = (Err (JBlockDevice BdIo), c)"
    using store_in_place_apply[of ?bs sb "failing fails s1"] blocks(1) cut(2) r1 by (simp add: c_def log_ready_def)
  then have "commit txn (failing fails s) = (Err (JBlockDevice BdIo), c)" using log by (simp add: commit_def sbind_def)
  moreover have "power_on (js_dev c) = d'" using good_disk_shape[OF good1 shape2] by (simp add: c_def power_back)
  moreover have "volume_with sb jn (map_of (take m ?bs)) (js_dev s) d'"
    using new old ind by (simp add: volume_with_def split: option.split)
  moreover have "read_journal_superblock d' sb (jn_blocks jn) = Ok jsb"
  proof -
    have len: "0 < length (jn_blocks jn)" using r by linarith
    note p = len nth_mem[OF len]
    then have "map_of (take m ?bs) (jn_blocks jn ! 0) = None" using l by (force simp: map_of_eq_None_iff dest: in_set_takeD)
    then have "log_at sb jn d' 0 = log_at sb jn (js_dev s) 0"
      using new zero p r ind by (simp add: journal_read_block_def journal_block_addr_def)
    then show ?thesis
      using assms(4) by (simp add: read_journal_superblock_def journal_read_block_def rbind_assoc[symmetric])
  qed
  moreover have "replay fuel sb (jn\<lparr>jn_sb := jsb\<rparr>) d' = (Ok (), d')" using assms(5) by (simp add: replay_def)
  ultimately show ?thesis by (intro exI[of _ fails] exI[of _ c]) simp
qed

text \<open>Two blocks of the sample image: the first is new, the second is old.\<close>

theorem clean_commit_torn_witness:
  "\<exists>fails c. let txn = (txn_new 1)\<lparr>txn_blocks := [(17, replicate 1024 1), (18, replicate 1024 1)]\<rparr>; d = power_on (js_dev c) in
     commit txn (failing fails sample_log) = (Err (JBlockDevice BdIo), c) \<and>
     replay 5 sample_sb sample_journal d = (Ok (), d) \<and>
     read_phys_block d sample_sb 17 = Ok (replicate 1024 1) \<and>
     read_phys_block d sample_sb 18 = read_phys_block sample_disk sample_sb 18"
proof -
  define txn where "txn = (txn_new 1)\<lparr>txn_blocks := [(17, replicate 1024 1), (18, replicate 1024 1)]\<rparr>"
  have t: "txn_blocks txn = [(17, replicate 1024 1), (18, replicate 1024 1)]" "txn_sequence txn = 1" "txn_revoked txn = []"
    by (simp_all add: txn_def txn_new_def)
  then have "loggable sample_sb dirty_journal sample_disk txn"
    by (simp add: loggable_def txn_ok_def tag_fits_def has_64bit_def)
  then have l: "loggable sample_sb dirty_journal (js_dev sample_log) txn" by simp
  have sb: "read_journal_superblock (js_dev sample_log) sample_sb (jn_blocks dirty_journal) = Ok (jn_sb sample_journal)"
    using sample_journal_superblock by simp
  have "dirty_journal\<lparr>jn_sb := jn_sb sample_journal\<rparr> = sample_journal" by (simp add: dirty_journal_def)
  then obtain fails c where c: "commit txn (failing fails sample_log) = (Err (JBlockDevice BdIo), c)"
    "replay 5 sample_sb sample_journal (power_on (js_dev c)) = (Ok (), power_on (js_dev c))"
    "volume_with sample_sb dirty_journal (map_of (take 1 (txn_blocks txn))) sample_disk (power_on (js_dev c))"
    using clean_commit_torn[OF sample_log_ready l _ sb, of 1 5] sample_journal_clean(2) by (auto simp: t)
  have "read_phys_block (power_on (js_dev c)) sample_sb 17 = Ok (replicate 1024 1)"
    "read_phys_block (power_on (js_dev c)) sample_sb 18 = read_phys_block sample_disk sample_sb 18"
    using c(3)[unfolded volume_with_def, rule_format, of 17] c(3)[unfolded volume_with_def, rule_format, of 18] by (simp_all add: t)
  then show ?thesis unfolding txn_def[symmetric] Let_def using c(1,2) by blast
qed

end
