(* ===== verification/Raw_Disk.thy ===== *)
theory Raw_Disk
  imports Block_Device
begin

text \<open>
  The raw disk device (\<open>ext4-core/src/block_device/raw_disk.rs\<close>): sectors of a volume behind a
  handle of the host. The calls of the host (\<open>CreateFileW\<close>, \<open>DeviceIoControl\<close>,
  \<open>FlushFileBuffers\<close>, and \<open>seek_read\<close> and \<open>seek_write\<close> of \<open>std::fs::File\<close>, which may transfer
  fewer bytes than asked for) are the fields of a record that every operation takes; \<open>'h\<close> is
  the type of handles and \<open>'w\<close> the state of the host.
\<close>

section \<open>The host\<close>

text \<open>The arguments of \<open>CreateFileW\<close> that the code chooses.\<close>

record create_request =
  cr_name :: "nat list"
  cr_generic_read :: bool
  cr_generic_write :: bool
  cr_share_read :: bool
  cr_share_write :: bool
  cr_open_existing :: bool
  cr_no_buffering :: bool

text \<open>
  \<open>None\<close> is the invalid handle or the failure of the call. \<open>api_disk_size\<close> is the field
  \<open>DiskSize\<close> of the geometry, an \<open>i64\<close>; \<open>api_read\<close> returns the bytes transferred, \<open>api_write\<close>
  how many were.
\<close>

record ('h, 'w) disk_api =
  api_create :: "create_request \<Rightarrow> 'w \<Rightarrow> 'h option \<times> 'w"
  api_disk_size :: "'h \<Rightarrow> 'w \<Rightarrow> int option"
  api_read :: "'h \<Rightarrow> nat \<Rightarrow> nat \<Rightarrow> 'w \<Rightarrow> byte list option"
  api_write :: "'h \<Rightarrow> nat \<Rightarrow> byte list \<Rightarrow> 'w \<Rightarrow> nat option \<times> 'w"
  api_flush :: "'h \<Rightarrow> 'w \<Rightarrow> bool \<times> 'w"
  api_close :: "'h \<Rightarrow> 'w \<Rightarrow> 'w"

record 'h raw_disk =
  rd_file :: 'h
  rd_sector_count :: nat

section \<open>Operations\<close>

definition raw_request :: "nat list \<Rightarrow> create_request" where
  "raw_request wide = \<lparr>cr_name = wide @ [0], cr_generic_read = True, cr_generic_write = False,
     cr_share_read = True, cr_share_write = True, cr_open_existing = True, cr_no_buffering = True\<rparr>"

definition query_sector_count :: "('h, 'w) disk_api \<Rightarrow> 'h \<Rightarrow> ('w, bd_error, nat) st" where
  "query_sector_count api h = sread (\<lambda>w. case api_disk_size api h w of
       None \<Rightarrow> Err BdIo
     | Some sz \<Rightarrow> Ok (nat (sz mod 2 ^ 64) div 512))"

text \<open>The file owns the handle, so an error of the query closes it.\<close>

definition raw_open :: "('h, 'w) disk_api \<Rightarrow> nat list \<Rightarrow> ('w, bd_error, 'h raw_disk) st" where
  "raw_open api wide = (\<lambda>w. case api_create api (raw_request wide) w of
       (None, w') \<Rightarrow> (Err BdIo, w')
     | (Some h, w') \<Rightarrow> (case query_sector_count api h w' of
           (Ok n, w'') \<Rightarrow> (Ok \<lparr>rd_file = h, rd_sector_count = n\<rparr>, w'')
         | (Err e, w'') \<Rightarrow> (Err e, api_close api h w'')
         | (Panic, w'') \<Rightarrow> (Panic, w'')
         | (Diverge, w'') \<Rightarrow> (Diverge, w'')))"

text \<open>Elsewhere than on Windows there is no such device.\<close>

definition raw_open_other :: "nat list \<Rightarrow> (bd_error, 'h raw_disk) res" where
  "raw_open_other wide = Err (BdNotSupported ''RawDiskDevice is Windows-only'')"

text \<open>The buffer holds what it held beyond the bytes that were transferred.\<close>

definition raw_read_sector ::
  "('h, 'w) disk_api \<Rightarrow> 'h raw_disk \<Rightarrow> nat \<Rightarrow> byte list \<Rightarrow> ('w, bd_error, byte list) st" where
  "raw_read_sector api r i buf = sread (\<lambda>w.
     if rd_sector_count r \<le> i then Err (BdOutOfRange i (rd_sector_count r))
     else rbind (ok_or (BdOutOfRange i (rd_sector_count r)) (checked_mul 64 i 512)) (\<lambda>offset.
          case api_read api (rd_file r) offset 512 w of
            None \<Rightarrow> Err BdIo
          | Some got \<Rightarrow> Ok (patch 0 got buf)))"

definition raw_write_sector ::
  "('h, 'w) disk_api \<Rightarrow> 'h raw_disk \<Rightarrow> nat \<Rightarrow> byte list \<Rightarrow> ('w, bd_error, unit) st" where
  "raw_write_sector api r i buf =
     (if rd_sector_count r \<le> i then sfail (BdOutOfRange i (rd_sector_count r))
      else sbind (lift_res (ok_or (BdOutOfRange i (rd_sector_count r)) (checked_mul 64 i 512)))
        (\<lambda>offset w. case api_write api (rd_file r) offset buf w of
            (None, w') \<Rightarrow> (Err BdIo, w')
          | (Some _, w') \<Rightarrow> (Ok (), w')))"

definition raw_flush :: "('h, 'w) disk_api \<Rightarrow> 'h raw_disk \<Rightarrow> ('w, bd_error, unit) st" where
  "raw_flush api r = (\<lambda>w. case api_flush api (rd_file r) w of
       (ok, w') \<Rightarrow> (if ok then Ok () else Err BdIo, w'))"

text \<open>\<open>read_sectors\<close> and \<open>write_sectors\<close> on it; the buffer they read into starts as zeros.\<close>

definition raw_read_sectors ::
  "('h, 'w) disk_api \<Rightarrow> 'h raw_disk \<Rightarrow> nat \<Rightarrow> nat \<Rightarrow> ('w, bd_error, byte list) st" where
  "raw_read_sectors api r = dyn_read_sectors (\<lambda>i. raw_read_sector api r i (replicate 512 0))"

definition raw_write_sectors ::
  "('h, 'w) disk_api \<Rightarrow> 'h raw_disk \<Rightarrow> nat \<Rightarrow> byte list \<Rightarrow> ('w, bd_error, unit) st" where
  "raw_write_sectors api r = dyn_write_sectors (raw_write_sector api r)"

section \<open>A host that transfers whole sectors\<close>

text \<open>
  What the device relies on: a transfer at a sector of the disk moves the whole sector, or
  fails and changes nothing. \<open>content\<close> is what the sectors hold in a state of the host.
\<close>

definition whole_sectors ::
  "('h, 'w) disk_api \<Rightarrow> 'h raw_disk \<Rightarrow> ('w \<Rightarrow> nat \<Rightarrow> byte list) \<Rightarrow> (nat \<Rightarrow> bool) \<Rightarrow> (nat \<Rightarrow> bool) \<Rightarrow> bool"
where
  "whole_sectors api r content rfail wfail \<longleftrightarrow>
     rd_sector_count r * 512 < 2 ^ 64 \<and>
     (\<forall>w i. i < rd_sector_count r \<longrightarrow> length (content w i) = 512 \<and>
        api_read api (rd_file r) (i * 512) 512 w = (if rfail i then None else Some (content w i))) \<and>
     (\<forall>w i b n w'. i < rd_sector_count r \<and> length b = 512 \<and>
        api_write api (rd_file r) (i * 512) b w = (n, w') \<longrightarrow>
        (if wfail i then n = None \<and> content w' = content w
         else n = Some 512 \<and> content w' = (content w)(i := b)))"

definition raw_view ::
  "'h raw_disk \<Rightarrow> ('w \<Rightarrow> nat \<Rightarrow> byte list) \<Rightarrow> (nat \<Rightarrow> bool) \<Rightarrow> (nat \<Rightarrow> bool) \<Rightarrow> 'w \<Rightarrow> disk" where
  "raw_view r content rfail wfail w =
     \<lparr>sectors = content w, sector_count = rd_sector_count r, read_fails = rfail,
      write_fails = wfail, flush_fails = False, stable = (\<lambda>_. [])\<rparr>"

text \<open>Over such a host the raw disk implements the contract of the trait.\<close>

lemma raw_block_device:
  assumes "whole_sectors api r content rfail wfail"
  shows "block_device (\<lambda>i. raw_read_sector api r i (replicate 512 0)) (raw_write_sector api r)
    (raw_view r content rfail wfail) (\<lambda>_. True)"
proof
  note whole = assms[unfolded whole_sectors_def]
  have mul: "checked_mul 64 i 512 = Some (i * 512)" if "i < rd_sector_count r" for i
    using that whole by (simp add: checked_mul_def)
  fix w i a w'
  assume "raw_read_sector api r i (replicate 512 0) w = (a, w')"
  then show "a = read_sector (raw_view r content rfail wfail w) i \<and>
      raw_view r content rfail wfail w' = raw_view r content rfail wfail w \<and> True"
    using whole mul[of i]
    by (auto simp: raw_read_sector_def read_sector_def raw_view_def patch_def not_le)
next
  note whole = assms[unfolded whole_sectors_def]
  have mul: "checked_mul 64 i 512 = Some (i * 512)" if "i < rd_sector_count r" for i
    using that whole by (simp add: checked_mul_def)
  fix w i b q w'
  assume len: "length (b :: byte list) = 512" and s: "raw_write_sector api r i b w = (q, w')"
  show "write_sector i b (raw_view r content rfail wfail w) = (q, raw_view r content rfail wfail w') \<and> True"
  proof (cases "i < rd_sector_count r")
    case True
    obtain n w1 where a: "api_write api (rd_file r) (i * 512) b w = (n, w1)"
      by (cases "api_write api (rd_file r) (i * 512) b w")
    then have "if wfail i then n = None \<and> content w1 = content w
         else n = Some 512 \<and> content w1 = (content w)(i := b)"
      using whole True len by blast
    then show ?thesis
      using s a True mul
      by (auto simp: raw_write_sector_def write_sector_def raw_view_def split: if_splits)
  next
    case False
    then show ?thesis using s by (auto simp: raw_write_sector_def write_sector_def raw_view_def)
  qed
qed

lemma raw_open_OkD:
  assumes "raw_open api wide w = (Ok r, w')"
  shows "\<exists>sz. api_create api (raw_request wide) w = (Some (rd_file r), w') \<and>
    api_disk_size api (rd_file r) w' = Some sz \<and>
    rd_sector_count r = nat (sz mod 2 ^ 64) div 512 \<and> rd_sector_count r * 512 < 2 ^ 64"
proof -
  obtain h sz where c: "api_create api (raw_request wide) w = (Some h, w')"
    and sz: "api_disk_size api h w' = Some sz" and r: "r = \<lparr>rd_file = h, rd_sector_count = nat (sz mod 2 ^ 64) div 512\<rparr>"
    using assms by (auto simp: raw_open_def query_sector_count_def split: prod.splits option.splits)
  have "nat (sz mod 2 ^ 64) < 2 ^ 64" by (simp add: nat_less_iff)
  then have "nat (sz mod 2 ^ 64) div 512 * 512 < 2 ^ 64"
    using div_times_less_eq_dividend[of "nat (sz mod 2 ^ 64)" 512] by linarith
  then show ?thesis using c sz by (simp add: r)
qed

section \<open>A host for the witnesses\<close>

text \<open>
  A host with one disk of \<open>sz\<close> bytes, whose transfers move at most \<open>limit\<close> bytes and stop at
  the end of the disk, and whose handles remember whether they were opened for writing.
\<close>

definition file_api :: "nat \<Rightarrow> nat \<Rightarrow> (bool, nat \<Rightarrow> byte) disk_api" where
  "file_api limit sz = \<lparr>
     api_create = (\<lambda>req w. (Some (cr_generic_write req), w)),
     api_disk_size = (\<lambda>h w. Some (int sz)),
     api_read = (\<lambda>h off n w. Some (map w [off..<min (off + min n limit) sz])),
     api_write = (\<lambda>h off b w. if h then (Some (length b), w) else (None, w)),
     api_flush = (\<lambda>h w. (h, w)),
     api_close = (\<lambda>h w. w)\<rparr>"

abbreviation four_sectors :: "bool raw_disk" where
  "four_sectors \<equiv> \<lparr>rd_file = False, rd_sector_count = 4\<rparr>"

lemma file_api_open: "raw_open (file_api limit 2048) wide w = (Ok four_sectors, w)"
  by (simp add: raw_open_def query_sector_count_def file_api_def raw_request_def)

lemma file_api_whole:
  "whole_sectors (file_api 512 2048) four_sectors (\<lambda>w i. map w [512 * i..<512 * i + 512]) (\<lambda>_. False) (\<lambda>_. True)"
  by (auto simp: whole_sectors_def file_api_def min_def mult.commute)

section \<open>Properties\<close>

text \<open>
  C24. A raw disk is the device its geometry says: the handle is opened for reading an existing
  volume, the number of sectors is the size over 512, and over a host that transfers whole
  sectors (or fails) every multi-sector read and write through it has the result that the
  same operation has on the array of sectors, and the same effect.
\<close>

theorem raw_disk_serves_volume:
  assumes "raw_open api wide w0 = (Ok r, w1)"
    and "whole_sectors api r content rfail wfail"
  shows "(\<exists>sz. api_disk_size api (rd_file r) w1 = Some sz \<and>
      rd_sector_count r = nat (sz mod 2 ^ 64) div 512) \<and>
    (\<forall>w s n res w'. raw_read_sectors api r s n w = (res, w') \<longrightarrow>
       res = read_sectors (raw_view r content rfail wfail w) s n \<and> content w' = content w) \<and>
    (\<forall>w s data res w'. raw_write_sectors api r s data w = (res, w') \<longrightarrow>
       write_sectors s data (raw_view r content rfail wfail w) =
         (res, raw_view r content rfail wfail w'))"
proof -
  note device = raw_block_device[OF assms(2)]
  have same: "content w' = content w"
    if "raw_view r content rfail wfail w' = raw_view r content rfail wfail w" for w w'
    using that by (simp add: raw_view_def)
  show ?thesis
    using raw_open_OkD[OF assms(1)] block_device.read_sectors_view[OF device TrueI]
      block_device.write_sectors_view[OF device TrueI] same
    unfolding raw_read_sectors_def raw_write_sectors_def by blast
qed

theorem raw_disk_serves_volume_witness:
  "\<forall>w. fst (raw_read_sectors (file_api 512 2048) four_sectors 1 2 w) =
     read_sectors (raw_view four_sectors (\<lambda>w i. map w [512 * i..<512 * i + 512]) (\<lambda>_. False) (\<lambda>_. True) w) 1 2"
proof
  fix w
  show "fst (raw_read_sectors (file_api 512 2048) four_sectors 1 2 w) =
     read_sectors (raw_view four_sectors (\<lambda>w i. map w [512 * i..<512 * i + 512]) (\<lambda>_. False) (\<lambda>_. True) w) 1 2"
    using raw_disk_serves_volume[OF file_api_open file_api_whole]
    by (cases "raw_read_sectors (file_api 512 2048) four_sectors 1 2 w") auto
qed

text \<open>
  A short transfer is taken for a whole one: when the host moves fewer than 512 bytes, a
  read of the sector succeeds with zeros in place of the rest, and a write succeeds whatever
  part of the sector was written.
\<close>

theorem short_transfer_succeeds:
  assumes "i < rd_sector_count r" and "i * 512 < 2 ^ 64"
    and "api_read api (rd_file r) (i * 512) 512 w = Some got" and "length got \<le> 512"
    and "api_write api (rd_file r) (i * 512) b w = (Some k, w')"
  shows "raw_read_sectors api r i 1 w = (Ok (got @ replicate (512 - length got) 0), w) \<and>
    raw_write_sector api r i b w = (Ok (), w')"
  using assms
  by (simp_all add: raw_read_sectors_def dyn_read_sectors_def raw_read_sector_def raw_write_sector_def
      checked_mul_def patch_def)

theorem short_transfer_succeeds_witness:
  "\<forall>w. raw_read_sectors (file_api 100 2048) (four_sectors\<lparr>rd_file := True\<rparr>) 1 1 w =
     (Ok (map w [512..<612] @ replicate 412 0), w)"
proof
  fix w
  show "raw_read_sectors (file_api 100 2048) (four_sectors\<lparr>rd_file := True\<rparr>) 1 1 w =
     (Ok (map w [512..<612] @ replicate 412 0), w)"
    using short_transfer_succeeds[of 1 "four_sectors\<lparr>rd_file := True\<rparr>" "file_api 100 2048" w "map w [512..<612]"
      "replicate 512 7" 512 w]
    by (simp add: file_api_def)
qed

text \<open>
  A raw disk is never written: its handle is opened without write access, so on a host that
  refuses writes through such handles no write through the device succeeds or changes
  anything, whatever the volume was mounted for.
\<close>

theorem raw_disk_never_written:
  assumes "raw_open api wide w0 = (Ok r, w1)"
    and "\<And>req h u v off b w. api_create api req u = (Some h, v) \<Longrightarrow> \<not> cr_generic_write req \<Longrightarrow>
      api_write api h off b w = (None, w)"
    and "raw_write_sectors api r s data w = (q, w')"
  shows "w' = w \<and> (data \<noteq> [] \<longrightarrow> q \<noteq> Ok ())"
proof -
  have refused: "api_write api (rd_file r) off b w = (None, w)" for off b w
  proof -
    obtain sz where "api_create api (raw_request wide) w0 = (Some (rd_file r), w1)"
      using raw_open_OkD[OF assms(1)] by blast
    then show ?thesis by (rule assms(2)) (simp add: raw_request_def)
  qed
  have one: "\<exists>e. raw_write_sector api r i b w = (Err e, w)" for i b w
    by (auto simp: raw_write_sector_def refused checked_mul_def)
  have stuck: "dyn_write_loop (raw_write_sector api r) s (Suc n) data w = (p, v) \<Longrightarrow> v = w \<and> (\<exists>e. p = Err e)"
    for n p v
    using one[of s "take 512 data" w] by (auto simp: sbind_def)
  moreover have "data = []" if "length data div 512 = 0" "length data mod 512 = 0"
  proof -
    have "length data < 512" using that(1) by (simp add: div_eq_0_iff)
    then show ?thesis using that(2) by simp
  qed
  ultimately show ?thesis
    using assms(3) unfolding raw_write_sectors_def dyn_write_sectors_def rassert_def
    by (cases "length data div 512") (auto split: if_splits dest: stuck simp del: dyn_write_loop.simps(2))
qed

theorem raw_disk_never_written_witness:
  "snd (raw_write_sectors (file_api 512 2048) four_sectors 1 (replicate 512 7) (\<lambda>_. 9)) = (\<lambda>_. 9)"
  using raw_disk_never_written[OF file_api_open[of 512], where w = "\<lambda>_. 9" and s = 1 and data = "replicate 512 7"]
  by (cases "raw_write_sectors (file_api 512 2048) four_sectors 1 (replicate 512 7) (\<lambda>_. 9)")
     (auto simp: file_api_def)

end
