(* ===== verification/Mount_Command.thy ===== *)
theory Mount_Command
  imports Dispatch Sample_Image "HOL-Library.Sublist"
begin

text \<open>
  The program around the file system: the command line (\<open>pengwin/src/cli.rs\<close>), the commands
  of \<open>main.rs\<close>, and the WinFsp host of \<open>fsp.rs\<close>. What the program asks of WinFsp, Windows and
  the console is a sequence of calls, kept in the state; whether a call succeeds is for the
  environment to say. Parsing the arguments is the work of the \<open>clap\<close> crate, so a parsed
  command is where the model starts.
\<close>

section \<open>Commands, calls and errors\<close>

datatype command =
    MountCommand (cm_source: "byte list") (cm_drive: "byte list") (cm_rw: bool) (cm_force: bool)
      (cm_verbose: bool)
  | UnmountCommand (cu_drive: "byte list")

datatype fsp_error =
    FspPrivilege
  | FspNotInstalled
  | FspHostCreation
  | FspMountFailed "byte list"

datatype cmd_error =
    CmdFsp fsp_error
  | CmdBlockDevice bd_error
  | CmdFs fs_error
  | CmdCtrlC
  | CmdIo
  | CmdRawNotSupported
  | CmdNetUseFailed "byte list"

datatype message =
    MsgForceIgnored
  | MsgMounted "byte list" "byte list" bool
  | MsgUnmounted
  | MsgSignalSent "byte list"
  | MsgError cmd_error

record volume_params =
  vp_sector_size :: nat
  vp_sectors_per_allocation_unit :: nat
  vp_max_component_length :: nat
  vp_file_info_timeout :: nat
  vp_volume_info_timeout :: nat
  vp_case_sensitive_search :: bool
  vp_case_preserved_names :: bool
  vp_unicode_on_disk :: bool
  vp_read_only_volume :: bool
  vp_post_cleanup_when_modified_only :: bool
  vp_flush_and_purge_on_cleanup :: bool
  vp_volume_serial_number :: nat

text \<open>The host takes the file system over when it is created.\<close>

datatype host_call =
    HcInitLogging bool
  | HcInitWinfsp
  | HcNewHost volume_params ext4fs
  | HcOpenToken
  | HcLookupPrivilege
  | HcAdjustPrivileges
  | HcAllAssigned
  | HcCloseToken
  | HcMount "byte list"
  | HcSetCtrlC
  | HcStart
  | HcPrint message
  | HcWaitCtrlC
  | HcStop
  | HcUnmount
  | HcNetUseDelete "byte list"

text \<open>
  The environment: which platform the program is built for, the files it can open, the raw
  volumes (as the devices \<open>raw_open\<close> makes of them), how many components a mount point has as
  a path, whether a call succeeds, and whether the \<open>net\<close> command exits with success.
\<close>

record host_file =
  hf_bytes :: "byte list"
  hf_read_fails :: "nat \<Rightarrow> bool"
  hf_write_fails :: "nat \<Rightarrow> bool"
  hf_sync_fails :: bool

record host_env =
  he_windows :: bool
  he_file :: "byte list \<Rightarrow> host_file option"
  he_raw :: "byte list \<Rightarrow> (bd_error, disk) res"
  he_path_components :: "byte list \<Rightarrow> nat"
  he_succeeds :: "host_call \<Rightarrow> bool"
  he_net_success :: bool

type_synonym 'a cmd = "(host_call list, cmd_error, 'a) st"

text \<open>A call that may fail, and one whose result is not looked at.\<close>

definition host_do :: "host_env \<Rightarrow> host_call \<Rightarrow> 'e \<Rightarrow> (host_call list, 'e, unit) st" where
  "host_do env c e = (\<lambda>calls. (if he_succeeds env c then Ok () else Err e, calls @ [c]))"

definition host_tell :: "host_call \<Rightarrow> (host_call list, 'e, unit) st" where
  "host_tell c = smodify (\<lambda>calls. calls @ [c])"

section \<open>The host\<close>

definition check_winfsp_installed :: "host_env \<Rightarrow> (host_call list, fsp_error, unit) st" where
  "check_winfsp_installed env = host_do env HcInitWinfsp FspNotInstalled"

definition ext4_host_params :: "bool \<Rightarrow> nat \<Rightarrow> volume_params" where
  "ext4_host_params read_only serial =
     \<lparr>vp_sector_size = 512, vp_sectors_per_allocation_unit = 8, vp_max_component_length = 255,
      vp_file_info_timeout = 1000, vp_volume_info_timeout = 1000, vp_case_sensitive_search = True,
      vp_case_preserved_names = True, vp_unicode_on_disk = True, vp_read_only_volume = read_only,
      vp_post_cleanup_when_modified_only = True, vp_flush_and_purge_on_cleanup = False,
      vp_volume_serial_number = serial\<rparr>"

definition ext4_host_new ::
  "host_env \<Rightarrow> ext4fs \<Rightarrow> bool \<Rightarrow> nat \<Rightarrow> (host_call list, fsp_error, unit) st" where
  "ext4_host_new env fs read_only volume_serial_no =
     host_do env (HcNewHost (ext4_host_params read_only volume_serial_no) fs) FspHostCreation"

text \<open>Every error returns at once, also the ones after the token was opened.\<close>

definition enable_symlink_privilege :: "host_env \<Rightarrow> (host_call list, fsp_error, unit) st" where
  "enable_symlink_privilege env =
     (if he_windows env then
        sbind (host_do env HcOpenToken FspPrivilege) (\<lambda>_.
        sbind (host_do env HcLookupPrivilege FspPrivilege) (\<lambda>_.
        sbind (host_do env HcAdjustPrivileges FspPrivilege) (\<lambda>_.
        sbind (host_do env HcAllAssigned FspPrivilege) (\<lambda>_.
        host_do env HcCloseToken FspPrivilege))))
      else sreturn ())"

definition ext4_host_mount :: "host_env \<Rightarrow> byte list \<Rightarrow> (host_call list, fsp_error, unit) st" where
  "ext4_host_mount env mountpoint =
     sbind (if he_path_components env mountpoint > 1
            then (\<lambda>calls. (Ok (), snd (enable_symlink_privilege env calls)))
            else sreturn ()) (\<lambda>_.
     host_do env (HcMount mountpoint) (FspMountFailed mountpoint))"

definition ext4_host_start :: "host_env \<Rightarrow> (host_call list, fsp_error, unit) st" where
  "ext4_host_start env = host_do env HcStart FspHostCreation"

definition ext4_host_stop :: "(host_call list, 'e, unit) st" where
  "ext4_host_stop = host_tell HcStop"

definition ext4_host_unmount :: "(host_call list, 'e, unit) st" where
  "ext4_host_unmount = host_tell HcUnmount"

section \<open>The commands\<close>

definition init_logging :: "bool \<Rightarrow> (host_call list, 'e, unit) st" where
  "init_logging verbose = host_tell (HcInitLogging verbose)"

definition normalize_drive_letter :: "byte list \<Rightarrow> byte list" where
  "normalize_drive_letter drive = drive"

definition is_prefix :: "byte list \<Rightarrow> byte list \<Rightarrow> bool" where
  "is_prefix p s \<longleftrightarrow> take (length p) s = p"

text \<open>The two prefixes of device names, in ASCII codes.\<close>

definition is_raw_source :: "byte list \<Rightarrow> bool" where
  "is_raw_source source \<longleftrightarrow>
     is_prefix [BACKSLASH, BACKSLASH, 0x2E, BACKSLASH] source \<or>
     is_prefix [BACKSLASH, BACKSLASH, 0x3F, BACKSLASH] source"

text \<open>\<open>ImageFileDevice::open\<close> and \<open>open_rw\<close>: a file opened without write access refuses writes.\<close>

definition image_file_open :: "host_env \<Rightarrow> byte list \<Rightarrow> (bd_error, disk) res" where
  "image_file_open env path =
     rbind (ok_or BdIo (he_file env path)) (\<lambda>f.
     image_open (hf_bytes f) (hf_read_fails f) (\<lambda>_. True) (hf_sync_fails f))"

definition image_file_open_rw :: "host_env \<Rightarrow> byte list \<Rightarrow> (bd_error, disk) res" where
  "image_file_open_rw env path =
     rbind (ok_or BdIo (he_file env path)) (\<lambda>f.
     image_open (hf_bytes f) (hf_read_fails f) (hf_write_fails f) (hf_sync_fails f))"

definition mount_fs ::
  "host_env \<Rightarrow> ext4fs \<Rightarrow> byte list \<Rightarrow> byte list \<Rightarrow> byte list \<Rightarrow> bool \<Rightarrow> unit cmd" where
  "mount_fs env fs source drive mountpoint rw =
     (let read_only = \<not> rw;
          serial = volume_serial (x_sb fs) in
      sbind (smap_err CmdFsp (ext4_host_new env fs read_only serial)) (\<lambda>_.
      sbind (smap_err CmdFsp (ext4_host_mount env mountpoint)) (\<lambda>_.
      sbind (host_do env HcSetCtrlC CmdCtrlC) (\<lambda>_.
      sbind (smap_err CmdFsp (ext4_host_start env)) (\<lambda>_.
      sbind (host_tell (HcPrint (MsgMounted source drive read_only))) (\<lambda>_.
      sbind (host_tell HcWaitCtrlC) (\<lambda>_.
      sbind ext4_host_stop (\<lambda>_.
      sbind ext4_host_unmount (\<lambda>_.
      host_tell (HcPrint MsgUnmounted))))))))))"

text \<open>The device goes into the file system; an error drops it.\<close>

definition open_volume :: "nat \<Rightarrow> disk \<Rightarrow> bool \<Rightarrow> bool \<Rightarrow> ext4fs cmd" where
  "open_volume fuel dev rw force = lift_res (map_err CmdFs (fst (open_fs fuel rw force dev)))"

definition cmd_mount ::
  "nat \<Rightarrow> host_env \<Rightarrow> byte list \<Rightarrow> byte list \<Rightarrow> bool \<Rightarrow> bool \<Rightarrow> unit cmd" where
  "cmd_mount fuel env source drive rw force =
     sbind (smap_err CmdFsp (check_winfsp_installed env)) (\<lambda>_.
     let mountpoint = normalize_drive_letter drive in
     sbind (if rw \<and> force then host_tell (HcPrint MsgForceIgnored) else sreturn ()) (\<lambda>_.
     if is_raw_source source then
       if \<not> he_windows env then sfail CmdRawNotSupported
       else
         sbind (lift_res (map_err CmdBlockDevice (he_raw env source))) (\<lambda>dev.
         sbind (open_volume fuel dev rw force) (\<lambda>fs.
         mount_fs env fs source drive mountpoint rw))
     else if rw then
       sbind (lift_res (map_err CmdBlockDevice (image_file_open_rw env source))) (\<lambda>dev.
       sbind (open_volume fuel dev rw force) (\<lambda>fs.
       mount_fs env fs source drive mountpoint rw))
     else
       sbind (lift_res (map_err CmdBlockDevice (image_file_open env source))) (\<lambda>dev.
       sbind (open_volume fuel dev rw force) (\<lambda>fs.
       mount_fs env fs source drive mountpoint rw))))"

definition cmd_unmount :: "host_env \<Rightarrow> byte list \<Rightarrow> unit cmd" where
  "cmd_unmount env drive =
     (let mountpoint = normalize_drive_letter drive in
      sbind (host_do env (HcNetUseDelete mountpoint) CmdIo) (\<lambda>_.
      if \<not> he_net_success env then sfail (CmdNetUseFailed mountpoint)
      else host_tell (HcPrint (MsgSignalSent drive))))"

text \<open>The exit code; an error is printed.\<close>

definition exit_code_of :: "unit cmd \<Rightarrow> (host_call list, cmd_error, nat) st" where
  "exit_code_of m = (\<lambda>calls. case m calls of
       (Ok _, calls') \<Rightarrow> (Ok 0, calls')
     | (Err e, calls') \<Rightarrow> (Ok 1, calls' @ [HcPrint (MsgError e)])
     | (Panic, calls') \<Rightarrow> (Panic, calls')
     | (Diverge, calls') \<Rightarrow> (Diverge, calls'))"

definition run_main :: "nat \<Rightarrow> host_env \<Rightarrow> command \<Rightarrow> (host_call list, cmd_error, nat) st" where
  "run_main fuel env cli = (case cli of
       MountCommand source drive rw force verbose \<Rightarrow>
         sbind (init_logging verbose) (\<lambda>_. exit_code_of (cmd_mount fuel env source drive rw force))
     | UnmountCommand drive \<Rightarrow> exit_code_of (cmd_unmount env drive))"

text \<open>
  The clock of the callbacks (\<open>fsp_impl/mod.rs\<close>): whole seconds since the epoch cut to 32 bits,
  and zero for a clock before it.
\<close>

definition unix_now :: "nat option \<Rightarrow> nat" where
  "unix_now since_epoch = (case since_epoch of None \<Rightarrow> 0 | Some secs \<Rightarrow> secs mod 2 ^ 32)"

section \<open>The calls of a mount\<close>

text \<open>The calls made by a sequence that stops at the first failure.\<close>

fun attempted :: "host_env \<Rightarrow> host_call list \<Rightarrow> host_call list" where
  "attempted env [] = []"
| "attempted env (c # cs) = c # (if he_succeeds env c then attempted env cs else [])"

definition privilege_calls :: "host_env \<Rightarrow> byte list \<Rightarrow> host_call list" where
  "privilege_calls env mp =
     (if 1 < he_path_components env mp \<and> he_windows env
      then attempted env [HcOpenToken, HcLookupPrivilege, HcAdjustPrivileges, HcAllAssigned, HcCloseToken]
      else [])"

text \<open>The calls of a mount that ends with the volume unmounted.\<close>

definition mount_protocol ::
  "host_env \<Rightarrow> ext4fs \<Rightarrow> byte list \<Rightarrow> byte list \<Rightarrow> bool \<Rightarrow> bool \<Rightarrow> host_call list" where
  "mount_protocol env x source drive rw force =
     HcInitWinfsp # (if rw \<and> force then [HcPrint MsgForceIgnored] else []) @
     HcNewHost (ext4_host_params (\<not> rw) (volume_serial (x_sb x))) x # privilege_calls env drive @
     [HcMount drive, HcSetCtrlC, HcStart, HcPrint (MsgMounted source drive (\<not> rw)), HcWaitCtrlC,
      HcStop, HcUnmount, HcPrint MsgUnmounted]"

text \<open>The calls whose failure ends a mount.\<close>

fun ends_mount :: "host_call \<Rightarrow> bool" where
  "ends_mount HcInitWinfsp = True"
| "ends_mount (HcNewHost _ _) = True"
| "ends_mount (HcMount _) = True"
| "ends_mount HcSetCtrlC = True"
| "ends_mount HcStart = True"
| "ends_mount _ = False"

definition volume_device :: "host_env \<Rightarrow> byte list \<Rightarrow> bool \<Rightarrow> (cmd_error, disk) res" where
  "volume_device env source rw =
     (if is_raw_source source then
        if he_windows env then map_err CmdBlockDevice (he_raw env source) else Err CmdRawNotSupported
      else map_err CmdBlockDevice
        (if rw then image_file_open_rw env source else image_file_open env source))"

lemma host_do_apply: "host_do env c e calls = (if he_succeeds env c then Ok () else Err e, calls @ [c])"
  by (simp add: host_do_def)

lemma host_tell_apply [simp]: "host_tell c calls = (Ok (), calls @ [c])"
  by (simp add: host_tell_def)

lemma privilege_trace:
  "snd (enable_symlink_privilege env calls) =
     calls @ (if he_windows env then
       attempted env [HcOpenToken, HcLookupPrivilege, HcAdjustPrivileges, HcAllAssigned, HcCloseToken] else [])"
  by (simp add: enable_symlink_privilege_def sbind_def host_do_apply)

lemma ext4_host_mount_apply:
  "ext4_host_mount env mp calls =
     (if he_succeeds env (HcMount mp) then Ok () else Err (FspMountFailed mp),
      calls @ privilege_calls env mp @ [HcMount mp])"
  by (simp add: ext4_host_mount_def privilege_calls_def sbind_def host_do_apply privilege_trace)

text \<open>The mount, as opening the device and the volume and then serving it.\<close>

lemma cmd_mount_eq:
  "cmd_mount fuel env source drive rw force =
     sbind (smap_err CmdFsp (host_do env HcInitWinfsp FspNotInstalled)) (\<lambda>_.
     sbind (if rw \<and> force then host_tell (HcPrint MsgForceIgnored) else sreturn ()) (\<lambda>_.
     sbind (lift_res (volume_device env source rw)) (\<lambda>dev.
     sbind (open_volume fuel dev rw force) (\<lambda>fs.
     mount_fs env fs source drive drive rw))))"
proof -
  have "sbind (lift_res (Err e)) f = sfail e" for e and f :: "disk \<Rightarrow> unit cmd"
    by (simp add: fun_eq_iff)
  then show ?thesis
    by (cases "is_raw_source source"; cases "he_windows env"; cases rw)
      (simp_all add: cmd_mount_def volume_device_def check_winfsp_installed_def normalize_drive_letter_def
        Let_def del: sbind_sread)
qed

lemmas mount_steps = cmd_mount_eq open_volume_def mount_fs_def ext4_host_new_def ext4_host_start_def
  ext4_host_stop_def ext4_host_unmount_def Let_def sbind_def smap_err_def host_do_apply ext4_host_mount_apply

lemma attempted_subset: "set (attempted env cs) \<subseteq> set cs"
  by (induction cs) auto

lemma privilege_calls_only: "HcNewHost vp x \<notin> set (privilege_calls env mp)"
  using attempted_subset[of env "[HcOpenToken, HcLookupPrivilege, HcAdjustPrivileges, HcAllAssigned, HcCloseToken]"]
  by (auto simp: privilege_calls_def simp del: attempted.simps)

lemma mount_fs_apply:
  "mount_fs env x source drive mp rw calls =
    (let new = HcNewHost (ext4_host_params (\<not> rw) (volume_serial (x_sb x))) x;
         upto_mount = calls @ [new] @ privilege_calls env mp @ [HcMount mp] in
     if \<not> he_succeeds env new then (Err (CmdFsp FspHostCreation), calls @ [new])
     else if \<not> he_succeeds env (HcMount mp) then (Err (CmdFsp (FspMountFailed mp)), upto_mount)
     else if \<not> he_succeeds env HcSetCtrlC then (Err CmdCtrlC, upto_mount @ [HcSetCtrlC])
     else if \<not> he_succeeds env HcStart then (Err (CmdFsp FspHostCreation), upto_mount @ [HcSetCtrlC, HcStart])
     else (Ok (), upto_mount @ [HcSetCtrlC, HcStart, HcPrint (MsgMounted source drive (\<not> rw)), HcWaitCtrlC,
            HcStop, HcUnmount, HcPrint MsgUnmounted]))"
  by (simp add: mount_steps)

lemma open_fs_mode:
  "open_fs fuel rw force dev = open_inner fuel (if rw then ReadWrite else if force then ReadOnlyForce else ReadOnly) dev"
  by (simp add: open_fs_def)

lemma sbind_host_do:
  "sbind (smap_err g (host_do env c e)) f calls =
     (if he_succeeds env c then f () (calls @ [c]) else (Err (g e), calls @ [c]))"
  by (simp add: sbind_def smap_err_def host_do_def)

lemma sbind_host_tell: "sbind (host_tell c) f calls = f () (calls @ [c])"
  by (simp add: sbind_def)

text \<open>What led to a host being created.\<close>

lemma cmd_mount_new_host:
  assumes "cmd_mount fuel env source drive rw force [] = (r, calls)" and "HcNewHost vp x \<in> set calls"
  shows "\<exists>dev dev'. volume_device env source rw = Ok dev \<and> open_fs fuel rw force dev = (Ok x, dev') \<and>
    he_succeeds env HcInitWinfsp \<and> vp = ext4_host_params (\<not> rw) (volume_serial (x_sb x)) \<and>
    mount_fs env x source drive drive rw (HcInitWinfsp # (if rw \<and> force then [HcPrint MsgForceIgnored] else [])) = (r, calls)"
proof -
  define start where "start = HcInitWinfsp # (if rw \<and> force then [HcPrint MsgForceIgnored] else [])"
  have run: "cmd_mount fuel env source drive rw force [] =
     (if he_succeeds env HcInitWinfsp then
        sbind (lift_res (volume_device env source rw)) (\<lambda>dev.
        sbind (open_volume fuel dev rw force) (\<lambda>fs. mount_fs env fs source drive drive rw)) start
      else (Err (CmdFsp FspNotInstalled), [HcInitWinfsp]))"
    by (cases rw; cases force) (simp_all add: start_def cmd_mount_eq sbind_host_do sbind_host_tell del: sbind_sread)
  have none: "HcNewHost vp x \<notin> set start" by (simp add: start_def)
  have winfsp: "he_succeeds env HcInitWinfsp" using assms by (auto simp: run split: if_splits)
  obtain dev where dev: "volume_device env source rw = Ok dev"
    using assms winfsp none by (cases "volume_device env source rw") (auto simp: run)
  have opened: "sbind (open_volume fuel dev rw force) (\<lambda>fs. mount_fs env fs source drive drive rw) start = (r, calls)"
    using assms(1) winfsp by (simp add: run dev)
  obtain fs where fs: "fst (open_fs fuel rw force dev) = Ok fs"
    using opened assms(2) none by (cases "fst (open_fs fuel rw force dev)") (auto simp: open_volume_def)
  have mounted: "mount_fs env fs source drive drive rw start = (r, calls)"
    using opened by (simp add: open_volume_def fs)
  then have "x = fs \<and> vp = ext4_host_params (\<not> rw) (volume_serial (x_sb fs))"
    using assms(2) none privilege_calls_only[of vp x env drive]
    by (auto simp: mount_fs_apply Let_def split: if_splits)
  then show ?thesis
    using winfsp dev fs mounted by (auto simp: start_def fst_Ok_iff)
qed

section \<open>Properties\<close>

text \<open>
  C18. What the mount command asks of the host. The host only gets a volume that was opened in
  the mode the flags say: it is told that the volume is read-only exactly when the file system
  refuses to write, and the serial number of the volume. The calls follow one order up to the
  first that fails; the command succeeds exactly when it went through all of them, so the
  dispatcher is stopped and the volume unmounted once it has been started.
\<close>

theorem mount_command_protocol:
  assumes "cmd_mount fuel env source drive rw force [] = (r, calls)" and "HcNewHost vp x \<in> set calls"
  shows "(\<exists>dev dev'. volume_device env source rw = Ok dev \<and>
      open_inner fuel (if rw then ReadWrite else if force then ReadOnlyForce else ReadOnly) dev = (Ok x, dev')) \<and>
    vp_read_only_volume vp = x_read_only x \<and> x_read_only x = (\<not> rw) \<and>
    vp_volume_serial_number vp = volume_serial (x_sb x) \<and>
    prefix calls (mount_protocol env x source drive rw force) \<and>
    (r = Ok () \<longleftrightarrow> calls = mount_protocol env x source drive rw force) \<and>
    (r = Ok () \<or> (\<exists>e. r = Err e) \<and> \<not> he_succeeds env (last calls) \<and> ends_mount (last calls)) \<and>
    (HcStart \<in> set calls \<and> he_succeeds env HcStart \<longrightarrow> HcStop \<in> set calls \<and> HcUnmount \<in> set calls)"
proof -
  let ?start = "HcInitWinfsp # (if rw \<and> force then [HcPrint MsgForceIgnored] else [])"
  obtain dev dev' where dev: "volume_device env source rw = Ok dev" and o: "open_fs fuel rw force dev = (Ok x, dev')"
    and vp: "vp = ext4_host_params (\<not> rw) (volume_serial (x_sb x))"
    and run: "mount_fs env x source drive drive rw ?start = (r, calls)"
    using cmd_mount_new_host[OF assms] by blast
  define ps where "ps = privilege_calls env drive"
  have started: "HcStart \<notin> set ps"
    using attempted_subset[of env "[HcOpenToken, HcLookupPrivilege, HcAdjustPrivileges, HcAllAssigned, HcCloseToken]"]
    by (auto simp: ps_def privilege_calls_def simp del: attempted.simps)
  have ro: "x_read_only x = (\<not> rw)"
    using o by (auto simp: open_fs_def open_inner_def sbind_Ok_iff simp del: sbind_sread split: if_splits)
  have calls: "prefix calls (mount_protocol env x source drive rw force) \<and>
    (r = Ok () \<longleftrightarrow> calls = mount_protocol env x source drive rw force) \<and>
    (r = Ok () \<or> (\<exists>e. r = Err e) \<and> \<not> he_succeeds env (last calls) \<and> ends_mount (last calls)) \<and>
    (HcStart \<in> set calls \<and> he_succeeds env HcStart \<longrightarrow> HcStop \<in> set calls \<and> HcUnmount \<in> set calls)"
    using run started unfolding mount_fs_apply mount_protocol_def Let_def ps_def[symmetric]
    by (auto split: if_splits)
  show ?thesis using dev o[unfolded open_fs_mode] vp ro calls by (auto simp: ext4_host_params_def)
qed

text \<open>A raw volume that holds the sample file system, and a host where every call succeeds.\<close>

definition sample_env :: host_env where
  "sample_env = \<lparr>he_windows = True, he_file = (\<lambda>_. None), he_raw = (\<lambda>_. Ok sample_disk),
     he_path_components = (\<lambda>_. 1), he_succeeds = (\<lambda>_. True), he_net_success = True\<rparr>"

definition sample_source :: "byte list" where
  "sample_source = [0x5C, 0x5C, 0x2E, 0x5C, 0x43]"

lemma sample_mount:
  "cmd_mount 1 sample_env sample_source [0x5A] False False [] =
     (Ok (), mount_protocol sample_env (sample_fs ReadOnly) sample_source [0x5A] False False)"
proof -
  have "is_raw_source sample_source"
    by (simp add: is_raw_source_def is_prefix_def sample_source_def BACKSLASH_def)
  then have "volume_device sample_env sample_source False = Ok sample_disk"
    by (simp add: volume_device_def sample_env_def)
  then show ?thesis
    by (simp add: cmd_mount_eq sbind_host_do open_volume_def open_fs_def sample_open mount_fs_apply mount_protocol_def)
       (simp add: sample_env_def)
qed

theorem mount_command_protocol_witness:
  "\<exists>calls. cmd_mount 1 sample_env sample_source [0x5A] False False [] = (Ok (), calls) \<and>
     HcStop \<in> set calls \<and> prefix calls (mount_protocol sample_env (sample_fs ReadOnly) sample_source [0x5A] False False)"
  using mount_command_protocol[OF sample_mount,
      of "ext4_host_params True (volume_serial (x_sb (sample_fs ReadOnly)))" "sample_fs ReadOnly"] sample_mount
  by (simp add: mount_protocol_def sample_env_def)

text \<open>
  A volume mounted without write access stays as it is on the medium: whatever requests the
  host sends, the file system still holds the device that was opened, sector for sector, and
  an image file was opened so that the host itself refuses writes.
\<close>

theorem read_only_mount_never_writes:
  assumes "cmd_mount fuel env source drive False force [] = (r, calls)" and "HcNewHost vp x \<in> set calls"
    and "served x y"
  shows "volume_device env source False = Ok (x_dev y) \<and> y = x \<and>
    (\<not> is_raw_source source \<longrightarrow> (\<forall>i. write_fails (x_dev y) i))"
proof -
  obtain dev dev' where dev: "volume_device env source False = Ok dev"
    and o: "open_fs fuel False force dev = (Ok x, dev')"
    using cmd_mount_new_host[OF assms(1,2)] by blast
  have x: "x_read_only x" "x_dev x = dev"
    using o by (auto simp: open_fs_def open_inner_def open_journal_def sbind_Ok_iff simp del: sbind_sread split: if_splits)
  have "y = x" using served_read_only[OF assms(3) x(1)] .
  moreover have "write_fails dev i" if "\<not> is_raw_source source" for i
    using dev that by (auto simp: volume_device_def image_file_open_def image_open_def split: if_splits)
  ultimately show ?thesis using dev x by simp
qed

theorem read_only_mount_never_writes_witness:
  "volume_device sample_env sample_source False = Ok (x_dev (sample_fs ReadOnly))"
  using read_only_mount_never_writes[OF sample_mount,
      of "ext4_host_params True (volume_serial (x_sb (sample_fs ReadOnly)))" "sample_fs ReadOnly" "sample_fs ReadOnly"]
  by (simp add: mount_protocol_def)

end
