(* ===== verification/Spec2Isabelle.thy ===== *)
theory Spec2Isabelle
  imports Read_Safety Sector_Cache Mount_Sound Inode_Alloc Group_Counters Free_Counts Truncate_Sound
    Append_Request Journal_Crash Raw_Disk Mount_Command
begin

text \<open>
  A verification library for pengwin, a driver that serves ext4 volumes to Windows.

  \<^bold>\<open>The program.\<close> The crate \<open>ext4-core\<close> reads and writes an ext4 file system over a block
  device; the crate \<open>pengwin\<close> opens a volume, keeps it with its locks in \<open>Ext4Fs\<close>, and answers
  the file-system callbacks of the Windows host. A callback that changes the volume takes the
  group-descriptor lock and the journal lock, builds a transaction of pinned blocks with the
  operations of \<open>ext4-core\<close>, and commits it through the journal writer.

  \<^bold>\<open>Theories and the code they model.\<close> (paths under \<open>src/\<close>)

    \<^item> \<open>Prelude\<close>, \<open>Bytes\<close>: result values, the state-passing combinators, machine arithmetic,
      byte buffers and the little- and big-endian integers in them.
    \<^item> \<open>Block_Device\<close>: \<open>ext4-core/src/block_device/mod.rs\<close> and \<open>image_file.rs\<close>; the state is
      the record \<open>disk\<close>: sectors, which of them the host fails to read or write, and what is
      guaranteed to be on the medium since the last flush.
    \<^item> \<open>Raw_Disk\<close>: \<open>block_device/raw_disk.rs\<close> over the host's calls, and its refinement to \<open>disk\<close>.
    \<^item> \<open>Utf8\<close>: the part of the standard library's UTF-8 decoding that names go through.
    \<^item> \<open>Superblock\<close>, \<open>Group_Desc\<close>: \<open>superblock.rs\<close>, \<open>group_desc.rs\<close>.
    \<^item> \<open>Transaction\<close>: the transaction of \<open>journal/writer.rs\<close>, as an association list of pinned
      blocks and a list of revoked blocks, with the interface it has to its clients.
    \<^item> \<open>Inode\<close>, \<open>Inode_Write\<close>: \<open>inode.rs\<close>, \<open>inode_write.rs\<close>, \<open>superblock_write.rs\<close>.
    \<^item> \<open>Extent\<close>, \<open>File_Reader\<close>, \<open>Dir\<close>: \<open>extent.rs\<close>, \<open>file.rs\<close>, \<open>dir.rs\<close>, the read side.
    \<^item> \<open>Fs_State\<close>: the state the allocator and the writers change together (device, group
      descriptors, transaction), and its invariant.
    \<^item> \<open>Bitmap\<close>, \<open>Alloc\<close>: \<open>alloc/\<close> (bitmaps, block and inode allocation).
    \<^item> \<open>Extent_Write\<close>, \<open>File_Write\<close>, \<open>Dir_Write\<close>: \<open>extent_write.rs\<close>, \<open>file_write.rs\<close>,
      \<open>dir_write.rs\<close>.
    \<^item> \<open>Journal\<close>, \<open>Journal_Writer\<close>, \<open>Journal_Replay\<close>, \<open>Mount\<close>: \<open>journal/\<close>.
    \<^item> \<open>Sector_Cache\<close>: \<open>pengwin/src/cache.rs\<close>, sequentially and as a step relation of a reader
      and a writer.
    \<^item> \<open>Fs_Context\<close>, \<open>Handlers\<close>, \<open>Dispatch\<close>: \<open>pengwin/src/fs_context.rs\<close>, \<open>fsp_impl/\<close> and
      \<open>fsp_context_impl.rs\<close>; \<open>Dispatch\<close> has the requests of the host as a datatype and the
      reachable states of a mounted volume.
    \<^item> \<open>Mount_Command\<close>: \<open>main.rs\<close>, \<open>cli.rs\<close> and \<open>fsp.rs\<close>: the commands, as the list of calls they
      make to the host.
    \<^item> \<open>Read_Safety\<close>, \<open>Sample_Image\<close>: absence of panics on the read side, and a small image on
      which the hypotheses of the mount-level properties are shown to hold.
    \<^item> \<open>Alloc_Sound\<close>, \<open>Group_Counters\<close>: a block bitmap read as its set of bits; allocating and
      freeing over it, and the counters of the descriptor table. \<open>Free_Counts\<close>: the counters of
      free blocks stay exact through any sequence of both.
    \<^item> \<open>Inode_Sound\<close>, \<open>Inode_Alloc\<close>, \<open>Extent_Append\<close>: an inode as its decoded fields, read through
      the transaction; what \<open>update_inode\<close>, \<open>init_inode\<close> and \<open>extent_append\<close> change of it, the last
      as a change of the map from logical to physical blocks.
    \<^item> \<open>Truncate_Sound\<close>: \<open>extent_truncate\<close> as a cut of the same map, and the blocks it gives back.
    \<^item> \<open>Lookup_Sound\<close>: ordered extent trees of any depth; descent, collection, binary search and
      iterator agree on them, and so do the lookup and the listing of a directory.
    \<^item> \<open>Dir_Blocks\<close>: a directory block as the list of its live entries; insertion and removal.
    \<^item> \<open>Write_Sound\<close>: \<open>write_file_data\<close> over mapped blocks, byte for byte; \<open>Write_Request\<close>: the same
      from the write callback through the commit to the read callback; \<open>Create_Request\<close>: a create
      request, through allocation, the new inode, the directory entry and the commit, to the
      requests after it; \<open>Append_Request\<close>: a write request that makes a file longer, for a file with
      its extents in the inode and room for one more, blocks that the allocator finds in one run
      of the first group it tries, and a transaction that fits the log: the new blocks are zeroed,
      appended and marked, and what is read afterwards, with and without a gap before the write.
      \<open>Touched\<close>: what the transaction of a request has changed, on the device
      and by pinning, as a pair of sets of blocks, and what its commit then leaves.
    \<^item> \<open>Journal_Recovery\<close>, \<open>Journal_Commit\<close>: the log as an array of blocks; a transaction that is
      logged is the one that is replayed, the order of the writes of a commit, and its effect.
      \<open>Journal_Crash\<close>: a commit that the host cuts off at any sector, and what the next replay
      leaves: the old volume or the new one if the journal points to the log, a torn one if it
      is marked clean, as it is when the program commits.
    \<^item> \<open>Mount_Sound\<close>, \<open>Path_Sound\<close>: the state word over a mount and unmount; paths and the read
      callback. In all of these the inputs on which the code does not keep its promise are
      theorems of their own.

  \<^bold>\<open>Conventions.\<close> A fallible function returns \<open>res\<close>: \<open>Ok\<close>, \<open>Err\<close> with the error enum of the
  code, \<open>Panic\<close> for an index out of range, a failed assertion or a division by zero, and
  \<open>Diverge\<close> when the fuel of a recursion is used up. A function with \<open>&mut\<close> parameters is a
  state transformer: a change made before an error stays. Integers are natural numbers inside
  their width and wrap as in the release profile; \<open>usize\<close> has 64 bits. The clock is the argument
  \<open>now\<close>. Logging is left out.

  \<^bold>\<open>Fuel.\<close> The recursions over extent trees get \<open>tree_fuel\<close>, the number of sectors of the device
  and six: the code accepts depths up to five, so a walk of a tree in which depths decrease
  needs six turns (\<open>extent_walks_return\<close>); a walk that needs more turns than there are sectors
  has visited a node twice, and then repeats (\<open>self_referring_node_diverges\<close>). The loop of the
  journal replay has its fuel as an argument, up to the operations that open a volume.

  \<^bold>\<open>Parameters.\<close> The LRU map of the sector cache is code of another package: the cache takes its
  operations as arguments, under the laws of the locale \<open>lru_map\<close>, which a bounded recency list
  satisfies. The directory buffer of a handle is kept by the host: what its calls answer is the
  record \<open>dir_buffer\<close>, an argument of \<open>dispatch\<close> that may be another one in every request.
  The calls of the Windows API that a raw disk makes are the record \<open>disk_api\<close>; what the mount
  command finds in its surroundings (files, raw volumes, which host calls succeed) is the record
  \<open>host_env\<close>.

  \<^bold>\<open>Not modelled.\<close> The parsing of the command line (derived by another package from the types in
  \<open>cli.rs\<close>), \<open>scratch/\<close>, the crate roots, and the tests: they contain no logic of their own. Running out of memory:
  in particular \<open>Journal::load\<close> reserves room for as many block numbers as the size of the
  journal's inode asks for, and is aborted where that is more than there is.
\<close>

text \<open>A request that leaves the sample image as it is, as a step to evaluate.\<close>

lemma sample_step: "\<not> is_flush req \<and> dispatch db now req (sample_fs mode) = (Ok rsp, sample_fs mode) \<Longrightarrow>
    served (sample_fs mode) (sample_fs mode) \<and> served_unflushed (sample_fs mode) (sample_fs mode)"
  using serve[of db now req "sample_fs mode" "Ok rsp"] quiet[of db now req "sample_fs mode" "Ok rsp"] by blast

lemma sample_served: "served (sample_fs mode) (sample_fs mode)"
  using sample_step[of "ReqClose (HFile 12 (sample_ino 0x81A4 5 1 16 1))"] by simp

text \<open>
  C7. A volume opened read-only: opening does not write to the device, every request that
  would write is answered with the write-protected status, and no request that returns
  changes anything at all.
\<close>

theorem read_only_volume:
  assumes "open_inner fuel mode d = (Ok x, d')" and "mode \<noteq> ReadWrite" and "served x y"
  shows "d' = d \<and> x_dev y = d \<and> y = x \<and>
    (\<forall>db now req. is_write_request req \<longrightarrow> dispatch db now req y = (Err StMediaWriteProtected, y))"
proof -
  have d: "d' = d" and ro: "x_read_only x" and dev: "x_dev x = d'"
    using assms(1,2) by (cases mode; auto simp: open_inner_def open_journal_def sbind_Ok_iff simp del: sbind_sread)+
  have "y = x" using served_read_only[OF assms(3) ro] .
  then show ?thesis using d ro dev read_only_refuses[OF ro] by simp
qed

theorem read_only_volume_witness:
  "dispatch \<lparr>db_acquire = None, db_set_name = (\<lambda>_. True), db_write = (\<lambda>_. True)\<rparr> 0 (ReqRename [0x2F, 0x61] [0x2F, 0x62] True) (sample_fs ReadOnly) =
     (Err StMediaWriteProtected, sample_fs ReadOnly)"
  using read_only_volume[OF sample_open _ sample_served, of ReadOnly]
  by (simp del: dispatch.simps)

text \<open>
  C6. Only a flush request makes writes durable. On a volume mounted read-write over a device
  whose \<open>sync_data\<close> works, after any requests, a flush request succeeds, writes nothing, and
  guarantees everything the device holds at that moment to be on the medium; and whatever
  requests follow, successful or not, up to the next flush request, nothing they wrote is
  guaranteed to be there: a loss of power may bring the volume back to the moment of the flush,
  although writes, creations and renames have been answered and their transactions committed.
\<close>

theorem durable_only_by_flush:
  assumes "open_inner fuel ReadWrite d = (Ok x, d')" and "wf_disk d" and "\<not> flush_fails d" and "served x y"
  shows "\<exists>rsp y1. dispatch db now (ReqFlush h) y = (Ok rsp, y1) \<and>
    sectors (x_dev y1) = sectors (x_dev y) \<and> stable (x_dev y1) = sectors (x_dev y) \<and>
    (\<forall>z. served_unflushed y1 z \<longrightarrow> stable (x_dev z) = sectors (x_dev y))"
proof -
  note opened = open_inner_inv[OF assms(1,2)]
  have y: "mounted (x_sb x) d (length (x_gdt x)) y" "same_locks x y" using served_mounted[OF assms(4) opened(1)] by simp_all
  then have "\<not> x_journal_held y" "\<not> x_read_only y" "\<not> flush_fails (x_dev y)"
    using opened(2,4) assms(3) by (simp_all add: same_locks_def mounted_def same_shape_def)
  then obtain info y1 where f: "flush_cb h y = (Ok info, y1)" "y1 = y\<lparr>x_dev := (x_dev y)\<lparr>stable := sectors (x_dev y)\<rparr>\<rparr>"
    by (simp add: flush_cb_run)
  have m: "mounted (x_sb x) d (length (x_gdt x)) y1" using flush_mounted[OF y(1) f(1)] by simp
  have "stable (x_dev z) = stable (x_dev y1)" if "served_unflushed y1 z" for z
    using quiet_inv[OF that, of "x_sb x" "x_dev y1" "length (x_gdt x)"] m by (simp add: mounted_def ctx_inv_def unflushed_def)
  then show ?thesis using f by (intro exI[of _ "RspFlush info"] exI[of _ y1]) (simp add: smap_def sbind_def)
qed

theorem durable_only_by_flush_witness:
  "\<exists>rsp y. dispatch \<lparr>db_acquire = None, db_set_name = (\<lambda>_. True), db_write = (\<lambda>_. True)\<rparr> 9 (ReqFlush None) (sample_fs ReadWrite) = (Ok rsp, y) \<and>
     (\<forall>r z. dispatch \<lparr>db_acquire = None, db_set_name = (\<lambda>_. True), db_write = (\<lambda>_. True)\<rparr> 9
        (ReqWrite (HFile 12 (sample_ino 0x81A4 5 1 16 1)) [7, 8] 1024 False False) y = (r, z) \<and> r \<noteq> Diverge \<longrightarrow>
        stable (x_dev z) = sectors sample_disk)"
proof -
  have "\<not> flush_fails sample_disk" "x_dev (sample_fs ReadWrite) = sample_disk" by (simp_all add: sample_disk_def sample_fs_def)
  with durable_only_by_flush[OF sample_open wf_sample _ sample_served, of "\<lparr>db_acquire = None, db_set_name = (\<lambda>_. True), db_write = (\<lambda>_. True)\<rparr>" 9 None]
  obtain rsp y where y: "dispatch \<lparr>db_acquire = None, db_set_name = (\<lambda>_. True), db_write = (\<lambda>_. True)\<rparr> 9 (ReqFlush None) (sample_fs ReadWrite) = (Ok rsp, y)"
    and st: "\<And>z. served_unflushed y z \<Longrightarrow> stable (x_dev z) = sectors sample_disk" by auto
  show ?thesis
    by (intro exI conjI, rule y, intro allI impI, elim conjE, rule st, rule r_into_rtranclp, rule quiet) (assumption+, simp)
qed

text \<open>
  C32. Deleting a directory never succeeds: the group-descriptor lock is held when the parent's
  links are updated, and reading the inode there takes it again. (The lock is not reentrant.)
\<close>

theorem directory_delete_never_succeeds:
  "fst (do_delete now parent nm (HDirectory num ino) x) \<noteq> Ok ()"
proof
  assume "fst (do_delete now parent nm (HDirectory num ino) x) = Ok ()"
  then obtain y sb parent_num txn txn' z u where
    txn: "on_fs (delete_txn now sb parent_num nm num u) txn z = (Ok ((), txn'), y)" and held: "x_gdt_held z"
    and links: "fst (delete_parent_links now sb parent_num txn' y) \<noteq> Diverge"
    by (auto simp: do_delete_def sbind_Ok_iff with_journal_Ok_iff with_gdt_Ok_iff fst_Ok_iff simp del: sbind_sread)
  have "x_gdt_held y" using txn held by (auto simp: on_fs_def split: prod.splits)
  then show False
    using links by (simp add: delete_parent_links_def sbind_def smap_err_def ctx_inode_held)
qed


text \<open>
  C15. Mounting and reading never panic, whatever bytes the image holds and whichever of its
  sectors fail to read: parsing the superblock, loading the group descriptors, reading any
  inode number, mapping any block of it, listing and searching it as a directory, reading it
  as a symlink or as a file at any length, and loading the journal end with a value, with
  an error value or (on cyclic trees) not at all, never with an index out of range or a
  division by zero.
\<close>

theorem reading_never_panics:
  assumes "wf_disk d"
  shows "parse d \<noteq> Panic \<and>
    (\<forall>sb. parse d = Ok sb \<longrightarrow> gdt_load d sb \<noteq> Panic \<and>
      (\<forall>gdt. gdt_load d sb = Ok gdt \<longrightarrow> journal_load d sb gdt \<noteq> Panic \<and>
        (\<forall>n. read_inode d sb gdt n \<noteq> Panic \<and>
          (\<forall>ino. read_inode d sb gdt n = Ok ino \<longrightarrow>
             (\<forall>lblock. lookup_block d sb ino lblock \<noteq> Panic) \<and> read_dir d sb gdt ino \<noteq> Panic \<and>
             (\<forall>nm. dir_lookup d sb gdt ino nm \<noteq> Panic) \<and> read_symlink ino \<noteq> Panic \<and>
             file_reader_new d sb ino \<noteq> Panic \<and>
             (\<forall>fr len. file_reader_new d sb ino = Ok fr \<longrightarrow> fst (file_read d sb len fr) \<noteq> Panic)))))"
proof (intro conjI allI impI)
  show "parse d \<noteq> Panic" using no_panic_parse by (simp add: no_panic_def)
  fix sb assume "parse d = Ok sb"
  then have sb: "sb_ok sb" by (rule parse_sb_ok)
  show "gdt_load d sb \<noteq> Panic" using no_panic_gdt_load by (simp add: no_panic_def)
  fix gdt assume "gdt_load d sb = Ok gdt"
  show "journal_load d sb gdt \<noteq> Panic" using no_panic_journal_load[OF sb] by (simp add: no_panic_def)
  fix n show "read_inode d sb gdt n \<noteq> Panic" using no_panic_read_inode[OF sb] by (simp add: no_panic_def)
  fix ino assume "read_inode d sb gdt n = Ok ino"
  note ino = read_inode_ok[OF this]
  note reads = no_panic_lookup_block no_panic_read_dir[OF sb] no_panic_dir_lookup[OF sb] no_panic_read_symlink[OF ino]
    no_panic_file_reader_new no_panic_file_read[OF sb assms]
  show "lookup_block d sb ino lblock \<noteq> Panic" for lblock using reads(1) by (simp add: no_panic_def)
  show "read_dir d sb gdt ino \<noteq> Panic" using reads(2) by (simp add: no_panic_def)
  show "dir_lookup d sb gdt ino nm \<noteq> Panic" for nm using reads(3) by (simp add: no_panic_def)
  show "read_symlink ino \<noteq> Panic" using reads(4) by (simp add: no_panic_def)
  show "file_reader_new d sb ino \<noteq> Panic" using reads(5) by (simp add: no_panic_def)
  show "fst (file_read d sb len fr) \<noteq> Panic" for fr len using reads(6) by (simp add: no_panic_def)
qed

theorem reading_never_panics_witness:
  "journal_load sample_disk sample_sb [sample_gd] \<noteq> Panic \<and>
   (\<forall>lblock. lookup_block sample_disk sample_sb (sample_ino 0x81A4 5 1 16 1) lblock \<noteq> Panic)"
  using reading_never_panics[OF wf_sample] sample_parse sample_gdt_load sample_read_inode by blast

end
